(* ===== verification/CW_Prelude.thy ===== *)
theory CW_Prelude
  imports Main "HOL-Library.AList"
begin

text \<open>
  The shared vocabulary of the development.  A Python \<open>dict\<close> keeps its keys in insertion
  order, and several results of ChainWeaver (collision lists, logged keys, merged contexts)
  depend on that order, so a dictionary is an association list read by \<open>map_of\<close> and
  written by \<open>AList.update\<close>: an existing key keeps its position, a new key goes to the end.
  A raised exception is the left injection of a sum; a step that also changes the executor's
  state returns the state paired with such a sum, so that a raise never loses the effects
  that came before it.
\<close>

named_theorems dict_simps \<open>reading and writing insertion-ordered dictionaries\<close>
named_theorems run_simps \<open>sequencing of fallible and stateful operations\<close>

section \<open>Insertion-ordered dictionaries\<close>

type_synonym 'v dict = "(string \<times> 'v) list"

abbreviation dict_get :: "('k \<times> 'v) list \<Rightarrow> 'k \<Rightarrow> 'v option" where
  "dict_get d k \<equiv> map_of d k"

abbreviation dict_has :: "('k \<times> 'v) list \<Rightarrow> 'k \<Rightarrow> bool" where
  "dict_has d k \<equiv> map_of d k \<noteq> None"

abbreviation dict_keys :: "('k \<times> 'v) list \<Rightarrow> 'k list" where
  "dict_keys d \<equiv> map fst d"

abbreviation dict_set :: "('k \<times> 'v) list \<Rightarrow> 'k \<Rightarrow> 'v \<Rightarrow> ('k \<times> 'v) list" where
  "dict_set d k v \<equiv> AList.update k v d"

text \<open>\<open>d.update(e)\<close>, and the display \<open>{**d, **e}\<close>.\<close>

primrec dict_update :: "('k \<times> 'v) list \<Rightarrow> ('k \<times> 'v) list \<Rightarrow> ('k \<times> 'v) list" where
  "dict_update d [] = d"
| "dict_update d (kv # e) = dict_update (dict_set d (fst kv) (snd kv)) e"

text \<open>\<open>d.pop(k, None)\<close> and \<open>del d[k]\<close>.\<close>

definition dict_del :: "('k \<times> 'v) list \<Rightarrow> 'k \<Rightarrow> ('k \<times> 'v) list" where
  "dict_del d k = filter (\<lambda>kv. fst kv \<noteq> k) d"

abbreviation dict_ok :: "('k \<times> 'v) list \<Rightarrow> bool" where
  "dict_ok d \<equiv> distinct (map fst d)"

lemma dict_get_set [dict_simps]: "dict_get (dict_set d k v) = (dict_get d)(k \<mapsto> v)"
  by (rule AList.update_conv')

lemma dict_ok_set [dict_simps]: "dict_ok d \<Longrightarrow> dict_ok (dict_set d k v)"
  by (rule AList.distinct_update)

lemma dict_keys_set [dict_simps]:
  "set (dict_keys (dict_set d k v)) = insert k (set (dict_keys d))"
  by (induction d) auto

lemma dict_get_update_right:
  "dict_get (dict_update d e) k =
     (if k \<in> set (dict_keys e) then dict_get (rev e) k else dict_get d k)"
proof (induction e arbitrary: d)
  case Nil
  then show ?case by simp
next
  case (Cons kv e)
  show ?case
  proof (cases "k \<in> set (dict_keys e)")
    case True
    then have "dict_get (rev e) k \<noteq> None"
      by (simp add: map_of_eq_None_iff)
    with True Cons.IH show ?thesis
      by (auto simp: map_add_def split: option.splits)
  next
    case False
    then have "dict_get (rev e) k = None"
      by (simp add: map_of_eq_None_iff)
    with False Cons.IH show ?thesis
      by (cases "fst kv = k") (auto simp: dict_simps map_add_def)
  qed
qed

lemma dict_get_rev [dict_simps]: "dict_ok e \<Longrightarrow> dict_get (rev e) k = dict_get e k"
proof (induction e)
  case (Cons kv e)
  have "dict_get e (fst kv) = None"
    using Cons.prems by (simp add: map_of_eq_None_iff)
  with Cons show ?case
    by (cases "fst kv = k") (auto simp: map_add_def split: option.splits)
qed simp

lemma dict_get_update [dict_simps]:
  assumes "dict_ok e"
  shows "dict_get (dict_update d e) = dict_get d ++ dict_get e"
proof (rule ext)
  fix k
  have "dict_get e k = None" if "k \<notin> set (dict_keys e)"
    using that by (simp add: map_of_eq_None_iff)
  moreover have "dict_get e k \<noteq> None" if "k \<in> set (dict_keys e)"
    using that by (simp add: map_of_eq_None_iff)
  ultimately show "dict_get (dict_update d e) k = (dict_get d ++ dict_get e) k"
    using assms by (auto simp: dict_get_update_right dict_get_rev map_add_def split: option.splits)
qed

lemma dict_ok_update [dict_simps]: "dict_ok d \<Longrightarrow> dict_ok (dict_update d e)"
  by (induction e arbitrary: d) (auto simp: AList.distinct_update)

lemma dict_keys_update [dict_simps]:
  "set (dict_keys (dict_update d e)) = set (dict_keys d) \<union> set (dict_keys e)"
  by (induction e arbitrary: d) (auto simp: AList.dom_update)

lemma dict_set_fresh: "k \<notin> set (dict_keys d) \<Longrightarrow> dict_set d k v = d @ [(k, v)]"
  by (induction d) auto

lemma dict_update_fresh:
  "dict_ok e \<Longrightarrow> set (dict_keys d) \<inter> set (dict_keys e) = {} \<Longrightarrow> dict_update d e = d @ e"
proof (induction e arbitrary: d)
  case (Cons kv e)
  then have "dict_set d (fst kv) (snd kv) = d @ [kv]"
    by (simp add: dict_set_fresh)
  with Cons show ?case
    by (cases kv) auto
qed simp

lemma dict_update_append: "dict_update d (e @ f) = dict_update (dict_update d e) f"
  by (induction e arbitrary: d) auto

lemma dict_get_del [dict_simps]:
  "dict_get (dict_del d k) = (dict_get d)(k := None)"
  by (induction d) (auto simp: dict_del_def fun_eq_iff)

lemma dict_ok_del [dict_simps]: "dict_ok d \<Longrightarrow> dict_ok (dict_del d k)"
  by (simp add: dict_del_def distinct_map_filter)

lemma dict_has_iff: "dict_has d k \<longleftrightarrow> k \<in> set (dict_keys d)"
  by (simp add: map_of_eq_None_iff)

section \<open>Sequencing\<close>

text \<open>A fallible computation followed by another one; the first error wins.\<close>

definition bind_err :: "'e + 'a \<Rightarrow> ('a \<Rightarrow> 'e + 'b) \<Rightarrow> 'e + 'b" where
  "bind_err x f = (case x of Inl e \<Rightarrow> Inl e | Inr a \<Rightarrow> f a)"

text \<open>The same with a state: the state of the failing computation is kept.\<close>

definition bind_st :: "'s \<times> ('e + 'a) \<Rightarrow> ('s \<Rightarrow> 'a \<Rightarrow> 's \<times> ('e + 'b)) \<Rightarrow> 's \<times> ('e + 'b)" where
  "bind_st x f = (case snd x of Inl e \<Rightarrow> (fst x, Inl e) | Inr a \<Rightarrow> f (fst x) a)"

lemma bind_err_simps [simp, run_simps]:
  "bind_err (Inl e) f = Inl e"
  "bind_err (Inr a) f = f a"
  by (simp_all add: bind_err_def)

lemma bind_st_simps [simp, run_simps]:
  "bind_st (s, Inl e) f = (s, Inl e)"
  "bind_st (s, Inr a) f = f s a"
  by (simp_all add: bind_st_def)

lemma bind_err_cong [fundef_cong]:
  "x = y \<Longrightarrow> (\<And>a. y = Inr a \<Longrightarrow> f a = g a) \<Longrightarrow> bind_err x f = bind_err y g"
  by (cases y) auto

lemma bind_st_cong [fundef_cong]:
  "x = y \<Longrightarrow> (\<And>s a. y = (s, Inr a) \<Longrightarrow> f s a = g s a) \<Longrightarrow> bind_st x f = bind_st y g"
  by (cases y; cases "snd y") auto

lemma bind_err_Inr_iff:
  "bind_err x f = Inr b \<longleftrightarrow> (\<exists>a. x = Inr a \<and> f a = Inr b)"
  by (cases x) auto

lemma bind_st_Inr_iff:
  "bind_st x f = (s', Inr b) \<longleftrightarrow> (\<exists>s a. x = (s, Inr a) \<and> f s a = (s', Inr b))"
  by (cases x; cases "snd x") auto

lemma bind_err_InrE:
  assumes "bind_err x f = Inr b"
  obtains a where "x = Inr a" "f a = Inr b"
  using assms by (auto simp: bind_err_Inr_iff)

lemma bind_st_InrE [elim!]:
  assumes "bind_st x f = (s', Inr b)"
  obtains s a where "x = (s, Inr a)" "f s a = (s', Inr b)"
  using assms by (auto simp: bind_st_Inr_iff)

text \<open>Every element of a list through a fallible function, in order.\<close>

fun map_err :: "('a \<Rightarrow> 'e + 'b) \<Rightarrow> 'a list \<Rightarrow> 'e + 'b list" where
  "map_err f [] = Inr []"
| "map_err f (x # xs) = bind_err (f x) (\<lambda>y. bind_err (map_err f xs) (\<lambda>ys. Inr (y # ys)))"

lemma map_err_Inr: "map_err f xs = Inr ys \<Longrightarrow> list_all2 (\<lambda>x y. f x = Inr y) xs ys"
  by (induction xs arbitrary: ys) (auto simp: bind_err_Inr_iff)

text \<open>The first failing check of a list.\<close>

fun first_err :: "('a \<Rightarrow> 'e option) \<Rightarrow> 'a list \<Rightarrow> 'e option" where
  "first_err f [] = None"
| "first_err f (x # xs) = (case f x of Some e \<Rightarrow> Some e | None \<Rightarrow> first_err f xs)"

lemma first_err_None [simp]: "first_err f xs = None \<longleftrightarrow> (\<forall>x \<in> set xs. f x = None)"
  by (induction xs) (auto split: option.splits)

lemma first_err_Some: "first_err f xs = Some e \<Longrightarrow> \<exists>x \<in> set xs. f x = Some e"
  by (induction xs) (auto split: option.splits)

section \<open>Lists\<close>

text \<open>\<open>dict.fromkeys(xs)\<close> read as a list: duplicates removed, the first occurrence kept.\<close>

fun dedup_first :: "'a list \<Rightarrow> 'a list" where
  "dedup_first [] = []"
| "dedup_first (x # xs) = x # filter (\<lambda>y. y \<noteq> x) (dedup_first xs)"

lemma set_dedup_first [simp]: "set (dedup_first xs) = set xs"
  by (induction xs) auto

lemma distinct_dedup_first [simp]: "distinct (dedup_first xs)"
  by (induction xs) auto

text \<open>\<open>max(xs, key=r)\<close> of a non-empty list: the first element of greatest rank.\<close>

fun max_by :: "('a \<Rightarrow> nat) \<Rightarrow> 'a \<Rightarrow> 'a list \<Rightarrow> 'a" where
  "max_by r a [] = a"
| "max_by r a (x # xs) = max_by r (if r x > r a then x else a) xs"

lemma max_by_mem: "max_by r a xs \<in> insert a (set xs)"
  by (induction xs arbitrary: a) (auto split: if_splits)

lemma max_by_ge: "x \<in> insert a (set xs) \<Longrightarrow> r x \<le> r (max_by r a xs)"
proof (induction xs arbitrary: a x)
  case (Cons y ys)
  let ?b = "if r y > r a then y else a"
  have b: "r ?b \<le> r (max_by r ?b ys)"
    by (rule Cons.IH) simp
  have "r a \<le> r ?b" and "r y \<le> r ?b"
    by auto
  moreover have "r x \<le> r (max_by r ?b ys)" if "x \<in> set ys"
    using that by (auto intro: Cons.IH)
  ultimately show ?case
    using b Cons.prems by (auto intro: order_trans)
qed simp

end
