(* ===== verification/CW_Errors.thy ===== *)
theory CW_Errors
  imports CW_Prelude
begin

text \<open>
  The exceptions of \<open>chainweaver/exceptions.py\<close> that the modelled code raises, as one
  datatype whose constructors carry the context attributes of the classes, and the stable
  diagnostic codes.  The message text of an exception is a function of these attributes and
  is not modelled, except where the code stores the text of one exception inside another one
  (\<open>FlowExecutionError(..., str(exc))\<close>): \<open>StrOf e\<close> is \<open>str(e)\<close>, \<open>Msg m\<close> a
  message built in place.
\<close>

datatype (plugins only: code size) exn =
    ToolNotFoundError string
  | FlowNotFoundError string "string option"
  | FlowAlreadyExistsError string
  | SchemaValidationError string int string
  | InputMappingError string int string
  | OutputMappingError string int string "string list"
  | FlowExecutionError string int detail
  | ToolDefinitionError string
  | ToolTimeoutError string nat
  | ToolOutputSizeError string nat nat
  | DAGDefinitionError string string
  | FlowStatusError string string
  | FlowCancelledError string int bool bool
  | ContextKeyCollisionError string int string "string list"
  | AsyncLaneUnsupportedError string "string list"
  | FlowCompositionError string string
  | InvalidFlowVersionError string string
  | FlowSerializationError string
  | SchemaRefPolicyError string string
  | CheckpointDriftError string string string
  | CheckpointerNotConfiguredError
  | CheckpointNotFoundError string
  | CheckpointVersionError string string string
  | ApprovalDeniedError string int
  | SafetyCeilingError string int string string
  | GuardrailViolationError string int string
  | DecisionCallbackError string int
  | DecisionTimeoutError string int nat
  | DecisionBudgetExceededError string nat
  | PredicateSyntaxError string
  | AgentTraceImportError string "string option" "nat option"
  | OfflineLLMError string
  | PromptBudgetExceededError nat nat
  | ContribError string string
  | MCPMetadataError string string
  | MCPSchemaDriftError string string string
  | MCPToolInvocationError string string
  | ValidationError string \<comment> \<open>\<open>pydantic.ValidationError\<close>\<close>
  | ValueError string
  | PyTypeError string
  | PyAssertionError
  | PyRuntimeError string
  | PyException string string \<comment> \<open>class name and message of a foreign exception\<close>
and detail = Msg string | StrOf exn

text \<open>\<open>type(exc).__name__\<close>, the \<open>error_type\<close> of a step record.\<close>

fun exn_type :: "exn \<Rightarrow> string" where
  "exn_type (ToolNotFoundError _) = ''ToolNotFoundError''"
| "exn_type (FlowNotFoundError _ _) = ''FlowNotFoundError''"
| "exn_type (FlowAlreadyExistsError _) = ''FlowAlreadyExistsError''"
| "exn_type (SchemaValidationError _ _ _) = ''SchemaValidationError''"
| "exn_type (InputMappingError _ _ _) = ''InputMappingError''"
| "exn_type (OutputMappingError _ _ _ _) = ''OutputMappingError''"
| "exn_type (FlowExecutionError _ _ _) = ''FlowExecutionError''"
| "exn_type (ToolDefinitionError _) = ''ToolDefinitionError''"
| "exn_type (ToolTimeoutError _ _) = ''ToolTimeoutError''"
| "exn_type (ToolOutputSizeError _ _ _) = ''ToolOutputSizeError''"
| "exn_type (DAGDefinitionError _ _) = ''DAGDefinitionError''"
| "exn_type (FlowStatusError _ _) = ''FlowStatusError''"
| "exn_type (FlowCancelledError _ _ _ _) = ''FlowCancelledError''"
| "exn_type (ContextKeyCollisionError _ _ _ _) = ''ContextKeyCollisionError''"
| "exn_type (AsyncLaneUnsupportedError _ _) = ''AsyncLaneUnsupportedError''"
| "exn_type (FlowCompositionError _ _) = ''FlowCompositionError''"
| "exn_type (InvalidFlowVersionError _ _) = ''InvalidFlowVersionError''"
| "exn_type (FlowSerializationError _) = ''FlowSerializationError''"
| "exn_type (SchemaRefPolicyError _ _) = ''SchemaRefPolicyError''"
| "exn_type (CheckpointDriftError _ _ _) = ''CheckpointDriftError''"
| "exn_type CheckpointerNotConfiguredError = ''CheckpointerNotConfiguredError''"
| "exn_type (CheckpointNotFoundError _) = ''CheckpointNotFoundError''"
| "exn_type (CheckpointVersionError _ _ _) = ''CheckpointVersionError''"
| "exn_type (ApprovalDeniedError _ _) = ''ApprovalDeniedError''"
| "exn_type (SafetyCeilingError _ _ _ _) = ''SafetyCeilingError''"
| "exn_type (GuardrailViolationError _ _ _) = ''GuardrailViolationError''"
| "exn_type (DecisionCallbackError _ _) = ''DecisionCallbackError''"
| "exn_type (DecisionTimeoutError _ _ _) = ''DecisionTimeoutError''"
| "exn_type (DecisionBudgetExceededError _ _) = ''DecisionBudgetExceededError''"
| "exn_type (PredicateSyntaxError _) = ''PredicateSyntaxError''"
| "exn_type (AgentTraceImportError _ _ _) = ''AgentTraceImportError''"
| "exn_type (OfflineLLMError _) = ''OfflineLLMError''"
| "exn_type (PromptBudgetExceededError _ _) = ''PromptBudgetExceededError''"
| "exn_type (ContribError _ _) = ''ContribError''"
| "exn_type (MCPMetadataError _ _) = ''MCPMetadataError''"
| "exn_type (MCPSchemaDriftError _ _ _) = ''MCPSchemaDriftError''"
| "exn_type (MCPToolInvocationError _ _) = ''MCPToolInvocationError''"
| "exn_type (ValidationError _) = ''ValidationError''"
| "exn_type (ValueError _) = ''ValueError''"
| "exn_type (PyTypeError _) = ''TypeError''"
| "exn_type PyAssertionError = ''AssertionError''"
| "exn_type (PyRuntimeError _) = ''RuntimeError''"
| "exn_type (PyException c _) = c"

section \<open>Stable diagnostic codes\<close>

text \<open>\<open>_ERROR_CODES\<close>: append-only, one code per class.\<close>

definition ERROR_CODES :: "(string \<times> string) list" where
  "ERROR_CODES =
    [(''ChainWeaverError'', ''CW-E000''), (''ToolNotFoundError'', ''CW-E001''),
     (''FlowNotFoundError'', ''CW-E002''), (''FlowAlreadyExistsError'', ''CW-E003''),
     (''SchemaValidationError'', ''CW-E004''), (''InputMappingError'', ''CW-E005''),
     (''FlowExecutionError'', ''CW-E006''), (''ToolDefinitionError'', ''CW-E007''),
     (''ToolTimeoutError'', ''CW-E008''), (''ToolOutputSizeError'', ''CW-E009''),
     (''DAGDefinitionError'', ''CW-E010''), (''FlowStatusError'', ''CW-E011''),
     (''FlowCancelledError'', ''CW-E012''), (''ContextKeyCollisionError'', ''CW-E013''),
     (''AsyncLaneUnsupportedError'', ''CW-E014''), (''FlowCompositionError'', ''CW-E015''),
     (''InvalidFlowVersionError'', ''CW-E016''), (''FlowSerializationError'', ''CW-E017''),
     (''CheckpointDriftError'', ''CW-E018''), (''CheckpointerNotConfiguredError'', ''CW-E019''),
     (''CheckpointNotFoundError'', ''CW-E020''), (''CheckpointVersionError'', ''CW-E021''),
     (''PluginDiscoveryError'', ''CW-E022''), (''ContribError'', ''CW-E023''),
     (''MCPError'', ''CW-E024''), (''MCPSchemaConversionError'', ''CW-E025''),
     (''MCPToolInvocationError'', ''CW-E026''), (''MCPMetadataError'', ''CW-E027''),
     (''MCPSchemaDriftError'', ''CW-E028''), (''ApprovalDeniedError'', ''CW-E029''),
     (''SafetyCeilingError'', ''CW-E030''), (''DecisionCallbackError'', ''CW-E031''),
     (''KernelInvocationError'', ''CW-E032''), (''CostProfileError'', ''CW-E033''),
     (''OfflineLLMError'', ''CW-E034''), (''AgentTraceImportError'', ''CW-E035''),
     (''PredicateSyntaxError'', ''CW-E036''), (''OutputMappingError'', ''CW-E041''),
     (''PromptBudgetExceededError'', ''CW-E042''), (''LLMProviderError'', ''CW-E043''),
     (''LLMBudgetExceededError'', ''CW-E044''), (''FlowAuthenticationError'', ''CW-E045''),
     (''RateLimitExceededError'', ''CW-E046''), (''FlowAuthorizationError'', ''CW-E047''),
     (''DecisionTimeoutError'', ''CW-E049''), (''DecisionBudgetExceededError'', ''CW-E050''),
     (''SchemaRefPolicyError'', ''CW-E051''), (''GuardrailViolationError'', ''CW-E052'')]"

text \<open>
  \<open>error_code_for\<close>: the code of a class name, \<open>None\<close> for a foreign name.  The map of the
  code walks the live subclass tree, which also holds the classes that sibling modules define
  with a code of their own; those classes are the parameter \<open>siblings\<close>.
\<close>

definition error_code_for :: "(string \<times> string) list \<Rightarrow> string option \<Rightarrow> string option" where
  "error_code_for siblings name =
     (case name of None \<Rightarrow> None | Some n \<Rightarrow> dict_get (dict_update ERROR_CODES siblings) n)"

lemma ERROR_CODES_ok: "dict_ok ERROR_CODES" "distinct (map snd ERROR_CODES)"
  unfolding ERROR_CODES_def by simp_all

text \<open>An exception that is not one of ChainWeaver's own classes.\<close>

fun is_foreign :: "exn \<Rightarrow> bool" where
  "is_foreign (ValidationError _) = True"
| "is_foreign (ValueError _) = True"
| "is_foreign (PyTypeError _) = True"
| "is_foreign PyAssertionError = True"
| "is_foreign (PyRuntimeError _) = True"
| "is_foreign (PyException _ _) = True"
| "is_foreign _ = False"

lemma own_exn_in_table: "\<not> is_foreign e \<Longrightarrow> dict_has ERROR_CODES (exn_type e)"
  by (cases e; hypsubst; code_simp)

lemma ERROR_CODES_inj:
  assumes "dict_get ERROR_CODES a = Some c" and "dict_get ERROR_CODES b = Some c"
  shows "a = b"
proof -
  have "(a, c) \<in> set ERROR_CODES" and "(b, c) \<in> set ERROR_CODES"
    using assms by (auto dest: map_of_SomeD)
  with ERROR_CODES_ok(2) show ?thesis
    by (force simp: distinct_map inj_on_def)
qed

end
