(* ===== verification/PyValue.thy ===== *)
theory PyValue
  imports CW_Errors "HOL-Library.Sublist"
begin

text \<open>
  The Python values that flow through a ChainWeaver context, and the RFC-6901 pointers of
  \<open>chainweaver/_pointer.py\<close> over them.  The universe is JSON without floating-point numbers
  (plus the set displays a predicate may build); dictionaries have string keys, in insertion
  order.  The operations below are the ones the predicate evaluator and the pointer resolver
  apply to such values: truth value, equality, ordering, membership, subscription and negation,
  with the \<open>TypeError\<close>, \<open>KeyError\<close> and \<open>IndexError\<close> branches of Python.
\<close>

datatype (plugins only: code size) val =
    VNone
  | VBool bool
  | VInt int
  | VStr string
  | VList "val list"
  | VDict "(string \<times> val) list"
  | VSet "val list"

section \<open>Operations of the language\<close>

text \<open>\<open>bool(v)\<close>.\<close>

fun truthy :: "val \<Rightarrow> bool" where
  "truthy VNone = False"
| "truthy (VBool b) = b"
| "truthy (VInt i) = (i \<noteq> 0)"
| "truthy (VStr s) = (s \<noteq> [])"
| "truthy (VList xs) = (xs \<noteq> [])"
| "truthy (VDict d) = (d \<noteq> [])"
| "truthy (VSet xs) = (xs \<noteq> [])"

text \<open>A \<open>bool\<close> is an \<open>int\<close> in Python: \<open>True == 1\<close>.\<close>

fun as_int :: "val \<Rightarrow> int option" where
  "as_int (VBool b) = Some (if b then 1 else 0)"
| "as_int (VInt i) = Some i"
| "as_int _ = None"

text \<open>
  \<open>a == b\<close>: dictionaries are compared without regard to order, sets by inclusion at equal
  size.  The recursion hands each element its own comparison \<open>py_eq x\<close>.
\<close>

primrec eqs_list :: "(val \<Rightarrow> bool) list \<Rightarrow> val list \<Rightarrow> bool" where
  "eqs_list [] ys = (ys = [])"
| "eqs_list (p # ps) ys = (case ys of [] \<Rightarrow> False | y # ys' \<Rightarrow> p y \<and> eqs_list ps ys')"

definition eqs_dict :: "(string \<times> (val \<Rightarrow> bool)) list \<Rightarrow> (string \<times> val) list \<Rightarrow> bool" where
  "eqs_dict ps e =
     list_all (\<lambda>(k, p). case dict_get e k of None \<Rightarrow> False | Some w \<Rightarrow> p w) ps"

definition eqs_sub :: "(val \<Rightarrow> bool) list \<Rightarrow> val list \<Rightarrow> bool" where
  "eqs_sub ps ys = list_all (\<lambda>p. list_ex p ys) ps"

primrec py_eq :: "val \<Rightarrow> val \<Rightarrow> bool" where
  "py_eq VNone b = (b = VNone)"
| "py_eq (VBool p) b = (as_int b = Some (if p then 1 else 0))"
| "py_eq (VInt i) b = (as_int b = Some i)"
| "py_eq (VStr s) b = (case b of VStr t \<Rightarrow> s = t | _ \<Rightarrow> False)"
| "py_eq (VList xs) b = (case b of VList ys \<Rightarrow> eqs_list (map py_eq xs) ys | _ \<Rightarrow> False)"
| "py_eq (VDict d) b =
     (case b of VDict e \<Rightarrow> length d = length e \<and> eqs_dict (map (map_prod id py_eq) d) e
      | _ \<Rightarrow> False)"
| "py_eq (VSet xs) b =
     (case b of VSet ys \<Rightarrow> length xs = length ys \<and> eqs_sub (map py_eq xs) ys | _ \<Rightarrow> False)"

definition py_mem :: "val \<Rightarrow> val list \<Rightarrow> bool" where
  "py_mem x ys = list_ex (py_eq x) ys"

definition py_set_sub :: "val list \<Rightarrow> val list \<Rightarrow> bool" where
  "py_set_sub xs ys = list_all (\<lambda>x. py_mem x ys) xs"

text \<open>Values that may be set elements or dictionary keys.\<close>

fun hashable :: "val \<Rightarrow> bool" where
  "hashable (VList _) = False"
| "hashable (VDict _) = False"
| "hashable (VSet _) = False"
| "hashable _ = True"

text \<open>The display \<open>{e1, ..., en}\<close> on evaluated elements.\<close>

fun py_set_add :: "val list \<Rightarrow> val \<Rightarrow> val list" where
  "py_set_add acc x = (if py_mem x acc then acc else acc @ [x])"

definition py_set :: "val list \<Rightarrow> exn + val" where
  "py_set xs =
     (if list_all hashable xs then Inr (VSet (foldl py_set_add [] xs))
      else Inl (PyTypeError ''unhashable type''))"

text \<open>Lexicographic order of strings, by code point.\<close>

fun str_less :: "string \<Rightarrow> string \<Rightarrow> bool" where
  "str_less [] [] = False"
| "str_less [] (_ # _) = True"
| "str_less (_ # _) [] = False"
| "str_less (c # s) (d # t) =
     ((of_char c :: nat) < of_char d \<or> c = d \<and> str_less s t)"

text \<open>
  \<open>a < b\<close>; \<open>TypeError\<close> where Python does not order the operands.  Lists compare at the
  first index where they differ.
\<close>

fun py_less :: "val \<Rightarrow> val \<Rightarrow> exn + bool"
  and py_less_list :: "val list \<Rightarrow> val list \<Rightarrow> exn + bool" where
  "py_less (VStr s) b = (case b of VStr t \<Rightarrow> Inr (str_less s t) | _ \<Rightarrow> Inl (PyTypeError ''<''))"
| "py_less (VList xs) b = (case b of VList ys \<Rightarrow> py_less_list xs ys | _ \<Rightarrow> Inl (PyTypeError ''<''))"
| "py_less (VSet xs) b =
     (case b of VSet ys \<Rightarrow> Inr (length xs < length ys \<and> py_set_sub xs ys)
      | _ \<Rightarrow> Inl (PyTypeError ''<''))"
| "py_less (VDict d) b = Inl (PyTypeError ''<'')"
| "py_less VNone b = Inl (PyTypeError ''<'')"
| "py_less (VBool p) b =
     (case as_int b of None \<Rightarrow> Inl (PyTypeError ''<'') | Some j \<Rightarrow> Inr ((if p then 1 else 0) < j))"
| "py_less (VInt i) b = (case as_int b of None \<Rightarrow> Inl (PyTypeError ''<'') | Some j \<Rightarrow> Inr (i < j))"
| "py_less_list [] ys = Inr (ys \<noteq> [])"
| "py_less_list (x # xs) ys =
     (case ys of [] \<Rightarrow> Inr False
      | y # ys' \<Rightarrow> if py_eq x y then py_less_list xs ys' else py_less x y)"

text \<open>\<open>a <= b\<close>: not \<open>a < b or a == b\<close>, since sets are only partially ordered.\<close>

fun py_le :: "val \<Rightarrow> val \<Rightarrow> exn + bool"
  and py_le_list :: "val list \<Rightarrow> val list \<Rightarrow> exn + bool" where
  "py_le (VStr s) b = (case b of VStr t \<Rightarrow> Inr (s = t \<or> str_less s t) | _ \<Rightarrow> Inl (PyTypeError ''<=''))"
| "py_le (VList xs) b = (case b of VList ys \<Rightarrow> py_le_list xs ys | _ \<Rightarrow> Inl (PyTypeError ''<=''))"
| "py_le (VSet xs) b =
     (case b of VSet ys \<Rightarrow> Inr (length xs \<le> length ys \<and> py_set_sub xs ys)
      | _ \<Rightarrow> Inl (PyTypeError ''<=''))"
| "py_le (VDict d) b = Inl (PyTypeError ''<='')"
| "py_le VNone b = Inl (PyTypeError ''<='')"
| "py_le (VBool p) b =
     (case as_int b of None \<Rightarrow> Inl (PyTypeError ''<='') | Some j \<Rightarrow> Inr ((if p then 1 else 0) \<le> j))"
| "py_le (VInt i) b = (case as_int b of None \<Rightarrow> Inl (PyTypeError ''<='') | Some j \<Rightarrow> Inr (i \<le> j))"
| "py_le_list [] ys = Inr True"
| "py_le_list (x # xs) ys =
     (case ys of [] \<Rightarrow> Inr False
      | y # ys' \<Rightarrow> if py_eq x y then py_le_list xs ys' else py_le x y)"

text \<open>\<open>a in b\<close>: elements of a list or set, keys of a dictionary, substrings of a string.\<close>

fun py_in :: "val \<Rightarrow> val \<Rightarrow> exn + bool" where
  "py_in a (VList xs) = Inr (py_mem a xs)"
| "py_in a (VSet xs) =
     (if hashable a then Inr (py_mem a xs) else Inl (PyTypeError ''unhashable type''))"
| "py_in a (VDict d) =
     (if hashable a then Inr (case a of VStr k \<Rightarrow> dict_has d k | _ \<Rightarrow> False)
      else Inl (PyTypeError ''unhashable type''))"
| "py_in a (VStr t) =
     (case a of VStr s \<Rightarrow> Inr (sublist s t) | _ \<Rightarrow> Inl (PyTypeError ''in <string>''))"
| "py_in a _ = Inl (PyTypeError ''not iterable'')"

text \<open>A sequence index: negative positions count from the end.\<close>

definition py_index :: "'a list \<Rightarrow> int \<Rightarrow> 'a option" where
  "py_index xs i =
     (let n = int (length xs); j = (if i < 0 then n + i else i)
      in if 0 \<le> j \<and> j < n then Some (xs ! nat j) else None)"

text \<open>
  \<open>a[k]\<close>: \<open>None\<close> stands for the \<open>KeyError\<close>, \<open>IndexError\<close> or \<open>TypeError\<close> that
  Python raises; the caller catches all three together.
\<close>

fun py_subscript :: "val \<Rightarrow> val \<Rightarrow> val option" where
  "py_subscript (VDict d) k = (case k of VStr s \<Rightarrow> dict_get d s | _ \<Rightarrow> None)"
| "py_subscript (VList xs) k = (case as_int k of Some i \<Rightarrow> py_index xs i | None \<Rightarrow> None)"
| "py_subscript (VStr s) k =
     (case as_int k of Some i \<Rightarrow> map_option (\<lambda>c. VStr [c]) (py_index s i) | None \<Rightarrow> None)"
| "py_subscript _ _ = None"

text \<open>\<open>-a\<close> and \<open>+a\<close>.\<close>

definition py_neg :: "val \<Rightarrow> exn + val" where
  "py_neg a =
     (case as_int a of Some i \<Rightarrow> Inr (VInt (- i)) | None \<Rightarrow> Inl (PyTypeError ''bad operand''))"

definition py_pos :: "val \<Rightarrow> exn + val" where
  "py_pos a =
     (case as_int a of Some i \<Rightarrow> Inr (VInt i) | None \<Rightarrow> Inl (PyTypeError ''bad operand''))"

end
