(* ===== verification/Pointer.thy ===== *)
theory Pointer
  imports PyValue
begin

text \<open>
  The RFC-6901 resolver of \<open>chainweaver/_pointer.py\<close> over the values of \<open>PyValue\<close>.  A
  failed resolution is the pair of the prefix \<open>failed_at\<close> that was being resolved and the kind
  of the miss; the caller turns it into its own exception.
\<close>

datatype pointer_miss =
    BadPointer
  | KeyMiss
  | NotAnInteger string
  | OutOfRange nat
  | NotAContainer

definition is_pointer :: "string \<Rightarrow> bool" where
  "is_pointer source = (case source of [] \<Rightarrow> False | c # _ \<Rightarrow> c = CHR ''/'')"

text \<open>\<open>s.split(c)\<close> for a one-character separator: always at least one piece.\<close>

fun split_on :: "char \<Rightarrow> string \<Rightarrow> string list" where
  "split_on c [] = [[]]"
| "split_on c (x # s) =
     (if x = c then [] # split_on c s
      else (case split_on c s of [] \<Rightarrow> [[x]] | w # ws \<Rightarrow> (x # w) # ws))"

text \<open>\<open>c.join(ws)\<close>.\<close>

fun join_with :: "char \<Rightarrow> string list \<Rightarrow> string" where
  "join_with c [] = []"
| "join_with c [w] = w"
| "join_with c (w # v # ws) = w @ c # join_with c (v # ws)"

text \<open>\<open>t.replace("~1", "/")\<close> followed by \<open>.replace("~0", "~")\<close>.\<close>

fun replace2 :: "char \<Rightarrow> char \<Rightarrow> char \<Rightarrow> string \<Rightarrow> string" where
  "replace2 a b r (x # y # s) =
     (if x = a \<and> y = b then r # replace2 a b r s else x # replace2 a b r (y # s))"
| "replace2 a b r s = s"

definition unescape :: "string \<Rightarrow> string" where
  "unescape t =
     replace2 (CHR ''~'') (CHR ''0'') (CHR ''~'')
       (replace2 (CHR ''~'') (CHR ''1'') (CHR ''/'') t)"

definition parse_pointer :: "string \<Rightarrow> (string \<times> pointer_miss) + string list" where
  "parse_pointer p =
     (if p = [] then Inr []
      else if \<not> is_pointer p then Inl (p, BadPointer)
      else Inr (map unescape (split_on (CHR ''/'') (tl p))))"

text \<open>
  \<open>int(token)\<close> on text: surrounding white space, a sign, then decimal digits, single
  underscores allowed between digits.
\<close>

definition py_space :: "char \<Rightarrow> bool" where
  "py_space c = (of_char c \<in> {9, 10, 11, 12, 13, 28, 29, 30, 31, 32, (133 :: nat), 160})"

definition digit_of :: "char \<Rightarrow> nat option" where
  "digit_of c =
     (let n = of_char c :: nat in if 48 \<le> n \<and> n \<le> 57 then Some (n - 48) else None)"

fun digits_val :: "nat \<Rightarrow> string \<Rightarrow> nat option" where
  "digits_val acc [] = Some acc"
| "digits_val acc (c # s) =
     (case digit_of c of
        Some k \<Rightarrow> digits_val (10 * acc + k) s
      | None \<Rightarrow>
          (if c = CHR ''_'' then
             (case s of [] \<Rightarrow> None
              | d # s' \<Rightarrow> (case digit_of d of None \<Rightarrow> None
                          | Some k \<Rightarrow> digits_val (10 * acc + k) s'))
           else None))"

definition unsigned_val :: "string \<Rightarrow> nat option" where
  "unsigned_val s =
     (case s of [] \<Rightarrow> None
      | c # s' \<Rightarrow> (case digit_of c of None \<Rightarrow> None | Some k \<Rightarrow> digits_val k s'))"

definition py_int_of :: "string \<Rightarrow> int option" where
  "py_int_of t =
     (let s = dropWhile py_space (rev (dropWhile py_space (rev t)))
      in case s of [] \<Rightarrow> None
         | c # s' \<Rightarrow>
             (if c = CHR ''-'' then map_option (\<lambda>n. - int n) (unsigned_val s')
              else if c = CHR ''+'' then map_option int (unsigned_val s')
              else map_option int (unsigned_val s)))"

text \<open>\<open>resolve_pointer\<close>: \<open>seen\<close> holds the tokens consumed so far.\<close>

fun walk :: "string list \<Rightarrow> val \<Rightarrow> string list \<Rightarrow> (string \<times> pointer_miss) + val" where
  "walk seen cur [] = Inr cur"
| "walk seen cur (tok # toks) =
     (let path = CHR ''/'' # join_with (CHR ''/'') (seen @ [tok])
      in case cur of
           VDict d \<Rightarrow>
             (case dict_get d tok of
                None \<Rightarrow> Inl (path, KeyMiss)
              | Some v \<Rightarrow> walk (seen @ [tok]) v toks)
         | VList xs \<Rightarrow>
             (case py_int_of tok of
                None \<Rightarrow> Inl (path, NotAnInteger tok)
              | Some i \<Rightarrow>
                  (if i < 0 \<or> int (length xs) \<le> i then Inl (path, OutOfRange (length xs))
                   else walk (seen @ [tok]) (xs ! nat i) toks))
         | _ \<Rightarrow> Inl (path, NotAContainer))"

definition resolve_pointer :: "val \<Rightarrow> string \<Rightarrow> (string \<times> pointer_miss) + val" where
  "resolve_pointer data p =
     (case parse_pointer p of Inl e \<Rightarrow> Inl e | Inr toks \<Rightarrow> walk [] data toks)"

text \<open>The RFC-6901 escape, the inverse the documentation tells authors to write.\<close>

fun escape :: "string \<Rightarrow> string" where
  "escape [] = []"
| "escape (c # s) =
     (if c = CHR ''~'' then ''~0'' @ escape s
      else if c = CHR ''/'' then ''~1'' @ escape s
      else c # escape s)"

definition format_pointer :: "string list \<Rightarrow> string" where
  "format_pointer toks = concat (map (\<lambda>t. CHR ''/'' # escape t) toks)"

section \<open>Round trip of the encoding\<close>

fun escape_slash :: "string \<Rightarrow> string" where
  "escape_slash [] = []"
| "escape_slash (c # s) = (if c = CHR ''~'' then ''~0'' @ escape_slash s else c # escape_slash s)"

lemma escape_hd: "escape s = c # r \<Longrightarrow> c \<noteq> CHR ''/''"
  by (cases s) (auto split: if_splits)

lemma replace_slash:
  "replace2 (CHR ''~'') (CHR ''1'') (CHR ''/'') (escape s) = escape_slash s"
proof (induction s)
  case (Cons c s)
  show ?case
  proof (cases "escape s")
    case Nil
    with Cons show ?thesis by (auto)
  next
    case (Cons d r)
    with Cons.IH show ?thesis by (auto)
  qed
qed simp

lemma replace_tilde:
  "replace2 (CHR ''~'') (CHR ''0'') (CHR ''~'') (escape_slash s) = s"
proof (induction s)
  case (Cons c s)
  then show ?case
    by (cases "escape_slash s") auto
qed simp

lemma unescape_escape: "unescape (escape s) = s"
  by (simp add: unescape_def replace_slash replace_tilde)

lemma split_on_append:
  "c \<notin> set w \<Longrightarrow> split_on c (w @ c # s) = w # split_on c s"
  by (induction w) auto

lemma split_on_free: "c \<notin> set w \<Longrightarrow> split_on c w = [w]"
  by (induction w) auto

lemma escape_no_slash: "CHR ''/'' \<notin> set (escape s)"
  by (induction s) auto

lemma split_format:
  "split_on (CHR ''/'') (escape t @ format_pointer ts) = map escape (t # ts)"
proof (induction ts arbitrary: t)
  case Nil
  then show ?case
    by (simp add: format_pointer_def split_on_free escape_no_slash)
next
  case (Cons u us)
  have "format_pointer (u # us) = CHR ''/'' # escape u @ format_pointer us"
    by (simp add: format_pointer_def)
  with Cons show ?case
    by (simp add: split_on_append escape_no_slash)
qed

lemma parse_format: "parse_pointer (format_pointer toks) = Inr toks"
proof (cases toks)
  case Nil
  then show ?thesis by (simp add: parse_pointer_def format_pointer_def)
next
  case (Cons t ts)
  then have "format_pointer toks = CHR ''/'' # escape t @ format_pointer ts"
    by (simp add: format_pointer_def)
  then show ?thesis
    by (simp add: parse_pointer_def is_pointer_def split_format Cons unescape_escape comp_def)
qed

section \<open>Resolution\<close>

lemma walk_append:
  "walk seen v (ts @ us) =
     (case walk seen v ts of Inl e \<Rightarrow> Inl e | Inr w \<Rightarrow> walk (seen @ ts) w us)"
  by (induction seen v ts rule: walk.induct)
     (auto simp: Let_def split: val.splits option.splits sum.splits)

lemma walk_one:
  "walk seen v [t] = Inl (p, m) \<Longrightarrow> p = CHR ''/'' # join_with (CHR ''/'') (seen @ [t])"
  by (auto simp: Let_def split: val.splits option.splits if_splits)

lemma walk_Cons:
  "walk seen v (t # ts) =
     (case walk seen v [t] of Inl e \<Rightarrow> Inl e | Inr w \<Rightarrow> walk (seen @ [t]) w ts)"
  using walk_append [of seen v "[t]" ts] by simp

declare walk.simps(2) [simp del]

lemma walk_miss_prefix:
  "walk seen v ts = Inl (p, m) \<Longrightarrow>
     \<exists>us u rest w. ts = us @ u # rest \<and> walk seen v us = Inr w \<and>
       walk (seen @ us) w [u] = Inl (p, m)"
proof (induction ts arbitrary: seen v)
  case (Cons t ts)
  show ?case
  proof (cases "walk seen v [t]")
    case (Inl e)
    with Cons.prems walk_Cons [of seen v t ts] have "walk seen v [t] = Inl (p, m)"
      by simp
    then show ?thesis
      by (intro exI [of _ "[]"] exI [of _ t] exI [of _ ts] exI [of _ v]) simp
  next
    case (Inr v')
    with Cons.prems walk_Cons [of seen v t ts] have "walk (seen @ [t]) v' ts = Inl (p, m)"
      by simp
    from Cons.IH [OF this] obtain us u rest w where
        ih: "ts = us @ u # rest" "walk (seen @ [t]) v' us = Inr w"
        "walk ((seen @ [t]) @ us) w [u] = Inl (p, m)"
      by blast
    with Inr walk_Cons [of seen v t us] show ?thesis
      by (intro exI [of _ "t # us"] exI [of _ u] exI [of _ rest] exI [of _ w]) simp
  qed
qed simp

text \<open>
  What a pointer means, independently of the resolver: \<open>child v t w\<close> when the reference token
  \<open>t\<close> leads from \<open>v\<close> to \<open>w\<close>, \<open>descends\<close> its iteration.
\<close>

inductive child :: "val \<Rightarrow> string \<Rightarrow> val \<Rightarrow> bool" where
  member: "dict_get d t = Some v \<Longrightarrow> child (VDict d) t v"
| item: "py_int_of t = Some i \<Longrightarrow> 0 \<le> i \<Longrightarrow> i < int (length xs) \<Longrightarrow> child (VList xs) t (xs ! nat i)"

inductive descends :: "val \<Rightarrow> string list \<Rightarrow> val \<Rightarrow> bool" where
  here: "descends v [] v"
| down: "child v t w \<Longrightarrow> descends w ts x \<Longrightarrow> descends v (t # ts) x"

inductive_simps child_simps: "child (VDict d) t w" "child (VList xs) t w" "child VNone t w"
  "child (VBool b) t w" "child (VInt i) t w" "child (VStr s) t w" "child (VSet xs) t w"
inductive_simps descends_simps: "descends v [] x" "descends v (t # ts) x"

lemma walk_child: "walk seen v [t] = Inr w \<longleftrightarrow> child v t w"
  by (cases v) (auto simp: Let_def child_simps walk.simps(2) split: option.splits)

lemma walk_descends: "walk seen v ts = Inr w \<longleftrightarrow> descends v ts w"
proof (induction ts arbitrary: seen v)
  case (Cons t ts)
  show ?case
  proof (cases "walk seen v [t]")
    case (Inl e)
    then have "\<not> child v t x" for x
      using walk_child [of seen v t x] by simp
    with Inl show ?thesis
      by (simp add: walk_Cons [of seen v t ts] descends_simps)
  next
    case (Inr v')
    then have "child v t x \<longleftrightarrow> x = v'" for x
      using walk_child [of seen v t x] by auto
    with Inr Cons.IH show ?thesis
      by (simp add: walk_Cons [of seen v t ts] descends_simps)
  qed
qed (auto simp: descends_simps)

lemma walk_miss:
  assumes "walk [] v ts = Inl (p, m)"
  shows "\<exists>us u rest w. ts = us @ u # rest \<and> descends v us w \<and> (\<nexists>x. child w u x) \<and>
           p = CHR ''/'' # join_with (CHR ''/'') (us @ [u])"
proof -
  from walk_miss_prefix [OF assms] obtain us u rest w where
      ts: "ts = us @ u # rest" "walk [] v us = Inr w" and last: "walk us w [u] = Inl (p, m)"
    by auto
  from last have "\<not> child w u x" for x
    using walk_child [of us w u x] by simp
  with ts walk_one [OF last] show ?thesis
    by (auto simp: walk_descends)
qed



end
