(* ===== verification/Contracts.thy ===== *)
theory Contracts
  imports PyValue
begin

text \<open>
  \<open>chainweaver/contracts.py\<close>: the ordered vocabularies of side effects, stability and
  determinism, the safety contract of a tool with its normalisation and its consistency check,
  the most-restrictive merge of several contracts, and the evaluator of branch predicates.
  The parser \<open>ast.parse\<close> is the argument \<open>parse\<close> of \<open>evaluate_predicate\<close>; the tree
  it returns is the datatype \<open>pexpr\<close>, whose constructor \<open>Unsupported\<close> stands for every node
  class outside the allow-list.
\<close>

section \<open>Ordered levels\<close>

datatype side_effect = SE_NONE | SE_READ | SE_WRITE | SE_EXTERNAL | SE_DESTRUCTIVE

datatype stability = STABLE | BEST_EFFORT | UNSTABLE

datatype determinism = DET_FULL | DET_PARTIAL | DET_NONE

primrec SIDE_EFFECT_ORDER :: "side_effect \<Rightarrow> nat" where
  "SIDE_EFFECT_ORDER SE_NONE = 0"
| "SIDE_EFFECT_ORDER SE_READ = 1"
| "SIDE_EFFECT_ORDER SE_WRITE = 2"
| "SIDE_EFFECT_ORDER SE_EXTERNAL = 3"
| "SIDE_EFFECT_ORDER SE_DESTRUCTIVE = 4"

primrec STABILITY_ORDER :: "stability \<Rightarrow> nat" where
  "STABILITY_ORDER STABLE = 0"
| "STABILITY_ORDER BEST_EFFORT = 1"
| "STABILITY_ORDER UNSTABLE = 2"

primrec DETERMINISM_ORDER :: "determinism \<Rightarrow> nat" where
  "DETERMINISM_ORDER DET_FULL = 0"
| "DETERMINISM_ORDER DET_PARTIAL = 1"
| "DETERMINISM_ORDER DET_NONE = 2"

text \<open>The ranks order the levels linearly, so that the library's order facts apply to them.\<close>

lemma SIDE_EFFECT_ORDER_inj: "SIDE_EFFECT_ORDER a = SIDE_EFFECT_ORDER b \<longleftrightarrow> a = b"
  by (cases a; cases b) simp_all

instantiation side_effect :: linorder
begin

definition less_eq_side_effect :: "side_effect \<Rightarrow> side_effect \<Rightarrow> bool" where
  "less_eq_side_effect a b \<longleftrightarrow> SIDE_EFFECT_ORDER a \<le> SIDE_EFFECT_ORDER b"

definition less_side_effect :: "side_effect \<Rightarrow> side_effect \<Rightarrow> bool" where
  "less_side_effect a b \<longleftrightarrow> SIDE_EFFECT_ORDER a < SIDE_EFFECT_ORDER b"

instance
  by standard
     (auto simp: less_eq_side_effect_def less_side_effect_def simp flip: SIDE_EFFECT_ORDER_inj)

end

lemma STABILITY_ORDER_inj: "STABILITY_ORDER a = STABILITY_ORDER b \<longleftrightarrow> a = b"
  by (cases a; cases b) simp_all

instantiation stability :: linorder
begin

definition less_eq_stability :: "stability \<Rightarrow> stability \<Rightarrow> bool" where
  "less_eq_stability a b \<longleftrightarrow> STABILITY_ORDER a \<le> STABILITY_ORDER b"

definition less_stability :: "stability \<Rightarrow> stability \<Rightarrow> bool" where
  "less_stability a b \<longleftrightarrow> STABILITY_ORDER a < STABILITY_ORDER b"

instance
  by standard
     (auto simp: less_eq_stability_def less_stability_def simp flip: STABILITY_ORDER_inj)

end

lemma DETERMINISM_ORDER_inj: "DETERMINISM_ORDER a = DETERMINISM_ORDER b \<longleftrightarrow> a = b"
  by (cases a; cases b) simp_all

instantiation determinism :: linorder
begin

definition less_eq_determinism :: "determinism \<Rightarrow> determinism \<Rightarrow> bool" where
  "less_eq_determinism a b \<longleftrightarrow> DETERMINISM_ORDER a \<le> DETERMINISM_ORDER b"

definition less_determinism :: "determinism \<Rightarrow> determinism \<Rightarrow> bool" where
  "less_determinism a b \<longleftrightarrow> DETERMINISM_ORDER a < DETERMINISM_ORDER b"

instance
  by standard
     (auto simp: less_eq_determinism_def less_determinism_def simp flip: DETERMINISM_ORDER_inj)

end

text \<open>\<open>SideEffectLevel(text)\<close>: the level with that value, \<open>ValueError\<close> otherwise.\<close>

definition side_effect_of :: "string \<Rightarrow> exn + side_effect" where
  "side_effect_of s =
     (if s = ''none'' then Inr SE_NONE
      else if s = ''read'' then Inr SE_READ
      else if s = ''write'' then Inr SE_WRITE
      else if s = ''external'' then Inr SE_EXTERNAL
      else if s = ''destructive'' then Inr SE_DESTRUCTIVE
      else Inl (ValueError ''is not a valid SideEffectLevel''))"

section \<open>Safety contracts\<close>

record safety_contract =
  side_effects :: side_effect
  read_only :: bool
  stability_level :: stability
  determinism_level :: determinism
  idempotent :: bool
  cacheable :: bool
  safe_to_retry :: bool
  supports_dry_run :: bool
  requires_approval :: bool
  approval_reason :: "string option"

text \<open>The keyword arguments, or the JSON object, a contract is built from.\<close>

record safety_payload =
  p_side_effects :: "string option"
  p_read_only :: "bool option"
  p_stability :: "stability option"
  p_determinism :: "determinism option"
  p_idempotent :: "bool option"
  p_cacheable :: "bool option"
  p_safe_to_retry :: "bool option"
  p_supports_dry_run :: "bool option"
  p_requires_approval :: "bool option"
  p_requires_review :: "bool option"
  p_approval_reason :: "string option"

definition empty_payload :: safety_payload where
  "empty_payload =
     \<lparr>p_side_effects = None, p_read_only = None, p_stability = None, p_determinism = None,
      p_idempotent = None, p_cacheable = None, p_safe_to_retry = None, p_supports_dry_run = None,
      p_requires_approval = None, p_requires_review = None, p_approval_reason = None\<rparr>"

definition default_arg :: "'a option \<Rightarrow> 'a \<Rightarrow> 'a" where
  "default_arg x d = (case x of None \<Rightarrow> d | Some a \<Rightarrow> a)"

definition is_read_only :: "side_effect \<Rightarrow> bool" where
  "is_read_only s = (s \<in> {SE_NONE, SE_READ})"

text \<open>\<open>_normalise_input\<close>: the legacy alias first, then the derived \<open>read_only\<close>.\<close>

definition normalise_review :: "safety_payload \<Rightarrow> exn + safety_payload" where
  "normalise_review p =
     (case p_requires_review p of
        None \<Rightarrow> Inr p
      | Some legacy \<Rightarrow>
          (case p_requires_approval p of
             Some b \<Rightarrow>
               (if b \<noteq> legacy
                then Inl (ValueError ''requires_review conflicts with requires_approval.'')
                else Inr (p\<lparr>p_requires_review := None\<rparr>))
           | None \<Rightarrow>
               Inr (p\<lparr>p_requires_review := None, p_requires_approval := Some legacy\<rparr>)))"

definition normalise_input :: "safety_payload \<Rightarrow> exn + safety_payload" where
  "normalise_input p =
     bind_err (normalise_review p) (\<lambda>p.
       case p_read_only p of
         Some _ \<Rightarrow> Inr p
       | None \<Rightarrow>
           bind_err (side_effect_of (default_arg (p_side_effects p) ''none'')) (\<lambda>s.
             Inr (p\<lparr>p_read_only := Some (is_read_only s)\<rparr>)))"

text \<open>\<open>_validate_read_only\<close>.\<close>

definition validate_read_only :: "safety_contract \<Rightarrow> exn + safety_contract" where
  "validate_read_only c =
     (if read_only c \<noteq> is_read_only (side_effects c)
      then Inl (ValueError ''read_only conflicts with side_effects'')
      else Inr c)"

text \<open>\<open>ToolSafetyContract(**p)\<close>.\<close>

definition ToolSafetyContract :: "safety_payload \<Rightarrow> exn + safety_contract" where
  "ToolSafetyContract p =
     bind_err (normalise_input p) (\<lambda>p.
     bind_err (side_effect_of (default_arg (p_side_effects p) ''none'')) (\<lambda>s.
       validate_read_only
         \<lparr>side_effects = s,
          read_only = default_arg (p_read_only p) True,
          stability_level = default_arg (p_stability p) STABLE,
          determinism_level = default_arg (p_determinism p) DET_FULL,
          idempotent = default_arg (p_idempotent p) True,
          cacheable = default_arg (p_cacheable p) True,
          safe_to_retry = default_arg (p_safe_to_retry p) True,
          supports_dry_run = default_arg (p_supports_dry_run p) False,
          requires_approval = default_arg (p_requires_approval p) False,
          approval_reason = p_approval_reason p\<rparr>))"

definition default_safety :: safety_contract where
  "default_safety =
     \<lparr>side_effects = SE_NONE, read_only = True, stability_level = STABLE,
      determinism_level = DET_FULL, idempotent = True, cacheable = True, safe_to_retry = True,
      supports_dry_run = False, requires_approval = False, approval_reason = None\<rparr>"

definition side_effect_exceeds :: "side_effect \<Rightarrow> side_effect \<Rightarrow> bool" where
  "side_effect_exceeds level ceiling = (SIDE_EFFECT_ORDER level > SIDE_EFFECT_ORDER ceiling)"

text \<open>\<open>sep.join(ws)\<close>.\<close>

fun join_str :: "string \<Rightarrow> string list \<Rightarrow> string" where
  "join_str sep [] = []"
| "join_str sep [w] = w"
| "join_str sep (w # v # ws) = w @ sep @ join_str sep (v # ws)"

definition side_effect_value :: "side_effect \<Rightarrow> string" where
  "side_effect_value s =
     (case s of SE_NONE \<Rightarrow> ''none'' | SE_READ \<Rightarrow> ''read'' | SE_WRITE \<Rightarrow> ''write''
      | SE_EXTERNAL \<Rightarrow> ''external'' | SE_DESTRUCTIVE \<Rightarrow> ''destructive'')"

definition approval_reasons :: "safety_contract list \<Rightarrow> string list" where
  "approval_reasons cs =
     dedup_first (concat (map (\<lambda>c. case approval_reason c of
        Some r \<Rightarrow> if requires_approval c \<and> r \<noteq> [] then [r] else [] | None \<Rightarrow> []) cs))"

definition merge_safety :: "safety_contract list \<Rightarrow> safety_contract option \<Rightarrow> exn + safety_contract" where
  "merge_safety cs dflt =
     (case cs of
        [] \<Rightarrow> (case dflt of Some d \<Rightarrow> Inr d | None \<Rightarrow> ToolSafetyContract empty_payload)
      | c # rest \<Rightarrow>
          ToolSafetyContract (empty_payload
            \<lparr>p_side_effects := Some (side_effect_value
                (max_by SIDE_EFFECT_ORDER (side_effects c) (map side_effects rest))),
             p_stability := Some
                (max_by STABILITY_ORDER (stability_level c) (map stability_level rest)),
             p_determinism := Some
                (max_by DETERMINISM_ORDER (determinism_level c) (map determinism_level rest)),
             p_idempotent := Some (list_all idempotent cs),
             p_cacheable := Some (list_all cacheable cs),
             p_safe_to_retry := Some (list_all safe_to_retry cs),
             p_supports_dry_run := Some (list_all supports_dry_run cs),
             p_requires_approval := Some (list_ex requires_approval cs),
             p_approval_reason :=
                (let r = join_str ''; '' (approval_reasons cs) in if r = [] then None else Some r)\<rparr>))"

section \<open>Facts about contracts\<close>

definition safety_ok :: "safety_contract \<Rightarrow> bool" where
  "safety_ok c \<longleftrightarrow> read_only c = is_read_only (side_effects c)"

text \<open>\<open>c\<close> is at most as restrictive as \<open>d\<close>.\<close>

definition safety_le :: "safety_contract \<Rightarrow> safety_contract \<Rightarrow> bool" where
  "safety_le c d \<longleftrightarrow>
     side_effects c \<le> side_effects d \<and> stability_level c \<le> stability_level d \<and>
     determinism_level c \<le> determinism_level d \<and>
     (idempotent d \<longrightarrow> idempotent c) \<and> (cacheable d \<longrightarrow> cacheable c) \<and>
     (safe_to_retry d \<longrightarrow> safe_to_retry c) \<and> (supports_dry_run d \<longrightarrow> supports_dry_run c) \<and>
     (requires_approval c \<longrightarrow> requires_approval d)"

lemma side_effect_of_value [simp]: "side_effect_of (side_effect_value s) = Inr s"
  by (cases s) (simp_all add: side_effect_of_def side_effect_value_def)

lemma ToolSafetyContract_ok: "ToolSafetyContract p = Inr c \<Longrightarrow> safety_ok c"
  by (auto simp: ToolSafetyContract_def bind_err_Inr_iff validate_read_only_def safety_ok_def
      split: if_splits)

lemma side_effect_exceeds_iff: "side_effect_exceeds a b \<longleftrightarrow> b < a"
  by (simp add: side_effect_exceeds_def less_side_effect_def)

lemma ToolSafetyContract_plain:
  assumes "p_requires_review p = None" and "p_read_only p = None"
    and "p_side_effects p = Some (side_effect_value s)"
  shows "ToolSafetyContract p = Inr
     \<lparr>side_effects = s, read_only = is_read_only s,
      stability_level = default_arg (p_stability p) STABLE,
      determinism_level = default_arg (p_determinism p) DET_FULL,
      idempotent = default_arg (p_idempotent p) True,
      cacheable = default_arg (p_cacheable p) True,
      safe_to_retry = default_arg (p_safe_to_retry p) True,
      supports_dry_run = default_arg (p_supports_dry_run p) False,
      requires_approval = default_arg (p_requires_approval p) False,
      approval_reason = p_approval_reason p\<rparr>"
  using assms
  by (simp add: ToolSafetyContract_def normalise_input_def normalise_review_def default_arg_def
      validate_read_only_def)

lemma ToolSafetyContract_empty: "ToolSafetyContract empty_payload = Inr default_safety"
  by code_simp

lemma max_by_least:
  "(\<And>x. x \<in> insert a (set xs) \<Longrightarrow> r x \<le> n) \<Longrightarrow> r (max_by r a xs) \<le> n"
  using max_by_mem [of r a xs] by blast

lemma merge_safety_cons:
  obtains m where "merge_safety (c # cs) d = Inr m" "safety_ok m"
    "side_effects m = max_by SIDE_EFFECT_ORDER (side_effects c) (map side_effects cs)"
    "stability_level m = max_by STABILITY_ORDER (stability_level c) (map stability_level cs)"
    "determinism_level m =
       max_by DETERMINISM_ORDER (determinism_level c) (map determinism_level cs)"
    "idempotent m = list_all idempotent (c # cs)" "cacheable m = list_all cacheable (c # cs)"
    "safe_to_retry m = list_all safe_to_retry (c # cs)"
    "supports_dry_run m = list_all supports_dry_run (c # cs)"
    "requires_approval m = list_ex requires_approval (c # cs)"
proof -
  let ?m = "\<lparr>side_effects = max_by SIDE_EFFECT_ORDER (side_effects c) (map side_effects cs),
      read_only = is_read_only (max_by SIDE_EFFECT_ORDER (side_effects c) (map side_effects cs)),
      stability_level = max_by STABILITY_ORDER (stability_level c) (map stability_level cs),
      determinism_level = max_by DETERMINISM_ORDER (determinism_level c) (map determinism_level cs),
      idempotent = list_all idempotent (c # cs), cacheable = list_all cacheable (c # cs),
      safe_to_retry = list_all safe_to_retry (c # cs),
      supports_dry_run = list_all supports_dry_run (c # cs),
      requires_approval = list_ex requires_approval (c # cs),
      approval_reason = (let r = join_str ''; '' (approval_reasons (c # cs))
                         in if r = [] then None else Some r)\<rparr>"
  have "merge_safety (c # cs) d = Inr ?m"
    unfolding merge_safety_def list.case
    by (subst ToolSafetyContract_plain) (simp_all add: empty_payload_def default_arg_def)
  then show thesis
    by (rule that) (simp_all add: safety_ok_def)
qed

lemma merge_safety_least:
  assumes "cs \<noteq> []"
  shows "\<exists>m. merge_safety cs d = Inr m \<and> safety_ok m \<and> (\<forall>c \<in> set cs. safety_le c m) \<and>
     (\<forall>u. (\<forall>c \<in> set cs. safety_le c u) \<longrightarrow> safety_le m u)"
proof -
  from assms obtain c rest where cs: "cs = c # rest"
    by (cases cs) auto
  from merge_safety_cons [of c rest d] obtain m where m: "merge_safety cs d = Inr m" "safety_ok m"
    "side_effects m = max_by SIDE_EFFECT_ORDER (side_effects c) (map side_effects rest)"
    "stability_level m = max_by STABILITY_ORDER (stability_level c) (map stability_level rest)"
    "determinism_level m =
       max_by DETERMINISM_ORDER (determinism_level c) (map determinism_level rest)"
    and b: "idempotent m = list_all idempotent cs" "cacheable m = list_all cacheable cs"
    "safe_to_retry m = list_all safe_to_retry cs"
    "supports_dry_run m = list_all supports_dry_run cs"
    "requires_approval m = list_ex requires_approval cs"
    unfolding cs by blast
  note ord = less_eq_side_effect_def less_eq_stability_def less_eq_determinism_def
  have ub: "safety_le x m" if "x \<in> set cs" for x
    using that max_by_ge [of "side_effects x" "side_effects c" "map side_effects rest"]
      max_by_ge [of "stability_level x" "stability_level c" "map stability_level rest"]
      max_by_ge [of "determinism_level x" "determinism_level c" "map determinism_level rest"]
    by (auto simp: safety_le_def ord m b cs list_all_iff list_ex_iff)
  moreover have "safety_le m u" if u: "\<forall>x \<in> set cs. safety_le x u" for u
  proof -
    have f: "side_effects x \<le> side_effects u" "stability_level x \<le> stability_level u"
      "determinism_level x \<le> determinism_level u" "idempotent u \<longrightarrow> idempotent x"
      "cacheable u \<longrightarrow> cacheable x" "safe_to_retry u \<longrightarrow> safe_to_retry x"
      "supports_dry_run u \<longrightarrow> supports_dry_run x" "requires_approval x \<longrightarrow> requires_approval u"
      if "x \<in> set cs" for x
      using bspec [OF u that] by (simp_all add: safety_le_def)
    have "side_effects m \<le> side_effects u"
      unfolding ord m by (rule max_by_least) (use f(1) in \<open>fastforce simp: cs ord\<close>)
    moreover have "stability_level m \<le> stability_level u"
      unfolding ord m by (rule max_by_least) (use f(2) in \<open>fastforce simp: cs ord\<close>)
    moreover have "determinism_level m \<le> determinism_level u"
      unfolding ord m by (rule max_by_least) (use f(3) in \<open>fastforce simp: cs ord\<close>)
    moreover have "idempotent u \<longrightarrow> idempotent m" "cacheable u \<longrightarrow> cacheable m"
      "safe_to_retry u \<longrightarrow> safe_to_retry m" "supports_dry_run u \<longrightarrow> supports_dry_run m"
      "requires_approval m \<longrightarrow> requires_approval u"
      unfolding b list_all_iff list_ex_iff using f(4-8) by blast+
    ultimately show ?thesis
      by (simp add: safety_le_def)
  qed
  ultimately show ?thesis
    using m(1,2) by blast
qed

lemma merge_safety_upper:
  "merge_safety cs d = Inr m \<Longrightarrow> c \<in> set cs \<Longrightarrow> safety_le c m"
  using merge_safety_least [of cs d] by fastforce

text \<open>
  C2: Merging the contracts of a non-empty list succeeds, and the merge is the least upper bound
  of the list in the order of restrictiveness: it is consistent, no constituent is more
  restrictive than it, and every contract that bounds all the constituents bounds it.
\<close>

theorem merge_safety_lub:
  assumes "cs \<noteq> []"
  shows "\<exists>m. merge_safety cs d = Inr m \<and> safety_ok m \<and> (\<forall>c \<in> set cs. safety_le c m) \<and>
     (\<forall>u. (\<forall>c \<in> set cs. safety_le c u) \<longrightarrow> safety_le m u)"
  using assms by (rule merge_safety_least)

theorem merge_safety_lub_witness:
  "\<exists>m. merge_safety [default_safety, default_safety\<lparr>side_effects := SE_WRITE, read_only := False\<rparr>] None
       = Inr m \<and> safety_ok m \<and> safety_le default_safety m"
  using merge_safety_lub [of "[default_safety,
      default_safety\<lparr>side_effects := SE_WRITE, read_only := False\<rparr>]" None]
  by auto

section \<open>Branch predicates\<close>

datatype unop = UNot | USub | UAdd | UOther string

datatype cmpop = CEq | CNotEq | CLt | CLtE | CGt | CGtE | CIn | CNotIn | COther string

datatype (plugins only: code size) pexpr =
    Constant val
  | Name string
  | Subscript pexpr pexpr
  | UnaryOp unop pexpr
  | BoolAnd "pexpr list"
  | BoolOr "pexpr list"
  | Compare pexpr "(cmpop \<times> pexpr) list"
  | ListDisplay "pexpr list" \<comment> \<open>\<open>ast.Tuple\<close> and \<open>ast.List\<close>\<close>
  | SetDisplay "pexpr list"
  | Unsupported string \<comment> \<open>any node class outside \<open>_ALLOWED_AST_NODES\<close>\<close>

text \<open>\<open>_COMPARATORS\<close>: \<open>None\<close> for an operator outside the table.\<close>

definition comparator :: "cmpop \<Rightarrow> (val \<Rightarrow> val \<Rightarrow> exn + bool) option" where
  "comparator op =
     (case op of
        CEq \<Rightarrow> Some (\<lambda>a b. Inr (py_eq a b))
      | CNotEq \<Rightarrow> Some (\<lambda>a b. Inr (\<not> py_eq a b))
      | CLt \<Rightarrow> Some py_less
      | CLtE \<Rightarrow> Some py_le
      | CGt \<Rightarrow> Some (\<lambda>a b. py_less b a)
      | CGtE \<Rightarrow> Some (\<lambda>a b. py_le b a)
      | CIn \<Rightarrow> Some py_in
      | CNotIn \<Rightarrow> Some (\<lambda>a b. bind_err (py_in a b) (\<lambda>r. Inr (\<not> r)))
      | COther _ \<Rightarrow> None)"

type_synonym evaluator = "val dict \<Rightarrow> exn + val"

text \<open>
  The branches of \<open>_eval\<close> that take several operands.  An operand is handed over as its own
  evaluator and is run only when the loop of the code reaches it.
\<close>

definition name_lookup :: "string \<Rightarrow> evaluator" where
  "name_lookup ident ctx =
     (if ident = ''True'' then Inr (VBool True)
      else if ident = ''False'' then Inr (VBool False)
      else if ident = ''None'' then Inr VNone
      else (case dict_get ctx ident of
              None \<Rightarrow> Inl (PredicateSyntaxError (''not in the execution context: '' @ ident))
            | Some v \<Rightarrow> Inr v))"

definition subscript_lookup :: "val \<Rightarrow> val \<Rightarrow> exn + val" where
  "subscript_lookup c k =
     (case py_subscript c k of
        None \<Rightarrow> Inl (PredicateSyntaxError ''subscript lookup failed'') | Some v \<Rightarrow> Inr v)"

definition unary :: "unop \<Rightarrow> val \<Rightarrow> exn + val" where
  "unary op v =
     (case op of
        UNot \<Rightarrow> Inr (VBool (\<not> truthy v))
      | USub \<Rightarrow> py_neg v
      | UAdd \<Rightarrow> py_pos v
      | UOther s \<Rightarrow> Inl (PredicateSyntaxError (''unsupported unary op '' @ s)))"

primrec and_loop :: "evaluator list \<Rightarrow> val \<Rightarrow> evaluator" where
  "and_loop [] result ctx = Inr result"
| "and_loop (e # es) result ctx =
     bind_err (e ctx) (\<lambda>v. if truthy v then and_loop es v ctx else Inr v)"

primrec or_loop :: "evaluator list \<Rightarrow> val \<Rightarrow> evaluator" where
  "or_loop [] result ctx = Inr result"
| "or_loop (e # es) result ctx =
     bind_err (e ctx) (\<lambda>v. if truthy v then Inr v else or_loop es v ctx)"

primrec compare_loop :: "(cmpop \<times> evaluator) list \<Rightarrow> val \<Rightarrow> evaluator" where
  "compare_loop [] left ctx = Inr (VBool True)"
| "compare_loop (oe # oes) left ctx =
     bind_err (snd oe ctx) (\<lambda>right.
       case comparator (fst oe) of
         None \<Rightarrow> Inl (PredicateSyntaxError ''unsupported comparison operator'')
       | Some f \<Rightarrow> bind_err (f left right) (\<lambda>b.
           if b then compare_loop oes right ctx else Inr (VBool False)))"

primrec eval_list :: "evaluator list \<Rightarrow> val dict \<Rightarrow> exn + val list" where
  "eval_list [] ctx = Inr []"
| "eval_list (e # es) ctx =
     bind_err (e ctx) (\<lambda>v. bind_err (eval_list es ctx) (\<lambda>vs. Inr (v # vs)))"

primrec eval :: "pexpr \<Rightarrow> evaluator" where
  "eval (Constant v) = (\<lambda>ctx. Inr v)"
| "eval (Name x) = name_lookup x"
| "eval (Subscript c k) =
     (\<lambda>ctx. bind_err (eval c ctx) (\<lambda>cv. bind_err (eval k ctx) (\<lambda>kv. subscript_lookup cv kv)))"
| "eval (UnaryOp op e) = (\<lambda>ctx. bind_err (eval e ctx) (unary op))"
| "eval (BoolAnd es) = and_loop (map eval es) (VBool True)"
| "eval (BoolOr es) = or_loop (map eval es) (VBool False)"
| "eval (Compare e rest) =
     (\<lambda>ctx. bind_err (eval e ctx) (\<lambda>l. compare_loop (map (map_prod id eval) rest) l ctx))"
| "eval (ListDisplay es) = (\<lambda>ctx. bind_err (eval_list (map eval es) ctx) (\<lambda>vs. Inr (VList vs)))"
| "eval (SetDisplay es) = (\<lambda>ctx. bind_err (eval_list (map eval es) ctx) py_set)"
| "eval (Unsupported n) =
     (\<lambda>ctx. Inl (PredicateSyntaxError (''unsupported expression node '' @ n)))"

definition evaluate_predicate ::
  "(string \<Rightarrow> string + pexpr) \<Rightarrow> string \<Rightarrow> val dict \<Rightarrow> exn + bool" where
  "evaluate_predicate parse predicate ctx =
     (case parse predicate of
        Inl msg \<Rightarrow> Inl (PredicateSyntaxError (''syntax error: '' @ msg))
      | Inr tree \<Rightarrow> bind_err (eval tree ctx) (\<lambda>v. Inr (truthy v)))"

section \<open>Facts about predicates\<close>

text \<open>The names an expression reads.\<close>

primrec names_of :: "pexpr \<Rightarrow> string set" where
  "names_of (Constant v) = {}"
| "names_of (Name x) = {x}"
| "names_of (Subscript c k) = names_of c \<union> names_of k"
| "names_of (UnaryOp op e) = names_of e"
| "names_of (BoolAnd es) = \<Union> (set (map names_of es))"
| "names_of (BoolOr es) = \<Union> (set (map names_of es))"
| "names_of (Compare e rest) = names_of e \<union> \<Union> (snd ` set (map (map_prod id names_of) rest))"
| "names_of (ListDisplay es) = \<Union> (set (map names_of es))"
| "names_of (SetDisplay es) = \<Union> (set (map names_of es))"
| "names_of (Unsupported n) = {}"

lemma and_loop_cong: "\<forall>e \<in> set es. e c = e d \<Longrightarrow> and_loop es v c = and_loop es v d"
  by (induction es arbitrary: v) (simp_all cong: bind_err_cong if_cong)

lemma or_loop_cong: "\<forall>e \<in> set es. e c = e d \<Longrightarrow> or_loop es v c = or_loop es v d"
  by (induction es arbitrary: v) (simp_all cong: bind_err_cong if_cong)

lemma eval_list_cong: "\<forall>e \<in> set es. e c = e d \<Longrightarrow> eval_list es c = eval_list es d"
  by (induction es) (simp_all cong: bind_err_cong)

lemma compare_loop_cong:
  "\<forall>oe \<in> set oes. snd oe c = snd oe d \<Longrightarrow> compare_loop oes v c = compare_loop oes v d"
proof (induction oes arbitrary: v)
  case (Cons oe oes)
  then have "snd oe c = snd oe d" and ih: "\<And>v. compare_loop oes v c = compare_loop oes v d"
    by auto
  then show ?case
    by (simp only: compare_loop.simps ih)
qed simp

lemma eval_local:
  "(\<And>x. x \<in> names_of e \<Longrightarrow> dict_get c x = dict_get d x) \<Longrightarrow> eval e c = eval e d"
proof (induction e)
  case (Compare e rest)
  have "eval e c = eval e d"
    using Compare by auto
  moreover have "\<forall>oe \<in> set (map (map_prod id eval) rest). snd oe c = snd oe d"
  proof
    fix oe
    assume "oe \<in> set (map (map_prod id eval) rest)"
    then obtain p where p: "p \<in> set rest" "oe = map_prod id eval p"
      by auto
    have "eval (snd p) c = eval (snd p) d"
      by (rule Compare.IH(2) [of p]) (use p Compare.prems in \<open>auto simp: prod_set_defs\<close>)
    with p show "snd oe c = snd oe d"
      by simp
  qed
  then have "compare_loop (map (map_prod id eval) rest) v c =
      compare_loop (map (map_prod id eval) rest) v d" for v
    by (rule compare_loop_cong)
  ultimately show ?case
    by (simp only: eval.simps)
next
  case (Name x)
  then show ?case by (simp add: name_lookup_def)
next
  case (BoolAnd es)
  then have "\<forall>e \<in> set (map eval es). e c = e d" by auto
  then show ?case by (simp add: and_loop_cong)
next
  case (BoolOr es)
  then have "\<forall>e \<in> set (map eval es). e c = e d" by auto
  then show ?case by (simp add: or_loop_cong)
next
  case (ListDisplay es)
  then have "\<forall>e \<in> set (map eval es). e c = e d" by auto
  then show ?case by (simp add: eval_list_cong [of "map eval es" c d])
next
  case (SetDisplay es)
  then have "\<forall>e \<in> set (map eval es). e c = e d" by auto
  then show ?case by (simp add: eval_list_cong [of "map eval es" c d])
next
  case (Subscript e f)
  then have "eval e c = eval e d" "eval f c = eval f d" by auto
  then show ?case by simp
next
  case (UnaryOp op e)
  then have "eval e c = eval e d" by auto
  then show ?case by simp
qed simp_all

text \<open>The classes of exception that an evaluation may raise.\<close>

fun predicate_exn :: "exn \<Rightarrow> bool" where
  "predicate_exn (PredicateSyntaxError _) = True"
| "predicate_exn (PyTypeError _) = True"
| "predicate_exn _ = False"

definition errs_ok :: "exn + 'a \<Rightarrow> bool" where
  "errs_ok r = (case r of Inl e \<Rightarrow> predicate_exn e | Inr _ \<Rightarrow> True)"

lemma errs_ok_simps [simp]: "errs_ok (Inl e) = predicate_exn e" "errs_ok (Inr v)"
  by (simp_all add: errs_ok_def)

lemma errs_ok_bind: "errs_ok x \<Longrightarrow> (\<And>a. x = Inr a \<Longrightarrow> errs_ok (f a)) \<Longrightarrow> errs_ok (bind_err x f)"
  by (cases x) auto

lemma errs_ok_less: "errs_ok (py_less a b)" "errs_ok (py_less_list xs ys)"
  by (induction a b and xs ys rule: py_less_py_less_list.induct)
     (auto split: val.splits option.splits list.splits)

lemma errs_ok_le: "errs_ok (py_le a b)" "errs_ok (py_le_list xs ys)"
  by (induction a b and xs ys rule: py_le_py_le_list.induct)
     (auto split: val.splits option.splits list.splits)

lemma errs_ok_in: "errs_ok (py_in a b)"
  by (cases b) (auto split: val.splits)

lemma errs_ok_comparator: "comparator op = Some f \<Longrightarrow> errs_ok (f a b)"
  by (cases op) (auto simp: comparator_def errs_ok_less errs_ok_le errs_ok_in intro!: errs_ok_bind)

lemma errs_ok_and: "\<forall>e \<in> set es. errs_ok (e c) \<Longrightarrow> errs_ok (and_loop es v c)"
  by (induction es arbitrary: v) (auto intro!: errs_ok_bind)

lemma errs_ok_or: "\<forall>e \<in> set es. errs_ok (e c) \<Longrightarrow> errs_ok (or_loop es v c)"
  by (induction es arbitrary: v) (auto intro!: errs_ok_bind)

lemma errs_ok_list: "\<forall>e \<in> set es. errs_ok (e c) \<Longrightarrow> errs_ok (eval_list es c)"
  by (induction es) (auto intro!: errs_ok_bind)

lemma errs_ok_compare: "\<forall>oe \<in> set oes. errs_ok (snd oe c) \<Longrightarrow> errs_ok (compare_loop oes v c)"
  by (induction oes arbitrary: v)
     (auto intro!: errs_ok_bind errs_ok_comparator split: option.splits)

lemma errs_ok_unary: "errs_ok (unary op v)"
  by (cases op) (auto simp: unary_def py_neg_def py_pos_def split: option.splits)

lemma errs_ok_set: "errs_ok (py_set vs)"
  by (simp add: py_set_def)

lemma errs_ok_subscript: "errs_ok (subscript_lookup c k)"
  by (simp add: subscript_lookup_def split: option.splits)

lemma errs_ok_eval: "errs_ok (eval e c)"
proof (induction e)
  case (Compare e rest)
  then have "errs_ok (compare_loop (map (map_prod id eval) rest) v c)" for v
    by (intro errs_ok_compare) (force simp: prod_set_defs)
  with Compare show ?case
    by (auto intro: errs_ok_bind)
qed (auto simp: name_lookup_def split: option.splits
      intro!: errs_ok_bind errs_ok_and errs_ok_or errs_ok_list errs_ok_unary errs_ok_set
        errs_ok_subscript)

text \<open>
  A branch predicate reads nothing but the context entries it names: two contexts that agree
  on those names give the same verdict or the same error, whatever else they hold.
\<close>

theorem evaluate_predicate_local:
  assumes "parse p = Inr tree" and "\<forall>x \<in> names_of tree. dict_get c x = dict_get d x"
  shows "evaluate_predicate parse p c = evaluate_predicate parse p d"
  using eval_local [of tree c d] assms by (simp add: evaluate_predicate_def)

theorem evaluate_predicate_local_witness:
  "evaluate_predicate (\<lambda>_. Inr (Compare (Name ''n'') [(CGt, Constant (VInt 0))])) ''n > 0''
      [(''n'', VInt 3), (''secret'', VStr ''a'')] =
   evaluate_predicate (\<lambda>_. Inr (Compare (Name ''n'') [(CGt, Constant (VInt 0))])) ''n > 0''
      [(''other'', VNone), (''n'', VInt 3)]"
  by (rule evaluate_predicate_local [OF refl]) (simp add: prod_set_defs)

text \<open>
  C4: Evaluating a predicate raises nothing but \<open>PredicateSyntaxError\<close> and \<open>TypeError\<close>; the
  second class does occur, for an ordering of operands that Python does not order, although the
  documentation of the function names the first one only.
\<close>

theorem evaluate_predicate_errors:
  "(\<forall>e. evaluate_predicate parse p c = Inl e \<longrightarrow> predicate_exn e) \<and>
   evaluate_predicate (\<lambda>_. Inr (Compare (Name ''n'') [(CLt, Constant (VInt 3))])) ''n < 3''
     [(''n'', VStr ''a'')] = Inl (PyTypeError ''<'')"
proof
  have "errs_ok (evaluate_predicate parse p c)"
    by (auto simp: evaluate_predicate_def errs_ok_eval intro: errs_ok_bind split: sum.splits)
  then show "\<forall>e. evaluate_predicate parse p c = Inl e \<longrightarrow> predicate_exn e"
    by auto
qed code_simp

theorem evaluate_predicate_errors_witness:
  "predicate_exn (PredicateSyntaxError ''unsupported expression node Call'')"
proof -
  have "evaluate_predicate (\<lambda>_. Inr (Unsupported ''Call'')) ''f()'' [] =
      Inl (PredicateSyntaxError ''unsupported expression node Call'')"
    by code_simp
  then show ?thesis
    using evaluate_predicate_errors by blast
qed

end
