(* ===== verification/FlowModel.thy ===== *)
theory FlowModel
  imports Complex_Main Contracts
begin

text \<open>
  The declarative data of \<open>chainweaver/flow/\<close>: class references with the module policy, the
  governance lifecycle, retry policies, linear and DAG steps with their validators, and flows.
  \<open>Flow\<close> and \<open>DAGFlow\<close> have the same fields but for the type of their steps, so they are
  one record \<open>'s flow_def\<close>; \<open>any_flow\<close> is the union the registry stores.  A \<open>float\<close> delay
  of a retry policy is the rational number it denotes.
\<close>

section \<open>Class references\<close>

text \<open>\<open>SchemaRefAllowlist.__call__\<close>.\<close>

definition allowlist :: "string list \<Rightarrow> string \<Rightarrow> bool" where
  "allowlist allowed module_path =
     list_ex (\<lambda>p. module_path = p \<or> take (length p + 1) module_path = p @ ''.'') allowed"

text \<open>\<open>ref.split(":", 1)\<close>; \<open>None\<close> when there is no colon.\<close>

fun split_ref :: "string \<Rightarrow> (string \<times> string) option" where
  "split_ref [] = None"
| "split_ref (c # s) =
     (if c = CHR '':'' then Some ([], s)
      else map_option (\<lambda>(m, q). (c # m, q)) (split_ref s))"

text \<open>
  \<open>resolve_class_ref\<close>.  Importing the module and looking the class up in it is the argument
  \<open>load\<close>; \<open>is_base\<close> is the test \<open>issubclass(obj, expected_base)\<close>.
\<close>

definition resolve_class_ref ::
  "(string \<Rightarrow> bool) option \<Rightarrow> (string \<Rightarrow> string \<Rightarrow> string + 'cls) \<Rightarrow> ('cls \<Rightarrow> bool) \<Rightarrow> string \<Rightarrow> exn + 'cls"
where
  "resolve_class_ref policy load is_base ref =
     (case split_ref ref of
        None \<Rightarrow> Inl (FlowSerializationError ''must be in module:qualname form'')
      | Some (module_path, qualname) \<Rightarrow>
          (if (case policy of None \<Rightarrow> False | Some p \<Rightarrow> \<not> p module_path)
           then Inl (SchemaRefPolicyError module_path ref)
           else (case load module_path qualname of
                   Inl msg \<Rightarrow> Inl (FlowSerializationError msg)
                 | Inr cls \<Rightarrow>
                     (if is_base cls then Inr cls
                      else Inl (FlowSerializationError ''is not a subclass'')))))"

section \<open>Governance\<close>

datatype lifecycle =
  LC_OBSERVED | LC_SUGGESTED | LC_DRAFT | LC_REVIEWED | LC_ACTIVE | LC_IGNORED | LC_ARCHIVED

primrec LIFECYCLE_TRANSITIONS :: "lifecycle \<Rightarrow> lifecycle list" where
  "LIFECYCLE_TRANSITIONS LC_OBSERVED = [LC_SUGGESTED, LC_IGNORED]"
| "LIFECYCLE_TRANSITIONS LC_SUGGESTED = [LC_DRAFT, LC_IGNORED]"
| "LIFECYCLE_TRANSITIONS LC_DRAFT = [LC_REVIEWED, LC_IGNORED]"
| "LIFECYCLE_TRANSITIONS LC_REVIEWED = [LC_DRAFT, LC_ACTIVE, LC_ARCHIVED]"
| "LIFECYCLE_TRANSITIONS LC_ACTIVE = [LC_ARCHIVED]"
| "LIFECYCLE_TRANSITIONS LC_IGNORED = [LC_SUGGESTED]"
| "LIFECYCLE_TRANSITIONS LC_ARCHIVED = [LC_REVIEWED]"

record flow_governance =
  lifecycle :: lifecycle
  owner :: "string option"
  replaces_tools :: "string list"
  estimated_model_calls_removed :: nat
  estimated_token_savings :: "nat option"
  reviewed_by :: "string option"
  review_notes :: "string option"

definition default_governance :: flow_governance where
  "default_governance =
     \<lparr>lifecycle = LC_ACTIVE, owner = None, replaces_tools = [], estimated_model_calls_removed = 0,
      estimated_token_savings = None, reviewed_by = None, review_notes = None\<rparr>"

definition transition_to ::
  "flow_governance \<Rightarrow> lifecycle \<Rightarrow> string option \<Rightarrow> string option \<Rightarrow> exn + flow_governance" where
  "transition_to g target by_whom notes =
     (if target \<notin> set (LIFECYCLE_TRANSITIONS (lifecycle g))
      then Inl (ValueError ''Flow lifecycle cannot transition'')
      else
        (let g1 = g\<lparr>lifecycle := target\<rparr>;
             g2 = (case by_whom of None \<Rightarrow> g1 | Some r \<Rightarrow> g1\<lparr>reviewed_by := Some r\<rparr>)
         in Inr (case notes of None \<Rightarrow> g2 | Some n \<Rightarrow> g2\<lparr>review_notes := Some n\<rparr>)))"

section \<open>Retry policies\<close>

record retry_policy =
  max_retries :: nat
  backoff_seconds :: rat
  backoff_multiplier :: rat
  jitter :: bool
  retryable_errors :: "string list"

text \<open>The field constraints and \<open>_validate_retryable_errors\<close>.\<close>

definition retry_policy_ok :: "retry_policy \<Rightarrow> bool" where
  "retry_policy_ok p =
     (0 \<le> backoff_seconds p \<and> 1 \<le> backoff_multiplier p \<and> retryable_errors p \<noteq> [] \<and>
      list_all (\<lambda>r. CHR '':'' \<in> set r) (retryable_errors p))"

definition default_retry_policy :: retry_policy where
  "default_retry_policy =
     \<lparr>max_retries = 3, backoff_seconds = 1, backoff_multiplier = 2, jitter = False,
      retryable_errors = [''builtins:Exception'']\<rparr>"

text \<open>\<open>compute_delay\<close>; the argument \<open>u\<close> is the sample \<open>random.random()\<close>.\<close>

definition compute_delay :: "rat \<Rightarrow> retry_policy \<Rightarrow> int \<Rightarrow> rat" where
  "compute_delay u p attempt_number =
     (if attempt_number < 1 then 0
      else (let delay = backoff_seconds p * backoff_multiplier p ^ nat (attempt_number - 1)
            in if jitter p then delay * (1 / 2 + u) else delay))"

definition resolved_retryable_errors ::
  "(string \<Rightarrow> exn + 'cls) \<Rightarrow> retry_policy \<Rightarrow> exn + 'cls list" where
  "resolved_retryable_errors resolve p = map_err resolve (retryable_errors p)"

section \<open>Steps\<close>

record flow_step =
  s_tool_name :: "string option"
  s_flow_name :: "string option"
  s_input_mapping :: "val dict"
  s_output_mapping :: "(string \<times> string) list option"
  s_retry :: "retry_policy option"
  s_on_error :: string
  s_decision_candidates :: "string list option"
  s_input_contract :: "string option"
  s_output_contract :: "string option"

definition mk_step :: flow_step where
  "mk_step =
     \<lparr>s_tool_name = None, s_flow_name = None, s_input_mapping = [], s_output_mapping = None,
      s_retry = None, s_on_error = ''fail'', s_decision_candidates = None,
      s_input_contract = None, s_output_contract = None\<rparr>"

text \<open>How \<open>on_error\<close> reads: \<open>Unknown\<close> is excluded by the validator.\<close>

datatype error_policy = Fail | Skip | Fallback string | Unknown

definition error_policy_of :: "string \<Rightarrow> error_policy" where
  "error_policy_of v =
     (if v = ''fail'' then Fail
      else if v = ''skip'' then Skip
      else if take 9 v = ''fallback:'' \<and> 9 < length v then Fallback (drop 9 v)
      else Unknown)"

definition candidates_err :: "string list option \<Rightarrow> exn option" where
  "candidates_err cands =
     (case cands of
        None \<Rightarrow> None
      | Some cs \<Rightarrow>
          (if length cs < 1
           then Some (ValidationError ''decision_candidates must contain at least one tool name.'')
           else if \<not> distinct cs
           then Some (ValidationError ''decision_candidates must not contain duplicates.'')
           else None))"

definition on_error_err :: "string \<Rightarrow> exn option" where
  "on_error_err v =
     (if error_policy_of v = Unknown then Some (ValidationError ''on_error must be fail, skip, or fallback'')
      else None)"

definition tool_or_flow_err :: "'a flow_step_scheme \<Rightarrow> exn option" where
  "tool_or_flow_err s =
     (if (s_tool_name s = None) = (s_flow_name s = None)
      then Some (ValidationError ''FlowStep requires exactly one of tool_name or flow_name'')
      else if s_flow_name s \<noteq> None \<and> s_decision_candidates s \<noteq> None
      then Some (ValidationError ''decision_candidates is only valid for tool steps'')
      else None)"

definition default_candidate_err :: "'a flow_step_scheme \<Rightarrow> exn option" where
  "default_candidate_err s =
     (case s_decision_candidates s of
        None \<Rightarrow> None
      | Some cs \<Rightarrow>
          (if (case s_tool_name s of None \<Rightarrow> True | Some t \<Rightarrow> t \<notin> set cs)
           then Some (ValidationError ''tool_name must be a member of decision_candidates'')
           else None))"

text \<open>Building a \<open>FlowStep\<close>: the field validators, then the model validators in order.\<close>

definition step_err :: "'a flow_step_scheme \<Rightarrow> exn option" where
  "step_err s =
     first_err id
       [on_error_err (s_on_error s), candidates_err (s_decision_candidates s),
        tool_or_flow_err s, default_candidate_err s]"

text \<open>\<open>display_name\<close>: the empty tool name is falsy, and the assertion fails for it.\<close>

definition py_or :: "string option \<Rightarrow> string option \<Rightarrow> string option" where
  "py_or a b = (case a of None \<Rightarrow> b | Some s \<Rightarrow> if s = [] then b else a)"

definition display_name :: "'a flow_step_scheme \<Rightarrow> exn + string" where
  "display_name s =
     (case py_or (s_tool_name s) (s_flow_name s) of
        None \<Rightarrow> Inl PyAssertionError | Some n \<Rightarrow> Inr n)"

record conditional_edge =
  target_step_id :: string
  predicate :: string

datatype step_kind = KTool | KCapability

record dag_step = flow_step +
  d_step_id :: string
  d_depends_on :: "string list"
  d_step_type :: step_kind
  d_capability_id :: "string option"
  d_branches :: "conditional_edge list"
  d_default_next :: "string option"

definition dag_step_err :: "dag_step \<Rightarrow> exn option" where
  "dag_step_err s =
     first_err id
       [step_err s,
        (if d_step_type s = KTool \<and> d_capability_id s \<noteq> None
         then Some (ValidationError ''capability_id must be None for tool steps.'') else None),
        (if d_default_next s \<noteq> None \<and> d_branches s = []
         then Some (ValidationError ''sets default_next but has no branches'') else None),
        (if d_step_type s = KCapability \<and> d_branches s \<noteq> []
         then Some (ValidationError ''capability steps cannot carry branches'') else None)]"

section \<open>Flows\<close>

datatype flow_status = ACTIVE | NEEDS_REVIEW | DISABLED

datatype collision_policy = Overwrite | Warn | Error

record 's flow_def =
  f_name :: string
  f_version :: string
  f_description :: string
  f_steps :: "'s list"
  f_deterministic :: bool
  f_status :: flow_status
  f_trigger_conditions :: "val dict option"
  f_input_schema_ref :: "string option"
  f_output_schema_ref :: "string option"
  f_context_schema_ref :: "string option"
  f_tool_schema_hashes :: "(string \<times> string) list option"
  f_capability_id :: "string option"
  f_governance :: flow_governance
  f_safety :: "safety_contract option"
  f_on_context_collision :: collision_policy
  f_dynamic_params :: "string list"

type_synonym flow = "flow_step flow_def"
type_synonym dag_flow = "dag_step flow_def"

datatype any_flow = LinearFlow flow | DagFlow dag_flow

text \<open>The defaults of the fields of \<open>Flow\<close>.\<close>

definition mk_flow :: "string \<Rightarrow> 's list \<Rightarrow> 's flow_def" where
  "mk_flow n ss =
     \<lparr>f_name = n, f_version = ''0.1.0'', f_description = [], f_steps = ss, f_deterministic = True,
      f_status = ACTIVE, f_trigger_conditions = None, f_input_schema_ref = None,
      f_output_schema_ref = None, f_context_schema_ref = None, f_tool_schema_hashes = None,
      f_capability_id = None, f_governance = default_governance, f_safety = None,
      f_on_context_collision = Warn, f_dynamic_params = []\<rparr>"

definition nonempty_opt :: "'a list option \<Rightarrow> bool" where
  "nonempty_opt x = (case x of None \<Rightarrow> False | Some xs \<Rightarrow> xs \<noteq> [])"

text \<open>\<open>Flow.determinism_level\<close> and \<open>DAGFlow.determinism_level\<close>.\<close>

definition determinism_of_flow :: "flow \<Rightarrow> determinism" where
  "determinism_of_flow f =
     (if \<not> f_deterministic f then DET_NONE
      else if list_ex (\<lambda>s. nonempty_opt (s_decision_candidates s)) (f_steps f) then DET_PARTIAL
      else DET_FULL)"

definition determinism_of_dag :: "dag_flow \<Rightarrow> determinism" where
  "determinism_of_dag f =
     (if \<not> f_deterministic f then DET_NONE
      else if list_ex (\<lambda>s. d_branches s \<noteq> [] \<or> nonempty_opt (s_decision_candidates s)) (f_steps f)
      then DET_PARTIAL
      else DET_FULL)"

text \<open>The fields the two kinds of flow share, read from the union.\<close>

definition on_flow :: "(flow \<Rightarrow> 'a) \<Rightarrow> (dag_flow \<Rightarrow> 'a) \<Rightarrow> any_flow \<Rightarrow> 'a" where
  "on_flow f g x = (case x of LinearFlow l \<Rightarrow> f l | DagFlow d \<Rightarrow> g d)"

definition af_name :: "any_flow \<Rightarrow> string" where "af_name = on_flow f_name f_name"
definition af_version :: "any_flow \<Rightarrow> string" where "af_version = on_flow f_version f_version"
definition af_status :: "any_flow \<Rightarrow> flow_status" where "af_status = on_flow f_status f_status"
definition af_safety :: "any_flow \<Rightarrow> safety_contract option" where
  "af_safety = on_flow f_safety f_safety"
definition af_input_ref :: "any_flow \<Rightarrow> string option" where
  "af_input_ref = on_flow f_input_schema_ref f_input_schema_ref"
definition af_output_ref :: "any_flow \<Rightarrow> string option" where
  "af_output_ref = on_flow f_output_schema_ref f_output_schema_ref"
definition af_context_ref :: "any_flow \<Rightarrow> string option" where
  "af_context_ref = on_flow f_context_schema_ref f_context_schema_ref"
definition af_hashes :: "any_flow \<Rightarrow> (string \<times> string) list option" where
  "af_hashes = on_flow f_tool_schema_hashes f_tool_schema_hashes"
definition af_collision :: "any_flow \<Rightarrow> collision_policy" where
  "af_collision = on_flow f_on_context_collision f_on_context_collision"
definition af_determinism :: "any_flow \<Rightarrow> determinism" where
  "af_determinism = on_flow determinism_of_flow determinism_of_dag"

text \<open>The steps of either kind as plain steps, in the order of the list.\<close>

definition af_steps :: "any_flow \<Rightarrow> flow_step list" where
  "af_steps = on_flow f_steps (\<lambda>d. map flow_step.truncate (f_steps d))"

lemmas af_simps =
  on_flow_def af_name_def af_version_def af_status_def af_safety_def af_input_ref_def
  af_output_ref_def af_context_ref_def af_hashes_def af_collision_def af_determinism_def
  af_steps_def

section \<open>Facts\<close>

lemma split_ref_Some: "CHR '':'' \<notin> set m \<Longrightarrow> split_ref (m @ CHR '':'' # q) = Some (m, q)"
  by (induction m) auto

lemma split_ref_None: "split_ref r = None \<longleftrightarrow> CHR '':'' \<notin> set r"
  by (induction r) auto

lemma step_err_None:
  "step_err s = None \<longleftrightarrow>
     on_error_err (s_on_error s) = None \<and> candidates_err (s_decision_candidates s) = None \<and>
     tool_or_flow_err s = None \<and> default_candidate_err s = None"
  by (simp add: step_err_def del: first_err.simps)

lemma step_ok_kind:
  assumes "step_err s = None"
  obtains t where "s_tool_name s = Some t" "s_flow_name s = None"
  | n where "s_tool_name s = None" "s_flow_name s = Some n" "s_decision_candidates s = None"
  using assms by (cases "s_tool_name s"; cases "s_flow_name s")
    (auto simp: step_err_None tool_or_flow_err_def split: if_splits)

lemma step_ok_candidates:
  assumes "step_err s = None" and "s_decision_candidates s = Some cs"
  obtains t where "s_tool_name s = Some t" "t \<in> set cs" "distinct cs" "cs \<noteq> []"
  using assms by (auto simp: step_err_None default_candidate_err_def candidates_err_def
      split: option.splits if_splits)

text \<open>Backoff never shrinks from one retry to the next, when there is no jitter.\<close>

lemma compute_delay_mono:
  assumes "retry_policy_ok p" and "\<not> jitter p" and "1 \<le> i" and "i \<le> j"
  shows "compute_delay u p i \<le> compute_delay v p j"
proof -
  from assms have "backoff_multiplier p ^ nat (i - 1) \<le> backoff_multiplier p ^ nat (j - 1)"
    by (intro power_increasing nat_mono) (simp_all add: retry_policy_ok_def)
  moreover have "0 \<le> backoff_seconds p"
    using assms(1) by (simp add: retry_policy_ok_def)
  ultimately have "backoff_seconds p * backoff_multiplier p ^ nat (i - 1) \<le>
      backoff_seconds p * backoff_multiplier p ^ nat (j - 1)"
    by (rule mult_left_mono)
  with assms(2-4) show ?thesis
    by (simp add: compute_delay_def)
qed

text \<open>
  Under an allowlist policy a class reference resolves only when its module is one of the
  allowed prefixes or a dotted submodule of one, and the class found there passes the base
  check; a reference to any other module is rejected whatever importing it would have done.
\<close>

theorem resolve_class_ref_allowlist:
  assumes "CHR '':'' \<notin> set m"
  shows "(resolve_class_ref (Some (allowlist ps)) load is_base (m @ CHR '':'' # q) = Inr c \<longleftrightarrow>
            (\<exists>p \<in> set ps. m = p \<or> (\<exists>sub. m = p @ ''.'' @ sub)) \<and> load m q = Inr c \<and> is_base c) \<and>
         ((\<nexists>p. p \<in> set ps \<and> (m = p \<or> (\<exists>sub. m = p @ ''.'' @ sub))) \<longrightarrow>
            (\<forall>load'. resolve_class_ref (Some (allowlist ps)) load' is_base (m @ CHR '':'' # q) =
               Inl (SchemaRefPolicyError m (m @ CHR '':'' # q))))"
proof -
  have dotted: "take (length p + 1) m = p @ ''.'' \<longleftrightarrow> (\<exists>sub. m = p @ ''.'' @ sub)" for p
  proof
    assume "take (length p + 1) m = p @ ''.''"
    then have "m = (p @ ''.'') @ drop (length p + 1) m"
      by (metis append_take_drop_id)
    then show "\<exists>sub. m = p @ ''.'' @ sub"
      by auto
  qed auto
  have "allowlist ps m \<longleftrightarrow> (\<exists>p \<in> set ps. m = p \<or> (\<exists>sub. m = p @ ''.'' @ sub))"
    unfolding allowlist_def list_ex_iff dotted by blast
  with split_ref_Some [OF assms, of q] show ?thesis
    by (auto simp: resolve_class_ref_def split: sum.splits)
qed

theorem resolve_class_ref_allowlist_witness:
  "resolve_class_ref (Some (allowlist [''app''])) (\<lambda>_ _. Inr True) id ''os:system'' =
     Inl (SchemaRefPolicyError ''os'' ''os:system'') \<and>
   resolve_class_ref (Some (allowlist [''app''])) (\<lambda>_ _. Inr True) id ''app.s:M'' = Inr True"
  using resolve_class_ref_allowlist [of "''os''" "[''app'']" "\<lambda>_ _. Inr True" id "''system''" True]
    resolve_class_ref_allowlist [of "''app.s''" "[''app'']" "\<lambda>_ _. Inr True" id "''M''" True]
  by simp

end
