(* ===== verification/Topology.thy ===== *)
theory Topology
  imports FlowModel
begin

text \<open>
  The dependency graph of a DAG flow: the topological sorter of Python's \<open>graphlib\<close> as the
  code drives it, \<open>validate_dag_topology\<close> of \<open>chainweaver/flow/dag.py\<close> and
  \<open>_compute_dag_levels\<close> of \<open>chainweaver/executor.py\<close>.  The code passes sets of
  predecessors, whose iteration order is up to the hash seed: it is the argument \<open>ord\<close>,
  which lists the elements of a list once each in some order.
\<close>

section \<open>The sorter\<close>

text \<open>A graph maps each node to its predecessors, in the order the nodes were added.\<close>

type_synonym graph = "(string \<times> string list) list"

definition nodes :: "graph \<Rightarrow> string list" where
  "nodes g = dedup_first (concat (map (\<lambda>(n, ps). n # ps) g))"

definition npreds :: "graph \<Rightarrow> string \<Rightarrow> nat" where
  "npreds g n = sum_list (map (\<lambda>(m, ps). if m = n then length ps else 0) g)"

definition succs :: "graph \<Rightarrow> string \<Rightarrow> string list" where
  "succs g p = concat (map (\<lambda>(m, ps). map (\<lambda>_. m) (filter (\<lambda>x. x = p) ps)) g)"

definition counts :: "graph \<Rightarrow> (string \<times> nat) list" where
  "counts g = map (\<lambda>n. (n, npreds g n)) (nodes g)"

text \<open>
  \<open>done\<close>: the successors of the finished group lose one predecessor each, in order; those
  that reach zero become ready.
\<close>

fun release :: "(string \<times> nat) list \<Rightarrow> string list \<Rightarrow> (string \<times> nat) list \<times> string list" where
  "release cnt [] = (cnt, [])"
| "release cnt (s # ss) =
     (case map_of cnt s of
        None \<Rightarrow> release cnt ss
      | Some n \<Rightarrow>
          (let (cnt', ready) = release (AList.update s (n - 1) cnt) ss
           in (cnt', if n = 1 then s # ready else ready)))"

definition budget :: "(string \<times> nat) list \<Rightarrow> nat" where
  "budget cnt = sum_list (map snd cnt)"

lemma budget_update:
  "map_of cnt s = Some n \<Longrightarrow> budget (AList.update s (n - 1) cnt) + (if n = 0 then 0 else 1) = budget cnt"
  by (induction cnt) (auto simp: budget_def)

lemma release_budget:
  "release cnt ss = (cnt', ready) \<Longrightarrow> budget cnt' + length ready \<le> budget cnt"
proof (induction ss arbitrary: cnt cnt' ready)
  case (Cons s ss)
  show ?case
  proof (cases "map_of cnt s")
    case None
    with Cons show ?thesis by simp
  next
    case (Some n)
    obtain c r where cr: "release (AList.update s (n - 1) cnt) ss = (c, r)"
      by fastforce
    with Some Cons.prems have "cnt' = c" "ready = (if n = 1 then s # r else r)"
      by auto
    with Cons.IH [OF cr] budget_update [OF Some] show ?thesis
      by (auto split: if_splits)
  qed
qed simp

text \<open>\<open>static_order\<close>: the ready group is handed out and marked as done, until none is ready.\<close>

function order_from :: "graph \<Rightarrow> (string \<times> nat) list \<Rightarrow> string list \<Rightarrow> string list" where
  "order_from g cnt ready =
     (if ready = [] then []
      else (case release cnt (concat (map (succs g) ready)) of
              (cnt', ready') \<Rightarrow> ready @ order_from g cnt' ready'))"
  by pat_completeness auto
termination
proof (relation "measure (\<lambda>(g, cnt, ready). budget cnt + length ready)", force, goal_cases)
  case prems: 1
  from release_budget [OF prems(2) [symmetric]] prems(1) show ?case
    by (simp flip: length_greater_0_conv)
qed

declare order_from.simps [simp del]

lemma order_from_Nil [simp]: "order_from g cnt [] = []"
  by (simp add: order_from.simps)

definition static_order :: "graph \<Rightarrow> string list" where
  "static_order g = order_from g (counts g) (filter (\<lambda>n. npreds g n = 0) (nodes g))"

text \<open>
  \<open>prepare\<close> raises \<open>CycleError\<close> when the graph has a cycle: when the order gets stuck before
  it has handed out every node (\<open>has_cycle_iff\<close> below relates this to the edge relation).
\<close>

definition has_cycle :: "graph \<Rightarrow> bool" where
  "has_cycle g = (\<not> set (nodes g) \<subseteq> set (static_order g))"

section \<open>Correctness of the sorter\<close>

definition preds :: "graph \<Rightarrow> string \<Rightarrow> string set" where
  "preds g n = (case dict_get g n of None \<Rightarrow> {} | Some ps \<Rightarrow> set ps)"

text \<open>The edges, from a predecessor to the node that waits for it.\<close>

definition edges :: "graph \<Rightarrow> (string \<times> string) set" where
  "edges g = {(p, n). p \<in> preds g n}"

definition graph_ok :: "graph \<Rightarrow> bool" where
  "graph_ok g \<longleftrightarrow> distinct (map fst g) \<and> (\<forall>(n, ps) \<in> set g. distinct ps)"

lemma graph_ok_Cons:
  "graph_ok ((n, ps) # g) \<longleftrightarrow> n \<notin> fst ` set g \<and> distinct ps \<and> graph_ok g"
  by (auto simp: graph_ok_def)

lemma set_nodes: "set (nodes g) = fst ` set g \<union> \<Union> (preds g ` fst ` set g)" if "graph_ok g"
proof -
  have "preds g n = set ps" if "(n, ps) \<in> set g" for n ps
    using that \<open>graph_ok g\<close> by (simp add: preds_def graph_ok_def)
  then show ?thesis
    by (force simp: nodes_def)
qed

lemma preds_fresh: "n \<notin> fst ` set g \<Longrightarrow> preds g n = {}"
  by (metis map_of_eq_None_iff option.case(1) preds_def)

lemma preds_nodes: "graph_ok g \<Longrightarrow> preds g n \<subseteq> set (nodes g)"
  by (cases "n \<in> fst ` set g") (auto simp: set_nodes preds_fresh)

lemma finite_preds [simp]: "finite (preds g n)"
  by (simp add: preds_def split: option.splits)

lemma distinct_nodes [simp]: "distinct (nodes g)"
  by (simp add: nodes_def)

lemma npreds_fresh: "n \<notin> fst ` set g \<Longrightarrow> npreds g n = 0"
  by (induction g) (auto simp: npreds_def)

lemma npreds_card: "graph_ok g \<Longrightarrow> npreds g n = card (preds g n)"
proof (induction g)
  case Nil
  then show ?case by (simp add: npreds_def preds_def)
next
  case (Cons mp g)
  obtain m ps where mp: "mp = (m, ps)" by fastforce
  show ?case
  proof (cases "m = n")
    case True
    with Cons.prems mp have "npreds g n = 0" "distinct ps"
      by (auto simp: graph_ok_Cons npreds_fresh)
    with True mp show ?thesis
      by (simp add: npreds_def preds_def distinct_card)
  next
    case False
    with Cons mp show ?thesis
      by (simp add: npreds_def preds_def graph_ok_Cons)
  qed
qed

lemma map_const_filter:
  "distinct ps \<Longrightarrow> map (\<lambda>_. m) (filter (\<lambda>x. x = p) ps) = (if p \<in> set ps then [m] else [])"
  by (induction ps) auto

lemma succs_Cons:
  "distinct ps \<Longrightarrow> succs ((m, ps) # g) p = (if p \<in> set ps then m # succs g p else succs g p)"
  by (simp add: succs_def map_const_filter)

lemma set_succs: "graph_ok g \<Longrightarrow> s \<in> set (succs g p) \<longleftrightarrow> p \<in> preds g s"
proof (induction g)
  case (Cons mp g)
  obtain m ps where mp: "mp = (m, ps)" by fastforce
  with Cons.prems have ok: "m \<notin> fst ` set g" "distinct ps" "graph_ok g"
    by (simp_all add: graph_ok_Cons)
  have "preds g m = {}"
    using ok(1) by (rule preds_fresh)
  with Cons.IH [OF ok(3)] ok mp show ?case
    by (auto simp: succs_Cons preds_def)
qed (simp add: succs_def preds_def)

lemma distinct_succs: "graph_ok g \<Longrightarrow> distinct (succs g p)"
proof (induction g)
  case (Cons mp g)
  obtain m ps where mp: "mp = (m, ps)" by fastforce
  with Cons.prems have ok: "m \<notin> fst ` set g" "distinct ps" "graph_ok g"
    by (auto simp: graph_ok_Cons)
  then have "m \<notin> set (succs g p)"
    by (simp add: set_succs preds_fresh)
  with Cons.IH ok mp show ?case
    by (simp add: succs_Cons)
qed (simp add: succs_def)

lemma count_list_distinct: "distinct xs \<Longrightarrow> count_list xs x = (if x \<in> set xs then 1 else 0)"
  by (induction xs) auto

lemma count_succs:
  "graph_ok g \<Longrightarrow> distinct rs \<Longrightarrow>
     count_list (concat (map (succs g) rs)) s = card (preds g s \<inter> set rs)"
proof (induction rs)
  case (Cons r rs)
  have "count_list (succs g r) s = (if r \<in> preds g s then 1 else 0)"
    using Cons.prems(1) by (simp add: distinct_succs set_succs count_list_distinct)
  moreover have "preds g s \<inter> set (r # rs) =
      (if r \<in> preds g s then insert r (preds g s \<inter> set rs) else preds g s \<inter> set rs)"
    by auto
  ultimately show ?case
    using Cons by (auto simp: count_list_append)
qed simp

lemma release_spec:
  assumes "release cnt ss = (cnt', ready)" and "\<forall>s \<in> set ss. map_of cnt s \<noteq> None"
  shows "map_of cnt' s = map_option (\<lambda>n. n - count_list ss s) (map_of cnt s)"
    and "s \<in> set ready \<longleftrightarrow> (\<exists>n. map_of cnt s = Some n \<and> 0 < n \<and> n \<le> count_list ss s)"
    and "distinct ready"
  using assms
proof (induction ss arbitrary: cnt cnt' ready s)
  case Nil
  { case 1 with Nil show ?case by (simp add: option.map_ident) }
  { case 2 with Nil show ?case by auto }
  { case 3 with Nil show ?case by simp }
next
  case (Cons a ss)
  {
    fix cnt cnt' ready
    assume step: "release cnt (a # ss) = (cnt', ready)" and
      dom: "\<forall>s \<in> set (a # ss). map_of cnt s \<noteq> None"
    then obtain n where n: "map_of cnt a = Some n"
      by auto
    let ?c = "AList.update a (n - 1) cnt"
    obtain c r where cr: "release ?c ss = (c, r)"
      by fastforce
    have dom': "\<forall>s \<in> set ss. map_of ?c s \<noteq> None"
      using dom by (simp add: dict_get_set)
    have "cnt' = c" and r: "ready = (if n = 1 then a # r else r)"
      using step n cr by auto
    note ih = Cons.IH [OF cr dom']
    have 1: "map_of cnt' s = map_option (\<lambda>n. n - count_list (a # ss) s) (map_of cnt s)" for s
      using ih(1) [of s] n \<open>cnt' = c\<close> by (auto simp: dict_get_set split: option.splits)
    have 2: "s \<in> set ready \<longleftrightarrow>
        (\<exists>m. map_of cnt s = Some m \<and> 0 < m \<and> m \<le> count_list (a # ss) s)" for s
      using ih(2) [of s] n r by (auto simp: dict_get_set)
    have 3: "distinct ready"
      using ih(3) ih(2) [of a] r by (auto simp: dict_get_set)
    note 1 2 3
  }
  note main = this
  { case 1 then show ?case by (rule main(1)) }
  { case 2 then show ?case by (rule main(2)) }
  { case 3 then show ?case by (rule main(3)) }
qed

text \<open>A sequence in which every node comes after its predecessors, those in \<open>D\<close> being given.\<close>

primrec topo_seq :: "graph \<Rightarrow> string set \<Rightarrow> string list \<Rightarrow> bool" where
  "topo_seq g D [] = True"
| "topo_seq g D (n # ns) = (preds g n \<subseteq> D \<and> topo_seq g (insert n D) ns)"

lemma topo_seq_append:
  "topo_seq g D (xs @ ys) \<longleftrightarrow> topo_seq g D xs \<and> topo_seq g (D \<union> set xs) ys"
  by (induction xs arbitrary: D) auto

lemma topo_seq_mono: "topo_seq g D xs \<Longrightarrow> D \<subseteq> E \<Longrightarrow> topo_seq g E xs"
  by (induction xs arbitrary: D E) (auto, blast)

lemma topo_seq_all: "\<forall>n \<in> set xs. preds g n \<subseteq> D \<Longrightarrow> topo_seq g D xs"
  by (induction xs arbitrary: D) (auto, blast)

text \<open>The state of the sorter after the nodes of \<open>D\<close> are done.\<close>

definition sorter_inv :: "graph \<Rightarrow> (string \<times> nat) list \<Rightarrow> string list \<Rightarrow> string set \<Rightarrow> bool" where
  "sorter_inv g cnt ready D \<longleftrightarrow>
     distinct ready \<and> set ready \<subseteq> set (nodes g) \<and> D \<subseteq> set (nodes g) \<and> D \<inter> set ready = {} \<and>
     (\<forall>n. map_of cnt n = (if n \<in> set (nodes g) then Some (card (preds g n - D)) else None)) \<and>
     (\<forall>n \<in> set (nodes g). preds g n \<subseteq> D \<longleftrightarrow> n \<in> D \<union> set ready)"

lemma map_of_graph_of: "map_of (map (\<lambda>n. (n, f n)) xs) k = (if k \<in> set xs then Some (f k) else None)"
  by (induction xs) auto

lemma sorter_inv_init:
  assumes "graph_ok g"
  shows "sorter_inv g (counts g) (filter (\<lambda>n. npreds g n = 0) (nodes g)) {}"
proof -
  have eq: "npreds g = (\<lambda>n. card (preds g n))"
    using npreds_card [OF assms] by auto
  show ?thesis
    unfolding sorter_inv_def counts_def map_of_graph_of eq
    by (intro conjI) (simp, force, simp, simp, simp, simp)
qed

lemma sorter_invD:
  assumes "sorter_inv g cnt ready D"
  shows "distinct ready" "set ready \<subseteq> set (nodes g)" "D \<subseteq> set (nodes g)" "D \<inter> set ready = {}"
    "map_of cnt n = (if n \<in> set (nodes g) then Some (card (preds g n - D)) else None)"
    "n \<in> set (nodes g) \<Longrightarrow> preds g n \<subseteq> D \<longleftrightarrow> n \<in> D \<union> set ready"
  using assms by (simp_all add: sorter_inv_def)

lemma sorter_inv_step:
  assumes g: "graph_ok g" and inv: "sorter_inv g cnt ready D"
    and rel: "release cnt (concat (map (succs g) ready)) = (cnt', ready')"
  shows "sorter_inv g cnt' ready' (D \<union> set ready)"
proof -
  let ?ss = "concat (map (succs g) ready)" and ?E = "D \<union> set ready"
  note i = sorter_invD [OF inv]
  have dom: "\<forall>s \<in> set ?ss. map_of cnt s \<noteq> None"
  proof
    fix s
    assume "s \<in> set ?ss"
    then have "preds g s \<noteq> {}"
      using g by (auto simp: set_succs)
    then have "s \<in> set (nodes g)"
      using g preds_fresh [of s g] by (auto simp: set_nodes)
    then show "map_of cnt s \<noteq> None"
      by (simp add: i(5))
  qed
  have count: "count_list ?ss n = card (preds g n \<inter> set ready)" for n
    using g i(1) by (rule count_succs)
  have minus: "card (preds g n - ?E) = card (preds g n - D) - card (preds g n \<inter> set ready)" for n
  proof -
    have "preds g n - ?E = (preds g n - D) - (preds g n \<inter> set ready)"
      by auto
    moreover have "preds g n \<inter> set ready \<subseteq> preds g n - D"
      using i(4) by auto
    ultimately show ?thesis
      by (simp add: card_Diff_subset finite_subset)
  qed
  note spec = release_spec [OF rel dom]
  have cnt': "map_of cnt' n = (if n \<in> set (nodes g) then Some (card (preds g n - ?E)) else None)" for n
    using spec(1) [of n] by (simp add: count minus i(5))
  have ready': "n \<in> set ready' \<longleftrightarrow>
      n \<in> set (nodes g) \<and> \<not> preds g n \<subseteq> D \<and> preds g n \<subseteq> ?E" for n
  proof -
    have le: "card (preds g n - D) \<le> card (preds g n \<inter> set ready) \<longleftrightarrow> preds g n \<subseteq> ?E"
      using minus [of n] by (metis Diff_eq_empty_iff card_0_eq diff_is_0_eq finite_Diff finite_preds)
    have pos: "0 < card (preds g n - D) \<longleftrightarrow> \<not> preds g n \<subseteq> D"
      by (simp add: card_gt_0_iff)
    show ?thesis
      unfolding spec(2) count i(5) le [symmetric] pos [symmetric] by auto
  qed
  show ?thesis
    unfolding sorter_inv_def
  proof (intro conjI)
    show "distinct ready'" by (rule spec(3))
    show "set ready' \<subseteq> set (nodes g)"
      using ready' by blast
    show "?E \<subseteq> set (nodes g)"
      using i(2,3) by blast
    show "?E \<inter> set ready' = {}"
      using i(2,3,6) ready' by (meson disjoint_iff subsetD)
    show "\<forall>n. map_of cnt' n = (if n \<in> set (nodes g) then Some (card (preds g n - ?E)) else None)"
      using cnt' by simp
    show "\<forall>n \<in> set (nodes g). preds g n \<subseteq> ?E \<longleftrightarrow> n \<in> ?E \<union> set ready'"
      using i(6) ready' by blast
  qed
qed

lemma order_from_spec:
  assumes "graph_ok g" and "sorter_inv g cnt ready D"
  shows "distinct (order_from g cnt ready) \<and> set (order_from g cnt ready) \<subseteq> set (nodes g) \<and>
    D \<inter> set (order_from g cnt ready) = {} \<and> topo_seq g D (order_from g cnt ready) \<and>
    (\<forall>n \<in> set (nodes g). preds g n \<subseteq> D \<union> set (order_from g cnt ready) \<longrightarrow>
       n \<in> D \<union> set (order_from g cnt ready))"
  using assms
proof (induction g cnt ready arbitrary: D rule: order_from.induct)
  case (1 g cnt ready)
  show ?case
  proof (cases "ready = []")
    case True
    with 1(3) show ?thesis
      by (simp add: sorter_inv_def order_from_Nil)
  next
    case False
    obtain cnt' ready' where rel: "release cnt (concat (map (succs g) ready)) = (cnt', ready')"
      by fastforce
    note inv' = sorter_inv_step [OF 1(2,3) rel]
    note ih = 1(1) [OF False rel [symmetric] 1(2) inv']
    have out: "order_from g cnt ready = ready @ order_from g cnt' ready'"
      using False rel by (simp add: order_from.simps [of g cnt ready])
    let ?r = "order_from g cnt' ready'"
    have i: "distinct ready" "set ready \<subseteq> set (nodes g)" "D \<inter> set ready = {}"
      "\<forall>n \<in> set ready. preds g n \<subseteq> D"
      using sorter_invD [OF 1(3)] by blast+
    from ih have r: "distinct ?r" "set ?r \<subseteq> set (nodes g)" "(D \<union> set ready) \<inter> set ?r = {}"
      "topo_seq g (D \<union> set ready) ?r"
      by blast+
    have closed: "n \<in> (D \<union> set ready) \<union> set ?r"
        if "n \<in> set (nodes g)" "preds g n \<subseteq> (D \<union> set ready) \<union> set ?r" for n
      using ih that by blast
    have un: "D \<union> set (ready @ ?r) = (D \<union> set ready) \<union> set ?r"
      by auto
    have "distinct (ready @ ?r)" "set (ready @ ?r) \<subseteq> set (nodes g)" "D \<inter> set (ready @ ?r) = {}"
      using i r by auto
    moreover have "topo_seq g D (ready @ ?r)"
      using topo_seq_all [OF i(4)] r(4) by (simp add: topo_seq_append)
    moreover have "\<forall>n \<in> set (nodes g). preds g n \<subseteq> D \<union> set (ready @ ?r) \<longrightarrow>
        n \<in> D \<union> set (ready @ ?r)"
      unfolding un using closed by blast
    ultimately show ?thesis
      unfolding out by blast
  qed
qed

lemma static_order_spec:
  assumes "graph_ok g"
  shows "distinct (static_order g)" and "set (static_order g) \<subseteq> set (nodes g)"
    and "topo_seq g {} (static_order g)"
    and "n \<in> set (nodes g) \<Longrightarrow> preds g n \<subseteq> set (static_order g) \<Longrightarrow> n \<in> set (static_order g)"
  using order_from_spec [OF assms sorter_inv_init [OF assms]]
  unfolding static_order_def by auto

definition pos :: "string list \<Rightarrow> string \<Rightarrow> nat" where
  "pos xs n = length (takeWhile (\<lambda>x. x \<noteq> n) xs)"

lemma pos_Cons [simp]: "pos (x # xs) n = (if x = n then 0 else Suc (pos xs n))"
  by (simp add: pos_def)

lemma topo_seq_pos:
  "topo_seq g D xs \<Longrightarrow> n \<in> set xs \<Longrightarrow> distinct xs \<Longrightarrow> D \<inter> set xs = {} \<Longrightarrow> p \<in> preds g n \<Longrightarrow>
     p \<in> D \<or> pos xs p < pos xs n"
proof (induction xs arbitrary: D)
  case (Cons x xs)
  show ?case
  proof (cases "n = x")
    case True
    with Cons.prems show ?thesis by auto
  next
    case False
    with Cons.prems have "p \<in> insert x D \<or> pos xs p < pos xs n"
      by (intro Cons.IH) auto
    with False show ?thesis by auto
  qed
qed simp

lemma finite_edges: "graph_ok g \<Longrightarrow> finite (edges g)"
proof (rule finite_subset)
  assume "graph_ok g"
  then show "edges g \<subseteq> set (nodes g) \<times> set (nodes g)"
    using preds_nodes preds_fresh by (fastforce simp: edges_def set_nodes)
qed simp

lemma has_cycle_iff:
  assumes g: "graph_ok g"
  shows "has_cycle g \<longleftrightarrow> \<not> acyclic (edges g)"
proof
  assume cyc: "has_cycle g"
  show "\<not> acyclic (edges g)"
  proof
    assume "acyclic (edges g)"
    then have wf: "wf (edges g)"
      using finite_edges [OF g] by (rule finite_acyclic_wf [rotated])
    have "n \<in> set (nodes g) \<longrightarrow> n \<in> set (static_order g)" for n
      using wf
    proof (induction n rule: wf_induct_rule)
      case (less n)
      then show ?case
        using preds_nodes [OF g, of n] static_order_spec(4) [OF g, of n]
        by (auto simp: edges_def)
    qed
    with cyc show False
      by (auto simp: has_cycle_def)
  qed
next
  assume "\<not> acyclic (edges g)"
  show "has_cycle g"
  proof (rule ccontr)
    assume "\<not> has_cycle g"
    then have all: "set (nodes g) \<subseteq> set (static_order g)"
      by (simp add: has_cycle_def)
    have "edges g \<subseteq> measure (pos (static_order g))"
    proof clarify
      fix p n
      assume "(p, n) \<in> edges g"
      then have "p \<in> preds g n" by (simp add: edges_def)
      moreover from this have "n \<in> set (static_order g)"
        using all preds_fresh [of n g] g by (auto simp: set_nodes)
      ultimately show "(p, n) \<in> measure (pos (static_order g))"
        using topo_seq_pos [OF static_order_spec(3) [OF g]] static_order_spec(1) [OF g] by auto
    qed
    then have "wf (edges g)"
      by (rule wf_subset [OF wf_measure])
    with \<open>\<not> acyclic (edges g)\<close> show False
      by (simp add: wf_acyclic)
  qed
qed

section \<open>Validation of a DAG flow\<close>

type_synonym set_order = "string list \<Rightarrow> string list"

text \<open>The iteration order of a set built from a list: every element once.\<close>

definition set_order :: "set_order \<Rightarrow> bool" where
  "set_order ord \<longleftrightarrow> (\<forall>xs. distinct (ord xs) \<and> set (ord xs) = set xs)"

lemma set_order_dedup: "set_order dedup_first"
  by (simp add: set_order_def)

definition dag_graph :: "set_order \<Rightarrow> dag_flow \<Rightarrow> graph" where
  "dag_graph ord f = map (\<lambda>s. (d_step_id s, ord (d_depends_on s))) (f_steps f)"

definition step_ids :: "dag_flow \<Rightarrow> string list" where
  "step_ids f = map d_step_id (f_steps f)"

definition dependents :: "dag_flow \<Rightarrow> string \<Rightarrow> string list" where
  "dependents f sid = map d_step_id (filter (\<lambda>s. sid \<in> set (d_depends_on s)) (f_steps f))"

definition duplicate_err :: "dag_flow \<Rightarrow> exn option" where
  "duplicate_err f =
     (if distinct (step_ids f) then None else Some (DAGDefinitionError (f_name f) ''duplicate_step_id''))"

definition unknown_dependency_err :: "dag_flow \<Rightarrow> dag_step \<Rightarrow> exn option" where
  "unknown_dependency_err f s =
     (if list_all (\<lambda>d. d \<in> set (step_ids f)) (d_depends_on s) then None
      else Some (DAGDefinitionError (f_name f) ''unknown_dependency''))"

text \<open>The branch targets of a step, \<open>default_next\<close> last.\<close>

definition branch_targets :: "dag_step \<Rightarrow> string list" where
  "branch_targets s =
     map target_step_id (d_branches s) @ (case d_default_next s of None \<Rightarrow> [] | Some t \<Rightarrow> [t])"

definition branch_err :: "dag_flow \<Rightarrow> dag_step \<Rightarrow> string \<Rightarrow> exn option" where
  "branch_err f s t =
     (if t \<notin> set (step_ids f) then Some (DAGDefinitionError (f_name f) ''unknown_branch_target'')
      else if t \<notin> set (dependents f (d_step_id s))
      then Some (DAGDefinitionError (f_name f) ''unknown_branch_target'')
      else None)"

definition validate_dag_topology :: "set_order \<Rightarrow> dag_flow \<Rightarrow> exn option" where
  "validate_dag_topology ord f =
     (case duplicate_err f of
        Some e \<Rightarrow> Some e
      | None \<Rightarrow>
          (case first_err (unknown_dependency_err f) (f_steps f) of
             Some e \<Rightarrow> Some e
           | None \<Rightarrow>
               (if has_cycle (dag_graph ord f) then Some (DAGDefinitionError (f_name f) ''cycle'')
                else first_err (\<lambda>s. first_err (branch_err f s) (branch_targets s)) (f_steps f))))"

section \<open>Execution levels\<close>

definition step_by_id :: "dag_flow \<Rightarrow> string \<Rightarrow> dag_step option" where
  "step_by_id f = map_of (rev (map (\<lambda>s. (d_step_id s, s)) (f_steps f)))"

text \<open>The level of one step; \<open>None\<close> is the \<open>KeyError\<close> of an unknown id.\<close>

definition level_of :: "dag_flow \<Rightarrow> (string \<times> nat) list \<Rightarrow> string \<Rightarrow> nat option" where
  "level_of f levels sid =
     (case step_by_id f sid of
        None \<Rightarrow> None
      | Some s \<Rightarrow>
          (if d_depends_on s = [] then Some 0
           else map_option (\<lambda>ls. foldr max ls 0 + 1) (those (map (dict_get levels) (d_depends_on s)))))"

fun assign_levels :: "dag_flow \<Rightarrow> string list \<Rightarrow> (string \<times> nat) list \<Rightarrow> (string \<times> nat) list option" where
  "assign_levels f [] levels = Some levels"
| "assign_levels f (sid # order) levels =
     (case level_of f levels sid of
        None \<Rightarrow> None
      | Some l \<Rightarrow> assign_levels f order (dict_set levels sid l))"

text \<open>\<open>max(levels.values(), default=-1) + 1\<close> groups, each in topological order.\<close>

definition level_count :: "(string \<times> nat) list \<Rightarrow> nat" where
  "level_count levels = foldr max (map (\<lambda>kv. snd kv + 1) levels) 0"

definition group_levels :: "dag_flow \<Rightarrow> string list \<Rightarrow> (string \<times> nat) list \<Rightarrow> dag_step list list" where
  "group_levels f order levels =
     map (\<lambda>i. List.map_filter (step_by_id f) (filter (\<lambda>sid. dict_get levels sid = Some i) order))
       [0..<level_count levels]"

definition compute_dag_levels :: "set_order \<Rightarrow> dag_flow \<Rightarrow> exn + dag_step list list" where
  "compute_dag_levels ord f =
     (case validate_dag_topology ord f of
        Some e \<Rightarrow> Inl e
      | None \<Rightarrow>
          (let order = static_order (dag_graph ord f)
           in case assign_levels f order [] of
                None \<Rightarrow> Inl (PyException ''KeyError'' [])
              | Some levels \<Rightarrow> Inr (group_levels f order levels)))"

section \<open>What validation accepts\<close>

text \<open>The dependency relation of a flow: \<open>(a, b)\<close> when \<open>b\<close> waits for \<open>a\<close>.\<close>

definition depends :: "dag_flow \<Rightarrow> (string \<times> string) set" where
  "depends f = {(a, b). \<exists>s \<in> set (f_steps f). d_step_id s = b \<and> a \<in> set (d_depends_on s)}"

definition topology_ok :: "dag_flow \<Rightarrow> bool" where
  "topology_ok f \<longleftrightarrow>
     distinct (step_ids f) \<and>
     (\<forall>s \<in> set (f_steps f). set (d_depends_on s) \<subseteq> set (step_ids f)) \<and>
     acyclic (depends f) \<and>
     (\<forall>s \<in> set (f_steps f). \<forall>t \<in> set (branch_targets s). (d_step_id s, t) \<in> depends f)"

lemma dag_graph_ok: "set_order ord \<Longrightarrow> distinct (step_ids f) \<Longrightarrow> graph_ok (dag_graph ord f)"
  by (auto simp: graph_ok_def dag_graph_def step_ids_def set_order_def comp_def)

lemma dag_graph_preds:
  assumes "set_order ord" and "distinct (step_ids f)"
  shows "preds (dag_graph ord f) n = {d. (d, n) \<in> depends f}"
proof (cases "n \<in> set (step_ids f)")
  case True
  then obtain s where s: "s \<in> set (f_steps f)" "d_step_id s = n"
    by (auto simp: step_ids_def)
  have uniq: "s' = s" if "s' \<in> set (f_steps f)" "d_step_id s' = n" for s'
    using assms(2) s that by (simp add: step_ids_def distinct_map inj_on_def)
  have "{d. (d, n) \<in> depends f} = set (d_depends_on s)"
    using s uniq unfolding depends_def by blast
  moreover have "dict_get (dag_graph ord f) n = Some (ord (d_depends_on s))"
  proof (rule map_of_is_SomeI)
    show "distinct (map fst (dag_graph ord f))"
      using dag_graph_ok [OF assms] by (simp add: graph_ok_def)
    show "(n, ord (d_depends_on s)) \<in> set (dag_graph ord f)"
      using s by (auto simp: dag_graph_def)
  qed
  ultimately show ?thesis
    using assms(1) by (simp add: preds_def set_order_def)
next
  case False
  then have "n \<notin> fst ` set (dag_graph ord f)"
    by (auto simp: dag_graph_def step_ids_def)
  with False show ?thesis
    by (auto simp: preds_fresh depends_def step_ids_def)
qed

lemma dag_graph_edges:
  "set_order ord \<Longrightarrow> distinct (step_ids f) \<Longrightarrow> edges (dag_graph ord f) = depends f"
  by (auto simp: edges_def dag_graph_preds)

lemma branch_err_None:
  "branch_err f s t = None \<longleftrightarrow> (d_step_id s, t) \<in> depends f"
proof -
  have "t \<in> set (dependents f (d_step_id s)) \<longleftrightarrow> (d_step_id s, t) \<in> depends f"
    by (force simp: dependents_def depends_def)
  moreover have "(d_step_id s, t) \<in> depends f \<Longrightarrow> t \<in> set (step_ids f)"
    by (auto simp: depends_def step_ids_def)
  ultimately show ?thesis
    by (auto simp: branch_err_def)
qed

lemma validate_iff:
  assumes "set_order ord"
  shows "validate_dag_topology ord f = None \<longleftrightarrow> topology_ok f"
proof (cases "distinct (step_ids f)")
  case True
  with assms have "has_cycle (dag_graph ord f) \<longleftrightarrow> \<not> acyclic (depends f)"
    by (simp add: has_cycle_iff dag_graph_ok dag_graph_edges)
  moreover have "first_err (unknown_dependency_err f) (f_steps f) = None \<longleftrightarrow>
      (\<forall>s \<in> set (f_steps f). set (d_depends_on s) \<subseteq> set (step_ids f))"
    by (auto simp: unknown_dependency_err_def list_all_iff)
  moreover have "first_err (\<lambda>s. first_err (branch_err f s) (branch_targets s)) (f_steps f) = None \<longleftrightarrow>
      (\<forall>s \<in> set (f_steps f). \<forall>t \<in> set (branch_targets s). (d_step_id s, t) \<in> depends f)"
    by (simp add: branch_err_None)
  moreover have "duplicate_err f = None"
    using True by (simp add: duplicate_err_def)
  ultimately show ?thesis
    unfolding validate_dag_topology_def topology_ok_def using True
    by (cases "first_err (unknown_dependency_err f) (f_steps f)") (simp_all del: first_err_None)
next
  case False
  then show ?thesis
    by (simp add: validate_dag_topology_def topology_ok_def duplicate_err_def)
qed

section \<open>What the levels are\<close>

lemma foldr_max_ge: "x \<in> set ls \<Longrightarrow> (x :: nat) \<le> foldr max ls 0"
  by (induction ls) auto

lemma foldr_max_mem: "ls \<noteq> [] \<Longrightarrow> foldr max ls (0 :: nat) \<in> set ls"
proof (induction ls)
  case (Cons x ls)
  then show ?case by (cases "ls = []") (auto simp: max_def)
qed simp

lemma those_map: "\<forall>x \<in> set xs. \<exists>y. g x = Some y \<Longrightarrow> those (map g xs) = Some (map (the \<circ> g) xs)"
  by (induction xs) auto

lemma step_by_id_iff:
  assumes "distinct (step_ids f)"
  shows "step_by_id f sid = Some s \<longleftrightarrow> s \<in> set (f_steps f) \<and> d_step_id s = sid"
proof -
  have "distinct (map fst (rev (map (\<lambda>s. (d_step_id s, s)) (f_steps f))))"
    using assms by (simp add: step_ids_def comp_def flip: rev_map)
  then have "step_by_id f sid = Some s \<longleftrightarrow> (sid, s) \<in> set (map (\<lambda>s. (d_step_id s, s)) (f_steps f))"
    unfolding step_by_id_def by (subst map_of_eq_Some_iff) auto
  then show ?thesis by auto
qed

text \<open>A partial level assignment: every step lies one above the highest of its predecessors.\<close>

definition levels_inv :: "dag_flow \<Rightarrow> (string \<times> nat) list \<Rightarrow> bool" where
  "levels_inv f levels \<longleftrightarrow>
     (\<forall>s \<in> set (f_steps f). \<forall>l. dict_get levels (d_step_id s) = Some l \<longrightarrow>
        (\<forall>d \<in> set (d_depends_on s). \<exists>k < l. dict_get levels d = Some k) \<and>
        (0 < l \<longrightarrow> (\<exists>d \<in> set (d_depends_on s). dict_get levels d = Some (l - 1))))"

lemma level_of_spec:
  assumes "distinct (step_ids f)" and "s \<in> set (f_steps f)"
    and "\<forall>d \<in> set (d_depends_on s). dict_has levels d"
  shows "\<exists>l. level_of f levels (d_step_id s) = Some l \<and>
     (\<forall>d \<in> set (d_depends_on s). \<exists>k < l. dict_get levels d = Some k) \<and>
     (0 < l \<longrightarrow> (\<exists>d \<in> set (d_depends_on s). dict_get levels d = Some (l - 1)))"
proof (cases "d_depends_on s = []")
  case True
  then show ?thesis
    using assms step_by_id_iff [of f "d_step_id s" s] by (simp add: level_of_def)
next
  case False
  let ?ls = "map (the \<circ> dict_get levels) (d_depends_on s)"
  have "those (map (dict_get levels) (d_depends_on s)) = Some ?ls"
    using assms(3) by (intro those_map) simp
  then have lvl: "level_of f levels (d_step_id s) = Some (foldr max ?ls 0 + 1)"
    using assms False step_by_id_iff [of f "d_step_id s" s] by (simp add: level_of_def)
  have get: "dict_get levels d = Some (the (dict_get levels d))" if "d \<in> set (d_depends_on s)" for d
    using assms(3) that by auto
  have "the (dict_get levels d) < foldr max ?ls 0 + 1" if "d \<in> set (d_depends_on s)" for d
    using foldr_max_ge [of "the (dict_get levels d)" ?ls] that by (auto simp: less_Suc_eq_le)
  moreover obtain d where "d \<in> set (d_depends_on s)" "foldr max ?ls 0 = the (dict_get levels d)"
    using foldr_max_mem [of ?ls] False by auto
  ultimately show ?thesis
    unfolding lvl by (intro exI [of _ "foldr max ?ls 0 + 1"]) (use get in fastforce)
qed

lemma assign_levels_spec:
  assumes "set_order ord" and f: "distinct (step_ids f)"
    and "topo_seq (dag_graph ord f) (set (dict_keys levels)) order"
    and "distinct order" and "set order \<subseteq> set (step_ids f)"
    and "set order \<inter> set (dict_keys levels) = {}" and "levels_inv f levels"
  shows "\<exists>levels'. assign_levels f order levels = Some levels' \<and> levels_inv f levels' \<and>
           set (dict_keys levels') = set (dict_keys levels) \<union> set order"
  using assms(3-)
proof (induction order arbitrary: levels)
  case (Cons sid order)
  from Cons.prems obtain s where s: "s \<in> set (f_steps f)" "d_step_id s = sid"
    by (auto simp: step_ids_def)
  have "set (d_depends_on s) \<subseteq> preds (dag_graph ord f) sid"
    using s unfolding dag_graph_preds [OF assms(1) f] depends_def by auto
  with Cons.prems(1) have "\<forall>d \<in> set (d_depends_on s). dict_has levels d"
    unfolding dict_has_iff by auto
  from level_of_spec [OF f s(1) this] obtain l where l: "level_of f levels sid = Some l"
    and deps: "\<forall>d \<in> set (d_depends_on s). \<exists>k < l. dict_get levels d = Some k"
    and tight: "0 < l \<longrightarrow> (\<exists>d \<in> set (d_depends_on s). dict_get levels d = Some (l - 1))"
    unfolding s(2) by blast
  let ?levels = "dict_set levels sid l"
  have fresh: "dict_get levels sid = None"
    using Cons.prems(4) by (auto simp: map_of_eq_None_iff)
  then have keep: "dict_get levels d = Some k \<Longrightarrow> dict_get ?levels d = Some k" for d k
    by (auto simp: dict_get_set)
  have "levels_inv f ?levels"
    unfolding levels_inv_def
  proof (intro ballI allI impI)
    fix t m
    assume t: "t \<in> set (f_steps f)" "dict_get ?levels (d_step_id t) = Some m"
    show "(\<forall>d \<in> set (d_depends_on t). \<exists>k < m. dict_get ?levels d = Some k) \<and>
        (0 < m \<longrightarrow> (\<exists>d \<in> set (d_depends_on t). dict_get ?levels d = Some (m - 1)))"
    proof (cases "d_step_id t = sid")
      case True
      with s t(1) f have "t = s"
        by (auto simp: step_ids_def distinct_map inj_on_def)
      moreover from True t(2) have "m = l"
        by (simp add: dict_get_set)
      ultimately show ?thesis
        using deps tight keep by blast
    next
      case False
      with t(2) have "dict_get levels (d_step_id t) = Some m"
        by (simp add: dict_get_set)
      with t(1) Cons.prems(5) keep show ?thesis
        unfolding levels_inv_def by blast
    qed
  qed
  moreover have "topo_seq (dag_graph ord f) (set (dict_keys ?levels)) order"
    "set order \<inter> set (dict_keys ?levels) = {}"
    unfolding dict_keys_set using Cons.prems by auto
  ultimately obtain levels' where "assign_levels f order ?levels = Some levels'"
      "levels_inv f levels'" "set (dict_keys levels') = set (dict_keys ?levels) \<union> set order"
    using Cons.IH [of ?levels] Cons.prems(2,3) by auto
  with l show ?case
    unfolding dict_keys_set by auto
qed simp

lemma valid_order:
  assumes "set_order ord" and "topology_ok f"
  shows "distinct (static_order (dag_graph ord f))"
    and "set (static_order (dag_graph ord f)) = set (step_ids f)"
    and "topo_seq (dag_graph ord f) {} (static_order (dag_graph ord f))"
proof -
  have ids: "distinct (step_ids f)" and ac: "acyclic (depends f)"
    and deps: "\<forall>s \<in> set (f_steps f). set (d_depends_on s) \<subseteq> set (step_ids f)"
    using assms(2) by (auto simp: topology_ok_def)
  have g: "graph_ok (dag_graph ord f)"
    using assms(1) ids by (rule dag_graph_ok)
  have "fst ` set (dag_graph ord f) = set (step_ids f)"
    by (auto simp: dag_graph_def step_ids_def image_image)
  moreover have "preds (dag_graph ord f) n \<subseteq> set (step_ids f)" for n
    using deps unfolding dag_graph_preds [OF assms(1) ids] depends_def by blast
  ultimately have "set (nodes (dag_graph ord f)) = set (step_ids f)"
    unfolding set_nodes [OF g] by blast
  moreover have "set (nodes (dag_graph ord f)) \<subseteq> set (static_order (dag_graph ord f))"
    using has_cycle_iff [OF g] ac dag_graph_edges [OF assms(1) ids] by (simp add: has_cycle_def)
  ultimately show "set (static_order (dag_graph ord f)) = set (step_ids f)"
    using static_order_spec(2) [OF g] by auto
qed (use assms static_order_spec dag_graph_ok in \<open>auto simp: topology_ok_def\<close>)

lemma level_count_gt: "dict_get levels k = Some l \<Longrightarrow> l < level_count levels"
proof -
  assume "dict_get levels k = Some l"
  then have "l + 1 \<in> set (map (\<lambda>kv. snd kv + 1) levels)"
    by (force dest: map_of_SomeD)
  from foldr_max_ge [OF this] show ?thesis
    by (simp add: level_count_def)
qed

text \<open>The levels of a valid flow, as the executor relies on them.\<close>

definition levels_ok :: "dag_flow \<Rightarrow> dag_step list list \<Rightarrow> bool" where
  "levels_ok f ls \<longleftrightarrow>
     distinct (map d_step_id (concat ls)) \<and> set (concat ls) = set (f_steps f) \<and>
     (\<forall>i < length ls. \<forall>s \<in> set (ls ! i).
        (\<forall>d \<in> set (d_depends_on s). \<exists>j < i. \<exists>t \<in> set (ls ! j). d_step_id t = d) \<and>
        (0 < i \<longrightarrow> (\<exists>t \<in> set (ls ! (i - 1)). d_step_id t \<in> set (d_depends_on s))))"

lemma distinct_concat_groups:
  "distinct (concat (map (\<lambda>i. filter (\<lambda>x. lev x = Some i) xs) [0..<n]))" if "distinct xs"
  using that by (induction n) auto

lemma set_map_filter: "s \<in> set (List.map_filter g xs) \<longleftrightarrow> (\<exists>x \<in> set xs. g x = Some s)"
  by (induction xs) (auto simp: List.map_filter_simps split: option.splits)

lemma group_levels_ok:
  assumes ids: "distinct (step_ids f)" and inv: "levels_inv f levels"
    and order: "distinct order" "set order = set (step_ids f)"
    and keys: "set (dict_keys levels) = set (step_ids f)"
    and deps: "\<forall>s \<in> set (f_steps f). set (d_depends_on s) \<subseteq> set (step_ids f)"
  shows "levels_ok f (group_levels f order levels)"
proof -
  let ?n = "level_count levels" and ?L = "group_levels f order levels"
  let ?ids = "\<lambda>i. filter (\<lambda>sid. dict_get levels sid = Some i) order"
  have len: "length ?L = ?n"
    by (simp add: group_levels_def)
  have nth: "?L ! i = List.map_filter (step_by_id f) (?ids i)" if "i < ?n" for i
    using that by (simp add: group_levels_def)
  have mem: "s \<in> set (?L ! i) \<longleftrightarrow> s \<in> set (f_steps f) \<and> dict_get levels (d_step_id s) = Some i"
    if "i < ?n" for s i
  proof -
    have "s \<in> set (f_steps f) \<Longrightarrow> d_step_id s \<in> set order"
      using order(2) by (auto simp: step_ids_def)
    then show ?thesis
      unfolding nth [OF that] set_map_filter step_by_id_iff [OF ids] by auto
  qed
  have names: "map d_step_id (List.map_filter (step_by_id f) xs) = xs"
    if "set xs \<subseteq> set (step_ids f)" for xs
    using that
  proof (induction xs)
    case (Cons x xs)
    then obtain s where "s \<in> set (f_steps f)" "d_step_id s = x"
      by (auto simp: step_ids_def)
    then have "step_by_id f x = Some s"
      using step_by_id_iff [OF ids] by simp
    with Cons \<open>d_step_id s = x\<close> show ?case
      by (simp add: List.map_filter_simps)
  qed (simp add: List.map_filter_simps)
  have "map d_step_id (concat ?L) = concat (map ?ids [0..<?n])"
    unfolding group_levels_def map_concat map_map comp_def
    by (intro arg_cong [where f = concat] map_cong refl names) (use order(2) in auto)
  then have dist: "distinct (map d_step_id (concat ?L))"
    by (simp add: distinct_concat_groups order(1))
  have get: "\<exists>l. dict_get levels (d_step_id s) = Some l \<and> l < ?n" if "s \<in> set (f_steps f)" for s
  proof -
    have "d_step_id s \<in> set (dict_keys levels)"
      using that keys by (auto simp: step_ids_def)
    then obtain l where "dict_get levels (d_step_id s) = Some l"
      using dict_has_iff [of levels "d_step_id s"] by auto
    then show ?thesis
      using level_count_gt by blast
  qed
  have all: "set (concat ?L) = set (f_steps f)"
    using get mem len by (auto simp: set_concat in_set_conv_nth) (metis in_set_conv_nth)+
  have named: "\<exists>t \<in> set (?L ! j). d_step_id t = d"
    if "dict_get levels d = Some j" "d \<in> set (d_depends_on s)" "s \<in> set (f_steps f)" for s d j
  proof -
    from that deps obtain t where "t \<in> set (f_steps f)" "d_step_id t = d"
      by (auto simp: step_ids_def subset_iff)
    with that(1) mem [of j t] level_count_gt [OF that(1)] show ?thesis
      by auto
  qed
  have "(\<forall>d \<in> set (d_depends_on s). \<exists>j < i. \<exists>t \<in> set (?L ! j). d_step_id t = d) \<and>
      (0 < i \<longrightarrow> (\<exists>t \<in> set (?L ! (i - 1)). d_step_id t \<in> set (d_depends_on s)))"
    if "i < ?n" "s \<in> set (?L ! i)" for i s
  proof -
    from that mem have s: "s \<in> set (f_steps f)" "dict_get levels (d_step_id s) = Some i"
      by auto
    with inv have "\<forall>d \<in> set (d_depends_on s). \<exists>k < i. dict_get levels d = Some k"
      "0 < i \<longrightarrow> (\<exists>d \<in> set (d_depends_on s). dict_get levels d = Some (i - 1))"
      unfolding levels_inv_def by blast+
    with named s(1) show ?thesis
      by metis
  qed
  with dist all len show ?thesis
    by (simp add: levels_ok_def)
qed

lemma compute_dag_levels_ok:
  assumes "set_order ord"
  shows "topology_ok f \<Longrightarrow> \<exists>ls. compute_dag_levels ord f = Inr ls \<and> levels_ok f ls"
    and "\<not> topology_ok f \<Longrightarrow> \<exists>e. compute_dag_levels ord f = Inl e \<and> validate_dag_topology ord f = Some e"
proof -
  assume ok: "topology_ok f"
  note order = valid_order [OF assms ok]
  from ok have ids: "distinct (step_ids f)"
    and deps: "\<forall>s \<in> set (f_steps f). set (d_depends_on s) \<subseteq> set (step_ids f)"
    by (auto simp: topology_ok_def)
  have "levels_inv f []"
    by (simp add: levels_inv_def)
  with order assign_levels_spec [OF assms ids, of "[]" "static_order (dag_graph ord f)"]
  obtain levels where "assign_levels f (static_order (dag_graph ord f)) [] = Some levels"
      "levels_inv f levels" "set (dict_keys levels) = set (step_ids f)"
    by auto
  with group_levels_ok [OF ids _ order(1,2) _ deps] validate_iff [OF assms, of f] ok
  show "\<exists>ls. compute_dag_levels ord f = Inr ls \<and> levels_ok f ls"
    by (simp add: compute_dag_levels_def)
next
  assume "\<not> topology_ok f"
  with validate_iff [OF assms, of f]
  show "\<exists>e. compute_dag_levels ord f = Inl e \<and> validate_dag_topology ord f = Some e"
    by (auto simp: compute_dag_levels_def)
qed

definition plain_dag_step :: "string \<Rightarrow> string \<Rightarrow> string list \<Rightarrow> dag_step" where
  "plain_dag_step tool sid deps =
     flow_step.extend (mk_step\<lparr>s_tool_name := Some tool\<rparr>)
       (dag_step.fields sid deps KTool None [] None)"

definition diamond :: dag_flow where
  "diamond = mk_flow ''diamond''
     [plain_dag_step ''d'' ''D'' [''B'', ''C''], plain_dag_step ''b'' ''B'' [''A''],
      plain_dag_step ''c'' ''C'' [''A''], plain_dag_step ''a'' ''A'' []]"

text \<open>
  C3: Topology validation accepts exactly the flows with distinct step ids, known dependencies,
  an acyclic dependency relation, and branch targets that are direct dependents of the branching
  step, whatever the iteration order of the predecessor sets.
\<close>

theorem validate_dag_topology_correct:
  assumes "set_order ord"
  shows "validate_dag_topology ord f = None \<longleftrightarrow> topology_ok f"
  using assms by (rule validate_iff)

theorem validate_dag_topology_correct_witness:
  "topology_ok diamond \<and>
   \<not> topology_ok (diamond\<lparr>f_steps := plain_dag_step ''e'' ''A'' [''A''] # f_steps diamond\<rparr>)"
proof
  have "validate_dag_topology dedup_first diamond = None"
    by code_simp
  then show "topology_ok diamond"
    by (simp add: validate_dag_topology_correct [OF set_order_dedup])
  have "validate_dag_topology dedup_first
      (diamond\<lparr>f_steps := plain_dag_step ''e'' ''A'' [''A''] # f_steps diamond\<rparr>) \<noteq> None"
    by code_simp
  then show "\<not> topology_ok (diamond\<lparr>f_steps := plain_dag_step ''e'' ''A'' [''A''] # f_steps diamond\<rparr>)"
    by (simp add: validate_dag_topology_correct [OF set_order_dedup])
qed

text \<open>
  C4: For a valid flow the execution levels exist and hold every step once; every dependency of
  a step lies in a strictly earlier level, and each step beyond the first level has a dependency
  in the level just before its own.  An invalid flow gets the error of the validation.
\<close>

theorem compute_dag_levels_correct:
  assumes "set_order ord"
  shows "(topology_ok f \<longrightarrow> (\<exists>ls. compute_dag_levels ord f = Inr ls \<and> levels_ok f ls)) \<and>
     (\<not> topology_ok f \<longrightarrow>
        (\<exists>e. compute_dag_levels ord f = Inl e \<and> validate_dag_topology ord f = Some e))"
  using compute_dag_levels_ok [OF assms] by blast

theorem compute_dag_levels_correct_witness:
  "\<exists>ls. compute_dag_levels dedup_first diamond = Inr ls \<and> levels_ok diamond ls"
proof -
  have "compute_dag_levels dedup_first diamond =
      Inr (map (map (\<lambda>s. s)) [[f_steps diamond ! 3], [f_steps diamond ! 1, f_steps diamond ! 2], [f_steps diamond ! 0]])"
    by code_simp
  then show ?thesis
    using compute_dag_levels_correct [OF set_order_dedup, of diamond] by auto
qed

end
