(* ===== verification/Stores.thy ===== *)
theory Stores
  imports FlowModel "HOL-Library.Product_Lexorder" "HOL-Library.List_Lexorder" "HOL-Library.Char_ord"
begin

text \<open>
  The three pluggable stores: the step cache of \<open>chainweaver/cache.py\<close>, the checkpointer of
  \<open>chainweaver/checkpoint.py\<close> and the flow store of \<open>chainweaver/storage.py\<close>.  A protocol
  class is a record of operations, passed as an argument the way the code passes the object; its
  contract is a locale, and every locale is interpreted on the stores the code ships.
\<close>

section \<open>Step cache\<close>

record cache_key =
  ck_tool_name :: string
  ck_schema_hash :: string
  ck_input_value_hash :: string

definition digest :: "cache_key \<Rightarrow> string" where
  "digest k = ck_tool_name k @ ''|'' @ ck_schema_hash k @ ''|'' @ ck_input_value_hash k"

record 'c cache_ops =
  op_cache_get :: "'c \<Rightarrow> cache_key \<Rightarrow> val dict option"
  op_cache_set :: "'c \<Rightarrow> cache_key \<Rightarrow> val dict \<Rightarrow> 'c"
  op_cache_clear :: "'c \<Rightarrow> 'c"

text \<open>
  The contract of the protocol: what was stored under a key comes back, other keys are not
  affected.  \<open>key_ok\<close> holds of the keys the executor builds, whose hashes are hexadecimal.
\<close>

locale step_cache =
  fixes ops :: "'c cache_ops" and key_ok :: "cache_key \<Rightarrow> bool"
  assumes get_set: "key_ok k \<Longrightarrow> key_ok k' \<Longrightarrow>
      op_cache_get ops (op_cache_set ops c k v) k' = (if k' = k then Some v else op_cache_get ops c k')"
    and get_clear: "op_cache_get ops (op_cache_clear ops c) k = None"
begin

lemma get_set_same: "key_ok k \<Longrightarrow> op_cache_get ops (op_cache_set ops c k v) k = Some v"
  by (simp add: get_set)

lemma set_set: "key_ok k \<Longrightarrow> key_ok k' \<Longrightarrow>
    op_cache_get ops (op_cache_set ops (op_cache_set ops c k v) k w) k' =
    op_cache_get ops (op_cache_set ops c k w) k'"
  by (simp add: get_set)

end

type_synonym mem_cache = "(string \<times> val dict) list"

definition in_memory_cache :: "mem_cache cache_ops" where
  "in_memory_cache =
     \<lparr>op_cache_get = (\<lambda>c k. dict_get c (digest k)),
      op_cache_set = (\<lambda>c k v. dict_set c (digest k) v),
      op_cache_clear = (\<lambda>c. [])\<rparr>"

definition hex_key :: "cache_key \<Rightarrow> bool" where
  "hex_key k \<longleftrightarrow> CHR ''|'' \<notin> set (ck_schema_hash k) \<and> CHR ''|'' \<notin> set (ck_input_value_hash k)"

lemma append_sep_inj:
  "c \<notin> set b \<Longrightarrow> c \<notin> set b' \<Longrightarrow> a @ c # b = a' @ c # b' \<Longrightarrow> a = a' \<and> b = b'"
  by (auto simp: append_eq_append_conv2 Cons_eq_append_conv append_eq_Cons_conv)

lemma digest_inj:
  assumes "hex_key k" and "hex_key k'"
  shows "digest k = digest k' \<longleftrightarrow> k = k'"
proof
  assume eq: "digest k = digest k'"
  have split: "digest k = (ck_tool_name k @ CHR ''|'' # ck_schema_hash k) @ CHR ''|'' # ck_input_value_hash k"
    for k by (simp add: digest_def)
  from append_sep_inj [OF _ _ eq [unfolded split]] assms
  have 1: "ck_tool_name k @ CHR ''|'' # ck_schema_hash k = ck_tool_name k' @ CHR ''|'' # ck_schema_hash k'"
    and 2: "ck_input_value_hash k = ck_input_value_hash k'"
    by (auto simp: hex_key_def)
  from append_sep_inj [OF _ _ 1] assms 2 show "k = k'"
    by (simp add: hex_key_def)
qed simp

interpretation mem_cache: step_cache in_memory_cache hex_key
  by unfold_locales (auto simp: in_memory_cache_def dict_get_set digest_inj)

section \<open>Checkpointer\<close>

record ('k, 'snap) checkpoint_ops =
  op_snap_save :: "'k \<Rightarrow> 'snap \<Rightarrow> 'k \<times> (exn + unit)"
  op_snap_load :: "'k \<Rightarrow> string \<Rightarrow> exn + 'snap option"
  op_snap_delete :: "'k \<Rightarrow> string \<Rightarrow> 'k \<times> (exn + unit)"
  op_snap_list :: "'k \<Rightarrow> string list"

text \<open>
  The contract, for the trace ids \<open>id_ok\<close> the store accepts; \<open>trace_of\<close> is the field
  \<open>trace_id\<close> of a snapshot.
\<close>

locale checkpointer =
  fixes ops :: "('k, 'snap) checkpoint_ops" and trace_of :: "'snap \<Rightarrow> string"
    and id_ok :: "string \<Rightarrow> bool"
  assumes save_ok: "id_ok (trace_of s) \<Longrightarrow> snd (op_snap_save ops k s) = Inr ()"
    and load_save: "id_ok (trace_of s) \<Longrightarrow> id_ok t \<Longrightarrow>
      op_snap_load ops (fst (op_snap_save ops k s)) t =
        (if t = trace_of s then Inr (Some s) else op_snap_load ops k t)"
    and delete_ok: "id_ok t \<Longrightarrow> snd (op_snap_delete ops k t) = Inr ()"
    and load_delete: "id_ok t \<Longrightarrow> id_ok u \<Longrightarrow>
      op_snap_load ops (fst (op_snap_delete ops k t)) u =
        (if u = t then Inr None else op_snap_load ops k u)"
begin

text \<open>After a run has deleted its snapshot, resuming it finds nothing, whatever was saved.\<close>

lemma load_save_delete:
  "id_ok (trace_of s) \<Longrightarrow>
     op_snap_load ops (fst (op_snap_delete ops (fst (op_snap_save ops k s)) (trace_of s))) (trace_of s) =
     Inr None"
  by (simp add: load_delete)

end

type_synonym 'snap mem_checkpointer = "(string \<times> 'snap) list"

definition in_memory_checkpointer ::
  "('snap \<Rightarrow> string) \<Rightarrow> ('snap mem_checkpointer, 'snap) checkpoint_ops" where
  "in_memory_checkpointer trace_of =
     \<lparr>op_snap_save = (\<lambda>k s. (dict_set k (trace_of s) s, Inr ())),
      op_snap_load = (\<lambda>k t. Inr (dict_get k t)),
      op_snap_delete = (\<lambda>k t. (dict_del k t, Inr ())),
      op_snap_list = (\<lambda>k. dict_keys k)\<rparr>"

interpretation mem_checkpointer:
  checkpointer "in_memory_checkpointer trace_of" trace_of "\<lambda>_. True" for trace_of
  by unfold_locales (auto simp: in_memory_checkpointer_def dict_get_set dict_get_del)

text \<open>
  \<open>FileCheckpointer\<close>: one file per trace id.  The payload \<open>model_dump_json\<close> and its
  validation are the arguments \<open>enc\<close> and \<open>dec\<close>; an unreadable payload reads as no snapshot.
\<close>

definition trace_char :: "char \<Rightarrow> bool" where
  "trace_char c =
     (let n = of_char c :: nat
      in 65 \<le> n \<and> n \<le> 90 \<or> 97 \<le> n \<and> n \<le> 122 \<or> 48 \<le> n \<and> n \<le> 57 \<or> c \<in> set ''._-'')"

text \<open>
  \<open>re.match(r"^[A-Za-z0-9._-]+$", s)\<close>: the \<open>$\<close> also matches before a final newline.
\<close>

definition safe_id :: "string \<Rightarrow> bool" where
  "safe_id s =
     (let body = (if s \<noteq> [] \<and> of_char (last s) = (10 :: nat) then butlast s else s)
      in body \<noteq> [] \<and> list_all trace_char body)"

definition snapshot_path :: "string \<Rightarrow> exn + string" where
  "snapshot_path t =
     (if safe_id t then Inr (t @ ''.snapshot.json'') else Inl (ValueError ''trace_id must match''))"

definition file_checkpointer ::
  "('snap \<Rightarrow> string) \<Rightarrow> ('snap \<Rightarrow> 'raw) \<Rightarrow> ('raw \<Rightarrow> 'snap option) \<Rightarrow>
     ((string \<times> 'raw) list, 'snap) checkpoint_ops" where
  "file_checkpointer trace_of enc dec =
     \<lparr>op_snap_save = (\<lambda>d s.
        case snapshot_path (trace_of s) of
          Inl e \<Rightarrow> (d, Inl e) | Inr p \<Rightarrow> (dict_set d p (enc s), Inr ())),
      op_snap_load = (\<lambda>d t.
        case snapshot_path t of
          Inl e \<Rightarrow> Inl e
        | Inr p \<Rightarrow> Inr (case dict_get d p of None \<Rightarrow> None | Some raw \<Rightarrow> dec raw)),
      op_snap_delete = (\<lambda>d t.
        case snapshot_path t of Inl e \<Rightarrow> (d, Inl e) | Inr p \<Rightarrow> (dict_del d p, Inr ())),
      op_snap_list = (\<lambda>d.
        sort (map (\<lambda>p. take (length p - 14) p)
          (filter (\<lambda>p. 14 \<le> length p \<and> drop (length p - 14) p = ''.snapshot.json'') (dict_keys d))))\<rparr>"

lemma snapshot_path_inj:
  "snapshot_path t = Inr p \<Longrightarrow> snapshot_path u = Inr p \<Longrightarrow> t = u"
  by (auto simp: snapshot_path_def split: if_splits)

text \<open>With a payload that decodes to what was encoded, it keeps the same contract.\<close>

lemma file_checkpointer_contract:
  assumes "\<And>s. dec (enc s) = Some s"
  shows "checkpointer (file_checkpointer trace_of enc dec) trace_of safe_id"
  using assms
  by unfold_locales
     (auto simp: file_checkpointer_def snapshot_path_def dict_get_set dict_get_del)

section \<open>Flow store\<close>

type_synonym flow_key = "string \<times> string"

record 's store_ops =
  op_save_flow :: "'s \<Rightarrow> any_flow \<Rightarrow> bool \<Rightarrow> 's \<times> (exn + unit)"
  op_load_flow :: "'s \<Rightarrow> string \<Rightarrow> string \<Rightarrow> exn + any_flow"
  op_has_flow :: "'s \<Rightarrow> string \<Rightarrow> string \<Rightarrow> bool"
  op_list_keys :: "'s \<Rightarrow> flow_key list"
  op_delete_flow :: "'s \<Rightarrow> string \<Rightarrow> string \<Rightarrow> 's \<times> (exn + unit)"

definition flow_key_of :: "any_flow \<Rightarrow> flow_key" where
  "flow_key_of f = (af_name f, af_version f)"

locale registry_store =
  fixes ops :: "'s store_ops" and contents :: "'s \<Rightarrow> flow_key \<rightharpoonup> any_flow" and good :: "'s \<Rightarrow> bool"
  assumes save_new: "good s \<Longrightarrow> contents s (flow_key_of f) = None \<or> ow \<Longrightarrow>
      \<exists>s'. op_save_flow ops s f ow = (s', Inr ()) \<and> good s' \<and>
        contents s' = (contents s)(flow_key_of f \<mapsto> f)"
    and save_old: "good s \<Longrightarrow> contents s (flow_key_of f) \<noteq> None \<Longrightarrow>
      op_save_flow ops s f False = (s, Inl (FlowAlreadyExistsError (af_name f)))"
    and load: "good s \<Longrightarrow> op_load_flow ops s n v =
      (case contents s (n, v) of None \<Rightarrow> Inl (FlowNotFoundError n (Some v)) | Some f \<Rightarrow> Inr f)"
    and has: "good s \<Longrightarrow> op_has_flow ops s n v \<longleftrightarrow> contents s (n, v) \<noteq> None"
    and keys: "good s \<Longrightarrow> set (op_list_keys ops s) = dom (contents s) \<and> sorted (op_list_keys ops s) \<and>
      distinct (op_list_keys ops s)"
    and keyed: "good s \<Longrightarrow> contents s k = Some f \<Longrightarrow> flow_key_of f = k"
    and delete_old: "good s \<Longrightarrow> contents s (n, v) \<noteq> None \<Longrightarrow>
      \<exists>s'. op_delete_flow ops s n v = (s', Inr ()) \<and> good s' \<and>
        contents s' = (contents s)((n, v) := None)"
    and delete_new: "good s \<Longrightarrow> contents s (n, v) = None \<Longrightarrow>
      op_delete_flow ops s n v = (s, Inl (FlowNotFoundError n (Some v)))"

type_synonym mem_store = "(flow_key \<times> any_flow) list"

definition in_memory_store :: "mem_store store_ops" where
  "in_memory_store =
     \<lparr>op_save_flow = (\<lambda>s f ow.
        if dict_has s (flow_key_of f) \<and> \<not> ow then (s, Inl (FlowAlreadyExistsError (af_name f)))
        else (dict_set s (flow_key_of f) f, Inr ())),
      op_load_flow = (\<lambda>s n v.
        case dict_get s (n, v) of None \<Rightarrow> Inl (FlowNotFoundError n (Some v)) | Some f \<Rightarrow> Inr f),
      op_has_flow = (\<lambda>s n v. dict_has s (n, v)),
      op_list_keys = (\<lambda>s. sort (dict_keys s)),
      op_delete_flow = (\<lambda>s n v.
        if dict_has s (n, v) then (dict_del s (n, v), Inr ())
        else (s, Inl (FlowNotFoundError n (Some v))))\<rparr>"

definition mem_store_good :: "mem_store \<Rightarrow> bool" where
  "mem_store_good s \<longleftrightarrow> dict_ok s \<and> (\<forall>(k, f) \<in> set s. flow_key_of f = k)"

lemma mem_store_good_set: "mem_store_good s \<Longrightarrow> mem_store_good (dict_set s (flow_key_of f) f)"
proof -
  assume "mem_store_good s"
  moreover have "set (dict_set s k f) \<subseteq> insert (k, f) (set s)" for k
    by (induction s) auto
  ultimately show ?thesis
    by (fastforce simp: mem_store_good_def dict_ok_set)
qed

lemma mem_store_good_del: "mem_store_good s \<Longrightarrow> mem_store_good (dict_del s k)"
  by (auto simp: mem_store_good_def dict_ok_del) (auto simp: dict_del_def)

interpretation mem_store: registry_store in_memory_store map_of mem_store_good
proof (unfold_locales, goal_cases)
  case (1 s f ow)
  then show ?case
    by (auto simp: in_memory_store_def dict_get_set mem_store_good_set)
next
  case (2 s f)
  then show ?case by (auto simp: in_memory_store_def)
next
  case (3 s n v)
  then show ?case by (simp add: in_memory_store_def)
next
  case (4 s n v)
  then show ?case by (simp add: in_memory_store_def)
next
  case (5 s)
  then show ?case by (simp add: in_memory_store_def mem_store_good_def dom_map_of_conv_image_fst)
next
  case (6 s k f)
  then show ?case by (auto simp: mem_store_good_def dest!: map_of_SomeD)
next
  case (7 s n v)
  then show ?case by (auto simp: in_memory_store_def dict_get_del mem_store_good_del)
next
  case (8 s n v)
  then show ?case by (simp add: in_memory_store_def)
qed

section \<open>Flow files\<close>

text \<open>
  \<open>FileStore\<close>: one JSON file per flow.  A directory maps file names to contents; the encoder
  \<open>flow_to_json\<close> and the decoder \<open>flow_from_json\<close> are the arguments \<open>enc\<close> and \<open>dec\<close>.
\<close>

definition validate_name :: "string \<Rightarrow> exn option" where
  "validate_name n =
     (if safe_id n then None else Some (FlowSerializationError ''is not safe for file storage''))"

definition validate_version :: "string \<Rightarrow> exn option" where
  "validate_version v =
     (if CHR ''/'' \<in> set v \<or> CHR 0x5C \<in> set v \<or> CHR ''@'' \<in> set v
      then Some (FlowSerializationError ''contains a path separator or @'') else None)"

definition path_for :: "string \<Rightarrow> string \<Rightarrow> exn + string" where
  "path_for n v =
     (case validate_name n of
        Some e \<Rightarrow> Inl e
      | None \<Rightarrow>
          (case validate_version v of
             Some e \<Rightarrow> Inl e
           | None \<Rightarrow> Inr (n @ CHR ''@'' # v @ ''.flow.json'')))"

fun split_at_char :: "char \<Rightarrow> string \<Rightarrow> (string \<times> string) option" where
  "split_at_char c [] = None"
| "split_at_char c (x # s) =
     (if x = c then Some ([], s) else map_option (\<lambda>(a, b). (x # a, b)) (split_at_char c s))"

text \<open>\<open>_FILENAME_RE.match\<close>.\<close>

definition parse_filename :: "string \<Rightarrow> flow_key option" where
  "parse_filename fn =
     (let body = (if fn \<noteq> [] \<and> of_char (last fn) = (10 :: nat) then butlast fn else fn);
          stem = take (length body - 10) body
      in if 10 \<le> length body \<and> drop (length body - 10) body = ''.flow.json'' then
           (case split_at_char (CHR ''@'') stem of
              None \<Rightarrow> None
            | Some (n, v) \<Rightarrow>
                (if n \<noteq> [] \<and> v \<noteq> [] \<and> CHR ''/'' \<notin> set stem \<and> CHR 0x5C \<notin> set stem
                 then Some (n, v) else None))
         else None)"

type_synonym 'raw directory = "(string \<times> 'raw) list"

definition file_store ::
  "(any_flow \<Rightarrow> 'raw) \<Rightarrow> ('raw \<Rightarrow> string + any_flow) \<Rightarrow> 'raw directory store_ops" where
  "file_store enc dec =
     \<lparr>op_save_flow = (\<lambda>d f ow.
        case path_for (af_name f) (af_version f) of
          Inl e \<Rightarrow> (d, Inl e)
        | Inr p \<Rightarrow>
            (if dict_has d p \<and> \<not> ow then (d, Inl (FlowAlreadyExistsError (af_name f)))
             else (dict_set d p (enc f), Inr ()))),
      op_load_flow = (\<lambda>d n v.
        case path_for n v of
          Inl e \<Rightarrow> Inl e
        | Inr p \<Rightarrow>
            (case dict_get d p of
               None \<Rightarrow> Inl (FlowNotFoundError n (Some v))
             | Some raw \<Rightarrow>
                 (case dec raw of
                    Inl msg \<Rightarrow> Inl (FlowSerializationError msg) | Inr f \<Rightarrow> Inr f))),
      op_has_flow = (\<lambda>d n v. case path_for n v of Inl _ \<Rightarrow> False | Inr p \<Rightarrow> dict_has d p),
      op_list_keys = (\<lambda>d. List.map_filter parse_filename (sort (dict_keys d))),
      op_delete_flow = (\<lambda>d n v.
        case path_for n v of
          Inl e \<Rightarrow> (d, Inl e)
        | Inr p \<Rightarrow>
            (if dict_has d p then (dict_del d p, Inr ())
             else (d, Inl (FlowNotFoundError n (Some v)))))\<rparr>"

lemma split_at_char_append: "c \<notin> set a \<Longrightarrow> split_at_char c (a @ c # b) = Some (a, b)"
  by (induction a) auto

lemma trace_char_sep: "trace_char c \<Longrightarrow> c \<noteq> CHR ''@'' \<and> c \<noteq> CHR ''/'' \<and> c \<noteq> CHR 0x5C"
proof -
  have "\<not> trace_char (CHR ''@'')" "\<not> trace_char (CHR ''/'')" "\<not> trace_char (CHR 0x5C)"
    by code_simp+
  then show "trace_char c \<Longrightarrow> c \<noteq> CHR ''@'' \<and> c \<noteq> CHR ''/'' \<and> c \<noteq> CHR 0x5C"
    by blast
qed

lemma safe_id_chars:
  assumes "safe_id s"
  shows "s \<noteq> []" and "CHR ''@'' \<notin> set s" and "CHR ''/'' \<notin> set s" and "CHR 0x5C \<notin> set s"
proof -
  have nl: "c \<noteq> CHR ''@'' \<and> c \<noteq> CHR ''/'' \<and> c \<noteq> CHR 0x5C" if "of_char c = (10 :: nat)" for c
    using that by auto
  have "s \<noteq> [] \<and> (\<forall>c \<in> set s. trace_char c \<or> of_char c = (10 :: nat))"
  proof (cases "s \<noteq> [] \<and> of_char (last s) = (10 :: nat)")
    case True
    then have "list_all trace_char (butlast s)"
      using assms by (simp add: safe_id_def Let_def)
    moreover have "set s = insert (last s) (set (butlast s))"
      using True by (cases s rule: rev_cases) auto
    ultimately show ?thesis
      using True unfolding list_all_iff by (metis insert_iff)
  next
    case False
    then have "s \<noteq> [] \<and> list_all trace_char s"
      using assms unfolding safe_id_def Let_def by (auto split: if_splits)
    then show ?thesis
      unfolding list_all_iff by blast
  qed
  with nl trace_char_sep
  show "s \<noteq> []" "CHR ''@'' \<notin> set s" "CHR ''/'' \<notin> set s" "CHR 0x5C \<notin> set s"
    by blast+
qed

lemma path_for_Inr:
  "path_for n v = Inr p \<longleftrightarrow>
     safe_id n \<and> CHR ''/'' \<notin> set v \<and> CHR 0x5C \<notin> set v \<and> CHR ''@'' \<notin> set v \<and>
     p = n @ CHR ''@'' # v @ ''.flow.json''"
  by (auto simp: path_for_def validate_name_def validate_version_def split: option.splits)

lemma parse_path_for:
  assumes "path_for n v = Inr p" and "v \<noteq> []"
  shows "parse_filename p = Some (n, v)"
proof -
  from assms(1) have p: "p = (n @ CHR ''@'' # v) @ ''.flow.json''" and n: "safe_id n"
    and v: "CHR ''/'' \<notin> set v" "CHR 0x5C \<notin> set v"
    by (auto simp: path_for_Inr)
  have "last p = CHR ''n''"
    unfolding p by simp
  then show ?thesis
    using assms(2) v safe_id_chars [OF n]
    by (simp add: parse_filename_def p split_at_char_append)
qed

lemma path_for_inj:
  assumes "path_for n v = Inr p" and "path_for m w = Inr p"
  shows "n = m \<and> v = w"
proof -
  from assms have p: "p = n @ CHR ''@'' # v @ ''.flow.json''" "p = m @ CHR ''@'' # w @ ''.flow.json''"
    and n: "safe_id n" "safe_id m"
    by (simp_all add: path_for_Inr)
  from p(1) have "split_at_char (CHR ''@'') p = Some (n, v @ ''.flow.json'')"
    using split_at_char_append safe_id_chars(2) [OF n(1)] by simp
  moreover from p(2) have "split_at_char (CHR ''@'') p = Some (m, w @ ''.flow.json'')"
    using split_at_char_append safe_id_chars(2) [OF n(2)] by simp
  ultimately show ?thesis
    by simp
qed



text \<open>
  The two shipped stores do not list the same keys in the same order: the file store sorts
  file names, in which the separator of name and version takes part, the in-memory store sorts
  the pairs, as the protocol documents.
\<close>

theorem file_store_key_order:
  "op_list_keys in_memory_store
     [((''a'', ''1''), LinearFlow (mk_flow ''a'' [])), ((''a-b'', ''1''), LinearFlow (mk_flow ''a-b'' []))]
     = [(''a'', ''1''), (''a-b'', ''1'')] \<and>
   op_list_keys (file_store enc dec)
     [(''a@1.flow.json'', enc (LinearFlow (mk_flow ''a'' []))),
      (''a-b@1.flow.json'', enc (LinearFlow (mk_flow ''a-b'' [])))]
     = [(''a-b'', ''1''), (''a'', ''1'')]"
proof
  have "sort [(''a'', ''1''), (''a-b'', ''1'')] = [(''a'', ''1''), (''a-b'', ''1'')]"
    by code_simp
  then show "op_list_keys in_memory_store
     [((''a'', ''1''), LinearFlow (mk_flow ''a'' [])), ((''a-b'', ''1''), LinearFlow (mk_flow ''a-b'' []))]
     = [(''a'', ''1''), (''a-b'', ''1'')]"
    by (simp add: in_memory_store_def)
  have "List.map_filter parse_filename (sort [''a@1.flow.json'', ''a-b@1.flow.json'']) =
      [(''a-b'', ''1''), (''a'', ''1'')]"
    by code_simp
  then show "op_list_keys (file_store enc dec)
     [(''a@1.flow.json'', enc (LinearFlow (mk_flow ''a'' []))),
      (''a-b@1.flow.json'', enc (LinearFlow (mk_flow ''a-b'' [])))]
     = [(''a-b'', ''1''), (''a'', ''1'')]"
    by (simp add: file_store_def)
qed

end
