(* ===== verification/Registry.thy ===== *)
theory Registry
  imports Stores Topology
begin

text \<open>
  \<open>FlowRegistry\<close> of \<open>chainweaver/registry.py\<close> over any flow store.  PEP 440 parsing is the
  argument \<open>pv\<close> into a linear order of versions; the store operations are the argument
  \<open>ops\<close>.  The state is the store, the latest-version pointer and the per-directory file hashes
  of the last scan.
\<close>

type_synonym 'v version_parser = "string \<Rightarrow> 'v option"

record 's registry =
  r_store :: 's
  r_latest :: "(string \<times> string) list"
  r_dir_hashes :: "(string \<times> (flow_key \<times> string) list) list"

definition parse_version :: "'v version_parser \<Rightarrow> string \<Rightarrow> string \<Rightarrow> exn + 'v" where
  "parse_version pv flow_name v =
     (case pv v of None \<Rightarrow> Inl (InvalidFlowVersionError flow_name v) | Some x \<Rightarrow> Inr x)"

definition touch_latest ::
  "('v :: linorder) version_parser \<Rightarrow> 's registry \<Rightarrow> string \<Rightarrow> string \<Rightarrow> exn + 's registry" where
  "touch_latest pv r name v =
     bind_err (parse_version pv name v) (\<lambda>parsed_new.
       case dict_get (r_latest r) name of
         None \<Rightarrow> Inr (r\<lparr>r_latest := dict_set (r_latest r) name v\<rparr>)
       | Some current \<Rightarrow>
           bind_err (parse_version pv name current) (\<lambda>parsed_cur.
             if parsed_cur \<le> parsed_new then Inr (r\<lparr>r_latest := dict_set (r_latest r) name v\<rparr>)
             else Inr r))"

fun touch_all ::
  "('v :: linorder) version_parser \<Rightarrow> 's registry \<Rightarrow> flow_key list \<Rightarrow> exn + 's registry" where
  "touch_all pv r [] = Inr r"
| "touch_all pv r (k # ks) = bind_err (touch_latest pv r (fst k) (snd k)) (\<lambda>r. touch_all pv r ks)"

text \<open>\<open>FlowRegistry(store)\<close>: the pointer is rebuilt from the keys of the store.\<close>

definition new_registry ::
  "('v :: linorder) version_parser \<Rightarrow> 's store_ops \<Rightarrow> 's \<Rightarrow> exn + 's registry" where
  "new_registry pv ops s =
     touch_all pv \<lparr>r_store = s, r_latest = [], r_dir_hashes = []\<rparr> (op_list_keys ops s)"

definition lift_touch :: "'s registry \<Rightarrow> exn + 's registry \<Rightarrow> 's registry \<times> (exn + unit)" where
  "lift_touch r x = (case x of Inl e \<Rightarrow> (r, Inl e) | Inr r' \<Rightarrow> (r', Inr ()))"

text \<open>The store call, the pointer unchanged.\<close>

definition save_in ::
  "'s store_ops \<Rightarrow> 's registry \<Rightarrow> any_flow \<Rightarrow> bool \<Rightarrow> 's registry \<times> (exn + unit)" where
  "save_in ops r f overwrite =
     (case op_save_flow ops (r_store r) f overwrite of (s, res) \<Rightarrow> (r\<lparr>r_store := s\<rparr>, res))"

definition register_flow ::
  "('v :: linorder) version_parser \<Rightarrow> set_order \<Rightarrow> 's store_ops \<Rightarrow> 's registry \<Rightarrow> any_flow \<Rightarrow> bool \<Rightarrow>
     's registry \<times> (exn + unit)" where
  "register_flow pv ord ops r f overwrite =
     (case parse_version pv (af_name f) (af_version f) of
        Inl e \<Rightarrow> (r, Inl e)
      | Inr _ \<Rightarrow>
          (case (case f of LinearFlow _ \<Rightarrow> None | DagFlow d \<Rightarrow> validate_dag_topology ord d) of
             Some e \<Rightarrow> (r, Inl e)
           | None \<Rightarrow>
               bind_st (save_in ops r f overwrite) (\<lambda>r _.
                 lift_touch r (touch_latest pv r (af_name f) (af_version f)))))"

definition get_flow ::
  "'s store_ops \<Rightarrow> 's registry \<Rightarrow> string \<Rightarrow> string option \<Rightarrow> exn + any_flow" where
  "get_flow ops r name version =
     (case version of
        Some v \<Rightarrow> op_load_flow ops (r_store r) name v
      | None \<Rightarrow>
          (case dict_get (r_latest r) name of
             None \<Rightarrow> Inl (FlowNotFoundError name None)
           | Some v \<Rightarrow> op_load_flow ops (r_store r) name v))"

definition status_selected ::
  "flow_status option \<Rightarrow> flow_status list option \<Rightarrow> any_flow \<Rightarrow> bool" where
  "status_selected status exclude f =
     ((case status of None \<Rightarrow> True | Some s \<Rightarrow> af_status f = s) \<and>
      (case exclude of None \<Rightarrow> True | Some ss \<Rightarrow> af_status f \<notin> set ss))"

definition list_flows ::
  "'s store_ops \<Rightarrow> 's registry \<Rightarrow> flow_status option \<Rightarrow> flow_status list option \<Rightarrow> exn + any_flow list" where
  "list_flows ops r status exclude =
     bind_err (map_err (\<lambda>k. op_load_flow ops (r_store r) (fst k) (snd k)) (op_list_keys ops (r_store r)))
       (\<lambda>fs. Inr (filter (status_selected status exclude) fs))"

definition get_active_flows :: "'s store_ops \<Rightarrow> 's registry \<Rightarrow> exn + any_flow list" where
  "get_active_flows ops r = list_flows ops r (Some ACTIVE) None"

text \<open>\<open>model_copy(update=updates)\<close> for the two fields a transition may write.\<close>

definition copy_flow ::
  "flow_status option \<Rightarrow> (string \<times> string) list option option \<Rightarrow> any_flow \<Rightarrow> any_flow" where
  "copy_flow status hashes f =
     (let upd_status = (case status of None \<Rightarrow> id | Some s \<Rightarrow> \<lambda>_. s);
          upd_hashes = (case hashes of None \<Rightarrow> id | Some h \<Rightarrow> \<lambda>_. h)
      in case f of
           LinearFlow l \<Rightarrow>
             LinearFlow (l\<lparr>f_status := upd_status (f_status l),
                           f_tool_schema_hashes := upd_hashes (f_tool_schema_hashes l)\<rparr>)
         | DagFlow d \<Rightarrow>
             DagFlow (d\<lparr>f_status := upd_status (f_status d),
                        f_tool_schema_hashes := upd_hashes (f_tool_schema_hashes d)\<rparr>))"

text \<open>The argument \<open>hashes\<close> is \<open>None\<close> when it is not supplied (\<open>_UNSET\<close>).\<close>

definition update_flow_state ::
  "('v :: linorder) version_parser \<Rightarrow> 's store_ops \<Rightarrow> 's registry \<Rightarrow> string \<Rightarrow> string option \<Rightarrow>
     flow_status option \<Rightarrow> (string \<times> string) list option option \<Rightarrow> 's registry \<times> (exn + any_flow)" where
  "update_flow_state pv ops r name version status hashes =
     (case get_flow ops r name version of
        Inl e \<Rightarrow> (r, Inl e)
      | Inr f \<Rightarrow>
          (if status = None \<and> hashes = None then (r, Inr f)
           else
             (let f' = copy_flow status hashes f
              in bind_st (save_in ops r f' True) (\<lambda>r _.
                   bind_st (lift_touch r (touch_latest pv r (af_name f') (af_version f'))) (\<lambda>r _.
                     (r, Inr f'))))))"

definition set_flow_status ::
  "('v :: linorder) version_parser \<Rightarrow> 's store_ops \<Rightarrow> 's registry \<Rightarrow> string \<Rightarrow> flow_status \<Rightarrow>
     string option \<Rightarrow> 's registry \<times> (exn + any_flow)" where
  "set_flow_status pv ops r name status version =
     update_flow_state pv ops r name version (Some status) None"

definition list_flow_versions ::
  "('v :: linorder) version_parser \<Rightarrow> 's store_ops \<Rightarrow> 's registry \<Rightarrow> string \<Rightarrow> exn + string list" where
  "list_flow_versions pv ops r name =
     (let versions = map snd (filter (\<lambda>k. fst k = name) (op_list_keys ops (r_store r)))
      in if versions = [] then Inl (FlowNotFoundError name None)
         else bind_err (map_err (parse_version pv name) versions) (\<lambda>_.
                Inr (sort_key (\<lambda>v. the (pv v)) versions)))"

text \<open>\<open>str.lower()\<close> on Latin-1 text.\<close>

definition lower_char :: "char \<Rightarrow> char" where
  "lower_char c =
     (let n = of_char c :: nat
      in if 65 \<le> n \<and> n \<le> 90 \<or> 192 \<le> n \<and> n \<le> 222 \<and> n \<noteq> 215 then char_of (n + 32) else c)"

definition lower :: "string \<Rightarrow> string" where
  "lower s = map lower_char s"

definition af_description :: "any_flow \<Rightarrow> string" where
  "af_description = on_flow f_description f_description"

fun match_first :: "(any_flow \<Rightarrow> bool) \<Rightarrow> (flow_key \<Rightarrow> exn + any_flow) \<Rightarrow> flow_key list \<Rightarrow> exn + any_flow option" where
  "match_first p load [] = Inr None"
| "match_first p load (k # ks) =
     bind_err (load k) (\<lambda>f. if p f then Inr (Some f) else match_first p load ks)"

definition match_flow_by_intent :: "'s store_ops \<Rightarrow> 's registry \<Rightarrow> string \<Rightarrow> exn + any_flow option" where
  "match_flow_by_intent ops r intent =
     match_first
       (\<lambda>f. sublist (lower intent) (lower (af_name f)) \<or> sublist (lower intent) (lower (af_description f)))
       (\<lambda>k. op_load_flow ops (r_store r) (fst k) (snd k)) (op_list_keys ops (r_store r))"

section \<open>Loading from a directory\<close>

text \<open>What the path denotes: nothing, a plain file, or the sorted flow files below it.\<close>

datatype dir_listing = Missing | NotADirectory | Files "(string \<times> string) list"

record reload_report =
  added :: "string list"
  updated :: "string list"
  unchanged :: "string list"

definition ends_with :: "string \<Rightarrow> string \<Rightarrow> bool" where
  "ends_with s suf = (length suf \<le> length s \<and> drop (length s - length suf) s = suf)"

record flow_codec =
  from_json :: "string \<Rightarrow> exn + any_flow"
  from_yaml :: "string \<Rightarrow> exn + any_flow"
  sha256 :: "string \<Rightarrow> string"

definition load_flow_file :: "flow_codec \<Rightarrow> string \<times> string \<Rightarrow> exn + any_flow" where
  "load_flow_file cd file =
     (let name_lower = lower (fst file)
      in if ends_with name_lower ''.flow.json'' then from_json cd (snd file)
         else if ends_with name_lower ''.flow.yaml'' \<or> ends_with name_lower ''.flow.yml''
         then from_yaml cd (snd file)
         else Inl (FlowSerializationError ''Unrecognised flow-file extension''))"

definition flow_label :: "any_flow \<Rightarrow> string" where
  "flow_label f = af_name f @ ''@'' @ af_version f"

record scan =
  sc_hashes :: "(flow_key \<times> string) list"
  sc_added :: "string list"
  sc_updated :: "string list"
  sc_unchanged :: "string list"

definition empty_scan :: scan where
  "empty_scan = \<lparr>sc_hashes = [], sc_added = [], sc_updated = [], sc_unchanged = []\<rparr>"

text \<open>One file of a scan: \<open>previous\<close> is \<open>None\<close> on the initial load.\<close>

definition scan_file ::
  "('v :: linorder) version_parser \<Rightarrow> set_order \<Rightarrow> 's store_ops \<Rightarrow> flow_codec \<Rightarrow>
     (flow_key \<times> string) list option \<Rightarrow> bool \<Rightarrow> 's registry \<Rightarrow> scan \<Rightarrow> string \<times> string \<Rightarrow>
     's registry \<times> (exn + scan)" where
  "scan_file pv ord ops cd previous overwrite r sc file =
     (let dg = sha256 cd (snd file)
      in case load_flow_file cd file of
           Inl e \<Rightarrow> (r, Inl e)
         | Inr f \<Rightarrow>
             (if dict_has (sc_hashes sc) (flow_key_of f)
              then (r, Inl (FlowSerializationError ''Duplicate flow in the same directory scan.''))
              else
                (let sc = sc\<lparr>sc_hashes := dict_set (sc_hashes sc) (flow_key_of f) dg\<rparr>;
                     add = bind_st (register_flow pv ord ops r f overwrite) (\<lambda>r _.
                             (r, Inr (sc\<lparr>sc_added := sc_added sc @ [flow_label f]\<rparr>)))
                 in case previous of
                      None \<Rightarrow> add
                    | Some prev \<Rightarrow>
                        (case dict_get prev (flow_key_of f) of
                           None \<Rightarrow> add
                         | Some old \<Rightarrow>
                             (if old \<noteq> dg then
                                bind_st (register_flow pv ord ops r f overwrite) (\<lambda>r _.
                                  (r, Inr (sc\<lparr>sc_updated := sc_updated sc @ [flow_label f]\<rparr>)))
                              else (r, Inr (sc\<lparr>sc_unchanged := sc_unchanged sc @ [flow_label f]\<rparr>)))))))"

fun scan_files ::
  "('v :: linorder) version_parser \<Rightarrow> set_order \<Rightarrow> 's store_ops \<Rightarrow> flow_codec \<Rightarrow>
     (flow_key \<times> string) list option \<Rightarrow> bool \<Rightarrow> 's registry \<Rightarrow> scan \<Rightarrow> (string \<times> string) list \<Rightarrow>
     's registry \<times> (exn + scan)" where
  "scan_files pv ord ops cd previous overwrite r sc [] = (r, Inr sc)"
| "scan_files pv ord ops cd previous overwrite r sc (file # files) =
     bind_st (scan_file pv ord ops cd previous overwrite r sc file) (\<lambda>r sc.
       scan_files pv ord ops cd previous overwrite r sc files)"

definition finish_scan :: "string \<Rightarrow> 's registry \<Rightarrow> scan \<Rightarrow> 's registry \<times> (exn + reload_report)" where
  "finish_scan dir r sc =
     (r\<lparr>r_dir_hashes := dict_set (r_dir_hashes r) dir (sc_hashes sc)\<rparr>,
      Inr \<lparr>added = sort (sc_added sc), updated = sort (sc_updated sc), unchanged = sort (sc_unchanged sc)\<rparr>)"

definition load_from_directory ::
  "('v :: linorder) version_parser \<Rightarrow> set_order \<Rightarrow> 's store_ops \<Rightarrow> flow_codec \<Rightarrow> 's registry \<Rightarrow>
     string \<Rightarrow> dir_listing \<Rightarrow> bool \<Rightarrow> 's registry \<times> (exn + reload_report)" where
  "load_from_directory pv ord ops cd r dir listing overwrite =
     (case listing of
        Missing \<Rightarrow> (r, Inl (PyException ''FileNotFoundError'' dir))
      | NotADirectory \<Rightarrow> (r, Inl (PyException ''NotADirectoryError'' dir))
      | Files files \<Rightarrow>
          bind_st (scan_files pv ord ops cd None overwrite r empty_scan files) (finish_scan dir))"

definition reload_from_directory ::
  "('v :: linorder) version_parser \<Rightarrow> set_order \<Rightarrow> 's store_ops \<Rightarrow> flow_codec \<Rightarrow> 's registry \<Rightarrow>
     string \<Rightarrow> dir_listing \<Rightarrow> 's registry \<times> (exn + reload_report)" where
  "reload_from_directory pv ord ops cd r dir listing =
     (case listing of
        Missing \<Rightarrow> (r, Inl (PyException ''FileNotFoundError'' dir))
      | NotADirectory \<Rightarrow> (r, Inl (PyException ''NotADirectoryError'' dir))
      | Files files \<Rightarrow>
          (let previous = (case dict_get (r_dir_hashes r) dir of None \<Rightarrow> [] | Some h \<Rightarrow> h)
           in bind_st (scan_files pv ord ops cd (Some previous) True r empty_scan files)
                (finish_scan dir)))"

section \<open>The latest-version pointer\<close>

text \<open>
  Every stored version parses, a name has a pointer exactly when some version of it is stored,
  and the pointer is a stored version that no other stored version of the name exceeds.
\<close>

definition latest_ok ::
  "('v :: linorder) version_parser \<Rightarrow> (flow_key \<rightharpoonup> any_flow) \<Rightarrow> (string \<times> string) list \<Rightarrow> bool" where
  "latest_ok pv M latest \<longleftrightarrow>
     (\<forall>n v. M (n, v) \<noteq> None \<longrightarrow> pv v \<noteq> None) \<and>
     (\<forall>n. dict_get latest n = None \<longrightarrow> (\<forall>v. M (n, v) = None)) \<and>
     (\<forall>n v. dict_get latest n = Some v \<longrightarrow>
        M (n, v) \<noteq> None \<and> (\<forall>w. M (n, w) \<noteq> None \<longrightarrow> the (pv w) \<le> the (pv v)))"

lemma latest_okD:
  assumes "latest_ok pv M latest"
  shows "M (n, v) \<noteq> None \<Longrightarrow> pv v \<noteq> None"
    and "dict_get latest n = None \<Longrightarrow> M (n, v) = None"
    and "dict_get latest n = Some v \<Longrightarrow> M (n, v) \<noteq> None"
    and "dict_get latest n = Some v \<Longrightarrow> M (n, w) \<noteq> None \<Longrightarrow> the (pv w) \<le> the (pv v)"
  using assms unfolding latest_ok_def by blast+

lemma touch_latest_ok:
  assumes "latest_ok pv M (r_latest r)" and "pv v = Some x"
  obtains r' where "touch_latest pv r n v = Inr r'" and "r_store r' = r_store r"
    and "r_dir_hashes r' = r_dir_hashes r" and "latest_ok pv (M((n, v) \<mapsto> f)) (r_latest r')"
proof (cases "dict_get (r_latest r) n")
  case None
  let ?r = "r\<lparr>r_latest := dict_set (r_latest r) n v\<rparr>"
  have "touch_latest pv r n v = Inr ?r"
    using assms(2) None by (simp add: touch_latest_def parse_version_def)
  moreover have "latest_ok pv (M((n, v) \<mapsto> f)) (r_latest ?r)"
    using assms None latest_okD(2) [OF assms(1) None] unfolding latest_ok_def
    by (auto simp: dict_get_set)
  ultimately show thesis
    by (intro that [of ?r]) simp_all
next
  case (Some cur)
  note D = latest_okD [OF assms(1)]
  from D(1) [OF D(3) [OF Some]] obtain c where c: "pv cur = Some c"
    by auto
  show thesis
  proof (cases "c \<le> x")
    case True
    let ?r = "r\<lparr>r_latest := dict_set (r_latest r) n v\<rparr>"
    have "touch_latest pv r n v = Inr ?r"
      using assms(2) Some c True by (simp add: touch_latest_def parse_version_def)
    moreover have "the (pv w) \<le> x" if "M (n, w) \<noteq> None" for w
      using D(4) [OF Some that] c True by simp
    then have "latest_ok pv (M((n, v) \<mapsto> f)) (r_latest ?r)"
      using assms unfolding latest_ok_def by (auto simp: dict_get_set)
    ultimately show thesis
      by (intro that [of ?r]) simp_all
  next
    case False
    have "touch_latest pv r n v = Inr r"
      using assms(2) Some c False by (simp add: touch_latest_def parse_version_def)
    moreover have "latest_ok pv (M((n, v) \<mapsto> f)) (r_latest r)"
      using assms Some c False unfolding latest_ok_def by auto
    ultimately show thesis
      by (intro that [of r]) simp_all
  qed
qed

lemma copy_flow_key [simp]: "flow_key_of (copy_flow st h f) = flow_key_of f"
  by (cases f) (simp_all add: flow_key_of_def copy_flow_def af_simps Let_def)

context registry_store
begin

text \<open>The invariant of a registry over this store.\<close>

definition registry_ok :: "('v :: linorder) version_parser \<Rightarrow> 's registry \<Rightarrow> bool" where
  "registry_ok pv r \<longleftrightarrow> good (r_store r) \<and> latest_ok pv (contents (r_store r)) (r_latest r)"

text \<open>Storing a flow and touching the pointer.\<close>

lemma save_and_touch:
  assumes "registry_ok pv r" and "pv (af_version f) = Some x"
    and "contents (r_store r) (flow_key_of f) = None \<or> ow"
  obtains r1 r2 where "save_in ops r f ow = (r1, Inr ())"
    and "touch_latest pv r1 (af_name f) (af_version f) = Inr r2"
    and "registry_ok pv r2" and "contents (r_store r2) = (contents (r_store r))(flow_key_of f \<mapsto> f)"
    and "r_dir_hashes r2 = r_dir_hashes r"
proof -
  from assms(1) have g: "good (r_store r)" and l: "latest_ok pv (contents (r_store r)) (r_latest r)"
    by (auto simp: registry_ok_def)
  from save_new [OF g assms(3)] obtain s' where s': "op_save_flow ops (r_store r) f ow = (s', Inr ())"
      "good s'" "contents s' = (contents (r_store r))(flow_key_of f \<mapsto> f)"
    by blast
  let ?r1 = "r\<lparr>r_store := s'\<rparr>"
  have "latest_ok pv (contents (r_store r)) (r_latest ?r1)"
    using l by simp
  from touch_latest_ok [OF this assms(2), of "af_name f" f] obtain r2 where
      "touch_latest pv ?r1 (af_name f) (af_version f) = Inr r2" "r_store r2 = s'"
      "r_dir_hashes r2 = r_dir_hashes r"
      "latest_ok pv ((contents (r_store r))((af_name f, af_version f) \<mapsto> f)) (r_latest r2)"
    by auto
  with s' show thesis
    by (intro that [of ?r1 r2]) (simp_all add: save_in_def registry_ok_def flow_key_of_def)
qed

lemma register_flow_cases:
  assumes "registry_ok pv r"
  shows "(\<exists>r'. register_flow pv ord ops r f ow = (r', Inr ()) \<and> registry_ok pv r' \<and>
            contents (r_store r') = (contents (r_store r))(flow_key_of f \<mapsto> f) \<and>
            r_dir_hashes r' = r_dir_hashes r) \<or>
         (\<exists>e. register_flow pv ord ops r f ow = (r, Inl e))"
proof (cases "pv (af_version f)")
  case None
  then show ?thesis
    by (simp add: register_flow_def parse_version_def)
next
  case (Some x)
  show ?thesis
  proof (cases "case f of LinearFlow _ \<Rightarrow> None | DagFlow d \<Rightarrow> validate_dag_topology ord d")
    case None
    show ?thesis
    proof (cases "contents (r_store r) (flow_key_of f) = None \<or> ow")
      case True
      from save_and_touch [OF assms Some True] obtain r1 r2 where
          "save_in ops r f ow = (r1, Inr ())"
          "touch_latest pv r1 (af_name f) (af_version f) = Inr r2" and ok: "registry_ok pv r2"
          "contents (r_store r2) = (contents (r_store r))(flow_key_of f \<mapsto> f)"
          "r_dir_hashes r2 = r_dir_hashes r"
        by blast
      with Some None have "register_flow pv ord ops r f ow = (r2, Inr ())"
        by (simp add: register_flow_def parse_version_def lift_touch_def)
      with ok show ?thesis
        by blast
    next
      case False
      then have "op_save_flow ops (r_store r) f ow =
          (r_store r, Inl (FlowAlreadyExistsError (af_name f)))"
        using save_old assms by (auto simp: registry_ok_def)
      then show ?thesis
        using Some None by (simp add: register_flow_def parse_version_def save_in_def)
    qed
  next
    case (Some e)
    then show ?thesis
      using \<open>pv (af_version f) = Some x\<close> by (simp add: register_flow_def parse_version_def)
  qed
qed

lemma register_flow_ok:
  "registry_ok pv r \<Longrightarrow> register_flow pv ord ops r f ow = (r', res) \<Longrightarrow> registry_ok pv r'"
  using register_flow_cases [of pv r ord f ow] by auto

lemma get_flow_latest:
  assumes "registry_ok pv r"
  shows "get_flow ops r n None = Inr f \<longleftrightarrow>
     (\<exists>v. dict_get (r_latest r) n = Some v \<and> contents (r_store r) (n, v) = Some f \<and>
        (\<forall>w. contents (r_store r) (n, w) \<noteq> None \<longrightarrow> the (pv w) \<le> the (pv v)))"
    and "get_flow ops r n None = Inl e \<longleftrightarrow>
     e = FlowNotFoundError n None \<and> (\<forall>v. contents (r_store r) (n, v) = None)"
proof -
  from assms have g: "good (r_store r)" and l: "latest_ok pv (contents (r_store r)) (r_latest r)"
    by (auto simp: registry_ok_def)
  note D = latest_okD [OF l]
  show "get_flow ops r n None = Inr f \<longleftrightarrow>
     (\<exists>v. dict_get (r_latest r) n = Some v \<and> contents (r_store r) (n, v) = Some f \<and>
        (\<forall>w. contents (r_store r) (n, w) \<noteq> None \<longrightarrow> the (pv w) \<le> the (pv v)))"
    using D(4) by (auto simp: get_flow_def load [OF g] split: option.splits)
  show "get_flow ops r n None = Inl e \<longleftrightarrow>
     e = FlowNotFoundError n None \<and> (\<forall>v. contents (r_store r) (n, v) = None)"
  proof (cases "dict_get (r_latest r) n")
    case None
    then show ?thesis
      using D(2) by (auto simp: get_flow_def)
  next
    case (Some v)
    then obtain f where "contents (r_store r) (n, v) = Some f"
      using D(3) by blast
    with Some show ?thesis
      by (auto simp: get_flow_def load [OF g])
  qed
qed

lemma get_flow_stored:
  assumes "registry_ok pv r" and "get_flow ops r n v = Inr f"
  shows "contents (r_store r) (flow_key_of f) = Some f" and "pv (af_version f) \<noteq> None"
proof -
  from assms(1) have g: "good (r_store r)" and l: "latest_ok pv (contents (r_store r)) (r_latest r)"
    by (auto simp: registry_ok_def)
  from assms(2) obtain w where "contents (r_store r) (n, w) = Some f"
    by (auto simp: get_flow_def load [OF g] split: option.splits)
  moreover from keyed [OF g this] have "flow_key_of f = (n, w)" .
  ultimately show "contents (r_store r) (flow_key_of f) = Some f" "pv (af_version f) \<noteq> None"
    using latest_okD(1) [OF l, of n w] by (auto simp: flow_key_of_def)
qed

lemma update_flow_state_ok:
  assumes "registry_ok pv r" and "update_flow_state pv ops r n v st h = (r', res)"
  shows "registry_ok pv r' \<and>
     (case res of
        Inl e \<Rightarrow> r' = r \<and> get_flow ops r n v = Inl e
      | Inr f' \<Rightarrow> \<exists>f. get_flow ops r n v = Inr f \<and> f' = copy_flow st h f \<and>
          contents (r_store r') = (contents (r_store r))(flow_key_of f \<mapsto> f'))"
proof (cases "get_flow ops r n v")
  case (Inl e)
  with assms have "r' = r" "res = Inl e"
    by (auto simp: update_flow_state_def)
  with Inl assms(1) show ?thesis
    by simp
next
  case (Inr f)
  note stored = get_flow_stored [OF assms(1) Inr]
  show ?thesis
  proof (cases "st = None \<and> h = None")
    case True
    then have "copy_flow st h f = f"
      by (cases f) (simp_all add: copy_flow_def)
    moreover from True Inr assms have "r' = r" "res = Inr f"
      by (auto simp: update_flow_state_def)
    ultimately show ?thesis
      using stored(1) Inr assms(1) by (auto simp: fun_upd_idem)
  next
    case False
    let ?f = "copy_flow st h f"
    have "af_version ?f = af_version f"
      using copy_flow_key [of st h f] by (simp add: flow_key_of_def)
    then obtain x where "pv (af_version ?f) = Some x"
      using stored by auto
    from save_and_touch [OF assms(1) this, of True] obtain r1 r2 where
        "save_in ops r ?f True = (r1, Inr ())"
        "touch_latest pv r1 (af_name ?f) (af_version ?f) = Inr r2"
        and ok: "registry_ok pv r2" "contents (r_store r2) = (contents (r_store r))(flow_key_of f \<mapsto> ?f)"
      unfolding copy_flow_key by blast
    with False Inr assms(2) have "r' = r2" "res = Inr ?f"
      by (auto simp: update_flow_state_def lift_touch_def)
    with ok Inr show ?thesis
      by auto
  qed
qed

end

section \<open>Scanning a directory\<close>

definition file_hashes :: "flow_codec \<Rightarrow> (string \<times> string) list \<Rightarrow> any_flow list \<Rightarrow> (flow_key \<times> string) list" where
  "file_hashes cd files fs = zip (map flow_key_of fs) (map (sha256 cd \<circ> snd) files)"

lemma scan_file_Inr:
  assumes "scan_file pv ord ops cd prev ow r sc fl = (r', Inr sc')"
  shows "\<exists>f. load_flow_file cd fl = Inr f \<and> \<not> dict_has (sc_hashes sc) (flow_key_of f) \<and>
     sc_hashes sc' = sc_hashes sc @ [(flow_key_of f, sha256 cd (snd fl))] \<and>
     (r' = r \<or> register_flow pv ord ops r f ow = (r', Inr ()))"
proof (cases "load_flow_file cd fl")
  case (Inl e)
  with assms show ?thesis by (simp add: scan_file_def)
next
  case (Inr f)
  show ?thesis
  proof (cases "dict_has (sc_hashes sc) (flow_key_of f)")
    case False
    then have "flow_key_of f \<notin> set (dict_keys (sc_hashes sc))"
      unfolding dict_has_iff .
    note fresh = dict_set_fresh [OF this]
    from assms Inr False show ?thesis
      by (auto simp: scan_file_def Let_def fresh bind_st_Inr_iff split: option.splits if_splits)
  qed (use assms Inr in \<open>auto simp: scan_file_def\<close>)
qed

lemma scan_files_Inr:
  "scan_files pv ord ops cd prev ow r sc files = (r', Inr sc') \<Longrightarrow>
     \<exists>fs. list_all2 (\<lambda>fl f. load_flow_file cd fl = Inr f) files fs \<and>
       distinct (map flow_key_of fs) \<and> set (map flow_key_of fs) \<inter> set (dict_keys (sc_hashes sc)) = {} \<and>
       sc_hashes sc' = sc_hashes sc @ file_hashes cd files fs"
proof (induction files arbitrary: r sc)
  case Nil
  then show ?case by (intro exI [of _ "[]"]) (simp add: file_hashes_def)
next
  case (Cons fl files)
  from Cons.prems obtain r1 sc1 where 1: "scan_file pv ord ops cd prev ow r sc fl = (r1, Inr sc1)"
      and 2: "scan_files pv ord ops cd prev ow r1 sc1 files = (r', Inr sc')"
    by (auto simp: bind_st_Inr_iff)
  from scan_file_Inr [OF 1] obtain f where f: "load_flow_file cd fl = Inr f"
      "\<not> dict_has (sc_hashes sc) (flow_key_of f)"
      "sc_hashes sc1 = sc_hashes sc @ [(flow_key_of f, sha256 cd (snd fl))]"
    by blast
  from Cons.IH [OF 2] obtain fs where
      "list_all2 (\<lambda>fl f. load_flow_file cd fl = Inr f) files fs"
      "distinct (map flow_key_of fs)"
      "set (map flow_key_of fs) \<inter> set (dict_keys (sc_hashes sc1)) = {}"
      "sc_hashes sc' = sc_hashes sc1 @ file_hashes cd files fs"
    by blast
  with f show ?case
    unfolding dict_has_iff
    by (intro exI [of _ "f # fs"]) (auto simp: file_hashes_def)
qed

text \<open>A second scan of the same files against their own hashes changes nothing.\<close>

lemma rescan_unchanged:
  assumes "list_all2 (\<lambda>fl f. load_flow_file cd fl = Inr f) files fs"
    and "distinct (map flow_key_of fs)" and "set (map flow_key_of fs) \<inter> set (dict_keys (sc_hashes sc)) = {}"
    and "\<forall>kv \<in> set (file_hashes cd files fs). dict_get prev (fst kv) = Some (snd kv)"
  shows "scan_files pv ord ops cd (Some prev) ow r sc files =
     (r, Inr (sc\<lparr>sc_hashes := sc_hashes sc @ file_hashes cd files fs,
                 sc_unchanged := sc_unchanged sc @ map flow_label fs\<rparr>))"
  using assms
proof (induction files fs arbitrary: sc rule: list_all2_induct)
  case Nil
  then show ?case by (simp add: file_hashes_def)
next
  case (Cons fl files f fs)
  let ?sc = "sc\<lparr>sc_hashes := sc_hashes sc @ [(flow_key_of f, sha256 cd (snd fl))],
                sc_unchanged := sc_unchanged sc @ [flow_label f]\<rparr>"
  have fresh: "flow_key_of f \<notin> set (dict_keys (sc_hashes sc))"
    using Cons.prems by auto
  have "dict_get prev (flow_key_of f) = Some (sha256 cd (snd fl))"
    using Cons.prems(3) by (simp add: file_hashes_def)
  with fresh Cons.hyps(1) have "scan_file pv ord ops cd (Some prev) ow r sc fl = (r, Inr ?sc)"
    unfolding scan_file_def Let_def dict_has_iff by (simp add: dict_set_fresh [OF fresh])
  moreover have "scan_files pv ord ops cd (Some prev) ow r ?sc files =
     (r, Inr (?sc\<lparr>sc_hashes := sc_hashes ?sc @ file_hashes cd files fs,
                  sc_unchanged := sc_unchanged ?sc @ map flow_label fs\<rparr>))"
    using Cons.prems by (intro Cons.IH) (auto simp: file_hashes_def)
  ultimately show ?case
    by (simp add: file_hashes_def)
qed

lemma reload_same:
  assumes "load_from_directory pv ord ops cd r dir (Files files) ow = (r', Inr rep)"
  shows "\<exists>labels. reload_from_directory pv ord ops cd r' dir (Files files) =
     (r'\<lparr>r_dir_hashes := r_dir_hashes r'\<rparr>, Inr \<lparr>added = [], updated = [], unchanged = labels\<rparr>)"
proof -
  from assms obtain r1 sc where 1: "scan_files pv ord ops cd None ow r empty_scan files = (r1, Inr sc)"
      and 2: "finish_scan dir r1 sc = (r', Inr rep)"
    by (auto simp: load_from_directory_def bind_st_Inr_iff)
  from scan_files_Inr [OF 1] obtain fs where
      fs: "list_all2 (\<lambda>fl f. load_flow_file cd fl = Inr f) files fs" "distinct (map flow_key_of fs)"
      and h: "sc_hashes sc = file_hashes cd files fs"
    by (auto simp: empty_scan_def)
  have len: "length files = length fs"
    using fs(1) by (rule list_all2_lengthD)
  then have "dict_ok (file_hashes cd files fs)"
    using fs(2) by (simp add: file_hashes_def)
  then have prev: "\<forall>kv \<in> set (file_hashes cd files fs). dict_get (file_hashes cd files fs) (fst kv) = Some (snd kv)"
    by auto
  from 2 have r': "r' = r1\<lparr>r_dir_hashes := dict_set (r_dir_hashes r1) dir (sc_hashes sc)\<rparr>"
    by (simp add: finish_scan_def)
  have "dict_set (dict_set d dir x) dir x = dict_set d dir x" for d and x :: "(flow_key \<times> string) list"
    by (induction d) auto
  then have "dict_set (r_dir_hashes r') dir (sc_hashes sc) = r_dir_hashes r'"
    unfolding r' by simp
  moreover have "dict_get (r_dir_hashes r') dir = Some (file_hashes cd files fs)"
    by (simp add: r' dict_get_set h)
  ultimately show ?thesis
    using rescan_unchanged [OF fs, of empty_scan "file_hashes cd files fs" pv ord ops True r'] prev h
    by (intro exI [of _ "sort (map flow_label fs)"])
       (simp add: reload_from_directory_def finish_scan_def empty_scan_def)
qed

context registry_store
begin

lemma scan_file_ok:
  assumes "registry_ok pv r" and "scan_file pv ord ops cd prev ow r sc fl = (r', res)"
  shows "registry_ok pv r'"
proof -
  have reg: "registry_ok pv (fst (register_flow pv ord ops r f ow))" for f
    using register_flow_ok [OF assms(1)] by (metis prod.collapse)
  have bind: "fst (bind_st x (\<lambda>r _. (r, g))) = fst x"
    for x :: "'s registry \<times> (exn + unit)" and g :: "exn + scan"
    by (cases x; cases "snd x") auto
  have "r' = r \<or> (\<exists>f. r' = fst (register_flow pv ord ops r f ow))"
  proof (cases "load_flow_file cd fl")
    case (Inr f)
    let ?sc = "sc\<lparr>sc_hashes := dict_set (sc_hashes sc) (flow_key_of f) (sha256 cd (snd fl))\<rparr>"
    have "fst (scan_file pv ord ops cd prev ow r sc fl) \<in> {r, fst (register_flow pv ord ops r f ow)}"
      using Inr unfolding scan_file_def Let_def
      by (simp add: bind split: option.splits)
    then show ?thesis
      using assms(2) by auto
  qed (use assms(2) in \<open>simp add: scan_file_def\<close>)
  with reg assms(1) show ?thesis
    by auto
qed

lemma scan_files_ok:
  "registry_ok pv r \<Longrightarrow> scan_files pv ord ops cd prev ow r sc files = (r', res) \<Longrightarrow> registry_ok pv r'"
proof (induction files arbitrary: r sc)
  case (Cons fl files)
  obtain r1 x where 1: "scan_file pv ord ops cd prev ow r sc fl = (r1, x)"
    by fastforce
  from scan_file_ok [OF Cons.prems(1) 1] Cons show ?case
    using 1 by (cases x) auto
qed simp

lemma directory_ok:
  assumes "registry_ok pv r"
  shows "load_from_directory pv ord ops cd r dir listing ow = (r', res) \<Longrightarrow> registry_ok pv r'"
    and "reload_from_directory pv ord ops cd r dir listing = (r', res) \<Longrightarrow> registry_ok pv r'"
proof -
  have fin: "registry_ok pv (fst (bind_st (scan_files pv ord ops cd prev ow r sc files) (finish_scan dir)))"
    for prev ow sc files
  proof -
    obtain r1 x where 1: "scan_files pv ord ops cd prev ow r sc files = (r1, x)"
      by fastforce
    from scan_files_ok [OF assms 1] show ?thesis
      using 1 by (cases x) (auto simp: finish_scan_def registry_ok_def)
  qed
  have "registry_ok pv (fst (load_from_directory pv ord ops cd r dir listing ow))"
    using assms fin by (cases listing) (simp_all add: load_from_directory_def)
  then show "load_from_directory pv ord ops cd r dir listing ow = (r', res) \<Longrightarrow> registry_ok pv r'"
    by simp
  have "registry_ok pv (fst (reload_from_directory pv ord ops cd r dir listing))"
    using assms fin by (cases listing) (simp_all add: reload_from_directory_def Let_def)
  then show "reload_from_directory pv ord ops cd r dir listing = (r', res) \<Longrightarrow> registry_ok pv r'"
    by simp
qed

lemma new_registry_ok:
  assumes "good s" and "\<forall>k. contents s k \<noteq> None \<longrightarrow> pv (snd k) \<noteq> None"
  shows "\<exists>r. new_registry pv ops s = Inr r \<and> r_store r = s \<and> registry_ok pv r"
proof -
  have step: "\<exists>r'. touch_all pv r ks = Inr r' \<and> r_store r' = r_store r \<and>
      latest_ok pv (\<lambda>k. if k \<in> set ks then contents s k else M k) (r_latest r')"
    if "latest_ok pv M (r_latest r)" "\<forall>k \<in> set ks. contents s k \<noteq> None"
      "\<forall>k \<in> dom M. M k = contents s k" for ks r M
    using that
  proof (induction ks arbitrary: r M)
    case (Cons k ks)
    obtain n v where k: "k = (n, v)" by fastforce
    with Cons.prems assms(2) obtain f x where f: "contents s (n, v) = Some f" "pv v = Some x"
      by fastforce
    from touch_latest_ok [OF Cons.prems(1) f(2), of n f] obtain r1 where
        r1: "touch_latest pv r n v = Inr r1" "r_store r1 = r_store r"
        "latest_ok pv (M((n, v) \<mapsto> f)) (r_latest r1)"
      by metis
    moreover have "\<forall>k \<in> dom (M((n, v) \<mapsto> f)). (M((n, v) \<mapsto> f)) k = contents s k"
      using Cons.prems(3) f(1) by auto
    moreover have "\<forall>k \<in> set ks. contents s k \<noteq> None"
      using Cons.prems(2) by simp
    ultimately obtain r' where r': "touch_all pv r1 ks = Inr r'" "r_store r' = r_store r1"
        "latest_ok pv (\<lambda>k. if k \<in> set ks then contents s k else (M((n, v) \<mapsto> f)) k) (r_latest r')"
      using Cons.IH [of "M((n, v) \<mapsto> f)" r1] by blast
    have "(\<lambda>j. if j \<in> set ks then contents s j else (M((n, v) \<mapsto> f)) j) =
        (\<lambda>j. if j \<in> set (k # ks) then contents s j else M j)"
      using k f(1) by auto
    with r' r1 k show ?case
      by auto
  qed auto
  let ?r = "\<lparr>r_store = s, r_latest = [], r_dir_hashes = []\<rparr>"
  have dom: "set (op_list_keys ops s) = dom (contents s)"
    using keys [OF assms(1)] by simp
  have init: "latest_ok pv (\<lambda>_. None) (r_latest ?r)"
    by (simp add: latest_ok_def)
  from step [OF init, of "op_list_keys ops s"] dom
  obtain r where "new_registry pv ops s = Inr r" "r_store r = s"
      "latest_ok pv (\<lambda>k. if k \<in> dom (contents s) then contents s k else None) (r_latest r)"
    unfolding new_registry_def dom by fastforce
  moreover have "(\<lambda>k. if k \<in> dom (contents s) then contents s k else None) = contents s"
    by (rule ext) (auto simp: dom_def)
  ultimately show ?thesis
    using assms(1) by (auto simp: registry_ok_def)
qed

end

section \<open>The registry over the in-memory store\<close>

definition registry_inv :: "('v :: linorder) version_parser \<Rightarrow> mem_store registry \<Rightarrow> bool" where
  "registry_inv pv r \<longleftrightarrow> mem_store_good (r_store r) \<and> latest_ok pv (map_of (r_store r)) (r_latest r)"

lemma registry_inv_iff: "registry_inv pv r \<longleftrightarrow> mem_store.registry_ok pv r"
  by (simp add: registry_inv_def mem_store.registry_ok_def)

definition plain_versions :: "nat version_parser" where
  "plain_versions v = (case v of [c] \<Rightarrow> Some (of_char c) | _ \<Rightarrow> None)"

definition empty_registry :: "mem_store registry" where
  "empty_registry = \<lparr>r_store = [], r_latest = [], r_dir_hashes = []\<rparr>"

lemma empty_registry_inv: "registry_inv pv empty_registry"
  by (simp add: registry_inv_def empty_registry_def mem_store_good_def latest_ok_def)

text \<open>
  C6: Every operation of the registry keeps its invariant, on success and on failure: all stored
  versions parse, and the latest pointer of a name is a stored version that no other stored
  version of that name exceeds.
\<close>

theorem registry_operations_keep_latest:
  assumes "registry_inv pv r"
  shows "registry_inv pv (fst (register_flow pv ord in_memory_store r f ow)) \<and>
     registry_inv pv (fst (update_flow_state pv in_memory_store r n v st h)) \<and>
     registry_inv pv (fst (set_flow_status pv in_memory_store r n st' v)) \<and>
     registry_inv pv (fst (load_from_directory pv ord in_memory_store cd r dir listing ow)) \<and>
     registry_inv pv (fst (reload_from_directory pv ord in_memory_store cd r dir listing))"
proof -
  have r: "mem_store.registry_ok pv r"
    using assms by (simp add: registry_inv_iff)
  show ?thesis
    unfolding registry_inv_iff set_flow_status_def
    using mem_store.register_flow_ok [OF r surjective_pairing]
      mem_store.update_flow_state_ok [OF r surjective_pairing]
      mem_store.directory_ok [OF r surjective_pairing]
    by blast
qed

theorem registry_operations_keep_latest_witness:
  "registry_inv plain_versions
     (fst (register_flow plain_versions dedup_first in_memory_store empty_registry
        (LinearFlow (mk_flow ''f'' []\<lparr>f_version := ''2''\<rparr>)) False))"
  using registry_operations_keep_latest [OF empty_registry_inv] by blast

text \<open>
  Asking for a flow without a version returns the stored flow of the highest version, and
  fails exactly when no version of the name is stored.
\<close>

theorem get_flow_returns_latest:
  assumes "registry_inv pv r"
  shows "(get_flow in_memory_store r n None = Inr f \<longleftrightarrow>
            (\<exists>v. dict_get (r_latest r) n = Some v \<and> dict_get (r_store r) (n, v) = Some f \<and>
               (\<forall>w. dict_has (r_store r) (n, w) \<longrightarrow> the (pv w) \<le> the (pv v)))) \<and>
         (get_flow in_memory_store r n None = Inl e \<longleftrightarrow>
            e = FlowNotFoundError n None \<and> (\<forall>v. \<not> dict_has (r_store r) (n, v)))"
  using mem_store.get_flow_latest [of pv r n] assms unfolding registry_inv_iff by simp

theorem get_flow_returns_latest_witness:
  "get_flow in_memory_store empty_registry ''f'' None = Inl (FlowNotFoundError ''f'' None)"
  using get_flow_returns_latest [OF empty_registry_inv [of plain_versions], of "''f''"]
  by (simp add: empty_registry_def)

text \<open>
  Reloading a directory right after it was loaded, with no file changed, registers nothing:
  every file is reported unchanged and the registry stays as it was.
\<close>

theorem reload_after_load_is_noop:
  assumes "load_from_directory pv ord ops cd r dir (Files files) ow = (r', Inr rep)"
  shows "\<exists>labels. reload_from_directory pv ord ops cd r' dir (Files files) =
     (r', Inr \<lparr>added = [], updated = [], unchanged = labels\<rparr>)"
  using reload_same [OF assms] by simp

definition demo_codec :: flow_codec where
  "demo_codec =
     \<lparr>from_json = (\<lambda>raw. Inr (LinearFlow (mk_flow raw []\<lparr>f_version := ''1''\<rparr>))),
      from_yaml = (\<lambda>raw. Inl (FlowSerializationError raw)), sha256 = id\<rparr>"

theorem reload_after_load_is_noop_witness:
  "\<exists>labels. reload_from_directory plain_versions dedup_first in_memory_store demo_codec
       (fst (load_from_directory plain_versions dedup_first in_memory_store demo_codec empty_registry
          ''flows'' (Files [(''a.flow.json'', ''a'')]) True))
       ''flows'' (Files [(''a.flow.json'', ''a'')]) =
     (fst (load_from_directory plain_versions dedup_first in_memory_store demo_codec empty_registry
          ''flows'' (Files [(''a.flow.json'', ''a'')]) True),
      Inr \<lparr>added = [], updated = [], unchanged = labels\<rparr>)"
proof -
  let ?load = "load_from_directory plain_versions dedup_first in_memory_store demo_codec empty_registry
      ''flows'' (Files [(''a.flow.json'', ''a'')]) True"
  have "isl (snd ?load) = False"
    by code_simp
  then obtain rep where "?load = (fst ?load, Inr rep)"
    by (metis isl_def prod.collapse sum.exhaust_sel)
  from reload_after_load_is_noop [OF this] show ?thesis .
qed

definition same_version :: "nat version_parser" where
  "same_version v = (if v = ''1'' \<or> v = ''1.0'' then Some 1 else None)"

definition tied_registry :: "mem_store registry" where
  "tied_registry =
     fst (register_flow same_version dedup_first in_memory_store
       (fst (register_flow same_version dedup_first in_memory_store empty_registry
          (LinearFlow (mk_flow ''f'' []\<lparr>f_version := ''1.0''\<rparr>)) False))
       (LinearFlow (mk_flow ''f'' []\<lparr>f_version := ''1''\<rparr>)) False)"

text \<open>
  A status change of one stored version can move the latest pointer to it: of two versions
  of a name that are equal under PEP 440, disabling the one that is not the latest makes it the
  latest, so that the name now resolves to the disabled flow.
\<close>

theorem status_change_moves_latest:
  "get_flow in_memory_store tied_registry ''f'' None =
     Inr (LinearFlow (mk_flow ''f'' []\<lparr>f_version := ''1''\<rparr>)) \<and>
   get_flow in_memory_store
     (fst (set_flow_status same_version in_memory_store tied_registry ''f'' DISABLED (Some ''1.0'')))
     ''f'' None =
     Inr (LinearFlow (mk_flow ''f'' []\<lparr>f_version := ''1.0'', f_status := DISABLED\<rparr>))"
  by code_simp

end
