(* ===== verification/Platform.thy ===== *)
theory Platform
  imports Contracts FlowModel Topology
begin

text \<open>
  What the program takes from its surroundings.  The JSON text of the standard library is
  defined here.  A pydantic model class is a \<open>schema\<close>: the fields the code reads off it, its
  validation (\<open>model_validate\<close> followed by \<open>model_dump\<close>) and the digest of its JSON schema.
  The record \<open>platform\<close> holds the parameters of the model: hashing, importing classes, the clock
  and the random source, whether an event loop runs, the parser of Python expressions, the
  iteration order of sets and the generator of trace ids.
\<close>

section \<open>JSON text\<close>

fun nat_text :: "nat \<Rightarrow> string" where
  "nat_text n = (if n < 10 then [char_of (48 + n)] else nat_text (n div 10) @ [char_of (48 + n mod 10)])"

declare nat_text.simps [simp del]

definition int_text :: "int \<Rightarrow> string" where
  "int_text i = (if i < 0 then CHR ''-'' # nat_text (nat (- i)) else nat_text (nat i))"

definition hex_digit :: "nat \<Rightarrow> char" where
  "hex_digit n = (if n < 10 then char_of (48 + n) else char_of (87 + n))"

definition json_char :: "char \<Rightarrow> string" where
  "json_char c =
     (if c = CHR 0x22 then [CHR 0x5C, CHR 0x22]
      else if c = CHR 0x5C then [CHR 0x5C, CHR 0x5C]
      else if c = CHR 0x0A then [CHR 0x5C, CHR ''n'']
      else if c = CHR 0x0D then [CHR 0x5C, CHR ''r'']
      else if c = CHR 0x09 then [CHR 0x5C, CHR ''t'']
      else if c = CHR 0x08 then [CHR 0x5C, CHR ''b'']
      else if c = CHR 0x0C then [CHR 0x5C, CHR ''f'']
      else (let n = of_char c :: nat in
            if 32 \<le> n \<and> n < 127 then [c]
            else CHR 0x5C # ''u00'' @ [hex_digit (n div 16), hex_digit (n mod 16)]))"

definition json_str :: "string \<Rightarrow> string" where
  "json_str s = CHR 0x22 # concat (map json_char s) @ [CHR 0x22]"

text \<open>
  \<open>json.dumps(v, separators=(isep, ksep), default=str)\<close>; \<open>set_text\<close> is \<open>str\<close> of a set, which
  JSON does not know.
\<close>

primrec json_dumps :: "(val list \<Rightarrow> string) \<Rightarrow> string \<Rightarrow> string \<Rightarrow> val \<Rightarrow> string" where
  "json_dumps set_text isep ksep VNone = ''null''"
| "json_dumps set_text isep ksep (VBool b) = (if b then ''true'' else ''false'')"
| "json_dumps set_text isep ksep (VInt i) = int_text i"
| "json_dumps set_text isep ksep (VStr s) = json_str s"
| "json_dumps set_text isep ksep (VList xs) =
     ''['' @ join_str isep (map (json_dumps set_text isep ksep) xs) @ '']''"
| "json_dumps set_text isep ksep (VDict d) =
     ''{'' @ join_str isep (map (\<lambda>(k, t). json_str k @ ksep @ t)
        (map (map_prod id (json_dumps set_text isep ksep)) d)) @ ''}''"
| "json_dumps set_text isep ksep (VSet xs) = json_str (set_text xs)"

section \<open>Schemas\<close>

text \<open>
  A field annotation as \<open>typing.get_origin\<close> and \<open>get_args\<close> present it: no annotation, a class, a
  union, a generic with a class as its origin, or another typing form by its text.
\<close>

datatype annotation =
    NoAnnotation
  | ClassAnn string
  | UnionAnn "annotation list"
  | GenericAnn string "annotation list"
  | OtherAnn string

record field_spec =
  fs_required :: bool
  fs_annotation :: annotation

record schema =
  sch_name :: string
  sch_fields :: "(string \<times> field_spec) list"
  sch_validate :: "val \<Rightarrow> exn + val dict"
  sch_hash :: string

text \<open>What a \<open>module:qualname\<close> reference can lead to.\<close>

datatype py_class = SchemaClass schema | ExcClass string | OtherClass

fun is_schema_class :: "py_class \<Rightarrow> bool" where
  "is_schema_class (SchemaClass _) = True"
| "is_schema_class _ = False"

fun is_exc_class :: "py_class \<Rightarrow> bool" where
  "is_exc_class (ExcClass _) = True"
| "is_exc_class _ = False"

section \<open>The platform\<close>

record 'w platform =
  pl_sha256 :: "string \<Rightarrow> string"
  pl_set_text :: "val list \<Rightarrow> string"
  pl_input_hash :: "val dict \<Rightarrow> string"
  pl_in_loop :: bool
  pl_ref_policy :: "(string \<Rightarrow> bool) option"
  pl_load_class :: "string \<Rightarrow> string \<Rightarrow> string + py_class"
  pl_isinstance :: "exn \<Rightarrow> string \<Rightarrow> bool"
  pl_parse :: "string \<Rightarrow> string + pexpr"
  pl_set_order :: set_order
  pl_random :: "'w \<Rightarrow> 'w \<times> rat"
  pl_sleep :: "rat \<Rightarrow> 'w \<Rightarrow> 'w"
  pl_now :: "'w \<Rightarrow> int"
  pl_trace_id :: "nat \<Rightarrow> string"

text \<open>\<open>Flow.schema_ref_from\<close> and the resolution of a schema reference; \<open>RetryPolicy\<close> resolves
  exception classes.\<close>

definition resolve_schema :: "'w platform \<Rightarrow> string \<Rightarrow> exn + schema" where
  "resolve_schema pl ref =
     bind_err (resolve_class_ref (pl_ref_policy pl) (pl_load_class pl) is_schema_class ref) (\<lambda>c.
       case c of SchemaClass s \<Rightarrow> Inr s | _ \<Rightarrow> Inl (FlowSerializationError ''is not a subclass''))"

definition resolve_exception :: "'w platform \<Rightarrow> string \<Rightarrow> exn + string" where
  "resolve_exception pl ref =
     bind_err (resolve_class_ref (pl_ref_policy pl) (pl_load_class pl) is_exc_class ref) (\<lambda>c.
       case c of ExcClass s \<Rightarrow> Inr s | _ \<Rightarrow> Inl (FlowSerializationError ''is not a subclass''))"

definition json_size :: "'w platform \<Rightarrow> val \<Rightarrow> nat" where
  "json_size pl v = length (json_dumps (pl_set_text pl) '', '' '': '' v)"

end
