(* ===== verification/ToolModel.thy ===== *)
theory ToolModel
  imports Platform
begin

text \<open>
  \<open>chainweaver/tools.py\<close>: the tool, its construction checks, the three ways it runs
  (\<open>run\<close>, \<open>run_dry\<close>, a streamed output drained), and the parts of \<open>Tool.from_flow\<close> that derive
  schemas and safety.  A tool function takes the world and the validated input; it returns the
  world it leaves, the time it took and a value or an exception.  The lemmas give the shape of
  every outcome: what a returned output has passed, and which exception stands for which check.
\<close>

section \<open>Tools\<close>

record 'w tool =
  t_name :: string
  t_description :: string
  t_input_schema :: schema
  t_output_schema :: schema
  t_fn :: "'w \<Rightarrow> val dict \<Rightarrow> 'w \<times> nat \<times> (exn + val)"
  t_timeout :: "nat option"
  t_max_output_size :: "nat option"
  t_schema_version :: string
  t_cacheable :: bool
  t_safety :: safety_contract
  t_safety_declared :: bool
  t_dry_run_fn :: "('w \<Rightarrow> val dict \<Rightarrow> 'w \<times> (exn + val)) option"
  t_is_async :: bool

text \<open>The keyword arguments of \<open>Tool\<close>.\<close>

record 'w tool_args =
  a_name :: string
  a_description :: string
  a_input_schema :: schema
  a_output_schema :: schema
  a_fn :: "'w \<Rightarrow> val dict \<Rightarrow> 'w \<times> nat \<times> (exn + val)"
  a_timeout :: "nat option"
  a_max_output_size :: "nat option"
  a_schema_version :: string
  a_cacheable :: "bool option"
  a_safety :: "safety_contract option"
  a_dry_run_fn :: "('w \<Rightarrow> val dict \<Rightarrow> 'w \<times> (exn + val)) option"
  a_is_async :: bool

text \<open>The contract of a new tool: \<open>cacheable\<close> and \<open>safety\<close> must not disagree.\<close>

definition reconcile_cacheable :: "bool option \<Rightarrow> safety_contract option \<Rightarrow> exn + safety_contract" where
  "reconcile_cacheable c safety =
     (case safety of
        None \<Rightarrow> ToolSafetyContract (empty_payload\<lparr>p_cacheable := Some (default_arg c True)\<rparr>)
      | Some s \<Rightarrow>
          (if c \<noteq> None \<and> c \<noteq> Some (cacheable s)
           then Inl (ValueError ''received conflicting cacheable settings'')
           else Inr s))"

definition new_tool :: "'w tool_args \<Rightarrow> exn + 'w tool" where
  "new_tool a =
     bind_err (reconcile_cacheable (a_cacheable a) (a_safety a)) (\<lambda>s.
       if supports_dry_run s \<and> a_dry_run_fn a = None then Inl (ToolDefinitionError (a_name a))
       else Inr
         \<lparr>t_name = a_name a, t_description = a_description a, t_input_schema = a_input_schema a,
          t_output_schema = a_output_schema a, t_fn = a_fn a, t_timeout = a_timeout a,
          t_max_output_size = a_max_output_size a, t_schema_version = a_schema_version a,
          t_cacheable = cacheable s, t_safety = s, t_safety_declared = (a_safety a \<noteq> None),
          t_dry_run_fn = a_dry_run_fn a, t_is_async = a_is_async a\<rparr>)"

text \<open>\<open>Tool.schema_hash\<close>.\<close>

definition schema_hash :: "'w platform \<Rightarrow> 'w tool \<Rightarrow> string" where
  "schema_hash pl t =
     take 16 (pl_sha256 pl (json_dumps (pl_set_text pl) '','' '':''
       (VList [VStr (sch_hash (t_input_schema t)), VStr (sch_hash (t_output_schema t)),
               VStr (t_schema_version t)])))"

text \<open>
  \<open>_call_fn\<close>.  A timed-out call keeps running in its thread, so the world is the one the
  function leaves.
\<close>

definition call_fn :: "'w platform \<Rightarrow> 'w tool \<Rightarrow> 'w \<Rightarrow> val dict \<Rightarrow> 'w \<times> (exn + val)" where
  "call_fn pl t w inp =
     (if t_is_async t \<and> pl_in_loop pl then (w, Inl (ToolDefinitionError (t_name t)))
      else (case t_fn t w inp of
              (w', duration, out) \<Rightarrow>
                (case t_timeout t of
                   None \<Rightarrow> (w', out)
                 | Some limit \<Rightarrow>
                     (if duration > limit then (w', Inl (ToolTimeoutError (t_name t) limit))
                      else (w', out)))))"

definition validate_output :: "'w platform \<Rightarrow> 'w tool \<Rightarrow> val \<Rightarrow> exn + val dict" where
  "validate_output pl t raw =
     (case t_max_output_size t of
        None \<Rightarrow> sch_validate (t_output_schema t) raw
      | Some limit \<Rightarrow>
          (if json_size pl raw > limit
           then Inl (ToolOutputSizeError (t_name t) (json_size pl raw) limit)
           else sch_validate (t_output_schema t) raw))"

definition run :: "'w platform \<Rightarrow> 'w tool \<Rightarrow> 'w \<Rightarrow> val dict \<Rightarrow> 'w \<times> (exn + val dict)" where
  "run pl t w raw_inputs =
     (case sch_validate (t_input_schema t) (VDict raw_inputs) of
        Inl e \<Rightarrow> (w, Inl e)
      | Inr inp \<Rightarrow> bind_st (call_fn pl t w inp) (\<lambda>w raw. (w, validate_output pl t raw)))"

definition run_dry :: "'w platform \<Rightarrow> 'w tool \<Rightarrow> 'w \<Rightarrow> val dict \<Rightarrow> 'w \<times> (exn + val dict)" where
  "run_dry pl t w raw_inputs =
     (case t_dry_run_fn t of
        None \<Rightarrow> (w, Inl (ToolDefinitionError (t_name t)))
      | Some dry \<Rightarrow>
          (case sch_validate (t_input_schema t) (VDict raw_inputs) of
             Inl e \<Rightarrow> (w, Inl e)
           | Inr inp \<Rightarrow> bind_st (dry w inp) (\<lambda>w raw. (w, validate_output pl t raw))))"

section \<open>Streams\<close>

record chunk =
  ch_data :: val
  ch_is_final :: bool

text \<open>\<open>_drain\<close>; the accumulator is \<open>final\<close>, \<open>None\<close> until the terminal chunk was seen.\<close>

fun drain :: "string \<Rightarrow> val option \<Rightarrow> chunk list \<Rightarrow> exn + val" where
  "drain name final [] =
     (case final of None \<Rightarrow> Inl (ToolDefinitionError name)
      | Some v \<Rightarrow> if v = VNone then Inl PyAssertionError else Inr v)"
| "drain name final (c # cs) =
     (if final \<noteq> None then Inl (ToolDefinitionError name)
      else drain name (if ch_is_final c then Some (ch_data c) else None) cs)"

text \<open>\<open>run_streaming\<close>: the chunks handed to the consumer, and how the stream ends.\<close>

fun run_streaming :: "'w platform \<Rightarrow> 'w tool \<Rightarrow> bool \<Rightarrow> chunk list \<Rightarrow> chunk list \<times> (exn + unit)" where
  "run_streaming pl t seen [] = ([], if seen then Inr () else Inl (ToolDefinitionError (t_name t)))"
| "run_streaming pl t seen (c # cs) =
     (if seen then ([], Inl (ToolDefinitionError (t_name t)))
      else if ch_is_final c then
        (case validate_output pl t (ch_data c) of
           Inl e \<Rightarrow> ([], Inl e)
         | Inr out \<Rightarrow>
             (case run_streaming pl t True cs of
                (ys, r) \<Rightarrow> (\<lparr>ch_data = VDict out, ch_is_final = True\<rparr> # ys, r)))
      else (case run_streaming pl t seen cs of (ys, r) \<Rightarrow> (c # ys, r)))"

section \<open>Flow as tool\<close>

type_synonym 'w tools = "(string \<times> 'w tool) list"

definition get_tool :: "'w tools \<Rightarrow> string \<Rightarrow> exn + 'w tool" where
  "get_tool tools name =
     (case dict_get tools name of None \<Rightarrow> Inl (ToolNotFoundError name) | Some t \<Rightarrow> Inr t)"

definition sinks :: "dag_flow \<Rightarrow> dag_step list" where
  "sinks f = filter (\<lambda>s. d_step_id s \<notin> set (concat (map d_depends_on (f_steps f)))) (f_steps f)"

definition terminal_step :: "any_flow \<Rightarrow> exn + flow_step" where
  "terminal_step af =
     (case af of
        LinearFlow f \<Rightarrow> Inr (last (f_steps f))
      | DagFlow f \<Rightarrow>
          (case sinks f of
             [s] \<Rightarrow> Inr (flow_step.truncate s)
           | _ \<Rightarrow> Inl (ToolDefinitionError (f_name f))))"

text \<open>
  The derivation of a schema: the override, the reference of the flow, or the tool of \<open>step\<close>.
  Only \<open>FlowSerializationError\<close> of the reference is turned into \<open>ToolDefinitionError\<close>.
\<close>

definition wrap_definition_error :: "string \<Rightarrow> exn \<Rightarrow> exn" where
  "wrap_definition_error name e =
     (case e of FlowSerializationError _ \<Rightarrow> ToolDefinitionError name
      | ToolNotFoundError _ \<Rightarrow> ToolDefinitionError name | _ \<Rightarrow> e)"

definition derive_schema ::
  "'w platform \<Rightarrow> 'w tools \<Rightarrow> string \<Rightarrow> schema option \<Rightarrow> string option \<Rightarrow> exn + flow_step \<Rightarrow>
     ('w tool \<Rightarrow> schema) \<Rightarrow> exn + schema" where
  "derive_schema pl tools name override ref step pick =
     (case override of
        Some s \<Rightarrow> Inr s
      | None \<Rightarrow>
          (case ref of
             Some r \<Rightarrow>
               (case resolve_schema pl r of
                  Inl e \<Rightarrow> Inl (wrap_definition_error name e) | Inr s \<Rightarrow> Inr s)
           | None \<Rightarrow>
               bind_err step (\<lambda>s.
                 case s_tool_name s of
                   None \<Rightarrow> Inl (ToolDefinitionError name)
                 | Some tn \<Rightarrow>
                     (case get_tool tools tn of
                        Inl e \<Rightarrow> Inl (wrap_definition_error name e) | Inr t \<Rightarrow> Inr (pick t)))))"

text \<open>
  The safety derivation: the contracts of the steps whose tool is registered, and whether every
  step contributed a declared one.
\<close>

fun constituents :: "'w tools \<Rightarrow> flow_step list \<Rightarrow> safety_contract list \<times> bool" where
  "constituents tools [] = ([], True)"
| "constituents tools (s # ss) =
     (case constituents tools ss of
        (cs, declared) \<Rightarrow>
          (case s_tool_name s of
             None \<Rightarrow> (cs, False)
           | Some tn \<Rightarrow>
               (case get_tool tools tn of
                  Inl _ \<Rightarrow> (cs, False)
                | Inr t \<Rightarrow> (t_safety t # cs, declared \<and> t_safety_declared t))))"

definition derive_safety ::
  "'w tools \<Rightarrow> any_flow \<Rightarrow> safety_contract option \<Rightarrow> exn + safety_contract \<times> bool" where
  "derive_safety tools f override =
     (case override of
        Some s \<Rightarrow> Inr (s, True)
      | None \<Rightarrow>
          (case af_safety f of
             Some s \<Rightarrow> Inr (s, True)
           | None \<Rightarrow>
               (case constituents tools (af_steps f) of
                  (cs, declared) \<Rightarrow>
                    bind_err (merge_safety cs None) (\<lambda>s. Inr (s, declared)))))"

text \<open>
  \<open>Tool.from_flow\<close>.  The function of the wrapper runs the flow on the executor: it is the
  argument \<open>flow_fn\<close>, which the executor theories instantiate.
\<close>

definition from_flow ::
  "'w platform \<Rightarrow> 'w tools \<Rightarrow> any_flow \<Rightarrow> string option \<Rightarrow> string option \<Rightarrow> schema option \<Rightarrow> schema option \<Rightarrow>
     safety_contract option \<Rightarrow> ('w \<Rightarrow> val dict \<Rightarrow> 'w \<times> nat \<times> (exn + val)) \<Rightarrow> exn + 'w tool" where
  "from_flow pl tools f name description input_schema output_schema safety flow_fn =
     (if af_steps f = [] then Inl (ToolDefinitionError (af_name f))
      else
        bind_err (derive_schema pl tools (af_name f) input_schema (af_input_ref f)
                    (Inr (hd (af_steps f))) t_input_schema) (\<lambda>inp.
        bind_err (derive_schema pl tools (af_name f) output_schema (af_output_ref f)
                    (terminal_step f) t_output_schema) (\<lambda>outp.
        bind_err (derive_safety tools f safety) (\<lambda>(s, declared).
        bind_err (new_tool
            \<lparr>a_name = default_arg name (af_name f),
             a_description = default_arg description (on_flow f_description f_description f),
             a_input_schema = inp, a_output_schema = outp, a_fn = flow_fn, a_timeout = None,
             a_max_output_size = None, a_schema_version = ''0.0.0'', a_cacheable = None,
             a_safety = Some s, a_dry_run_fn = None, a_is_async = False\<rparr>) (\<lambda>t.
          Inr (t\<lparr>t_safety_declared := declared\<rparr>))))))"

section \<open>Construction\<close>

text \<open>The invariant of a tool: what the constructor has checked.\<close>

definition tool_ok :: "'w tool \<Rightarrow> bool" where
  "tool_ok t \<longleftrightarrow> t_cacheable t = cacheable (t_safety t) \<and>
     (supports_dry_run (t_safety t) \<longrightarrow> t_dry_run_fn t \<noteq> None)"

lemma new_tool_ok: "new_tool a = Inr t \<Longrightarrow> tool_ok t \<and> t_name t = a_name a \<and> t_fn t = a_fn a"
  by (auto simp: new_tool_def tool_ok_def bind_err_Inr_iff split: if_splits)

lemma from_flow_new_tool:
  "from_flow pl tools f name description i ou safety fn = Inr t \<Longrightarrow>
     \<exists>a t' s d. new_tool a = Inr t' \<and> t = t'\<lparr>t_safety_declared := d\<rparr> \<and>
       a_name a = default_arg name (af_name f) \<and> a_fn a = fn \<and>
       derive_safety tools f safety = Inr (s, d) \<and> a_safety a = Some s"
  by (auto simp: from_flow_def bind_err_Inr_iff split: if_splits) fastforce

lemma from_flow_ok: "from_flow pl tools f name description i ou safety fn = Inr t \<Longrightarrow> tool_ok t"
  by (drule from_flow_new_tool) (auto dest!: new_tool_ok simp: tool_ok_def)

section \<open>Runs\<close>

lemma call_fn_Inr:
  "call_fn pl t w inp = (w', Inr v) \<longleftrightarrow>
     \<not> (t_is_async t \<and> pl_in_loop pl) \<and>
     (\<exists>d. t_fn t w inp = (w', d, Inr v) \<and> (\<forall>limit. t_timeout t = Some limit \<longrightarrow> d \<le> limit))"
  by (auto simp: call_fn_def split: option.splits prod.splits)

lemma validate_output_Inr:
  "validate_output pl t v = Inr out \<longleftrightarrow>
     (\<forall>limit. t_max_output_size t = Some limit \<longrightarrow> json_size pl v \<le> limit) \<and>
     sch_validate (t_output_schema t) v = Inr out"
  by (auto simp: validate_output_def split: option.splits)

lemma run_Inr:
  "run pl t w raw = (w', Inr out) \<longleftrightarrow>
     (\<exists>inp v. sch_validate (t_input_schema t) (VDict raw) = Inr inp \<and>
        call_fn pl t w inp = (w', Inr v) \<and> validate_output pl t v = Inr out)"
  by (auto simp: run_def bind_st_Inr_iff split: sum.splits)

lemma run_dry_Inr:
  "run_dry pl t w raw = (w', Inr out) \<longleftrightarrow>
     (\<exists>dry inp v. t_dry_run_fn t = Some dry \<and> sch_validate (t_input_schema t) (VDict raw) = Inr inp \<and>
        dry w inp = (w', Inr v) \<and> validate_output pl t v = Inr out)"
  by (auto simp: run_dry_def bind_st_Inr_iff split: sum.splits option.splits)

text \<open>An optional upper limit.\<close>

definition under_limit :: "nat option \<Rightarrow> nat \<Rightarrow> bool" where
  "under_limit limit n = (case limit of None \<Rightarrow> True | Some l \<Rightarrow> n \<le> l)"

lemma under_limit_iff: "under_limit limit n \<longleftrightarrow> (\<forall>l. limit = Some l \<longrightarrow> n \<le> l)"
  by (simp add: under_limit_def split: option.splits)

text \<open>A rejected input leaves the world alone.\<close>

lemma run_invalid_input:
  "sch_validate (t_input_schema t) (VDict raw) = Inl e \<Longrightarrow> run pl t w raw = (w, Inl e)"
  by (simp add: run_def)

section \<open>Streams and collected outputs\<close>

lemma drain_seen: "drain n (Some v) cs = Inr u \<longleftrightarrow> cs = [] \<and> u = v \<and> v \<noteq> VNone"
  by (cases cs) auto

lemma run_streaming_seen: "run_streaming pl t True cs = (ys, Inr ()) \<longleftrightarrow> cs = [] \<and> ys = []"
  by (cases cs) auto

text \<open>A well-formed stream: the terminal chunk is the last one and the only terminal one.\<close>

lemma drain_None:
  "drain n None cs = Inr v \<longleftrightarrow>
     (\<exists>ds c. cs = ds @ [c] \<and> ch_is_final c \<and> ch_data c = v \<and> v \<noteq> VNone \<and> (\<forall>d \<in> set ds. \<not> ch_is_final d))"
proof (induction cs)
  case (Cons c cs)
  show ?case
  proof (cases "ch_is_final c")
    case True
    then show ?thesis
      by (auto simp: drain_seen Cons_eq_append_conv)
  next
    case False
    then show ?thesis
      using Cons.IH by (auto simp: Cons_eq_append_conv)
  qed
qed simp

lemma run_streaming_None:
  "run_streaming pl t False cs = (ys, Inr ()) \<longleftrightarrow>
     (\<exists>ds c out. cs = ds @ [c] \<and> ch_is_final c \<and> (\<forall>d \<in> set ds. \<not> ch_is_final d) \<and>
        validate_output pl t (ch_data c) = Inr out \<and> ys = ds @ [\<lparr>ch_data = VDict out, ch_is_final = True\<rparr>])"
proof (induction cs arbitrary: ys)
  case (Cons c cs)
  show ?case
  proof (cases "ch_is_final c")
    case True
    then show ?thesis
      by (auto simp: Cons_eq_append_conv run_streaming_seen split: sum.splits prod.splits)
  next
    case False
    then show ?thesis
      using Cons.IH by (fastforce simp: Cons_eq_append_conv split: prod.splits)
  qed
qed simp

section \<open>Derived safety\<close>

lemma constituents_mem:
  "c \<in> set (fst (constituents tools ss)) \<longleftrightarrow>
     (\<exists>s \<in> set ss. \<exists>n t. s_tool_name s = Some n \<and> dict_get tools n = Some t \<and> c = t_safety t)"
  by (induction ss) (auto simp: get_tool_def split: option.splits sum.splits prod.splits)

lemma constituents_declared:
  "snd (constituents tools ss) \<longleftrightarrow>
     (\<forall>s \<in> set ss. \<exists>n t. s_tool_name s = Some n \<and> dict_get tools n = Some t \<and> t_safety_declared t)"
  by (induction ss) (auto simp: get_tool_def split: option.splits sum.splits prod.splits)

text \<open>
  C7: The contract derived for a flow wrapped as a tool is at least as restrictive as the contract
  of every registered tool among its steps, and it counts as declared only when every step runs
  a registered tool whose own contract is declared.
\<close>

theorem derive_safety_bounds:
  assumes "derive_safety tools f None = Inr (s, declared)" and "af_safety f = None"
    and "st \<in> set (af_steps f)"
  shows "(\<forall>n t. s_tool_name st = Some n \<and> dict_get tools n = Some t \<longrightarrow> safety_le (t_safety t) s) \<and>
     (declared \<longrightarrow> (\<exists>n t. s_tool_name st = Some n \<and> dict_get tools n = Some t \<and> t_safety_declared t))"
proof -
  obtain cs d where c: "constituents tools (af_steps f) = (cs, d)"
    by (cases "constituents tools (af_steps f)")
  from assms(1,2) have m: "merge_safety cs None = Inr s" and d: "d = declared"
    by (auto simp: derive_safety_def c bind_err_Inr_iff)
  have "t_safety t \<in> set cs" if "s_tool_name st = Some n" "dict_get tools n = Some t" for n t
    using that assms(3) constituents_mem [of "t_safety t" tools "af_steps f"] by (auto simp: c)
  with merge_safety_upper [OF m] assms(3) constituents_declared [of tools "af_steps f"] show ?thesis
    by (auto simp: c d)
qed

section \<open>Sample tools\<close>

text \<open>A schema that accepts every object, and tools over it, for concrete runs.\<close>

definition object_schema :: "string \<Rightarrow> schema" where
  "object_schema name =
     \<lparr>sch_name = name, sch_fields = [],
      sch_validate = (\<lambda>v. case v of VDict d \<Rightarrow> Inr d | _ \<Rightarrow> Inl (ValidationError name)),
      sch_hash = name\<rparr>"

definition sample_args ::
  "string \<Rightarrow> safety_contract \<Rightarrow> ('w \<Rightarrow> val dict \<Rightarrow> 'w \<times> nat \<times> (exn + val)) \<Rightarrow> 'w tool_args" where
  "sample_args name s fn =
     \<lparr>a_name = name, a_description = [], a_input_schema = object_schema name,
      a_output_schema = object_schema name, a_fn = fn, a_timeout = None, a_max_output_size = None,
      a_schema_version = ''0.0.0'', a_cacheable = None, a_safety = Some s,
      a_dry_run_fn = Some (\<lambda>w d. (w, Inr (VDict []))), a_is_async = False\<rparr>"

definition sample_tool ::
  "string \<Rightarrow> safety_contract \<Rightarrow> ('w \<Rightarrow> val dict \<Rightarrow> 'w \<times> nat \<times> (exn + val)) \<Rightarrow> 'w tool" where
  "sample_tool name s fn =
     \<lparr>t_name = name, t_description = [], t_input_schema = object_schema name,
      t_output_schema = object_schema name, t_fn = fn, t_timeout = None, t_max_output_size = None,
      t_schema_version = ''0.0.0'', t_cacheable = cacheable s, t_safety = s, t_safety_declared = True,
      t_dry_run_fn = Some (\<lambda>w d. (w, Inr (VDict []))), t_is_async = False\<rparr>"

lemma new_sample_tool: "new_tool (sample_args name s fn) = Inr (sample_tool name s fn)"
  by (simp add: new_tool_def sample_args_def sample_tool_def reconcile_cacheable_def)

theorem derive_safety_bounds_witness:
  "\<exists>s. derive_safety [(''t'', sample_tool ''t'' (default_safety\<lparr>side_effects := SE_WRITE, read_only := False\<rparr>)
        (\<lambda>w d. ((), 0, Inr (VDict d))))]
      (LinearFlow (mk_flow ''f'' [mk_step\<lparr>s_tool_name := Some ''t''\<rparr>])) None = Inr (s, True) \<and>
    safety_le (default_safety\<lparr>side_effects := SE_WRITE, read_only := False\<rparr>) s"
proof -
  let ?c = "default_safety\<lparr>side_effects := SE_WRITE, read_only := False\<rparr>"
  let ?tools = "[(''t'', sample_tool ''t'' ?c (\<lambda>w d. ((), 0 :: nat, Inr (VDict d) :: exn + val)))]"
  let ?f = "LinearFlow (mk_flow ''f'' [mk_step\<lparr>s_tool_name := Some ''t''\<rparr>])"
  obtain s where "merge_safety [?c] None = Inr s"
    using merge_safety_least [of "[?c]" None] by auto
  then have s: "derive_safety ?tools ?f None = Inr (s, True)"
    by (simp add: derive_safety_def af_simps mk_flow_def mk_step_def get_tool_def sample_tool_def)
  have "safety_le (t_safety (sample_tool ''t'' ?c (\<lambda>w d. ((), 0 :: nat, Inr (VDict d) :: exn + val)))) s"
    using derive_safety_bounds [OF s, of "mk_step\<lparr>s_tool_name := Some ''t''\<rparr>"]
    by (simp add: af_simps mk_flow_def mk_step_def)
  with s show ?thesis
    by (auto simp: sample_tool_def)
qed

text \<open>
  A flow cannot be wrapped as a tool when the contracts of all its steps support dry runs:
  the merged contract then claims dry-run support too, and the constructor rejects the wrapper
  because no dry-run function is passed to it.
\<close>

theorem from_flow_dry_run_conflict:
  assumes "derive_safety tools f safety = Inr (s, declared)" and "supports_dry_run s"
  shows "\<exists>e. from_flow pl tools f name description i ou safety fn = Inl e"
proof (cases "from_flow pl tools f name description i ou safety fn")
  case (Inr t)
  from from_flow_new_tool [OF this] assms(1) obtain a t' where
    "new_tool a = Inr t'" "t = t'\<lparr>t_safety_declared := declared\<rparr>" "a_safety a = Some s"
    by auto
  with Inr assms show ?thesis
    by (auto simp: from_flow_def bind_err_Inr_iff new_tool_def reconcile_cacheable_def split: if_splits)
qed simp

theorem from_flow_dry_run_conflict_witness:
  "\<forall>pl fn wrapped. \<exists>e. from_flow pl [(''t'', sample_tool ''t'' (default_safety\<lparr>supports_dry_run := True\<rparr>) fn)]
      (LinearFlow (mk_flow ''f'' [mk_step\<lparr>s_tool_name := Some ''t''\<rparr>])) None None None None None wrapped = Inl e"
proof (intro allI)
  fix pl fn wrapped
  let ?c = "default_safety\<lparr>supports_dry_run := True\<rparr>"
  obtain s where s: "merge_safety [?c] None = Inr s" "supports_dry_run s"
    using merge_safety_cons [of ?c "[]" None] by auto
  then have "derive_safety [(''t'', sample_tool ''t'' ?c fn)]
      (LinearFlow (mk_flow ''f'' [mk_step\<lparr>s_tool_name := Some ''t''\<rparr>])) None = Inr (s, True)"
    by (simp add: derive_safety_def af_simps mk_flow_def mk_step_def get_tool_def sample_tool_def)
  from from_flow_dry_run_conflict [OF this s(2)]
  show "\<exists>e. from_flow pl [(''t'', sample_tool ''t'' ?c fn)]
      (LinearFlow (mk_flow ''f'' [mk_step\<lparr>s_tool_name := Some ''t''\<rparr>])) None None None None None wrapped = Inl e" .
qed

text \<open>
  A tool run returns an output exactly when the input passes the input schema, the function
  returns a value (outside a running event loop when it is asynchronous) within the timeout, the
  value is not larger than the cap and passes the output schema; the output is the validated
  value and the world is the one the function left.
\<close>

theorem tool_run_returns:
  "run pl t w raw = (w', Inr out) \<longleftrightarrow>
     (\<exists>inp d v. sch_validate (t_input_schema t) (VDict raw) = Inr inp \<and>
        \<not> (t_is_async t \<and> pl_in_loop pl) \<and> t_fn t w inp = (w', d, Inr v) \<and>
        under_limit (t_timeout t) d \<and> under_limit (t_max_output_size t) (json_size pl v) \<and>
        sch_validate (t_output_schema t) v = Inr out)"
  unfolding run_Inr call_fn_Inr validate_output_Inr under_limit_iff by blast

text \<open>
  Draining a stream and consuming it chunk by chunk agree: the drained value passes the output
  validation exactly when the streamed run ends normally after all intermediate chunks and the
  validated terminal chunk.
\<close>

theorem streaming_agrees_with_drain:
  "(drain n None cs = Inr v \<and> validate_output pl t v = Inr out) \<longleftrightarrow>
     (cs \<noteq> [] \<and> ch_data (last cs) = v \<and> v \<noteq> VNone \<and> validate_output pl t v = Inr out \<and>
      run_streaming pl t False cs =
        (butlast cs @ [\<lparr>ch_data = VDict out, ch_is_final = True\<rparr>], Inr ()))"
  unfolding drain_None run_streaming_None by (cases cs rule: rev_cases) auto

end
