(* ===== verification/ContextMerge.thy ===== *)
theory ContextMerge
  imports FlowModel
begin

text \<open>
  \<open>chainweaver/_execution/context.py\<close>: the projection of a step's outputs through its output
  mapping and the merge of the outputs into the running context under the collision policy of
  the flow.  The lemmas describe the merged context as a map and say when the merge is refused.
\<close>

fun project_outputs ::
  "val dict \<Rightarrow> string \<Rightarrow> int \<Rightarrow> (string \<times> string) list \<Rightarrow> val dict \<Rightarrow> exn + val dict" where
  "project_outputs outputs tool idx [] mapped = Inr mapped"
| "project_outputs outputs tool idx ((ckey, okey) # m) mapped =
     (case dict_get outputs okey of
        None \<Rightarrow> Inl (OutputMappingError tool idx okey (dict_keys outputs))
      | Some v \<Rightarrow> project_outputs outputs tool idx m (dict_set mapped ckey v))"

definition apply_output_mapping ::
  "val dict \<Rightarrow> (string \<times> string) list option \<Rightarrow> string \<Rightarrow> int \<Rightarrow> exn + val dict" where
  "apply_output_mapping outputs om tool idx =
     (case om of None \<Rightarrow> Inr outputs | Some m \<Rightarrow> project_outputs outputs tool idx m [])"

definition collisions :: "val dict \<Rightarrow> val dict \<Rightarrow> string list" where
  "collisions ctx outputs = filter (dict_has ctx) (dict_keys outputs)"

definition merge_step_outputs ::
  "collision_policy \<Rightarrow> string \<Rightarrow> int \<Rightarrow> string \<Rightarrow> (string \<times> string) list option \<Rightarrow> val dict \<Rightarrow> val dict \<Rightarrow>
     exn + val dict" where
  "merge_step_outputs policy flow_name idx step_name om ctx outputs =
     bind_err (apply_output_mapping outputs om step_name idx) (\<lambda>outputs.
       if collisions ctx outputs \<noteq> [] \<and> policy = Error
       then Inl (ContextKeyCollisionError flow_name idx step_name (collisions ctx outputs))
       else Inr (dict_update ctx outputs))"

section \<open>Properties\<close>

text \<open>The projection read as a map: each context key gets the value of its output key.\<close>

definition projected :: "val dict \<Rightarrow> (string \<times> string) list option \<Rightarrow> string \<rightharpoonup> val" where
  "projected outputs om =
     (case om of None \<Rightarrow> dict_get outputs
      | Some m \<Rightarrow> (\<lambda>k. case dict_get m k of None \<Rightarrow> None | Some okey \<Rightarrow> dict_get outputs okey))"

lemma project_outputs_Inr:
  "distinct (dict_keys m) \<Longrightarrow> project_outputs outputs tool idx m mapped = Inr out \<Longrightarrow>
     dict_get out = (\<lambda>k. case dict_get m k of None \<Rightarrow> dict_get mapped k | Some okey \<Rightarrow> dict_get outputs okey) \<and>
     (\<forall>kv \<in> set m. dict_has outputs (snd kv)) \<and>
     set (dict_keys out) = set (dict_keys mapped) \<union> set (dict_keys m)"
proof (induction m arbitrary: mapped)
  case (Cons kv m)
  obtain ckey okey where kv: "kv = (ckey, okey)"
    by (cases kv)
  from Cons.prems obtain v where v: "dict_get outputs okey = Some v"
    and rest: "project_outputs outputs tool idx m (dict_set mapped ckey v) = Inr out"
    by (auto simp: kv split: option.splits)
  have fresh: "dict_get m ckey = None"
    using Cons.prems(1) by (simp add: kv map_of_eq_None_iff)
  have m: "dict_get out =
      (\<lambda>k. case dict_get m k of None \<Rightarrow> dict_get (dict_set mapped ckey v) k | Some okey \<Rightarrow> dict_get outputs okey)"
    "\<forall>kv \<in> set m. dict_has outputs (snd kv)"
    "set (dict_keys out) = set (dict_keys (dict_set mapped ckey v)) \<union> set (dict_keys m)"
    using Cons.IH [OF _ rest] Cons.prems(1) by simp_all
  have "dict_get out = (\<lambda>k. case dict_get (kv # m) k of None \<Rightarrow> dict_get mapped k
      | Some okey \<Rightarrow> dict_get outputs okey)"
    unfolding m(1) by (rule ext) (auto simp: kv dict_get_set v fresh split: option.splits)
  moreover have "set (dict_keys out) = set (dict_keys mapped) \<union> set (dict_keys (kv # m))"
    unfolding m(3) by (auto simp: kv AList.dom_update)
  ultimately show ?case
    using m(2) by (simp add: kv v)
qed simp

lemma project_outputs_Inl:
  "project_outputs outputs tool idx m mapped = Inl e \<Longrightarrow>
     \<exists>okey \<in> set (map snd m). \<not> dict_has outputs okey \<and> e = OutputMappingError tool idx okey (dict_keys outputs)"
proof (induction m arbitrary: mapped)
  case (Cons kv m)
  obtain a b where kv: "kv = (a, b)"
    by (cases kv)
  show ?case
  proof (cases "dict_get outputs b")
    case None
    with Cons.prems show ?thesis
      by (simp add: kv)
  next
    case (Some v)
    with Cons.IH [of "dict_set mapped a v"] Cons.prems show ?thesis
      by (auto simp: kv)
  qed
qed simp

text \<open>What the merge needs to be well defined: its arguments are dictionaries.\<close>

definition mapping_ok :: "(string \<times> string) list option \<Rightarrow> bool" where
  "mapping_ok om = (case om of None \<Rightarrow> True | Some m \<Rightarrow> dict_ok m)"

lemma project_outputs_ok: "project_outputs outputs tool idx m mapped = Inr out \<Longrightarrow> dict_ok mapped \<Longrightarrow> dict_ok out"
  by (induction m arbitrary: mapped) (auto simp: dict_ok_set split: option.splits)

lemma apply_output_mapping_Inr:
  assumes "mapping_ok om" "dict_ok outputs" "apply_output_mapping outputs om tool idx = Inr out"
  shows "dict_get out = projected outputs om \<and> dict_ok out"
proof (cases om)
  case None
  with assms show ?thesis
    by (simp add: apply_output_mapping_def projected_def)
next
  case (Some m)
  with assms project_outputs_Inr [of m outputs tool idx "[]" out]
    project_outputs_ok [of outputs tool idx m "[]" out]
  show ?thesis
    by (auto simp: apply_output_mapping_def projected_def mapping_ok_def cong: option.case_cong)
qed

lemma collisions_iff: "collisions ctx outputs = [] \<longleftrightarrow> dom (dict_get ctx) \<inter> dom (dict_get outputs) = {}"
  unfolding collisions_def filter_empty_conv dict_has_iff dom_map_of_conv_image_fst set_map by blast

lemma merge_Inr:
  assumes "mapping_ok om" "dict_ok outputs"
    and "merge_step_outputs policy fl idx name om ctx outputs = Inr ctx'"
  shows "dict_get ctx' = dict_get ctx ++ projected outputs om \<and>
     (dict_ok ctx \<longrightarrow> dict_ok ctx') \<and>
     (policy = Error \<longrightarrow> dom (dict_get ctx) \<inter> dom (projected outputs om) = {})"
proof -
  from assms(3) obtain out where out: "apply_output_mapping outputs om name idx = Inr out"
    and c: "ctx' = dict_update ctx out" "policy = Error \<longrightarrow> collisions ctx out = []"
    by (auto simp: merge_step_outputs_def bind_err_Inr_iff split: if_splits)
  from apply_output_mapping_Inr [OF assms(1,2) out]
  have "dict_get out = projected outputs om" "dict_ok out"
    by auto
  with c show ?thesis
    by (auto simp: dict_get_update collisions_iff dict_ok_update)
qed

text \<open>
  C8: A merge of step outputs gives the context overridden by the projected outputs, and under the
  policy \<open>error\<close> it never overwrites a key; when it is refused, either the output mapping names
  an output the step did not produce, or the policy is \<open>error\<close> and a key is already there.
\<close>

theorem merge_step_outputs_spec:
  assumes "mapping_ok om" and "dict_ok outputs"
  shows "case merge_step_outputs policy fl idx name om ctx outputs of
      Inr ctx' \<Rightarrow> dict_get ctx' = dict_get ctx ++ projected outputs om \<and>
        (policy = Error \<longrightarrow> dom (dict_get ctx) \<inter> dom (projected outputs om) = {})
    | Inl e \<Rightarrow>
        (\<exists>okey. om \<noteq> None \<and> okey \<in> set (map snd (the om)) \<and> \<not> dict_has outputs okey \<and>
           e = OutputMappingError name idx okey (dict_keys outputs)) \<or>
        policy = Error \<and> dom (dict_get ctx) \<inter> dom (projected outputs om) \<noteq> {} \<and>
        (\<exists>ks. e = ContextKeyCollisionError fl idx name ks \<and> ks \<noteq> [])"
proof (cases "merge_step_outputs policy fl idx name om ctx outputs")
  case (Inr ctx')
  with merge_Inr [OF assms this] show ?thesis
    by simp
next
  case (Inl e)
  show ?thesis
  proof (cases "apply_output_mapping outputs om name idx")
    case (Inl e')
    with \<open>merge_step_outputs _ _ _ _ _ _ _ = _\<close> obtain m where
      "om = Some m" "project_outputs outputs name idx m [] = Inl e"
      by (auto simp: merge_step_outputs_def apply_output_mapping_def split: option.splits)
    with project_outputs_Inl [OF this(2)] \<open>merge_step_outputs _ _ _ _ _ _ _ = _\<close> show ?thesis
      by auto
  next
    case (Inr out)
    with Inl apply_output_mapping_Inr [OF assms Inr] collisions_iff [of ctx out] show ?thesis
      by (auto simp: merge_step_outputs_def split: if_splits)
  qed
qed

theorem merge_step_outputs_spec_witness:
  "case merge_step_outputs Error ''f'' 1 ''t'' (Some [(''n'', ''m'')]) [(''n'', VInt 1)] [(''m'', VInt 2)] of
      Inr ctx' \<Rightarrow> False
    | Inl e \<Rightarrow> e = ContextKeyCollisionError ''f'' 1 ''t'' [''n'']"
proof -
  have "merge_step_outputs Error ''f'' 1 ''t'' (Some [(''n'', ''m'')]) [(''n'', VInt 1)] [(''m'', VInt 2)] =
      Inl (ContextKeyCollisionError ''f'' 1 ''t'' [''n''])"
    by code_simp
  then show ?thesis
    using merge_step_outputs_spec [where om = "Some [(''n'', ''m'')]" and
        outputs = "[(''m'', VInt 2)]" and policy = Error and fl = "''f''" and idx = 1 and
        name = "''t''" and ctx = "[(''n'', VInt 1)]"]
    by (simp add: mapping_ok_def)
qed

end
