(* ===== verification/ExecTypes.thy ===== *)
theory ExecTypes
  imports ToolModel ContextMerge Stores
begin

text \<open>
  The data of \<open>chainweaver/executor.py\<close>: step records, results, snapshots, the configuration of
  an executor, the run-scoped state, and the state a run threads through.  Timestamps, durations
  and log output are not modelled.  The component \<open>x_calls\<close> is a ghost: the list of the calls the
  run has made to tools and callbacks, in order, on which the safety properties are stated.
\<close>

section \<open>Trace records\<close>

text \<open>
  An entry of \<open>retry_errors\<close>: the text of an exception, that text with the suppression note, or
  what the asynchronous lane notes about a fallback tool.
\<close>

datatype (plugins only: code size) retry_error =
    RetryErr exn
  | RetrySuppressed exn
  | FallbackNotRegistered string
  | FallbackRefused string exn
  | FallbackFailed string exn

datatype (plugins only: code size) approval_record = Approved | Denied string

record decision_record =
  dr_candidates :: "string list"
  dr_chosen :: string
  dr_default :: string
  dr_timed_out :: bool

text \<open>
  \<open>StepRecord\<close> without its nested result.  \<open>error_type\<close>, \<open>error_code\<close> and \<open>error_message\<close> are
  functions of the exception.
\<close>

record step_data =
  sd_index :: int
  sd_tool_name :: string
  sd_inputs :: "val dict"
  sd_outputs :: "val dict option"
  sd_error :: "exn option"
  sd_success :: bool
  sd_retry_count :: nat
  sd_retry_errors :: "retry_error list"
  sd_skipped :: bool
  sd_cached :: bool
  sd_fallback_used :: bool
  sd_fallback_tool_name :: "string option"
  sd_flow_name :: "string option"
  sd_approval :: "approval_record option"
  sd_decision :: "decision_record option"

record cost_profile =
  cp_latency_ms :: rat
  cp_tokens_per_call :: rat
  cp_cost_per_token :: rat

record cost_report =
  cr_steps_executed :: int
  cr_llm_calls_avoided :: int
  cr_latency_saved_ms :: rat
  cr_cost_saved :: rat

definition compute_cost_report :: "int \<Rightarrow> cost_profile \<Rightarrow> cost_report" where
  "compute_cost_report steps_executed p =
     (let avoided = max 0 (steps_executed - 1)
      in \<lparr>cr_steps_executed = steps_executed, cr_llm_calls_avoided = avoided,
          cr_latency_saved_ms = of_int avoided * cp_latency_ms p,
          cr_cost_saved = of_int avoided * cp_tokens_per_call p * cp_cost_per_token p\<rparr>)"

text \<open>\<open>ExecutionResult\<close> without its log.\<close>

record result_data =
  rd_flow_name :: string
  rd_flow_version :: string
  rd_success :: bool
  rd_final_output :: "val dict option"
  rd_trace_id :: string
  rd_cost_report :: "cost_report option"
  rd_initial_input :: "val dict"
  rd_dry_run :: bool

datatype (plugins only: code size) step_record =
  StepRecord (sr_data: step_data) (sr_sub_result: "execution_result option")
and execution_result =
  ExecutionResult (er_data: result_data) (er_log: "step_record list")

definition sr_success :: "step_record \<Rightarrow> bool" where "sr_success r = sd_success (sr_data r)"
definition sr_outputs :: "step_record \<Rightarrow> val dict option" where "sr_outputs r = sd_outputs (sr_data r)"
definition sr_index :: "step_record \<Rightarrow> int" where "sr_index r = sd_index (sr_data r)"
definition er_success :: "execution_result \<Rightarrow> bool" where "er_success r = rd_success (er_data r)"

lemmas record_simps = sr_success_def sr_outputs_def sr_index_def er_success_def

text \<open>\<open>StepRecord.error_type\<close> and \<open>StepRecord.error_code\<close>.\<close>

definition sd_error_type :: "step_data \<Rightarrow> string option" where
  "sd_error_type d = map_option exn_type (sd_error d)"

definition sd_error_code :: "step_data \<Rightarrow> string option" where
  "sd_error_code d = error_code_for ERROR_CODES (sd_error_type d)"

text \<open>A record with every field at its default.\<close>

definition blank_step :: "int \<Rightarrow> string \<Rightarrow> step_data" where
  "blank_step idx tool =
     \<lparr>sd_index = idx, sd_tool_name = tool, sd_inputs = [], sd_outputs = None, sd_error = None,
      sd_success = True, sd_retry_count = 0, sd_retry_errors = [], sd_skipped = False,
      sd_cached = False, sd_fallback_used = False, sd_fallback_tool_name = None,
      sd_flow_name = None, sd_approval = None, sd_decision = None\<rparr>"

section \<open>Snapshots\<close>

record snapshot =
  sn_version :: string
  sn_trace_id :: string
  sn_flow_name :: string
  sn_flow_version :: string
  sn_initial_input :: "val dict"
  sn_context :: "val dict"
  sn_log :: "step_record list"
  sn_completed_steps :: nat
  sn_completed_levels :: nat
  sn_tool_hashes :: "(string \<times> string) list"

section \<open>Callbacks\<close>

text \<open>What the decision, approval and guardrail callbacks are told.\<close>

record call_ctx =
  cc_trace_id :: string
  cc_flow_name :: string
  cc_step_index :: int
  cc_step_id :: "string option"
  cc_tool_name :: string
  cc_inputs :: "val dict"

datatype approval_answer = Approve | Deny | NoDecision string

record decision_policy =
  dp_timeout :: "nat option"
  dp_on_timeout_error :: bool
  dp_max_decisions :: "nat option"

text \<open>The lifecycle events the middleware receives.\<close>

datatype (plugins only: code size) event =
    FlowStart string string string "val dict" nat \<comment> \<open>trace, flow, version, input, steps\<close>
  | StepStart string string int string "val dict" \<comment> \<open>trace, flow, index, tool, inputs\<close>
  | StepEnd string string step_record
  | FlowEnd string string execution_result

section \<open>State\<close>

text \<open>\<open>_RunScopedState\<close>; the run-scoped middleware of the streaming entry points is left out.\<close>

record local_state =
  l_version :: string
  l_in_replay :: bool
  l_resume :: "snapshot option"
  l_dry_run :: bool
  l_dry_run_abort :: bool
  l_dynamic_params :: "val dict"
  l_decision_count :: nat

definition fresh_local :: local_state where
  "fresh_local =
     \<lparr>l_version = [], l_in_replay = False, l_resume = None, l_dry_run = False,
      l_dry_run_abort = False, l_dynamic_params = [], l_decision_count = 0\<rparr>"

definition copy_local :: "local_state \<Rightarrow> local_state" where
  "copy_local l = l\<lparr>l_decision_count := 0\<rparr>"

text \<open>
  The ghost calls: a tool run (with the contract it ran under), a dry run, an approval with its
  answer, a guardrail check with its verdict, a decision.
\<close>

datatype (plugins only: code size) 'w call =
    RanTool string int "'w tool" "val dict"
  | RanDry string int "'w tool" "val dict"
  | AskedApproval string int string "val dict" bool
  | AskedGuardrail string int string bool
  | AskedDecision string int

text \<open>An observed trace: the source and, per record, tool, inputs and outputs.\<close>

type_synonym observed = "string \<times> (string \<times> val dict \<times> val dict option) list"

record ('w, 'c, 'k) xstate =
  x_world :: 'w
  x_cache :: 'c
  x_snaps :: 'k
  x_events :: "event list"
  x_observed :: "observed list"
  x_next_trace :: nat
  x_local :: local_state
  x_calls :: "'w call list"

text \<open>
  What a run can raise.  \<open>RCancelled\<close> is \<open>FlowCancelledError\<close> with its partial result;
  \<open>ROutOfFuel\<close> is not an outcome of the program: it marks a model run whose nesting bound was
  too small.
\<close>

datatype (plugins only: code size) raised =
    RExn exn
  | RCancelled string int execution_result bool bool
  | ROutOfFuel

definition lift_exn :: "'s \<times> (exn + 'a) \<Rightarrow> 's \<times> (raised + 'a)" where
  "lift_exn x = (case snd x of Inl e \<Rightarrow> (fst x, Inl (RExn e)) | Inr a \<Rightarrow> (fst x, Inr a))"

lemma lift_exn_simps [simp]:
  "lift_exn (s, Inl e) = (s, Inl (RExn e))" "lift_exn (s, Inr a) = (s, Inr a)"
  by (simp_all add: lift_exn_def)

section \<open>Executor\<close>

text \<open>
  The state of one guarded tool call: the holders \<open>tool_attempts\<close> and \<open>retry_errors\<close> are
  mutable objects of the code.
\<close>

record ('w, 'c, 'k) attempt_state =
  at_x :: "('w, 'c, 'k) xstate"
  at_count :: nat
  at_errors :: "retry_error list"

text \<open>
  \<open>tenacity.Retrying\<close>: the number of attempts, the waiting time after an attempt, the test for
  retryable exceptions, the call.
\<close>

type_synonym ('w, 'c, 'k) retryer =
  "nat \<Rightarrow> (nat \<Rightarrow> ('w, 'c, 'k) attempt_state \<Rightarrow> ('w, 'c, 'k) attempt_state \<times> rat) \<Rightarrow> (exn \<Rightarrow> bool) \<Rightarrow>
     (('w, 'c, 'k) attempt_state \<Rightarrow> ('w, 'c, 'k) attempt_state \<times> (exn + val dict)) \<Rightarrow>
     ('w, 'c, 'k) attempt_state \<Rightarrow> ('w, 'c, 'k) attempt_state \<times> (exn + val dict)"

record ('w, 'c, 'k) executor =
  ex_platform :: "'w platform"
  ex_get_flow :: "string \<Rightarrow> string option \<Rightarrow> exn + any_flow"
  ex_tools :: "'w tools"
  ex_middleware :: "('w \<Rightarrow> event \<Rightarrow> 'w \<times> exn option) list"
  ex_step_cache :: "'c cache_ops option"
  ex_checkpointer :: "('k, snapshot) checkpoint_ops option"
  ex_delete_on_success :: bool
  ex_decision :: "('w \<Rightarrow> call_ctx \<Rightarrow> string list \<Rightarrow> 'w \<times> nat \<times> (exn + string)) option"
  ex_decision_policy :: "decision_policy option"
  ex_approval :: "('w \<Rightarrow> call_ctx \<Rightarrow> safety_contract \<Rightarrow> 'w \<times> (exn + approval_answer)) option"
  ex_strict_safety :: bool
  ex_max_side_effect :: "side_effect option"
  ex_guardrail :: "('w \<Rightarrow> call_ctx \<Rightarrow> 'w \<times> exn option) option"
  ex_redact :: "(val dict \<Rightarrow> val dict) option"
  ex_recorder :: bool
  ex_cost_profile :: "cost_profile option"
  ex_max_depth :: nat
  ex_capability :: "('w \<Rightarrow> string \<Rightarrow> string \<Rightarrow> int \<Rightarrow> dag_step \<Rightarrow> val dict \<Rightarrow> 'w \<times> (exn + step_data)) option"
  ex_retrying :: "('w, 'c, 'k) retryer"

text \<open>
  \<open>ex_capability\<close> is the override of \<open>_execute_capability_step\<close> in a subclass; the base class has
  none.
\<close>

text \<open>Deadline and cancellation token, passed down to sub-flows; the token is read from the world,
  which another thread may have changed.\<close>

record 'w run_opts =
  ro_deadline :: "int option"
  ro_cancelled :: "('w \<Rightarrow> bool) option"

definition no_opts :: "'w run_opts" where
  "no_opts = \<lparr>ro_deadline = None, ro_cancelled = None\<rparr>"

section \<open>Primitive operations\<close>

text \<open>\<open>_fire_hook\<close>: every middleware in order; what one raises is swallowed.\<close>

definition fire :: "('w, 'c, 'k) executor \<Rightarrow> event \<Rightarrow> ('w, 'c, 'k) xstate \<Rightarrow> ('w, 'c, 'k) xstate" where
  "fire ex ev st =
     st\<lparr>x_world := fold (\<lambda>mw w. fst (mw w ev)) (ex_middleware ex) (x_world st),
        x_events := x_events st @ [ev]\<rparr>"

definition log_call :: "'w call \<Rightarrow> ('w, 'c, 'k) xstate \<Rightarrow> ('w, 'c, 'k) xstate" where
  "log_call c st = st\<lparr>x_calls := x_calls st @ [c]\<rparr>"

definition new_trace_id ::
  "('w, 'c, 'k) executor \<Rightarrow> ('w, 'c, 'k) xstate \<Rightarrow> ('w, 'c, 'k) xstate \<times> string" where
  "new_trace_id ex st =
     (st\<lparr>x_next_trace := x_next_trace st + 1\<rparr>, pl_trace_id (ex_platform ex) (x_next_trace st))"

text \<open>\<open>_run_scope\<close>: a copy of the enclosing state for the run, which is restored afterwards.\<close>

definition run_scope ::
  "(('w, 'c, 'k) xstate \<Rightarrow> ('w, 'c, 'k) xstate \<times> 'r) \<Rightarrow> ('w, 'c, 'k) xstate \<Rightarrow>
     ('w, 'c, 'k) xstate \<times> 'r" where
  "run_scope body st =
     (case body (st\<lparr>x_local := copy_local (x_local st)\<rparr>) of
        (st', r) \<Rightarrow> (st'\<lparr>x_local := x_local st\<rparr>, r))"

end
