(* ===== verification/StepExec.thy ===== *)
theory StepExec
  imports ExecTypes Pointer
begin

text \<open>
  One step of a flow: \<open>FlowExecutor._execute_step\<close> and the methods it calls, in the order in which
  the code calls them.  An operation that ends the step early gives the finished record
  (\<open>Inl\<close>), one that lets it go on the values the rest needs (\<open>Inr\<close>); the exceptions the
  code does not catch are the \<open>raised\<close> of the outer sum.  The recursive call of a composed
  sub-flow is the argument \<open>rec\<close>.
\<close>

section \<open>Steps in their surroundings\<close>

record step_env =
  se_trace :: string
  se_flow :: string
  se_index :: int
  se_step_id :: "string option"

datatype outcome = Succeeded "val dict" | Failed exn | Skipped "exn option"

text \<open>\<open>_record\<close> as far as the outcome goes.\<close>

fun with_outcome :: "outcome \<Rightarrow> step_data \<Rightarrow> step_data" where
  "with_outcome (Succeeded out) d = d\<lparr>sd_outputs := Some out, sd_error := None, sd_success := True, sd_skipped := False\<rparr>"
| "with_outcome (Failed e) d = d\<lparr>sd_outputs := None, sd_error := Some e, sd_success := False, sd_skipped := False\<rparr>"
| "with_outcome (Skipped e) d = d\<lparr>sd_outputs := Some [], sd_error := e, sd_success := True, sd_skipped := True\<rparr>"

definition finish ::
  "('w, 'c, 'k) executor \<Rightarrow> step_env \<Rightarrow> step_record \<Rightarrow> ('w, 'c, 'k) xstate \<Rightarrow>
     ('w, 'c, 'k) xstate \<times> (raised + step_record)" where
  "finish ex env r st = (fire ex (StepEnd (se_trace env) (se_flow env) r) st, Inr r)"

section \<open>Inputs and contracts\<close>

definition resolve_source :: "string \<Rightarrow> int \<Rightarrow> val dict \<Rightarrow> val \<Rightarrow> exn + val" where
  "resolve_source label idx ctx source =
     (case source of
        VStr s \<Rightarrow>
          (if is_pointer s then
             (case resolve_pointer (VDict ctx) s of
                Inl (failed_at, _) \<Rightarrow> Inl (InputMappingError label idx failed_at) | Inr v \<Rightarrow> Inr v)
           else
             (case dict_get ctx s of None \<Rightarrow> Inl (InputMappingError label idx s) | Some v \<Rightarrow> Inr v))
      | _ \<Rightarrow> Inr source)"

definition resolve_inputs :: "'a flow_step_scheme \<Rightarrow> int \<Rightarrow> val dict \<Rightarrow> exn + val dict" where
  "resolve_inputs step idx ctx =
     (if s_input_mapping step = [] then Inr ctx
      else bind_err (display_name step) (\<lambda>label.
             map_err (\<lambda>(k, source). bind_err (resolve_source label idx ctx source) (\<lambda>v. Inr (k, v)))
               (s_input_mapping step)))"

text \<open>
  \<open>_check_step_contract\<close> of an optional reference: \<open>Inr (Some e)\<close> is a violation; an unresolvable
  reference and an exception other than \<open>ValidationError\<close> are not caught.
\<close>

definition check_step_contract ::
  "'w platform \<Rightarrow> string option \<Rightarrow> string \<Rightarrow> int \<Rightarrow> string \<Rightarrow> val dict \<Rightarrow> exn + exn option" where
  "check_step_contract pl ref name idx label payload =
     (case ref of
        None \<Rightarrow> Inr None
      | Some r \<Rightarrow>
          bind_err (resolve_schema pl r) (\<lambda>s.
            case sch_validate s (VDict payload) of
              Inr _ \<Rightarrow> Inr None
            | Inl (ValidationError _) \<Rightarrow> Inr (Some (SchemaValidationError name idx label))
            | Inl e \<Rightarrow> Inl e))"

text \<open>The part of a step before its first callback: tool, inputs, input contract.\<close>

definition prepare_step ::
  "('w, 'c, 'k) executor \<Rightarrow> step_env \<Rightarrow> step_data \<Rightarrow> flow_step \<Rightarrow> string \<Rightarrow> val dict \<Rightarrow>
     raised + (step_data + 'w tool \<times> val dict)" where
  "prepare_step ex env d step name ctx =
     (case get_tool (ex_tools ex) name of
        Inl e \<Rightarrow> Inr (Inl (with_outcome (Failed e) d))
      | Inr tool \<Rightarrow>
          (case resolve_inputs step (se_index env) ctx of
             Inl (InputMappingError t i k) \<Rightarrow>
               Inr (Inl (with_outcome (Failed (InputMappingError t i k)) d))
           | Inl e \<Rightarrow> Inl (RExn e)
           | Inr inputs \<Rightarrow>
               (case check_step_contract (ex_platform ex) (s_input_contract step) name (se_index env)
                       ''step_input_contract'' inputs of
                  Inl e \<Rightarrow> Inl (RExn e)
                | Inr (Some e) \<Rightarrow> Inr (Inl (with_outcome (Failed e) (d\<lparr>sd_inputs := inputs\<rparr>)))
                | Inr None \<Rightarrow> Inr (Inr (tool, inputs)))))"

section \<open>Decisions\<close>

datatype decision_outcome = Chose string | DecisionRaised exn | DecisionTimedOut nat

datatype decided = Resolved flow_step "decision_record option" | DecisionFailed step_record

definition call_decision ::
  "('w, 'c, 'k) executor \<Rightarrow> ('w \<Rightarrow> call_ctx \<Rightarrow> string list \<Rightarrow> 'w \<times> nat \<times> (exn + string)) \<Rightarrow> call_ctx \<Rightarrow>
     string list \<Rightarrow> ('w, 'c, 'k) xstate \<Rightarrow> ('w, 'c, 'k) xstate \<times> decision_outcome" where
  "call_decision ex decide cc cands st =
     (case decide (x_world st) cc cands of
        (w, duration, answer) \<Rightarrow>
          (log_call (AskedDecision (cc_trace_id cc) (cc_step_index cc)) (st\<lparr>x_world := w\<rparr>),
           (case ex_decision_policy ex of
              Some p \<Rightarrow>
                (case dp_timeout p of
                   Some limit \<Rightarrow>
                     (if duration > limit then DecisionTimedOut limit
                      else case_sum DecisionRaised Chose answer)
                 | None \<Rightarrow> case_sum DecisionRaised Chose answer)
            | None \<Rightarrow> case_sum DecisionRaised Chose answer)))"

definition over_budget :: "decision_policy option \<Rightarrow> nat \<Rightarrow> nat option" where
  "over_budget policy count =
     (case policy of
        None \<Rightarrow> None
      | Some p \<Rightarrow>
          (case dp_max_decisions p of
             None \<Rightarrow> None | Some limit \<Rightarrow> if count > limit then Some limit else None))"

definition decision_failed ::
  "('w, 'c, 'k) executor \<Rightarrow> step_env \<Rightarrow> string \<Rightarrow> exn \<Rightarrow> ('w, 'c, 'k) xstate \<Rightarrow>
     ('w, 'c, 'k) xstate \<times> (raised + decided)" where
  "decision_failed ex env name e st =
     bind_st (finish ex env (StepRecord (with_outcome (Failed e) (blank_step (se_index env) name)) None) st)
       (\<lambda>st r. (st, Inr (DecisionFailed r)))"

definition resolve_decision ::
  "('w, 'c, 'k) executor \<Rightarrow> step_env \<Rightarrow> flow_step \<Rightarrow> val dict \<Rightarrow> ('w, 'c, 'k) xstate \<Rightarrow>
     ('w, 'c, 'k) xstate \<times> (raised + decided)" where
  "resolve_decision ex env step ctx st =
     (case (s_decision_candidates step, ex_decision ex) of
        (Some cands, Some decide) \<Rightarrow>
          (case display_name step of
             Inl e \<Rightarrow> (st, Inl (RExn e))
           | Inr dflt \<Rightarrow>
               (let count = l_decision_count (x_local st) + 1;
                    st = st\<lparr>x_local := x_local st\<lparr>l_decision_count := count\<rparr>\<rparr>
                in case over_budget (ex_decision_policy ex) count of
                     Some limit \<Rightarrow> (st, Inl (RExn (DecisionBudgetExceededError (se_flow env) limit)))
                   | None \<Rightarrow>
                       (let cc = \<lparr>cc_trace_id = se_trace env, cc_flow_name = se_flow env,
                                  cc_step_index = se_index env, cc_step_id = se_step_id env,
                                  cc_tool_name = dflt, cc_inputs = ctx\<rparr>;
                            rec = (\<lambda>chosen late. \<lparr>dr_candidates = cands, dr_chosen = chosen,
                                                  dr_default = dflt, dr_timed_out = late\<rparr>)
                        in case call_decision ex decide cc cands st of
                             (st, DecisionRaised e) \<Rightarrow>
                               decision_failed ex env dflt (DecisionCallbackError dflt (se_index env)) st
                           | (st, DecisionTimedOut limit) \<Rightarrow>
                               (if (case ex_decision_policy ex of None \<Rightarrow> False | Some p \<Rightarrow> dp_on_timeout_error p)
                                then decision_failed ex env dflt (DecisionTimeoutError dflt (se_index env) limit) st
                                else (st, Inr (Resolved step (Some (rec dflt True)))))
                           | (st, Chose chosen) \<Rightarrow>
                               (if chosen \<notin> set cands
                                then decision_failed ex env dflt (DecisionCallbackError dflt (se_index env)) st
                                else (st, Inr (Resolved
                                       (if chosen = dflt then step else step\<lparr>s_tool_name := Some chosen\<rparr>)
                                       (Some (rec chosen False))))))))
      | _ \<Rightarrow> (st, Inr (Resolved step None)))"

section \<open>Gates\<close>

definition call_ctx_of ::
  "('w, 'c, 'k) executor \<Rightarrow> step_env \<Rightarrow> 'w tool \<Rightarrow> val dict \<Rightarrow> call_ctx" where
  "call_ctx_of ex env tool inputs =
     \<lparr>cc_trace_id = se_trace env, cc_flow_name = se_flow env, cc_step_index = se_index env,
      cc_step_id = se_step_id env, cc_tool_name = t_name tool,
      cc_inputs = (case ex_redact ex of None \<Rightarrow> inputs | Some redact \<Rightarrow> redact inputs)\<rparr>"

text \<open>\<open>_evaluate_safety_gate\<close>: the ceiling, then the approval.\<close>

definition safety_gate ::
  "('w, 'c, 'k) executor \<Rightarrow> step_env \<Rightarrow> 'w tool \<Rightarrow> val dict \<Rightarrow> ('w, 'c, 'k) xstate \<Rightarrow>
     ('w, 'c, 'k) xstate \<times> exn option \<times> approval_record option" where
  "safety_gate ex env tool inputs st =
     (let idx = se_index env; denied = ApprovalDeniedError (t_name tool) idx
      in if (case ex_max_side_effect ex of None \<Rightarrow> False
             | Some cap \<Rightarrow> side_effect_exceeds (side_effects (t_safety tool)) cap)
         then (st, Some (SafetyCeilingError (t_name tool) idx (side_effect_value (side_effects (t_safety tool)))
                 (side_effect_value (the (ex_max_side_effect ex)))), None)
         else if \<not> requires_approval (t_safety tool) then (st, None, None)
         else case ex_approval ex of
                None \<Rightarrow>
                  (if ex_strict_safety ex
                   then (st, Some denied, Some (Denied ''no approval_callback registered (strict_safety=True)''))
                   else (st, None, None))
              | Some approve \<Rightarrow>
                  (case approve (x_world st) (call_ctx_of ex env tool inputs) (t_safety tool) of
                     (w, answer) \<Rightarrow>
                       (let st = log_call (AskedApproval (se_trace env) idx (t_name tool) inputs
                                             (answer = Inr Approve)) (st\<lparr>x_world := w\<rparr>)
                        in case answer of
                             Inl e \<Rightarrow> (st, Some denied, Some (Denied ''approval callback raised''))
                           | Inr Approve \<Rightarrow> (st, None, Some Approved)
                           | Inr Deny \<Rightarrow> (st, Some denied, Some (Denied ''approval callback returned DENY''))
                           | Inr (NoDecision _) \<Rightarrow>
                               (st, Some denied, Some (Denied ''not an ApprovalDecision'')))))"

definition input_guardrail ::
  "('w, 'c, 'k) executor \<Rightarrow> step_env \<Rightarrow> 'w tool \<Rightarrow> val dict \<Rightarrow> ('w, 'c, 'k) xstate \<Rightarrow>
     ('w, 'c, 'k) xstate \<times> exn option" where
  "input_guardrail ex env tool inputs st =
     (case ex_guardrail ex of
        None \<Rightarrow> (st, None)
      | Some check \<Rightarrow>
          (case check (x_world st) (call_ctx_of ex env tool inputs) of
             (w, verdict) \<Rightarrow>
               (log_call (AskedGuardrail (se_trace env) (se_index env) (t_name tool) (verdict = None))
                  (st\<lparr>x_world := w\<rparr>),
                map_option (\<lambda>_. GuardrailViolationError (t_name tool) (se_index env) ''input'') verdict)))"

section \<open>Tool calls\<close>

definition wrap_tool_exception :: "string \<Rightarrow> int \<Rightarrow> exn \<Rightarrow> exn" where
  "wrap_tool_exception tool idx e =
     (case e of
        ValidationError _ \<Rightarrow> SchemaValidationError tool idx ''tool''
      | ToolTimeoutError _ _ \<Rightarrow> e
      | ToolOutputSizeError _ _ _ \<Rightarrow> e
      | _ \<Rightarrow> FlowExecutionError tool idx (StrOf e))"

definition run_logged ::
  "('w, 'c, 'k) executor \<Rightarrow> step_env \<Rightarrow> 'w tool \<Rightarrow> val dict \<Rightarrow> ('w, 'c, 'k) xstate \<Rightarrow>
     ('w, 'c, 'k) xstate \<times> (exn + val dict)" where
  "run_logged ex env tool inputs st =
     (case run (ex_platform ex) tool (x_world st) inputs of
        (w, r) \<Rightarrow> (log_call (RanTool (se_trace env) (se_index env) tool inputs) (st\<lparr>x_world := w\<rparr>), r))"

definition run_dry_logged ::
  "('w, 'c, 'k) executor \<Rightarrow> step_env \<Rightarrow> 'w tool \<Rightarrow> val dict \<Rightarrow> ('w, 'c, 'k) xstate \<Rightarrow>
     ('w, 'c, 'k) xstate \<times> (exn + val dict)" where
  "run_dry_logged ex env tool inputs st =
     (case run_dry (ex_platform ex) tool (x_world st) inputs of
        (w, r) \<Rightarrow> (log_call (RanDry (se_trace env) (se_index env) tool inputs) (st\<lparr>x_world := w\<rparr>), r))"

text \<open>
  \<open>_dry_run_step\<close>: no outcome means that the step is read-only and runs normally.
\<close>

definition dry_run_step ::
  "('w, 'c, 'k) executor \<Rightarrow> step_env \<Rightarrow> string \<Rightarrow> 'w tool \<Rightarrow> val dict \<Rightarrow> ('w, 'c, 'k) xstate \<Rightarrow>
     ('w, 'c, 'k) xstate \<times> outcome option" where
  "dry_run_step ex env name tool inputs st =
     (if side_effects (t_safety tool) \<in> {SE_NONE, SE_READ} then (st, None)
      else if supports_dry_run (t_safety tool) \<and> t_dry_run_fn tool \<noteq> None then
        (case run_dry_logged ex env tool inputs st of
           (st, Inl e) \<Rightarrow> (st, Some (Failed (wrap_tool_exception name (se_index env) e)))
         | (st, Inr out) \<Rightarrow> (st, Some (Succeeded out)))
      else if l_dry_run_abort (x_local st) then
        (st, Some (Failed (FlowExecutionError name (se_index env) (Msg ''dry-run abort''))))
      else (st, Some (Skipped None)))"

section \<open>Retries\<close>

definition retry_disallowed_by_contract :: "'w tool \<Rightarrow> bool" where
  "retry_disallowed_by_contract tool =
     (\<not> safe_to_retry (t_safety tool) \<or> (\<not> idempotent (t_safety tool) \<and> \<not> read_only (t_safety tool)))"

text \<open>One counted call; \<open>note\<close> makes the entry of \<open>retry_errors\<close>.\<close>

definition attempt ::
  "('w, 'c, 'k) executor \<Rightarrow> step_env \<Rightarrow> 'w tool \<Rightarrow> val dict \<Rightarrow> (exn \<Rightarrow> retry_error) \<Rightarrow>
     ('w, 'c, 'k) attempt_state \<Rightarrow> ('w, 'c, 'k) attempt_state \<times> (exn + val dict)" where
  "attempt ex env tool inputs note a =
     (case run_logged ex env tool inputs (at_x a) of
        (st, r) \<Rightarrow>
          (let a = a\<lparr>at_x := st, at_count := at_count a + 1\<rparr>
           in case r of
                Inl e \<Rightarrow> (a\<lparr>at_errors := at_errors a @ [note e]\<rparr>, Inl e)
              | Inr out \<Rightarrow> (a, Inr out)))"

text \<open>\<open>_wait_fn\<close>, or \<open>wait_fixed(0)\<close> without retries.\<close>

definition delay_before ::
  "('w, 'c, 'k) executor \<Rightarrow> retry_policy \<Rightarrow> nat \<Rightarrow> ('w, 'c, 'k) attempt_state \<Rightarrow>
     ('w, 'c, 'k) attempt_state \<times> rat" where
  "delay_before ex p n a =
     (if max_retries p = 0 then (a, 0)
      else if jitter p then
        (case pl_random (ex_platform ex) (x_world (at_x a)) of
           (w, u) \<Rightarrow> (a\<lparr>at_x := at_x a\<lparr>x_world := w\<rparr>\<rparr>, compute_delay u p (int n)))
      else (a, compute_delay 0 p (int n)))"

definition invoke_tool ::
  "('w, 'c, 'k) executor \<Rightarrow> step_env \<Rightarrow> 'w tool \<Rightarrow> val dict \<Rightarrow> retry_policy option \<Rightarrow>
     ('w, 'c, 'k) attempt_state \<Rightarrow> ('w, 'c, 'k) attempt_state \<times> (exn + val dict)" where
  "invoke_tool ex env tool inputs policy a =
     (case policy of
        None \<Rightarrow> attempt ex env tool inputs RetryErr a
      | Some p \<Rightarrow>
          (if ex_strict_safety ex \<and> retry_disallowed_by_contract tool
           then attempt ex env tool inputs RetrySuppressed a
           else
             (case resolved_retryable_errors (resolve_exception (ex_platform ex)) p of
                Inl e \<Rightarrow> (a, Inl e)
              | Inr classes \<Rightarrow>
                  ex_retrying ex (max_retries p + 1) (delay_before ex p)
                    (\<lambda>e. list_ex (pl_isinstance (ex_platform ex) e) classes)
                    (attempt ex env tool inputs RetryErr) a)))"

section \<open>The error policy\<close>

definition fallback_data :: "string \<Rightarrow> retry_error list \<Rightarrow> approval_record option \<Rightarrow> step_data \<Rightarrow> step_data" where
  "fallback_data name errs approval d =
     d\<lparr>sd_fallback_used := True, sd_fallback_tool_name := Some name, sd_retry_errors := errs,
       sd_approval := (case approval of None \<Rightarrow> sd_approval d | Some a \<Rightarrow> Some a)\<rparr>"

text \<open>
  \<open>_apply_on_error\<close>; \<open>d\<close> is the record so far (inputs, attempts, retry errors, approval),
  \<open>e\<close> the wrapped error of the primary tool.
\<close>

definition apply_on_error ::
  "('w, 'c, 'k) executor \<Rightarrow> step_env \<Rightarrow> flow_step \<Rightarrow> string \<Rightarrow> val dict \<Rightarrow> exn \<Rightarrow> step_data \<Rightarrow>
     ('w, 'c, 'k) xstate \<Rightarrow> ('w, 'c, 'k) xstate \<times> step_data" where
  "apply_on_error ex env step name inputs e d st =
     (if s_on_error step = ''fail'' then (st, with_outcome (Failed e) d)
      else if s_on_error step = ''skip'' then (st, with_outcome (Skipped (Some e)) d)
      else
        (let fb = drop (length ''fallback:'') (s_on_error step);
             errs = sd_retry_errors d @ [RetryErr e]
         in case get_tool (ex_tools ex) fb of
              Inl missing \<Rightarrow> (st, with_outcome (Failed missing) (fallback_data fb errs None d))
            | Inr tool \<Rightarrow>
                (case safety_gate ex env tool inputs st of
                   (st, gate, approval) \<Rightarrow>
                     (let d = fallback_data fb errs approval d;
                          run_it = (\<lambda>st. case run_logged ex env tool inputs st of
                                     (st, Inl err) \<Rightarrow>
                                       (st, with_outcome (Failed (wrap_tool_exception fb (se_index env) err)) d)
                                   | (st, Inr out) \<Rightarrow> (st, with_outcome (Succeeded out) d))
                      in case gate of
                           Some err \<Rightarrow> (st, with_outcome (Failed err) d)
                         | None \<Rightarrow>
                             (if l_dry_run (x_local st) then
                                (case dry_run_step ex env name tool inputs st of
                                   (st, Some oc) \<Rightarrow> (st, with_outcome oc d)
                                 | (st, None) \<Rightarrow> run_it st)
                              else run_it st)))))"

section \<open>The cache\<close>

text \<open>
  The lookup: the finished record of a hit, or the key under which the outputs are to be stored
  (\<open>None\<close> when the call is not cached).
\<close>

definition cache_key_for ::
  "('w, 'c, 'k) executor \<Rightarrow> 'w tool \<Rightarrow> val dict \<Rightarrow> local_state \<Rightarrow> exn + cache_key option" where
  "cache_key_for ex tool inputs l =
     (if ex_step_cache ex = None \<or> \<not> t_cacheable tool \<or> l_in_replay l \<or> l_dry_run l then Inr None
      else case sch_validate (t_input_schema tool) (VDict inputs) of
             Inl (ValidationError _) \<Rightarrow> Inr None
           | Inl e \<Rightarrow> Inl e
           | Inr validated \<Rightarrow>
               Inr (Some \<lparr>ck_tool_name = t_name tool, ck_schema_hash = schema_hash (ex_platform ex) tool,
                          ck_input_value_hash = pl_input_hash (ex_platform ex) validated\<rparr>))"

definition cache_get ::
  "('w, 'c, 'k) executor \<Rightarrow> cache_key option \<Rightarrow> ('w, 'c, 'k) xstate \<Rightarrow> val dict option" where
  "cache_get ex key st =
     (case (ex_step_cache ex, key) of
        (Some ops, Some k) \<Rightarrow> op_cache_get ops (x_cache st) k | _ \<Rightarrow> None)"

definition cache_put ::
  "('w, 'c, 'k) executor \<Rightarrow> cache_key option \<Rightarrow> val dict \<Rightarrow> ('w, 'c, 'k) xstate \<Rightarrow> ('w, 'c, 'k) xstate" where
  "cache_put ex key out st =
     (case (ex_step_cache ex, key) of
        (Some ops, Some k) \<Rightarrow> st\<lparr>x_cache := op_cache_set ops (x_cache st) k out\<rparr> | _ \<Rightarrow> st)"

section \<open>A tool step\<close>

text \<open>The outputs against the step's output contract; \<open>d\<close> is the record with everything else.\<close>

definition check_outputs ::
  "('w, 'c, 'k) executor \<Rightarrow> step_env \<Rightarrow> flow_step \<Rightarrow> string \<Rightarrow> val dict \<Rightarrow> step_data \<Rightarrow> raised + step_data" where
  "check_outputs ex env step name out d =
     (case check_step_contract (ex_platform ex) (s_output_contract step) name (se_index env)
             ''step_output_contract'' out of
        Inl e \<Rightarrow> Inl (RExn e)
      | Inr (Some e) \<Rightarrow> Inr (with_outcome (Failed e) d)
      | Inr None \<Rightarrow> Inr (with_outcome (Succeeded out) d))"

text \<open>The primary call with its retries, the error policy, the output contract, the cache write.\<close>

definition call_tool ::
  "('w, 'c, 'k) executor \<Rightarrow> step_env \<Rightarrow> flow_step \<Rightarrow> string \<Rightarrow> 'w tool \<Rightarrow> val dict \<Rightarrow> cache_key option \<Rightarrow>
     step_data \<Rightarrow> ('w, 'c, 'k) xstate \<Rightarrow> ('w, 'c, 'k) xstate \<times> (raised + step_data)" where
  "call_tool ex env step name tool inputs key d st =
     (case invoke_tool ex env tool inputs (s_retry step) \<lparr>at_x = st, at_count = 0, at_errors = []\<rparr> of
        (a, r) \<Rightarrow>
          (let st = at_x a; d = d\<lparr>sd_retry_count := at_count a - 1, sd_retry_errors := at_errors a\<rparr>
           in case r of
                Inl e \<Rightarrow>
                  (case apply_on_error ex env step name inputs (wrap_tool_exception name (se_index env) e) d st of
                     (st, d) \<Rightarrow> (st, Inr d))
              | Inr out \<Rightarrow>
                  (case check_outputs ex env step name out d of
                     Inl e \<Rightarrow> (st, Inl e)
                   | Inr d \<Rightarrow> ((if sd_success d then cache_put ex key out st else st), Inr d))))"

text \<open>The gates, the dry run and the cache lookup in front of the call.\<close>

definition gated_call ::
  "('w, 'c, 'k) executor \<Rightarrow> step_env \<Rightarrow> flow_step \<Rightarrow> string \<Rightarrow> 'w tool \<Rightarrow> val dict \<Rightarrow> step_data \<Rightarrow>
     ('w, 'c, 'k) xstate \<Rightarrow> ('w, 'c, 'k) xstate \<times> (raised + step_data)" where
  "gated_call ex env step name tool inputs d st =
     (case safety_gate ex env tool inputs st of
        (st, Some e, approval) \<Rightarrow> (st, Inr (with_outcome (Failed e) (d\<lparr>sd_approval := approval\<rparr>)))
      | (st, None, approval) \<Rightarrow>
          (let d = d\<lparr>sd_approval := approval\<rparr>
           in case input_guardrail ex env tool inputs st of
                (st, Some e) \<Rightarrow> (st, Inr (with_outcome (Failed e) d))
              | (st, None) \<Rightarrow>
                  (case (if l_dry_run (x_local st) then dry_run_step ex env name tool inputs st else (st, None)) of
                     (st, Some oc) \<Rightarrow> (st, Inr (with_outcome oc d))
                   | (st, None) \<Rightarrow>
                       (case cache_key_for ex tool inputs (x_local st) of
                          Inl e \<Rightarrow> (st, Inl (RExn e))
                        | Inr key \<Rightarrow>
                            (case cache_get ex key st of
                               Some out \<Rightarrow>
                                 (st, case check_outputs ex env step name out d of
                                        Inl e \<Rightarrow> Inl e
                                      | Inr d \<Rightarrow> Inr (d\<lparr>sd_cached := sd_success d\<rparr>))
                             | None \<Rightarrow> call_tool ex env step name tool inputs key d st)))))"

definition execute_tool_step ::
  "('w, 'c, 'k) executor \<Rightarrow> step_env \<Rightarrow> flow_step \<Rightarrow> string \<Rightarrow> decision_record option \<Rightarrow> val dict \<Rightarrow>
     ('w, 'c, 'k) xstate \<Rightarrow> ('w, 'c, 'k) xstate \<times> (raised + step_record)" where
  "execute_tool_step ex env step name decision ctx st =
     (let d = (blank_step (se_index env) name)\<lparr>sd_decision := decision\<rparr>
      in case prepare_step ex env d step name ctx of
           Inl e \<Rightarrow> (st, Inl e)
         | Inr (Inl d) \<Rightarrow> finish ex env (StepRecord d None) st
         | Inr (Inr (tool, inputs)) \<Rightarrow>
             bind_st (gated_call ex env step name tool inputs (d\<lparr>sd_inputs := inputs\<rparr>)
                 (fire ex (StepStart (se_trace env) (se_flow env) (se_index env) name inputs) st)) (\<lambda>st d.
               finish ex env (StepRecord d None) st))"

section \<open>A composed step\<close>

type_synonym ('w, 'c, 'k) run_flow =
  "string \<Rightarrow> val dict \<Rightarrow> 'w run_opts \<Rightarrow> ('w, 'c, 'k) xstate \<Rightarrow> ('w, 'c, 'k) xstate \<times> (raised + execution_result)"

definition set_version :: "string \<Rightarrow> ('w, 'c, 'k) xstate \<Rightarrow> ('w, 'c, 'k) xstate" where
  "set_version v st = st\<lparr>x_local := x_local st\<lparr>l_version := v\<rparr>\<rparr>"

definition subflow_record :: "step_env \<Rightarrow> string \<Rightarrow> val dict \<Rightarrow> execution_result \<Rightarrow> step_record" where
  "subflow_record env sub inputs r =
     StepRecord ((blank_step (se_index env) sub)
         \<lparr>sd_flow_name := Some sub, sd_inputs := inputs,
          sd_outputs := (if er_success r then rd_final_output (er_data r) else None),
          sd_error := (if er_success r then None
                       else Some (FlowExecutionError sub (se_index env) (Msg ''Sub-flow failed.''))),
          sd_success := er_success r\<rparr>)
       (Some r)"

definition execute_subflow_step ::
  "('w, 'c, 'k) executor \<Rightarrow> ('w, 'c, 'k) run_flow \<Rightarrow> step_env \<Rightarrow> flow_step \<Rightarrow> string \<Rightarrow> val dict \<Rightarrow> 'w run_opts \<Rightarrow>
     ('w, 'c, 'k) xstate \<Rightarrow> ('w, 'c, 'k) xstate \<times> (raised + step_record)" where
  "execute_subflow_step ex rec env step sub ctx opts st =
     (case resolve_inputs step (se_index env) ctx of
        Inl (InputMappingError t i k) \<Rightarrow>
          (st, Inr (StepRecord (with_outcome (Failed (InputMappingError t i k))
                      ((blank_step (se_index env) sub)\<lparr>sd_flow_name := Some sub\<rparr>)) None))
      | Inl e \<Rightarrow> (st, Inl (RExn e))
      | Inr inputs \<Rightarrow>
          (case rec sub inputs opts
                  (fire ex (StepStart (se_trace env) (se_flow env) (se_index env) sub inputs) st) of
             (st', r) \<Rightarrow>
               bind_st (set_version (l_version (x_local st)) st', r) (\<lambda>st r.
                 finish ex env (subflow_record env sub inputs r) st)))"

text \<open>\<open>_execute_step\<close>.\<close>

definition execute_step ::
  "('w, 'c, 'k) executor \<Rightarrow> ('w, 'c, 'k) run_flow \<Rightarrow> step_env \<Rightarrow> flow_step \<Rightarrow> val dict \<Rightarrow> 'w run_opts \<Rightarrow>
     ('w, 'c, 'k) xstate \<Rightarrow> ('w, 'c, 'k) xstate \<times> (raised + step_record)" where
  "execute_step ex rec env step ctx opts st =
     (case s_flow_name step of
        Some sub \<Rightarrow> execute_subflow_step ex rec env step sub ctx opts st
      | None \<Rightarrow>
          bind_st (resolve_decision ex env step ctx st) (\<lambda>st d.
            case d of
              DecisionFailed r \<Rightarrow> (st, Inr r)
            | Resolved step decision \<Rightarrow>
                (case display_name step of
                   Inl e \<Rightarrow> (st, Inl (RExn e))
                 | Inr name \<Rightarrow> execute_tool_step ex env step name decision ctx st)))"

end
