(* ===== verification/FlowExec.thy ===== *)
theory FlowExec
  imports StepExec
begin

text \<open>
  Whole flows: the result and its bookkeeping (\<open>_make_result\<close>), cancellation at step boundaries,
  snapshots, flow-level schemas, the composition check, the linear lane and the DAG lane of the
  executor, and the entry point \<open>execute_flow\<close>.  Sub-flows recurse through the argument
  \<open>rec\<close>, which \<open>run_flow\<close> closes with a nesting bound.
\<close>

section \<open>Results\<close>

text \<open>\<open>_count_composed_tool_steps\<close>.\<close>

primrec count_record :: "step_record \<Rightarrow> nat" and count_result :: "execution_result \<Rightarrow> nat" where
  "count_record (StepRecord d sub) = (case map_option count_result sub of None \<Rightarrow> 1 | Some n \<Rightarrow> n)"
| "count_result (ExecutionResult d recs) = sum_list (map count_record recs)"

definition composition_adjustment :: "step_record list \<Rightarrow> int" where
  "composition_adjustment recs =
     sum_list (map (\<lambda>r. case sr_sub_result r of None \<Rightarrow> 0 | Some s \<Rightarrow> int (count_result s) - 1) recs)"

text \<open>\<open>_record_observed_trace\<close>.\<close>

definition observe :: "execution_result \<Rightarrow> observed" where
  "observe r =
     (''executor:'' @ rd_flow_name (er_data r),
      map (\<lambda>s. (sd_tool_name (sr_data s), sd_inputs (sr_data s), sd_outputs (sr_data s))) (er_log r))"

definition build_result ::
  "('w, 'c, 'k) executor \<Rightarrow> local_state \<Rightarrow> string \<Rightarrow> string \<Rightarrow> val dict \<Rightarrow> bool \<Rightarrow> val dict option \<Rightarrow>
     step_record list \<Rightarrow> nat option \<Rightarrow> execution_result" where
  "build_result ex l flow_name trace input success output recs tools =
     ExecutionResult
       \<lparr>rd_flow_name = flow_name, rd_flow_version = l_version l, rd_success = success,
        rd_final_output = output, rd_trace_id = trace,
        rd_cost_report = map_option (compute_cost_report
           (int (default_arg tools (length recs)) + composition_adjustment recs)) (ex_cost_profile ex),
        rd_initial_input = input, rd_dry_run = l_dry_run l\<rparr>
       recs"

text \<open>\<open>_make_result\<close>: the observed trace, the snapshot of a successful run deleted, the end event.\<close>

definition make_result ::
  "('w, 'c, 'k) executor \<Rightarrow> string \<Rightarrow> string \<Rightarrow> val dict \<Rightarrow> bool \<Rightarrow> val dict option \<Rightarrow> step_record list \<Rightarrow>
     nat option \<Rightarrow> ('w, 'c, 'k) xstate \<Rightarrow> ('w, 'c, 'k) xstate \<times> (raised + execution_result)" where
  "make_result ex flow_name trace input success output recs tools st =
     (let r = build_result ex (x_local st) flow_name trace input success output recs tools;
          st = (if ex_recorder ex then st\<lparr>x_observed := x_observed st @ [observe r]\<rparr> else st);
          done = (\<lambda>st. (fire ex (FlowEnd trace flow_name r) st, Inr r))
      in case ex_checkpointer ex of
           Some ops \<Rightarrow>
             (if ex_delete_on_success ex \<and> success then
                (case op_snap_delete ops (x_snaps st) trace of
                   (k, Inl e) \<Rightarrow> (st\<lparr>x_snaps := k\<rparr>, Inl (RExn e))
                 | (k, Inr _) \<Rightarrow> done (st\<lparr>x_snaps := k\<rparr>))
              else done st)
         | None \<Rightarrow> done st)"

section \<open>Cancellation\<close>

definition check_cancellation ::
  "('w, 'c, 'k) executor \<Rightarrow> string \<Rightarrow> string \<Rightarrow> val dict \<Rightarrow> int \<Rightarrow> 'w run_opts \<Rightarrow> step_record list \<Rightarrow>
     ('w, 'c, 'k) xstate \<Rightarrow> ('w, 'c, 'k) xstate \<times> (raised + unit)" where
  "check_cancellation ex flow_name trace input idx opts recs st =
     (let late = (case ro_deadline opts of None \<Rightarrow> False | Some d \<Rightarrow> d \<le> pl_now (ex_platform ex) (x_world st));
          cancelled = (case ro_cancelled opts of None \<Rightarrow> False | Some c \<Rightarrow> c (x_world st))
      in if late \<or> cancelled then
           bind_st (make_result ex flow_name trace input False None recs (Some (length recs)) st) (\<lambda>st r.
             (st, Inl (RCancelled flow_name idx r late cancelled)))
         else (st, Inr ()))"

text \<open>\<open>_reraise_subflow_cancellation\<close>, on the result of a step.\<close>

definition reanchor_cancellation ::
  "('w, 'c, 'k) executor \<Rightarrow> string \<Rightarrow> string \<Rightarrow> val dict \<Rightarrow> flow_step \<Rightarrow> int \<Rightarrow> step_record list \<Rightarrow>
     ('w, 'c, 'k) xstate \<times> (raised + step_record) \<Rightarrow> ('w, 'c, 'k) xstate \<times> (raised + step_record)" where
  "reanchor_cancellation ex flow_name trace input step idx recs x =
     (case x of
        (st, Inl (RCancelled sub sub_idx r late cancelled)) \<Rightarrow>
          (case display_name step of
             Inl e \<Rightarrow> (st, Inl (RExn e))
           | Inr name \<Rightarrow>
               (let composed = StepRecord ((blank_step idx name)
                       \<lparr>sd_flow_name := s_flow_name step,
                        sd_error := Some (FlowCancelledError sub sub_idx late cancelled),
                        sd_success := False\<rparr>) (Some r)
                in bind_st (make_result ex flow_name trace input False None (recs @ [composed])
                       (Some (length recs + 1)) st) (\<lambda>st r.
                     (st, Inl (RCancelled flow_name idx r late cancelled)))))
      | _ \<Rightarrow> x)"

section \<open>Snapshots and schemas\<close>

definition SNAPSHOT_VERSION :: string where "SNAPSHOT_VERSION = ''1''"

fun tool_hashes ::
  "'w platform \<Rightarrow> 'w tools \<Rightarrow> flow_step list \<Rightarrow> (string \<times> string) list \<Rightarrow> exn + (string \<times> string) list"
where
  "tool_hashes pl tools [] acc = Inr acc"
| "tool_hashes pl tools (s # ss) acc =
     bind_err (display_name s) (\<lambda>name.
       tool_hashes pl tools ss
         (case dict_get tools name of None \<Rightarrow> acc | Some t \<Rightarrow> dict_set acc name (schema_hash pl t)))"

text \<open>\<open>_save_linear_snapshot\<close> and \<open>_save_dag_snapshot\<close>, which differ in the counter they set.\<close>

definition save_snapshot ::
  "('w, 'c, 'k) executor \<Rightarrow> any_flow \<Rightarrow> string \<Rightarrow> val dict \<Rightarrow> val dict \<Rightarrow> step_record list \<Rightarrow> nat \<Rightarrow> nat \<Rightarrow>
     ('w, 'c, 'k) xstate \<Rightarrow> ('w, 'c, 'k) xstate \<times> (raised + unit)" where
  "save_snapshot ex f trace input ctx recs steps levels st =
     (case ex_checkpointer ex of
        None \<Rightarrow> (st, Inr ())
      | Some ops \<Rightarrow>
          (if l_dry_run (x_local st) then (st, Inr ())
           else
             (case tool_hashes (ex_platform ex) (ex_tools ex) (af_steps f) [] of
                Inl e \<Rightarrow> (st, Inl (RExn e))
              | Inr hashes \<Rightarrow>
                  (case op_snap_save ops (x_snaps st)
                      \<lparr>sn_version = SNAPSHOT_VERSION, sn_trace_id = trace, sn_flow_name = af_name f,
                       sn_flow_version = af_version f, sn_initial_input = input, sn_context = ctx,
                       sn_log = recs, sn_completed_steps = steps, sn_completed_levels = levels,
                       sn_tool_hashes = hashes\<rparr> of
                     (k, Inl e) \<Rightarrow> (st\<lparr>x_snaps := k\<rparr>, Inl (RExn e))
                   | (k, Inr _) \<Rightarrow> (st\<lparr>x_snaps := k\<rparr>, Inr ())))))"

text \<open>\<open>_validate_flow_schema\<close> of an optional reference.\<close>

definition validate_flow_schema ::
  "'w platform \<Rightarrow> string option \<Rightarrow> string \<Rightarrow> val dict \<Rightarrow> int \<Rightarrow> string \<Rightarrow> raised + step_record option" where
  "validate_flow_schema pl ref flow_name payload idx label =
     (case ref of
        None \<Rightarrow> Inr None
      | Some r \<Rightarrow>
          (case resolve_schema pl r of
             Inl e \<Rightarrow> Inl (RExn e)
           | Inr s \<Rightarrow>
               (case sch_validate s (VDict payload) of
                  Inr _ \<Rightarrow> Inr None
                | Inl (ValidationError _) \<Rightarrow>
                    Inr (Some (StepRecord (with_outcome (Failed (SchemaValidationError flow_name idx label))
                           ((blank_step idx flow_name)\<lparr>sd_inputs := payload\<rparr>)) None))
                | Inl e \<Rightarrow> Inl (RExn e))))"

text \<open>
  The end of a run: the output schema, the context schema, the successful result.
\<close>

definition finish_flow ::
  "('w, 'c, 'k) executor \<Rightarrow> any_flow \<Rightarrow> string \<Rightarrow> string \<Rightarrow> val dict \<Rightarrow> val dict \<Rightarrow> step_record list \<Rightarrow>
     ('w, 'c, 'k) xstate \<Rightarrow> ('w, 'c, 'k) xstate \<times> (raised + execution_result)" where
  "finish_flow ex f flow_name trace input ctx recs st =
     (let n = int (length (af_steps f));
          check = (\<lambda>ref label. validate_flow_schema (ex_platform ex) ref flow_name ctx n label);
          fail = (\<lambda>r. make_result ex flow_name trace input False None (recs @ [r]) (Some (length recs)) st)
      in case check (af_output_ref f) ''flow_output'' of
           Inl e \<Rightarrow> (st, Inl e)
         | Inr (Some r) \<Rightarrow> fail r
         | Inr None \<Rightarrow>
             (case check (af_context_ref f) ''flow_context'' of
                Inl e \<Rightarrow> (st, Inl e)
              | Inr (Some r) \<Rightarrow> fail r
              | Inr None \<Rightarrow> make_result ex flow_name trace input True (Some ctx) recs None st))"

section \<open>Composition\<close>

lemma first_err_cong [fundef_cong]:
  "xs = ys \<Longrightarrow> (\<And>x. x \<in> set ys \<Longrightarrow> f x = g x) \<Longrightarrow> first_err f xs = first_err g ys"
  by (induction ys arbitrary: xs) (auto split: option.splits)

text \<open>
  \<open>visit\<close> of \<open>_validate_composition\<close>; \<open>top_flow\<close> is the name of the flow that is to run.  The depth
  test bounds the recursion.
\<close>

function visit :: "('w, 'c, 'k) executor \<Rightarrow> string \<Rightarrow> any_flow \<Rightarrow> string list \<Rightarrow> exn option" where
  "visit ex top_flow current path =
     first_err (\<lambda>step.
       case s_flow_name step of
         None \<Rightarrow> None
       | Some sub \<Rightarrow>
           (if sub \<in> set path then Some (FlowCompositionError top_flow ''cycle'')
            else if ex_max_depth ex < length path then Some (FlowCompositionError top_flow ''max_depth_exceeded'')
            else
              (case ex_get_flow ex sub None of
                 Inl (FlowNotFoundError _ _) \<Rightarrow> Some (FlowCompositionError top_flow ''unknown_flow'')
               | Inl e \<Rightarrow> Some e
               | Inr f \<Rightarrow> visit ex top_flow f (path @ [sub]))))
       (af_steps current)"
  by pat_completeness auto

termination
  by (relation "measure (\<lambda>(ex, _, _, path). ex_max_depth ex + 1 - length path)") auto

declare visit.simps [simp del]

definition validate_composition :: "('w, 'c, 'k) executor \<Rightarrow> any_flow \<Rightarrow> exn option" where
  "validate_composition ex f = visit ex (af_name f) f [af_name f]"

section \<open>The linear lane\<close>

datatype loop_end = Stopped execution_result | Completed "val dict" "step_record list"

text \<open>
  One step of a linear flow: the cancellation test, the step, the merge, the snapshot.  \<open>Inl\<close> is
  the result of a failed run, \<open>Inr\<close> the context and the log for the next step.
\<close>

definition linear_step ::
  "('w, 'c, 'k) executor \<Rightarrow> ('w, 'c, 'k) run_flow \<Rightarrow> flow \<Rightarrow> string \<Rightarrow> string \<Rightarrow> val dict \<Rightarrow> 'w run_opts \<Rightarrow>
     nat \<Rightarrow> flow_step \<Rightarrow> val dict \<Rightarrow> step_record list \<Rightarrow> ('w, 'c, 'k) xstate \<Rightarrow>
     ('w, 'c, 'k) xstate \<times> (raised + execution_result + val dict \<times> step_record list)" where
  "linear_step ex rec f name trace input opts idx step ctx recs st =
     bind_st (check_cancellation ex name trace input (int idx) opts recs st) (\<lambda>st _.
     bind_st (reanchor_cancellation ex name trace input step (int idx) recs
        (execute_step ex rec \<lparr>se_trace = trace, se_flow = name, se_index = int idx, se_step_id = None\<rparr>
           step ctx opts st)) (\<lambda>st r.
       let recs = recs @ [r] in
       if \<not> sr_success r then
         bind_st (make_result ex name trace input False None recs None st) (\<lambda>st res. (st, Inr (Inl res)))
       else
         (case (sr_outputs r, display_name step) of
            (None, _) \<Rightarrow> (st, Inl (RExn (PyRuntimeError ''succeeded but produced no outputs'')))
          | (_, Inl e) \<Rightarrow> (st, Inl (RExn e))
          | (Some out, Inr dname) \<Rightarrow>
              (case merge_step_outputs (f_on_context_collision f) name (int idx) dname
                      (s_output_mapping step) ctx out of
                 Inl e \<Rightarrow> (st, Inl (RExn e))
               | Inr ctx \<Rightarrow>
                   bind_st (save_snapshot ex (LinearFlow f) trace input ctx recs (idx + 1) 0 st) (\<lambda>st _.
                     (st, Inr (Inr (ctx, recs))))))))"

fun linear_loop ::
  "('w, 'c, 'k) executor \<Rightarrow> ('w, 'c, 'k) run_flow \<Rightarrow> flow \<Rightarrow> string \<Rightarrow> string \<Rightarrow> val dict \<Rightarrow> 'w run_opts \<Rightarrow>
     nat \<Rightarrow> flow_step list \<Rightarrow> val dict \<Rightarrow> step_record list \<Rightarrow> ('w, 'c, 'k) xstate \<Rightarrow>
     ('w, 'c, 'k) xstate \<times> (raised + loop_end)" where
  "linear_loop ex rec f name trace input opts idx [] ctx recs st = (st, Inr (Completed ctx recs))"
| "linear_loop ex rec f name trace input opts idx (step # steps) ctx recs st =
     bind_st (linear_step ex rec f name trace input opts idx step ctx recs st) (\<lambda>st x.
       case x of
         Inl res \<Rightarrow> (st, Inr (Stopped res))
       | Inr (ctx, recs) \<Rightarrow> linear_loop ex rec f name trace input opts (idx + 1) steps ctx recs st)"

text \<open>The linear part of \<open>_execute_flow_impl\<close>.\<close>

definition seed_context :: "local_state \<Rightarrow> val dict \<Rightarrow> val dict" where
  "seed_context l input = dict_update (dict_update [] input) (l_dynamic_params l)"

definition check_input ::
  "('w, 'c, 'k) executor \<Rightarrow> any_flow \<Rightarrow> string \<Rightarrow> string \<Rightarrow> val dict \<Rightarrow> ('w, 'c, 'k) xstate \<Rightarrow>
     ('w, 'c, 'k) xstate \<times> (raised + execution_result option)" where
  "check_input ex f name trace input st =
     (case validate_flow_schema (ex_platform ex) (af_input_ref f) name input (- 1) ''flow_input'' of
        Inl e \<Rightarrow> (st, Inl e)
      | Inr None \<Rightarrow> (st, Inr None)
      | Inr (Some r) \<Rightarrow>
          bind_st (make_result ex name trace input False None [r] (Some 0) st) (\<lambda>st res.
            (st, Inr (Some res))))"

definition execute_linear ::
  "('w, 'c, 'k) executor \<Rightarrow> ('w, 'c, 'k) run_flow \<Rightarrow> flow \<Rightarrow> string \<Rightarrow> val dict \<Rightarrow> 'w run_opts \<Rightarrow>
     ('w, 'c, 'k) xstate \<Rightarrow> ('w, 'c, 'k) xstate \<times> (raised + execution_result)" where
  "execute_linear ex rec f name input opts st =
     (case new_trace_id ex st of
        (st, trace) \<Rightarrow>
          bind_st (check_input ex (LinearFlow f) name trace input
              (fire ex (FlowStart trace name (f_version f) input (length (f_steps f))) st)) (\<lambda>st rejected.
            case rejected of
              Some res \<Rightarrow> (st, Inr res)
            | None \<Rightarrow>
                bind_st (linear_loop ex rec f name trace input opts 0 (f_steps f)
                    (seed_context (x_local st) input) [] st) (\<lambda>st e.
                  case e of
                    Stopped res \<Rightarrow> (st, Inr res)
                  | Completed ctx recs \<Rightarrow> finish_flow ex (LinearFlow f) name trace input ctx recs st)))"

section \<open>The DAG lane\<close>

record level_state =
  lv_outputs :: "val dict"
  lv_records :: "step_record list"
  lv_skipped :: "string list"
  lv_index :: nat

datatype level_end = LevelStopped execution_result | LevelDone level_state

text \<open>\<open>_select_branch\<close>: \<open>Inl\<close> is the \<open>PredicateSyntaxError\<close> that is handed back.\<close>

fun first_edge ::
  "(string \<Rightarrow> string + pexpr) \<Rightarrow> conditional_edge list \<Rightarrow> val dict \<Rightarrow> exn + string option" where
  "first_edge parse [] ctx = Inr None"
| "first_edge parse (e # es) ctx =
     bind_err (evaluate_predicate parse (predicate e) ctx) (\<lambda>b.
       if b then Inr (Some (target_step_id e)) else first_edge parse es ctx)"

definition select_branch ::
  "'w platform \<Rightarrow> dag_step \<Rightarrow> val dict \<Rightarrow> val dict \<Rightarrow> val dict \<Rightarrow> raised + (exn + string option)" where
  "select_branch pl step ctx level_outputs step_outputs =
     (case first_edge (pl_parse pl) (d_branches step)
             (dict_update (dict_update ctx level_outputs) step_outputs) of
        Inl (PredicateSyntaxError m) \<Rightarrow> Inr (Inl (PredicateSyntaxError m))
      | Inl e \<Rightarrow> Inl (RExn e)
      | Inr (Some t) \<Rightarrow> Inr (Inr (Some t))
      | Inr None \<Rightarrow> Inr (Inr (d_default_next step)))"

text \<open>The outputs of a step into the outputs of its level; \<open>Inl k\<close> is a conflict on \<open>k\<close>.\<close>

fun add_outputs :: "val dict \<Rightarrow> val dict \<Rightarrow> string + val dict" where
  "add_outputs level [] = Inr level"
| "add_outputs level ((k, v) # out) =
     (if dict_has level k then Inl k else add_outputs (dict_set level k v) out)"

text \<open>The record that replaces the one of a step whose outputs or branches are rejected.\<close>

definition failed_again :: "step_record \<Rightarrow> string \<Rightarrow> exn \<Rightarrow> step_record" where
  "failed_again r name e =
     StepRecord (with_outcome (Failed e)
       ((blank_step (sr_index r) name)\<lparr>sd_inputs := sd_inputs (sr_data r)\<rparr>)) None"

text \<open>\<open>_execute_capability_step\<close>, with the events around it.\<close>

definition execute_capability_step ::
  "('w, 'c, 'k) executor \<Rightarrow> dag_flow \<Rightarrow> string \<Rightarrow> nat \<Rightarrow> dag_step \<Rightarrow> string \<Rightarrow> val dict \<Rightarrow>
     ('w, 'c, 'k) xstate \<Rightarrow> ('w, 'c, 'k) xstate \<times> (raised + step_record)" where
  "execute_capability_step ex f trace idx step name ctx st =
     (case (case ex_capability ex of
              None \<Rightarrow> (st, Inr (with_outcome (Failed (FlowExecutionError name (int idx)
                         (Msg ''step_type is not supported by FlowExecutor''))) (blank_step (int idx) name)))
            | Some cap \<Rightarrow>
                (case cap (x_world st) (f_name f) trace (int idx) step ctx of
                   (w, r) \<Rightarrow> (st\<lparr>x_world := w\<rparr>, r))) of
        (st, Inl e) \<Rightarrow> (st, Inl (RExn e))
      | (st, Inr d) \<Rightarrow>
          (let r = StepRecord d None;
               st = (if sd_success d \<or> sd_inputs d \<noteq> []
                     then fire ex (StepStart trace (f_name f) (sd_index d) name (sd_inputs d)) st else st)
           in (fire ex (StepEnd trace (f_name f) r) st, Inr r)))"

text \<open>The proxy step of a tool step; the output mapping stays behind.\<close>

definition proxy_step :: "dag_step \<Rightarrow> flow_step" where
  "proxy_step s = (flow_step.truncate s)\<lparr>s_output_mapping := None\<rparr>"

definition dispatch_dag_step ::
  "('w, 'c, 'k) executor \<Rightarrow> ('w, 'c, 'k) run_flow \<Rightarrow> dag_flow \<Rightarrow> string \<Rightarrow> val dict \<Rightarrow> 'w run_opts \<Rightarrow>
     step_record list \<Rightarrow> nat \<Rightarrow> dag_step \<Rightarrow> string \<Rightarrow> val dict \<Rightarrow> ('w, 'c, 'k) xstate \<Rightarrow>
     ('w, 'c, 'k) xstate \<times> (raised + step_record)" where
  "dispatch_dag_step ex rec f trace input opts recs idx step name ctx st =
     (if d_step_type step = KTool then
        reanchor_cancellation ex (f_name f) trace input (proxy_step step) (int idx) recs
          (execute_step ex rec
             \<lparr>se_trace = trace, se_flow = f_name f, se_index = int idx, se_step_id = Some (d_step_id step)\<rparr>
             (proxy_step step) ctx opts st)
      else execute_capability_step ex f trace idx step name ctx st)"

text \<open>
  What follows a successful step: the mapped outputs join the level, then the branches of a tool
  step pick the dependents that stay alive.  \<open>Inl\<close> is the record of a rejection.
\<close>

definition settle_step ::
  "('w, 'c, 'k) executor \<Rightarrow> dag_flow \<Rightarrow> dag_step \<Rightarrow> string \<Rightarrow> val dict \<Rightarrow> step_record \<Rightarrow> val dict \<Rightarrow> level_state \<Rightarrow>
     raised + (step_record + level_state)" where
  "settle_step ex f step name ctx r out lv =
     (case apply_output_mapping out (s_output_mapping step) name (sr_index r) of
        Inl e \<Rightarrow> Inl (RExn e)
      | Inr mapped \<Rightarrow>
          (case add_outputs (lv_outputs lv) mapped of
             Inl k \<Rightarrow> Inr (Inl (failed_again r name (FlowExecutionError name (sr_index r)
                        (Msg (''sibling key conflict on '' @ k)))))
           | Inr outs \<Rightarrow>
               (let lv = lv\<lparr>lv_outputs := outs, lv_records := lv_records lv @ [r]\<rparr>
                in if d_step_type step = KTool \<and> d_branches step \<noteq> [] then
                     (case select_branch (ex_platform ex) step ctx outs mapped of
                        Inl e \<Rightarrow> Inl e
                      | Inr (Inl e) \<Rightarrow> Inr (Inl (failed_again r name e))
                      | Inr (Inr None) \<Rightarrow> Inr (Inr lv)
                      | Inr (Inr (Some t)) \<Rightarrow>
                          Inr (Inr (lv\<lparr>lv_skipped := lv_skipped lv @
                            filter (\<lambda>d. d \<noteq> t) (dependents f (d_step_id step))\<rparr>)))
                   else Inr (Inr lv))))"

text \<open>Skip propagation: every predecessor is skipped.\<close>

definition is_skipped :: "dag_step \<Rightarrow> string list \<Rightarrow> bool" where
  "is_skipped step skipped \<longleftrightarrow>
     d_step_id step \<in> set skipped \<or>
     (d_depends_on step \<noteq> [] \<and> list_all (\<lambda>d. d \<in> set skipped) (d_depends_on step))"

definition skipped_record :: "nat \<Rightarrow> string \<Rightarrow> step_record" where
  "skipped_record idx name = StepRecord (with_outcome (Skipped None) (blank_step (int idx) name)) None"

text \<open>One step of a level; \<open>recs\<close> is the log of the completed levels.\<close>

definition level_step ::
  "('w, 'c, 'k) executor \<Rightarrow> ('w, 'c, 'k) run_flow \<Rightarrow> dag_flow \<Rightarrow> string \<Rightarrow> val dict \<Rightarrow> 'w run_opts \<Rightarrow>
     step_record list \<Rightarrow> val dict \<Rightarrow> dag_step \<Rightarrow> level_state \<Rightarrow> ('w, 'c, 'k) xstate \<Rightarrow>
     ('w, 'c, 'k) xstate \<times> (raised + level_end)" where
  "level_step ex rec f trace input opts recs ctx step lv st =
     (let idx = lv_index lv;
          stop = (\<lambda>r st. bind_st (make_result ex (f_name f) trace input False None
                    (recs @ lv_records lv @ [r]) None st) (\<lambda>st res. (st, Inr (LevelStopped res))))
      in case display_name step of
           Inl e \<Rightarrow> (st, Inl (RExn e))
         | Inr name \<Rightarrow>
             (if is_skipped step (lv_skipped lv) then
                (st, Inr (LevelDone (lv\<lparr>lv_skipped := List.insert (d_step_id step) (lv_skipped lv),
                   lv_records := lv_records lv @ [skipped_record idx name], lv_index := idx + 1\<rparr>)))
              else
                bind_st (dispatch_dag_step ex rec f trace input opts (recs @ lv_records lv) idx step name ctx st)
                  (\<lambda>st r.
                    if \<not> sr_success r then stop r st
                    else
                      (case sr_outputs r of
                         None \<Rightarrow> (st, Inl (RExn PyAssertionError))
                       | Some out \<Rightarrow>
                           (case settle_step ex f step name ctx r out (lv\<lparr>lv_index := idx + 1\<rparr>) of
                              Inl e \<Rightarrow> (st, Inl e)
                            | Inr (Inl r') \<Rightarrow> stop r' st
                            | Inr (Inr lv') \<Rightarrow> (st, Inr (LevelDone lv')))))))"

fun run_level ::
  "('w, 'c, 'k) executor \<Rightarrow> ('w, 'c, 'k) run_flow \<Rightarrow> dag_flow \<Rightarrow> string \<Rightarrow> val dict \<Rightarrow> 'w run_opts \<Rightarrow>
     step_record list \<Rightarrow> val dict \<Rightarrow> dag_step list \<Rightarrow> level_state \<Rightarrow> ('w, 'c, 'k) xstate \<Rightarrow>
     ('w, 'c, 'k) xstate \<times> (raised + level_end)" where
  "run_level ex rec f trace input opts recs ctx [] lv st = (st, Inr (LevelDone lv))"
| "run_level ex rec f trace input opts recs ctx (step # steps) lv st =
     bind_st (level_step ex rec f trace input opts recs ctx step lv st) (\<lambda>st x.
       case x of
         LevelStopped res \<Rightarrow> (st, Inr (LevelStopped res))
       | LevelDone lv \<Rightarrow> run_level ex rec f trace input opts recs ctx steps lv st)"

definition dag_level ::
  "('w, 'c, 'k) executor \<Rightarrow> ('w, 'c, 'k) run_flow \<Rightarrow> dag_flow \<Rightarrow> string \<Rightarrow> val dict \<Rightarrow> 'w run_opts \<Rightarrow>
     nat \<Rightarrow> dag_step list \<Rightarrow> val dict \<Rightarrow> step_record list \<Rightarrow> string list \<Rightarrow> nat \<Rightarrow> ('w, 'c, 'k) xstate \<Rightarrow>
     ('w, 'c, 'k) xstate \<times> (raised + execution_result + val dict \<times> step_record list \<times> string list \<times> nat)"
where
  "dag_level ex rec f trace input opts lvl steps ctx recs skipped idx st =
     bind_st (check_cancellation ex (f_name f) trace input (int idx) opts recs st) (\<lambda>st _.
     bind_st (run_level ex rec f trace input opts recs ctx steps
         \<lparr>lv_outputs = [], lv_records = [], lv_skipped = skipped, lv_index = idx\<rparr> st) (\<lambda>st x.
       case x of
         LevelStopped res \<Rightarrow> (st, Inr (Inl res))
       | LevelDone lv \<Rightarrow>
           (let recs = recs @ lv_records lv in
            case merge_step_outputs (f_on_context_collision f) (f_name f) (int lvl)
                    (''DAG level '' @ nat_text lvl) None ctx (lv_outputs lv) of
              Inl e \<Rightarrow> (st, Inl (RExn e))
            | Inr ctx \<Rightarrow>
                bind_st (save_snapshot ex (DagFlow f) trace input ctx recs 0 (lvl + 1) st) (\<lambda>st _.
                  (st, Inr (Inr (ctx, recs, lv_skipped lv, lv_index lv)))))))"

fun dag_loop ::
  "('w, 'c, 'k) executor \<Rightarrow> ('w, 'c, 'k) run_flow \<Rightarrow> dag_flow \<Rightarrow> string \<Rightarrow> val dict \<Rightarrow> 'w run_opts \<Rightarrow>
     nat \<Rightarrow> dag_step list list \<Rightarrow> val dict \<Rightarrow> step_record list \<Rightarrow> string list \<Rightarrow> nat \<Rightarrow> ('w, 'c, 'k) xstate \<Rightarrow>
     ('w, 'c, 'k) xstate \<times> (raised + loop_end)" where
  "dag_loop ex rec f trace input opts lvl [] ctx recs skipped idx st = (st, Inr (Completed ctx recs))"
| "dag_loop ex rec f trace input opts lvl (steps # levels) ctx recs skipped idx st =
     bind_st (dag_level ex rec f trace input opts lvl steps ctx recs skipped idx st) (\<lambda>st x.
       case x of
         Inl res \<Rightarrow> (st, Inr (Stopped res))
       | Inr (ctx, recs, skipped, idx) \<Rightarrow>
           dag_loop ex rec f trace input opts (lvl + 1) levels ctx recs skipped idx st)"

text \<open>
  \<open>_execute_dag_flow\<close>.  With a snapshot in the run-scoped state the run continues it: its trace
  id, context, log and level, with an empty set of skipped steps.
\<close>

definition dag_body ::
  "('w, 'c, 'k) executor \<Rightarrow> ('w, 'c, 'k) run_flow \<Rightarrow> dag_flow \<Rightarrow> string \<Rightarrow> val dict \<Rightarrow> 'w run_opts \<Rightarrow>
     nat \<Rightarrow> val dict \<Rightarrow> step_record list \<Rightarrow> ('w, 'c, 'k) xstate \<Rightarrow>
     ('w, 'c, 'k) xstate \<times> (raised + execution_result)" where
  "dag_body ex rec f trace input opts lvl ctx recs st =
     (case compute_dag_levels (pl_set_order (ex_platform ex)) f of
        Inl e \<Rightarrow> (st, Inl (RExn e))
      | Inr levels \<Rightarrow>
          bind_st (dag_loop ex rec f trace input opts lvl (drop lvl levels) ctx recs [] (length recs) st)
            (\<lambda>st e.
              case e of
                Stopped res \<Rightarrow> (st, Inr res)
              | Completed ctx recs \<Rightarrow> finish_flow ex (DagFlow f) (f_name f) trace input ctx recs st))"

definition execute_dag ::
  "('w, 'c, 'k) executor \<Rightarrow> ('w, 'c, 'k) run_flow \<Rightarrow> dag_flow \<Rightarrow> val dict \<Rightarrow> 'w run_opts \<Rightarrow>
     ('w, 'c, 'k) xstate \<Rightarrow> ('w, 'c, 'k) xstate \<times> (raised + execution_result)" where
  "execute_dag ex rec f input opts st =
     (let st = set_version (f_version f) st;
          start = (\<lambda>trace. FlowStart trace (f_name f) (f_version f) input (length (f_steps f)))
      in case l_resume (x_local st) of
           Some sn \<Rightarrow>
             dag_body ex rec f (sn_trace_id sn) input opts (sn_completed_levels sn)
               (sn_context sn) (sn_log sn) (fire ex (start (sn_trace_id sn)) st)
         | None \<Rightarrow>
             (case new_trace_id ex st of
                (st, trace) \<Rightarrow>
                  bind_st (check_input ex (DagFlow f) (f_name f) trace input (fire ex (start trace) st))
                    (\<lambda>st rejected.
                      case rejected of
                        Some res \<Rightarrow> (st, Inr res)
                      | None \<Rightarrow>
                          dag_body ex rec f trace input opts 0 (seed_context (x_local st) input) [] st)))"

section \<open>The entry point\<close>

definition status_value :: "flow_status \<Rightarrow> string" where
  "status_value s =
     (case s of ACTIVE \<Rightarrow> ''active'' | NEEDS_REVIEW \<Rightarrow> ''needs_review'' | DISABLED \<Rightarrow> ''disabled'')"

text \<open>\<open>_execute_flow_impl\<close>.\<close>

definition execute_flow_impl ::
  "('w, 'c, 'k) executor \<Rightarrow> ('w, 'c, 'k) run_flow \<Rightarrow> string \<Rightarrow> val dict \<Rightarrow> string option \<Rightarrow> bool \<Rightarrow>
     'w run_opts \<Rightarrow> ('w, 'c, 'k) xstate \<Rightarrow> ('w, 'c, 'k) xstate \<times> (raised + execution_result)" where
  "execute_flow_impl ex rec name input version force opts st =
     (case ex_get_flow ex name version of
        Inl e \<Rightarrow> (st, Inl (RExn e))
      | Inr f \<Rightarrow>
          (let st = set_version (af_version f) st in
           if \<not> force \<and> af_status f \<noteq> ACTIVE
           then (st, Inl (RExn (FlowStatusError name (status_value (af_status f)))))
           else
             (case validate_composition ex f of
                Some e \<Rightarrow> (st, Inl (RExn e))
              | None \<Rightarrow>
                  (case f of
                     DagFlow d \<Rightarrow> execute_dag ex rec d input opts st
                   | LinearFlow l \<Rightarrow> execute_linear ex rec l name input opts st))))"

text \<open>\<open>execute_flow\<close>: the arguments of a dry run and the dynamic parameters enter the run scope.\<close>

definition enter_run :: "bool \<Rightarrow> string \<Rightarrow> val dict option \<Rightarrow> local_state \<Rightarrow> local_state" where
  "enter_run dry unsupported dyn l =
     (let l = l\<lparr>l_dry_run := dry \<or> l_dry_run l\<rparr>;
          l = (if dry then l\<lparr>l_dry_run_abort := (unsupported = ''abort'')\<rparr> else l)
      in case dyn of
           None \<Rightarrow> l
         | Some d \<Rightarrow> l\<lparr>l_dynamic_params := dict_update (l_dynamic_params l) d\<rparr>)"

definition execute_flow ::
  "('w, 'c, 'k) executor \<Rightarrow> ('w, 'c, 'k) run_flow \<Rightarrow> string \<Rightarrow> val dict \<Rightarrow> string option \<Rightarrow> bool \<Rightarrow>
     'w run_opts \<Rightarrow> bool \<Rightarrow> string \<Rightarrow> val dict option \<Rightarrow> ('w, 'c, 'k) xstate \<Rightarrow>
     ('w, 'c, 'k) xstate \<times> (raised + execution_result)" where
  "execute_flow ex rec name input version force opts dry unsupported dyn st =
     (if unsupported \<noteq> ''skip'' \<and> unsupported \<noteq> ''abort''
      then (st, Inl (RExn (ValueError ''dry_run_unsupported must be skip or abort'')))
      else
        run_scope (\<lambda>st.
          execute_flow_impl ex rec name input version force opts
            (st\<lparr>x_local := enter_run dry unsupported dyn (x_local st)\<rparr>)) st)"

text \<open>The call of a sub-flow, with the nesting bound as fuel.\<close>

primrec run_flow :: "('w, 'c, 'k) executor \<Rightarrow> nat \<Rightarrow> ('w, 'c, 'k) run_flow" where
  "run_flow ex 0 = (\<lambda>name input opts st. (st, Inl ROutOfFuel))"
| "run_flow ex (Suc n) = (\<lambda>name input opts st.
     execute_flow ex (run_flow ex n) name input None False opts False ''skip'' None st)"

text \<open>
  A run from the outside: the composition check admits at most \<open>max_composition_depth\<close> nested
  sub-flows, so this much fuel is enough.
\<close>

definition start_flow ::
  "('w, 'c, 'k) executor \<Rightarrow> string \<Rightarrow> val dict \<Rightarrow> string option \<Rightarrow> bool \<Rightarrow> 'w run_opts \<Rightarrow> bool \<Rightarrow> string \<Rightarrow>
     val dict option \<Rightarrow> ('w, 'c, 'k) xstate \<Rightarrow> ('w, 'c, 'k) xstate \<times> (raised + execution_result)" where
  "start_flow ex = execute_flow ex (run_flow ex (ex_max_depth ex))"

text \<open>The state in which a run enters its scope.\<close>

definition entered :: "bool \<Rightarrow> string \<Rightarrow> val dict option \<Rightarrow> ('w, 'c, 'k) xstate \<Rightarrow> ('w, 'c, 'k) xstate" where
  "entered dry unsupported dyn st =
     st\<lparr>x_local := enter_run dry unsupported dyn (copy_local (x_local st))\<rparr>"

lemma start_flow_unfold:
  "start_flow ex name input vers force opts dry unsupported dyn st =
     (if unsupported \<noteq> ''skip'' \<and> unsupported \<noteq> ''abort''
      then (st, Inl (RExn (ValueError ''dry_run_unsupported must be skip or abort'')))
      else (case execute_flow_impl ex (run_flow ex (ex_max_depth ex)) name input vers force opts
                   (entered dry unsupported dyn st) of
              (st', r) \<Rightarrow> (st'\<lparr>x_local := x_local st\<rparr>, r)))"
  by (simp add: start_flow_def execute_flow_def run_scope_def entered_def)

end
