(* ===== verification/StepProps.thy ===== *)
theory StepProps
  imports StepExec
begin

text \<open>
  Properties of one step.  The documented behaviour of the retry library is stated as
  \<open>tenacity\<close>; with it the effect of a guarded tool call on the state is known exactly: the
  world, and as many entries of the tool in the list of calls as there were attempts.  From this
  follow the frame of a step, the bound on retries, and the gates: no tool runs above the side
  effect ceiling or, where an approval is asked for, without one.
\<close>

section \<open>The retry library\<close>

text \<open>
  The loop \<open>Retrying\<close> documents: \<open>left\<close> further attempts; an exception that is not
  retryable, or the last one, is raised as it is.  Versions of the library differ in whether they
  compute the waiting time before they see that no attempt is left (\<open>early\<close>).
\<close>

primrec retry_loop ::
  "(rat \<Rightarrow> 's \<Rightarrow> 's) \<Rightarrow> bool \<Rightarrow> (nat \<Rightarrow> 's \<Rightarrow> 's \<times> rat) \<Rightarrow> (exn \<Rightarrow> bool) \<Rightarrow> ('s \<Rightarrow> 's \<times> (exn + 'v)) \<Rightarrow>
     nat \<Rightarrow> nat \<Rightarrow> 's \<Rightarrow> 's \<times> (exn + 'v)" where
  "retry_loop sleep early wait retryable f 0 n s =
     (case f s of
        (s, Inr v) \<Rightarrow> (s, Inr v)
      | (s, Inl e) \<Rightarrow> (if retryable e \<and> early then fst (wait n s) else s, Inl e))"
| "retry_loop sleep early wait retryable f (Suc left) n s =
     (case f s of
        (s, Inr v) \<Rightarrow> (s, Inr v)
      | (s, Inl e) \<Rightarrow>
          (if \<not> retryable e then (s, Inl e)
           else (case wait n s of
                   (s, d) \<Rightarrow> retry_loop sleep early wait retryable f left (n + 1) (sleep d s))))"

definition sleep_at ::
  "('w, 'c, 'k) executor \<Rightarrow> rat \<Rightarrow> ('w, 'c, 'k) attempt_state \<Rightarrow> ('w, 'c, 'k) attempt_state" where
  "sleep_at ex d a = a\<lparr>at_x := at_x a\<lparr>x_world := pl_sleep (ex_platform ex) d (x_world (at_x a))\<rparr>\<rparr>"

definition tenacity :: "('w, 'c, 'k) executor \<Rightarrow> bool" where
  "tenacity ex \<longleftrightarrow>
     (\<exists>early. \<forall>n wait retryable f a. 0 < n \<longrightarrow>
        ex_retrying ex n wait retryable f a = retry_loop (sleep_at ex) early wait retryable f (n - 1) 1 a)"

section \<open>Frames\<close>

text \<open>A state that differs in the world and has more calls.\<close>

definition with_calls ::
  "('w, 'c, 'k) xstate \<Rightarrow> 'w \<Rightarrow> 'w call list \<Rightarrow> ('w, 'c, 'k) xstate" where
  "with_calls st w cs = st\<lparr>x_world := w, x_calls := x_calls st @ cs\<rparr>"

lemma with_calls_simps [simp]:
  "x_world (with_calls st w cs) = w" "x_calls (with_calls st w cs) = x_calls st @ cs"
  "x_local (with_calls st w cs) = x_local st" "x_cache (with_calls st w cs) = x_cache st"
  "x_snaps (with_calls st w cs) = x_snaps st" "x_events (with_calls st w cs) = x_events st"
  "x_observed (with_calls st w cs) = x_observed st"
  "x_next_trace (with_calls st w cs) = x_next_trace st"
  "with_calls (with_calls st w cs) v ds = with_calls st v (cs @ ds)"
  "with_calls st (x_world st) [] = st"
  "(with_calls st w cs)\<lparr>x_world := v\<rparr> = with_calls st v cs"
  by (simp_all add: with_calls_def)

lemma log_call_world: "log_call c (st\<lparr>x_world := w\<rparr>) = with_calls st w [c]"
  by (simp add: log_call_def with_calls_def)

lemma world_update: "st\<lparr>x_world := w\<rparr> = with_calls st w []"
  by (simp add: with_calls_def)

lemma run_logged_frame:
  "\<exists>w r. run_logged ex env tool inputs st =
     (with_calls st w [RanTool (se_trace env) (se_index env) tool inputs], r)"
  by (auto simp: run_logged_def log_call_world split: prod.splits)

lemma run_dry_logged_frame:
  "\<exists>w r. run_dry_logged ex env tool inputs st =
     (with_calls st w [RanDry (se_trace env) (se_index env) tool inputs], r)"
  by (auto simp: run_dry_logged_def log_call_world split: prod.splits)

text \<open>The state of a guarded call after \<open>n\<close> attempts.\<close>

definition attempted ::
  "step_env \<Rightarrow> 'w tool \<Rightarrow> val dict \<Rightarrow> nat \<Rightarrow> ('w, 'c, 'k) attempt_state \<Rightarrow> ('w, 'c, 'k) attempt_state \<Rightarrow> bool" where
  "attempted env tool inputs n a b \<longleftrightarrow>
     at_count b = at_count a + n \<and>
     (\<exists>w. at_x b = with_calls (at_x a) w (replicate n (RanTool (se_trace env) (se_index env) tool inputs)))"

lemma attempted_0 [simp]: "attempted env tool inputs 0 a a"
  by (auto simp: attempted_def intro: exI [of _ "x_world (at_x a)"])

lemma attempted_trans:
  "attempted env tool inputs m a b \<Longrightarrow> attempted env tool inputs n b c \<Longrightarrow>
     attempted env tool inputs (m + n) a c"
  by (auto simp: attempted_def replicate_add)

lemma attempt_attempted: "attempted env tool inputs 1 a (fst (attempt ex env tool inputs mk a))"
  using run_logged_frame [of ex env tool inputs "at_x a"]
  by (auto simp: attempt_def attempted_def Let_def split: sum.splits)

lemma attempt_errors:
  "attempt ex env tool inputs mk a = (b, r) \<Longrightarrow>
     at_errors b = at_errors a @ (case r of Inl e \<Rightarrow> [mk e] | Inr _ \<Rightarrow> [])"
  by (auto simp: attempt_def Let_def split: sum.splits prod.splits)

lemma delay_attempted: "attempted env tool inputs 0 a (fst (delay_before ex p n a))"
  by (auto simp: delay_before_def attempted_def world_update
      intro: exI [of _ "x_world (at_x a)"] split: prod.splits)

lemma sleep_attempted: "attempted env tool inputs 0 a (sleep_at ex d a)"
  by (auto simp: sleep_at_def attempted_def world_update)

lemma retry_loop_attempted:
  assumes "retry_loop (sleep_at ex) early (delay_before ex p) retryable
      (attempt ex env tool inputs mk) left k a = (b, r)"
  shows "\<exists>n. 1 \<le> n \<and> n \<le> left + 1 \<and> attempted env tool inputs n a b"
  using assms
proof (induction left arbitrary: k a)
  case 0
  let ?b = "fst (attempt ex env tool inputs mk a)"
  have "b = ?b \<or> b = fst (delay_before ex p k ?b)"
    using 0 by (auto split: prod.splits sum.splits if_splits)
  then have "attempted env tool inputs 1 a b"
    using attempt_attempted [of env tool inputs a ex mk] delay_attempted [of env tool inputs ?b ex p k]
      attempted_trans [of env tool inputs 1 a ?b 0] by fastforce
  then show ?case by (auto intro: exI [of _ 1])
next
  case (Suc left)
  let ?b = "fst (attempt ex env tool inputs mk a)"
  have one: "attempted env tool inputs 1 a ?b"
    by (rule attempt_attempted)
  show ?case
  proof (cases "b = ?b")
    case True
    with one show ?thesis by (intro exI [of _ 1]) simp
  next
    case False
    with Suc.prems obtain c d where w: "delay_before ex p k ?b = (c, d)"
      and loop: "retry_loop (sleep_at ex) early (delay_before ex p) retryable
        (attempt ex env tool inputs mk) left (k + 1) (sleep_at ex d c) = (b, r)"
      by (auto split: prod.splits sum.splits if_splits)
    from Suc.IH [OF loop] obtain n where n: "1 \<le> n" "n \<le> left + 1"
      and rest: "attempted env tool inputs n (sleep_at ex d c) b"
      by blast
    have "attempted env tool inputs 0 ?b (sleep_at ex d c)"
      using attempted_trans [OF delay_attempted [of env tool inputs ?b ex p k] sleep_attempted] w by simp
    from attempted_trans [OF attempted_trans [OF one this] rest] n show ?thesis
      by (intro exI [of _ "1 + n"]) simp
  qed
qed

definition max_attempts :: "retry_policy option \<Rightarrow> nat" where
  "max_attempts p = (case p of None \<Rightarrow> 1 | Some p \<Rightarrow> max_retries p + 1)"

lemma invoke_tool_attempted:
  assumes "tenacity ex" and "invoke_tool ex env tool inputs policy a = (b, r)"
  shows "\<exists>n \<le> max_attempts policy. attempted env tool inputs n a b \<and>
    (ex_strict_safety ex \<and> retry_disallowed_by_contract tool \<longrightarrow> n = 1)"
proof -
  have once: ?thesis if "attempt ex env tool inputs mk a = (b, r)" for mk
    using attempt_attempted [of env tool inputs a ex mk] that
    by (intro exI [of _ 1]) (simp add: max_attempts_def split: option.splits)
  from assms(1) obtain early where R: "\<And>n wait retryable f a. 0 < n \<Longrightarrow>
      ex_retrying ex n wait retryable f a = retry_loop (sleep_at ex) early wait retryable f (n - 1) 1 a"
    by (auto simp: tenacity_def)
  show ?thesis
  proof (cases policy)
    case None
    with assms(2) once show ?thesis
      by (simp add: invoke_tool_def)
  next
    case (Some p)
    show ?thesis
    proof (cases "ex_strict_safety ex \<and> retry_disallowed_by_contract tool")
      case True
      with assms(2) Some once show ?thesis
        by (simp add: invoke_tool_def)
    next
      case False
      with assms(2) Some have i: "(case resolved_retryable_errors (resolve_exception (ex_platform ex)) p of
          Inl e \<Rightarrow> (a, Inl e)
        | Inr classes \<Rightarrow> retry_loop (sleep_at ex) early (delay_before ex p)
            (\<lambda>e. list_ex (pl_isinstance (ex_platform ex) e) classes)
            (attempt ex env tool inputs RetryErr) (max_retries p) 1 a) = (b, r)"
        by (cases "resolved_retryable_errors (resolve_exception (ex_platform ex)) p")
          (simp_all add: invoke_tool_def R)
      have "\<exists>n \<le> max_retries p + 1. attempted env tool inputs n a b"
      proof (cases "resolved_retryable_errors (resolve_exception (ex_platform ex)) p")
        case (Inl e)
        with i show ?thesis by (auto intro: exI [of _ 0])
      next
        case (Inr classes)
        with i retry_loop_attempted [of ex early p _ env tool inputs RetryErr "max_retries p" 1 a b r]
        show ?thesis by auto
      qed
      with False Some show ?thesis
        by (auto simp: max_attempts_def)
    qed
  qed
qed

section \<open>Gated calls\<close>

text \<open>When a call to a tool is permitted, after the calls \<open>seen\<close> of the same run.\<close>

definition permit ::
  "('w, 'c, 'k) executor \<Rightarrow> string \<Rightarrow> int \<Rightarrow> 'w tool \<Rightarrow> val dict \<Rightarrow> 'w call list \<Rightarrow> bool" where
  "permit ex t i tool inputs seen \<longleftrightarrow>
     (case ex_max_side_effect ex of
        None \<Rightarrow> True | Some cap \<Rightarrow> side_effects (t_safety tool) \<le> cap) \<and>
     (\<not> requires_approval (t_safety tool) \<or>
      (case ex_approval ex of
         None \<Rightarrow> \<not> ex_strict_safety ex
       | Some _ \<Rightarrow> AskedApproval t i (t_name tool) inputs True \<in> set seen))"

fun permitted :: "('w, 'c, 'k) executor \<Rightarrow> 'w call list \<Rightarrow> 'w call \<Rightarrow> bool" where
  "permitted ex seen (RanTool t i tool inputs) = permit ex t i tool inputs seen"
| "permitted ex seen (RanDry t i tool inputs) = permit ex t i tool inputs seen"
| "permitted ex seen _ = True"

fun gated :: "('w, 'c, 'k) executor \<Rightarrow> 'w call list \<Rightarrow> 'w call list \<Rightarrow> bool" where
  "gated ex seen [] = True"
| "gated ex seen (c # cs) = (permitted ex seen c \<and> gated ex (seen @ [c]) cs)"

text \<open>What a dry run may call for real: tools without effects.\<close>

fun harmless :: "'w call \<Rightarrow> bool" where
  "harmless (RanTool t i tool inputs) = (side_effects (t_safety tool) \<in> {SE_NONE, SE_READ})"
| "harmless _ = True"

fun is_ask :: "'w call \<Rightarrow> bool" where
  "is_ask (RanTool t i tool inputs) = False"
| "is_ask (RanDry t i tool inputs) = False"
| "is_ask _ = True"

lemma permitted_mono: "permitted ex s c \<Longrightarrow> set s \<subseteq> set s' \<Longrightarrow> permitted ex s' c"
  by (cases c) (auto simp: permit_def split: option.splits)

lemma gated_mono: "gated ex s cs \<Longrightarrow> set s \<subseteq> set s' \<Longrightarrow> gated ex s' cs"
proof (induction cs arbitrary: s s')
  case (Cons c cs)
  from Cons.prems Cons.IH [of "s @ [c]" "s' @ [c]"] permitted_mono [of ex s c s'] show ?case
    by auto
qed simp

lemma gated_append [simp]: "gated ex s (as @ bs) \<longleftrightarrow> gated ex s as \<and> gated ex (s @ as) bs"
  by (induction as arbitrary: s) auto

lemma gated_app: "gated ex [] as \<Longrightarrow> gated ex [] bs \<Longrightarrow> gated ex [] (as @ bs)"
  using gated_mono [of ex "[]" bs as] by simp

lemma is_ask_permitted: "is_ask c \<Longrightarrow> permitted ex s c \<and> harmless c"
  by (cases c) auto

lemma asks_gated: "list_all is_ask cs \<Longrightarrow> gated ex s cs \<and> list_all harmless cs"
  by (induction cs arbitrary: s) (auto simp: is_ask_permitted)

lemma gated_replicate: "permitted ex s c \<Longrightarrow> gated ex s (replicate n c)"
proof (induction n arbitrary: s)
  case (Suc n)
  from Suc.IH [of "s @ [c]"] permitted_mono [OF Suc.prems, of "s @ [c]"] Suc.prems show ?case
    by auto
qed simp

lemma safety_gate_frame:
  assumes "safety_gate ex env tool inputs st = (st', gate, approval)"
  shows "\<exists>w cs. st' = with_calls st w cs \<and> list_all is_ask cs \<and>
     (gate = None \<longrightarrow> permit ex (se_trace env) (se_index env) tool inputs cs)"
proof (cases "ex_approval ex")
  case None
  then have "st' = st"
    using assms by (auto simp: safety_gate_def Let_def split: if_splits)
  with assms None show ?thesis
    by (intro exI [of _ "x_world st"] exI [of _ "[]"])
      (auto simp: safety_gate_def Let_def permit_def side_effect_exceeds_iff not_less
        split: if_splits option.splits)
next
  case (Some approve)
  obtain w answer where a: "approve (x_world st) (call_ctx_of ex env tool inputs) (t_safety tool) = (w, answer)"
    by (cases "approve (x_world st) (call_ctx_of ex env tool inputs) (t_safety tool)")
  show ?thesis
  proof (cases "st' = st")
    case True
    with assms Some a show ?thesis
      by (intro exI [of _ "x_world st"] exI [of _ "[]"])
        (auto simp: safety_gate_def Let_def permit_def side_effect_exceeds_iff not_less log_call_world
          with_calls_def split: if_splits option.splits sum.splits approval_answer.splits
          dest: arg_cong [where f = x_calls])
  next
    case False
    with assms Some a show ?thesis
      by (intro exI [of _ w] exI [of _ "[AskedApproval (se_trace env) (se_index env) (t_name tool) inputs
            (answer = Inr Approve)]"])
        (auto simp: safety_gate_def Let_def permit_def side_effect_exceeds_iff not_less log_call_world
          split: if_splits option.splits sum.splits approval_answer.splits)
  qed
qed

lemma input_guardrail_frame:
  "input_guardrail ex env tool inputs st = (st', e) \<Longrightarrow> \<exists>w cs. st' = with_calls st w cs \<and> list_all is_ask cs"
proof -
  assume g: "input_guardrail ex env tool inputs st = (st', e)"
  show ?thesis
  proof (cases "ex_guardrail ex")
    case None
    with g show ?thesis
      by (intro exI [of _ "x_world st"] exI [of _ "[]"]) (simp add: input_guardrail_def)
  next
    case (Some check)
    with g show ?thesis
      by (cases "check (x_world st) (call_ctx_of ex env tool inputs)")
        (auto simp: input_guardrail_def log_call_world intro!: exI)
  qed
qed

lemma dry_run_step_frame:
  assumes "dry_run_step ex env name tool inputs st = (st', oc)"
  shows "\<exists>w cs. st' = with_calls st w cs \<and>
     (cs = [] \<or> cs = [RanDry (se_trace env) (se_index env) tool inputs]) \<and>
     (oc = None \<longrightarrow> st' = st \<and> side_effects (t_safety tool) \<in> {SE_NONE, SE_READ})"
proof (cases "st' = st")
  case True
  with assms show ?thesis
    by (intro exI [of _ "x_world st"] exI [of _ "[]"])
      (auto simp: dry_run_step_def split: if_splits prod.splits sum.splits)
next
  case False
  with assms run_dry_logged_frame [of ex env tool inputs st] show ?thesis
    by (auto simp: dry_run_step_def split: if_splits sum.splits)
qed

text \<open>The calls of a step, and what a dry run may not do.\<close>

definition calls_ok :: "('w, 'c, 'k) executor \<Rightarrow> bool \<Rightarrow> 'w call list \<Rightarrow> bool" where
  "calls_ok ex dry cs \<longleftrightarrow> gated ex [] cs \<and> (dry \<longrightarrow> list_all harmless cs)"

lemma calls_ok_Nil [simp]: "calls_ok ex dry []"
  by (simp add: calls_ok_def)

lemma calls_ok_append: "calls_ok ex dry as \<Longrightarrow> calls_ok ex dry bs \<Longrightarrow> calls_ok ex dry (as @ bs)"
  by (simp add: calls_ok_def gated_app del: gated_append)

lemma calls_ok_asks: "list_all is_ask cs \<Longrightarrow> calls_ok ex dry cs"
  by (simp add: calls_ok_def asks_gated)

text \<open>Asking first and calling the tool for which permission was given.\<close>

lemma calls_ok_run:
  assumes "list_all is_ask cs" and "permit ex t i tool inputs cs" and "set cs \<subseteq> set ds"
    and "list_all is_ask ds" and "dry \<longrightarrow> side_effects (t_safety tool) \<in> {SE_NONE, SE_READ}"
  shows "calls_ok ex dry (ds @ replicate n (RanTool t i tool inputs))"
proof -
  have "permitted ex ds (RanTool t i tool inputs)"
    using permitted_mono [of ex cs "RanTool t i tool inputs" ds] assms(2,3) by simp
  then have "gated ex ds (replicate n (RanTool t i tool inputs))"
    by (rule gated_replicate)
  moreover have "dry \<longrightarrow> list_all harmless (replicate n (RanTool t i tool inputs))"
    using assms(5) by (simp add: list_all_length)
  ultimately show ?thesis
    using asks_gated [OF assms(4), of ex "[]"] by (simp add: calls_ok_def)
qed

lemma calls_ok_dry:
  assumes "permit ex t i tool inputs cs" and "set cs \<subseteq> set ds" and "list_all is_ask ds"
  shows "calls_ok ex dry (ds @ [RanDry t i tool inputs])"
proof -
  have "permitted ex ds (RanDry t i tool inputs)"
    using permitted_mono [of ex cs "RanDry t i tool inputs" ds] assms(1,2) by simp
  with assms(3) show ?thesis
    by (simp add: calls_ok_def asks_gated)
qed

text \<open>The fallback runs behind its own gate.\<close>

lemma apply_on_error_frame:
  assumes "apply_on_error ex env step name inputs e d st = (st', d')"
  shows "\<exists>w cs. st' = with_calls st w cs \<and> calls_ok ex (l_dry_run (x_local st)) cs"
proof -
  let ?P = "\<lambda>st'. \<exists>w cs. st' = with_calls st w cs \<and> calls_ok ex (l_dry_run (x_local st)) cs"
  let ?fb = "drop (length ''fallback:'') (s_on_error step)"
  have same: "?P st"
    by (intro exI [of _ "x_world st"] exI [of _ "[]"]) simp
  show ?thesis
  proof (cases "st' = st")
    case False
    then obtain tool where tool: "get_tool (ex_tools ex) ?fb = Inr tool"
      using assms by (auto simp: apply_on_error_def Let_def split: if_splits sum.splits)
    obtain s1 gate approval where g: "safety_gate ex env tool inputs st = (s1, gate, approval)"
      by (cases "safety_gate ex env tool inputs st") auto
    from safety_gate_frame [OF g] obtain w cs where s1: "s1 = with_calls st w cs" and cs: "list_all is_ask cs"
      and p: "gate = None \<Longrightarrow> permit ex (se_trace env) (se_index env) tool inputs cs"
      by blast
    have asked: "?P s1"
      using s1 calls_ok_asks [OF cs] by blast
    have ran: "?P (fst (run_logged ex env tool inputs s1))"
      if "gate = None" "l_dry_run (x_local st) \<longrightarrow> side_effects (t_safety tool) \<in> {SE_NONE, SE_READ}"
    proof -
      from run_logged_frame [of ex env tool inputs s1] obtain v r where
        "run_logged ex env tool inputs s1 =
          (with_calls s1 v [RanTool (se_trace env) (se_index env) tool inputs], r)" by blast
      with calls_ok_run [OF cs p [OF that(1)] subset_refl cs that(2), of 1] show ?thesis
        by (intro exI [of _ v] exI [of _ "cs @ [RanTool (se_trace env) (se_index env) tool inputs]"])
          (simp add: s1)
    qed
    have dry: "?P s2" if "gate = None" "dry_run_step ex env name tool inputs s1 = (s2, Some oc)" for s2 oc
    proof -
      from dry_run_step_frame [OF that(2)] obtain v ds where "s2 = with_calls s1 v ds"
        and ds: "ds = [] \<or> ds = [RanDry (se_trace env) (se_index env) tool inputs]" by blast
      with calls_ok_dry [OF p [OF that(1)] subset_refl cs] calls_ok_asks [OF cs] show ?thesis
        by (intro exI [of _ v] exI [of _ "cs @ ds"]) (auto simp: s1)
    qed
    have none: "s2 = s1 \<and> side_effects (t_safety tool) \<in> {SE_NONE, SE_READ}"
      if "dry_run_step ex env name tool inputs s1 = (s2, None)" for s2
      using dry_run_step_frame [OF that] by auto
    have "x_local s1 = x_local st"
      by (simp add: s1)
    with assms False tool g have "(gate \<noteq> None \<and> st' = s1) \<or>
        gate = None \<and> ((l_dry_run (x_local st) \<longrightarrow> (\<exists>s2. dry_run_step ex env name tool inputs s1 = (s2, None))) \<and>
             st' = fst (run_logged ex env tool inputs s1) \<or>
           (\<exists>oc. dry_run_step ex env name tool inputs s1 = (st', Some oc)))"
      by (auto simp: apply_on_error_def Let_def none split: if_splits option.splits prod.splits sum.splits
          dest: none)
    with asked ran dry none show ?thesis
      by blast
  qed (use same in simp)
qed

section \<open>How a state evolves\<close>

text \<open>
  What every operation of a run keeps: the run stays dry or not, calls and events are only added,
  the new calls pass the gates, and a dry run writes neither the cache nor a snapshot.
\<close>

definition evolves :: "('w, 'c, 'k) executor \<Rightarrow> ('w, 'c, 'k) xstate \<Rightarrow> ('w, 'c, 'k) xstate \<Rightarrow> bool" where
  "evolves ex st st' \<longleftrightarrow>
     l_dry_run (x_local st') = l_dry_run (x_local st) \<and>
     (\<exists>cs. x_calls st' = x_calls st @ cs \<and> calls_ok ex (l_dry_run (x_local st)) cs) \<and>
     (\<exists>es. x_events st' = x_events st @ es) \<and>
     (l_dry_run (x_local st) \<longrightarrow>
        x_cache st' = x_cache st \<and> (ex_delete_on_success ex \<or> x_snaps st' = x_snaps st))"

lemma evolves_refl [simp]: "evolves ex st st"
  by (auto simp: evolves_def intro: exI [of _ "[]"])

lemma evolves_trans: "evolves ex a b \<Longrightarrow> evolves ex b c \<Longrightarrow> evolves ex a c"
  unfolding evolves_def by (fastforce intro: calls_ok_append)

lemma evolves_with_calls:
  "calls_ok ex (l_dry_run (x_local st)) cs \<Longrightarrow> evolves ex st (with_calls st w cs)"
  by (auto simp: evolves_def)

lemma evolves_cache:
  "calls_ok ex (l_dry_run (x_local st)) cs \<Longrightarrow> l_dry_run (x_local st) \<longrightarrow> c = x_cache st \<Longrightarrow>
     evolves ex st ((with_calls st w cs)\<lparr>x_cache := c\<rparr>)"
  by (auto simp: evolves_def)

lemma evolves_fire: "evolves ex st (fire ex ev st)"
  by (auto simp: evolves_def fire_def intro: exI [of _ "[]"])

lemma evolves_world: "evolves ex st (st\<lparr>x_world := w\<rparr>)"
  by (simp add: evolves_with_calls world_update)

lemma evolves_local:
  "l_dry_run l = l_dry_run (x_local st) \<Longrightarrow> evolves ex st (st\<lparr>x_local := l\<rparr>)"
  by (auto simp: evolves_def intro: exI [of _ "[]"])

section \<open>A tool step evolves\<close>

lemma cache_put_frame:
  "\<exists>c. cache_put ex key out st = st\<lparr>x_cache := c\<rparr> \<and> (key = None \<longrightarrow> c = x_cache st)"
  by (auto simp: cache_put_def intro: exI [of _ "x_cache st"] split: option.splits)

lemma call_tool_frame:
  assumes "tenacity ex" and "call_tool ex env step name tool inputs key d st = (st', r)"
  shows "\<exists>n w cs c. st' = (with_calls st w
        (replicate n (RanTool (se_trace env) (se_index env) tool inputs) @ cs))\<lparr>x_cache := c\<rparr> \<and>
     n \<le> max_attempts (s_retry step) \<and>
     (ex_strict_safety ex \<and> retry_disallowed_by_contract tool \<longrightarrow> n \<le> 1) \<and>
     calls_ok ex (l_dry_run (x_local st)) cs \<and> (key = None \<longrightarrow> c = x_cache st)"
proof -
  let ?a = "\<lparr>at_x = st, at_count = 0, at_errors = []\<rparr>"
  let ?ran = "\<lambda>n. replicate n (RanTool (se_trace env) (se_index env) tool inputs)"
  obtain a q where i: "invoke_tool ex env tool inputs (s_retry step) ?a = (a, q)"
    by (cases "invoke_tool ex env tool inputs (s_retry step) ?a") auto
  from invoke_tool_attempted [OF assms(1) i] obtain n w where n: "n \<le> max_attempts (s_retry step)"
      "ex_strict_safety ex \<and> retry_disallowed_by_contract tool \<longrightarrow> n \<le> 1"
    and st1: "at_x a = with_calls st w (?ran n)"
    by (auto simp: attempted_def)
  have same: ?thesis if "st' = (at_x a)\<lparr>x_cache := c\<rparr>" "key = None \<longrightarrow> c = x_cache st" for c
    using n that by (intro exI [of _ n] exI [of _ w] exI [of _ "[]"] exI [of _ c]) (simp add: st1)
  have same0: ?thesis if "st' = at_x a"
    using same [of "x_cache st"] that by (simp add: st1 with_calls_def)
  show ?thesis
  proof (cases q)
    case (Inl e)
    with assms(2) i obtain d1 d2 where
      "apply_on_error ex env step name inputs (wrap_tool_exception name (se_index env) e) d1 (at_x a) = (st', d2)"
      by (auto simp: call_tool_def Let_def split: prod.splits)
    from apply_on_error_frame [OF this] obtain v cs where
      "st' = with_calls (at_x a) v cs" "calls_ok ex (l_dry_run (x_local st)) cs"
      by (auto simp: st1)
    with n show ?thesis
      by (intro exI [of _ n] exI [of _ v] exI [of _ cs] exI [of _ "x_cache st"]) (simp add: st1 with_calls_def)
  next
    case (Inr out)
    with assms(2) i have "st' = at_x a \<or> st' = cache_put ex key out (at_x a)"
      by (auto simp: call_tool_def Let_def split: sum.splits if_splits)
    with same0 same cache_put_frame [of ex key out "at_x a"] show ?thesis
      by (fastforce simp: st1)
  qed
qed

lemma cache_key_dry: "cache_key_for ex tool inputs l = Inr key \<Longrightarrow> l_dry_run l \<Longrightarrow> key = None"
  by (auto simp: cache_key_for_def split: if_splits)

lemma gated_call_evolves:
  assumes "tenacity ex"
  shows "evolves ex st (fst (gated_call ex env step name tool inputs d st))"
proof -
  let ?G = "gated_call ex env step name tool inputs d st"
  let ?permit = "permit ex (se_trace env) (se_index env) tool inputs"
  obtain s1 gate appr where g: "safety_gate ex env tool inputs st = (s1, gate, appr)"
    by (cases "safety_gate ex env tool inputs st") auto
  from safety_gate_frame [OF g] obtain w1 cs1 where s1: "s1 = with_calls st w1 cs1"
    and cs1: "list_all is_ask cs1" and p: "gate = None \<Longrightarrow> ?permit cs1"
    by blast
  obtain s2 verdict where i: "input_guardrail ex env tool inputs s1 = (s2, verdict)"
    by (cases "input_guardrail ex env tool inputs s1") auto
  from input_guardrail_frame [OF i] obtain w2 cs2 where s2: "s2 = with_calls st w2 (cs1 @ cs2)"
    and cs2: "list_all is_ask cs2"
    by (auto simp: s1)
  have asks: "list_all is_ask (cs1 @ cs2)"
    using cs1 cs2 by simp
  have e1: "evolves ex st s1" and e2: "evolves ex st s2"
    by (simp_all add: s1 s2 evolves_with_calls calls_ok_asks cs1 asks del: list_all_append)
  show ?thesis
  proof (cases "gate = None \<and> verdict = None")
    case False
    with e1 e2 g i show ?thesis
      by (auto simp: gated_call_def Let_def split: option.splits)
  next
    case True
    define s3oc where "s3oc = (if l_dry_run (x_local s2) then dry_run_step ex env name tool inputs s2 else (s2, None))"
    obtain s3 oc where s3: "s3oc = (s3, oc)" by (cases s3oc)
    show ?thesis
    proof (cases oc)
      case (Some outc)
      with s3 have "dry_run_step ex env name tool inputs s2 = (s3, Some outc)"
        by (simp add: s3oc_def split: if_splits)
      from dry_run_step_frame [OF this] obtain w cs where s3': "s3 = with_calls s2 w cs"
        and cs: "cs = [] \<or> cs = [RanDry (se_trace env) (se_index env) tool inputs]"
        by blast
      have "calls_ok ex (l_dry_run (x_local st)) ((cs1 @ cs2) @ cs)"
        using cs calls_ok_asks [OF asks] calls_ok_dry [OF p _ asks] True by auto
      then have "evolves ex st s3"
        by (simp add: s3' s2 evolves_with_calls)
      with True g i s3 Some show ?thesis
        by (simp add: gated_call_def s3oc_def)
    next
      case None
      then have same: "s3 = s2" and ro: "l_dry_run (x_local st) \<longrightarrow> side_effects (t_safety tool) \<in> {SE_NONE, SE_READ}"
        using s3 dry_run_step_frame [of ex env name tool inputs s2 s3 oc]
        by (auto simp: s3oc_def s2 split: if_splits)
      have call: "evolves ex st s4" if "cache_key_for ex tool inputs (x_local s2) = Inr key"
        and c: "call_tool ex env step name tool inputs key dd s2 = (s4, r)" for key dd s4 r
      proof -
        from call_tool_frame [OF assms c] obtain n w cs cc where
          s4: "s4 = (with_calls s2 w (replicate n (RanTool (se_trace env) (se_index env) tool inputs) @ cs))\<lparr>x_cache := cc\<rparr>"
          and ok: "calls_ok ex (l_dry_run (x_local s2)) cs" and k: "key = None \<longrightarrow> cc = x_cache s2"
          by blast
        from calls_ok_run [OF cs1 p _ asks ro, of n] True
        have "calls_ok ex (l_dry_run (x_local st)) ((cs1 @ cs2) @ replicate n (RanTool (se_trace env) (se_index env) tool inputs))"
          by auto
        from calls_ok_append [OF this] ok have
          "calls_ok ex (l_dry_run (x_local st)) (cs1 @ cs2 @ replicate n (RanTool (se_trace env) (se_index env) tool inputs) @ cs)"
          by (simp add: s2)
        then show ?thesis
          using k cache_key_dry [OF that(1)] by (auto simp: s4 s2 intro: evolves_cache)
      qed
      show ?thesis
      proof (cases "cache_key_for ex tool inputs (x_local s2)")
        case (Inl e)
        with True g i s3 None same e2 show ?thesis
          by (simp add: gated_call_def s3oc_def)
      next
        case (Inr key)
        let ?c = "call_tool ex env step name tool inputs key (d\<lparr>sd_approval := appr\<rparr>) s2"
        have "fst ?G = (if cache_get ex key s2 = None then fst ?c else s2)"
          using True g i s3 None same Inr by (auto simp: gated_call_def s3oc_def split: option.splits)
        with e2 call [OF Inr, of "d\<lparr>sd_approval := appr\<rparr>" "fst ?c" "snd ?c"] show ?thesis
          by simp
      qed
    qed
  qed
qed

lemma evolves_bind:
  assumes "evolves ex st (fst x)" and "\<And>s a. x = (s, Inr a) \<Longrightarrow> evolves ex s (fst (f s a))"
  shows "evolves ex st (fst (bind_st x f))"
  using assms by (cases x; cases "snd x") (auto intro: evolves_trans)

lemma tool_step_evolves:
  assumes "tenacity ex"
  shows "evolves ex st (fst (execute_tool_step ex env step name decision ctx st))"
proof -
  have "evolves ex st (fst (bind_st (gated_call ex env step name tool inputs d (fire ex ev st)) (\<lambda>st d.
               finish ex env (StepRecord d None) st)))" for tool inputs d ev
    using evolves_trans [OF evolves_fire gated_call_evolves [OF assms]]
    by (intro evolves_bind) (simp_all add: finish_def evolves_fire)
  then show ?thesis
    by (auto simp: execute_tool_step_def Let_def finish_def evolves_fire split: sum.splits prod.splits)
qed

lemma decision_evolves: "evolves ex st (fst (resolve_decision ex env step ctx st))"
proof (cases "s_decision_candidates step = None \<or> ex_decision ex = None \<or> (\<exists>e. display_name step = Inl e)")
  case True
  then show ?thesis
    by (auto simp: resolve_decision_def split: option.splits)
next
  case False
  then obtain cands decide dflt where c: "s_decision_candidates step = Some cands" "ex_decision ex = Some decide"
    "display_name step = Inr dflt"
    by (cases "display_name step") auto
  let ?n = "l_decision_count (x_local st) + 1"
  let ?s1 = "st\<lparr>x_local := x_local st\<lparr>l_decision_count := ?n\<rparr>\<rparr>"
  have e1: "evolves ex st ?s1"
    by (rule evolves_local) simp
  have called: "evolves ex st s2" if "call_decision ex decide cc cands ?s1 = (s2, oc)" for cc s2 oc
    using that by (intro evolves_trans [OF e1])
      (auto simp: call_decision_def log_call_world intro!: evolves_with_calls calls_ok_asks split: prod.splits)
  have "evolves ex st (fst (decision_failed ex env dflt e s))" if "evolves ex st s" for e s
    using that evolves_fire by (auto simp: decision_failed_def finish_def intro: evolves_trans)
  with called e1 c show ?thesis
    by (auto simp: resolve_decision_def Let_def split: option.splits prod.splits decision_outcome.splits)
qed

end
