(* ===== verification/Sample.thy ===== *)
theory Sample
  imports FlowExec StepProps
begin

text \<open>
  A concrete executor with a writing tool behind an approval and a flow of one step, in a world
  that counts the writes; its retry loop is the documented one.  The bundle \<open>run_eval\<close> evaluates
  its runs.
\<close>

definition sample_platform :: "nat platform" where
  "sample_platform =
     \<lparr>pl_sha256 = id, pl_set_text = (\<lambda>_. []), pl_input_hash = (\<lambda>_. []), pl_in_loop = False,
      pl_ref_policy = None, pl_load_class = (\<lambda>_ _. Inl []), pl_isinstance = (\<lambda>_ _. True),
      pl_parse = Inl, pl_set_order = dedup_first, pl_random = (\<lambda>w. (w, 0)), pl_sleep = (\<lambda>_ w. w),
      pl_now = int, pl_trace_id = nat_text\<rparr>"

definition sample_retrying :: "(nat, 'c, 'k) retryer" where
  "sample_retrying n wait retryable f a =
     retry_loop (\<lambda>d a. a\<lparr>at_x := at_x a\<lparr>x_world := x_world (at_x a)\<rparr>\<rparr>) False wait retryable f (n - 1) 1 a"

definition sample_executor :: "any_flow list \<Rightarrow> nat tools \<Rightarrow> (nat, 'c, 'k) executor" where
  "sample_executor flows tools =
     \<lparr>ex_platform = sample_platform,
      ex_get_flow = (\<lambda>name v. case find (\<lambda>f. af_name f = name) flows of
         None \<Rightarrow> Inl (FlowNotFoundError name None) | Some f \<Rightarrow> Inr f),
      ex_tools = tools, ex_middleware = [], ex_step_cache = None, ex_checkpointer = None,
      ex_delete_on_success = False, ex_decision = None, ex_decision_policy = None,
      ex_approval = Some (\<lambda>w c s. (w, Inr Approve)), ex_strict_safety = False,
      ex_max_side_effect = Some SE_WRITE, ex_guardrail = None, ex_redact = None, ex_recorder = False,
      ex_cost_profile = None, ex_max_depth = 2, ex_capability = None, ex_retrying = sample_retrying\<rparr>"

definition sample_state :: "(nat, unit, unit) xstate" where
  "sample_state =
     \<lparr>x_world = 0, x_cache = (), x_snaps = (), x_events = [], x_observed = [], x_next_trace = 0,
      x_local = fresh_local, x_calls = []\<rparr>"

lemma sample_tenacity: "tenacity (sample_executor flows tools)"
  unfolding tenacity_def
  by (intro exI [of _ False] allI impI)
    (simp add: sample_executor_def sample_platform_def sample_retrying_def sleep_at_def [abs_def])

definition writer :: "nat tool" where
  "writer = sample_tool ''write'' (default_safety\<lparr>side_effects := SE_WRITE, read_only := False,
     requires_approval := True, supports_dry_run := True\<rparr>) (\<lambda>w d. (w + 1, 0, Inr (VDict d)))"

definition write_flow :: any_flow where
  "write_flow = LinearFlow (mk_flow ''f'' [mk_step\<lparr>s_tool_name := Some ''write''\<rparr>])"

definition sample_ex :: "(nat, unit, unit) executor" where
  "sample_ex = sample_executor [write_flow] [(''write'', writer)]"

lemma sample_ex_tenacity: "tenacity sample_ex"
  unfolding sample_ex_def by (rule sample_tenacity)

text \<open>The same with a step cache that already holds the outputs of the tool for the empty input.\<close>

definition cached_ex :: "(nat, mem_cache, unit) executor" where
  "cached_ex = (sample_executor [write_flow] [(''write'', writer)])\<lparr>ex_step_cache := Some in_memory_cache\<rparr>"

definition cached_state :: "(nat, mem_cache, unit) xstate" where
  "cached_state =
     \<lparr>x_world = 0,
      x_cache = [(digest \<lparr>ck_tool_name = ''write'', ck_schema_hash = schema_hash sample_platform writer,
                    ck_input_value_hash = []\<rparr>, [(''k'', VInt 7)])],
      x_snaps = (), x_events = [], x_observed = [], x_next_trace = 0, x_local = fresh_local, x_calls = []\<rparr>"

lemma cached_tenacity: "tenacity cached_ex"
proof -
  have "tenacity (sample_executor [write_flow] [(''write'', writer)] :: (nat, mem_cache, unit) executor)"
    by (rule sample_tenacity)
  then show ?thesis
    by (simp add: tenacity_def cached_ex_def sleep_at_def [abs_def])
qed

lemma sample_ex_simps:
  "ex_platform sample_ex = sample_platform" "ex_tools sample_ex = [(''write'', writer)]"
  "ex_middleware sample_ex = []" "ex_step_cache sample_ex = None" "ex_checkpointer sample_ex = None"
  "ex_delete_on_success sample_ex = False" "ex_decision sample_ex = None"
  "ex_approval sample_ex = Some (\<lambda>w c s. (w, Inr Approve))" "ex_strict_safety sample_ex = False"
  "ex_max_side_effect sample_ex = Some SE_WRITE" "ex_guardrail sample_ex = None" "ex_redact sample_ex = None"
  "ex_recorder sample_ex = False" "ex_cost_profile sample_ex = None" "ex_max_depth sample_ex = 2"
  "ex_get_flow sample_ex name v = (if name = ''f'' then Inr write_flow else Inl (FlowNotFoundError name None))"
  by (simp_all add: sample_ex_def sample_executor_def write_flow_def mk_flow_def af_simps)

text \<open>The definitions a run of a linear flow goes through.\<close>

lemmas run_eval =
  start_flow_unfold entered_def enter_run_def sample_state_def copy_local_def fresh_local_def
  execute_flow_impl_def mk_flow_def mk_step_def af_simps set_version_def
  validate_composition_def visit.simps
  execute_linear_def new_trace_id_def check_input_def validate_flow_schema_def fire_def seed_context_def
  linear_step_def check_cancellation_def no_opts_def execute_step_def resolve_decision_def display_name_def
  py_or_def execute_tool_step_def prepare_step_def get_tool_def resolve_inputs_def check_step_contract_def
  gated_call_def safety_gate_def sample_tool_def default_safety_def call_ctx_of_def log_call_def
  input_guardrail_def cache_key_for_def cache_get_def
  call_tool_def invoke_tool_def attempt_def run_logged_def run_def object_schema_def call_fn_def
  validate_output_def check_outputs_def cache_put_def finish_def
  reanchor_cancellation_def merge_step_outputs_def apply_output_mapping_def collisions_def save_snapshot_def
  side_effect_exceeds_def record_simps blank_step_def finish_flow_def make_result_def Let_def sample_ex_simps
  dry_run_step_def run_dry_logged_def run_dry_def
  write_flow_def writer_def with_outcome.simps build_result_def composition_adjustment_def

end
