(* ===== verification/RunRel.thy ===== *)
theory RunRel
  imports FlowExec StepProps
begin

text \<open>
  What every operation of the executor keeps, a whole run keeps: the locale \<open>run_rel\<close> takes a
  relation on states with a law for each primitive operation and carries it through the linear
  lane, the DAG lane and nested sub-flows.  It is interpreted on \<open>evolves\<close>, which gives the
  properties of whole runs: gated calls, harmless dry runs.
\<close>

locale run_rel =
  fixes ex :: "('w, 'c, 'k) executor"
    and R :: "('w, 'c, 'k) xstate \<Rightarrow> ('w, 'c, 'k) xstate \<Rightarrow> bool"
  assumes refl: "R st st"
    and trans: "R a b \<Longrightarrow> R b c \<Longrightarrow> R a c"
    and fire: "R st (fire ex ev st)"
    and world: "R st (st\<lparr>x_world := w\<rparr>)"
    and observed: "R st (st\<lparr>x_observed := os\<rparr>)"
    and trace: "R st (fst (new_trace_id ex st))"
    and version: "R st (set_version v st)"
    and snaps: "ex_delete_on_success ex \<or> \<not> l_dry_run (x_local st) \<Longrightarrow> R st (st\<lparr>x_snaps := k\<rparr>)"
    and decision: "R st (fst (resolve_decision ex env step ctx st))"
    and tool: "R st (fst (execute_tool_step ex env step name chosen ctx st))"
    and scope: "R (st\<lparr>x_local := enter_run False ''skip'' None (copy_local (x_local st))\<rparr>) st' \<Longrightarrow>
      R st (st'\<lparr>x_local := x_local st\<rparr>)"

context run_rel
begin

lemma bind:
  assumes "R st (fst x)" and "\<And>s a. x = (s, Inr a) \<Longrightarrow> R s (fst (f s a))"
  shows "R st (fst (bind_st x f))"
  using assms by (cases x; cases "snd x") (auto intro: trans)

lemma after_fire: "R (fire ex ev st) st' \<Longrightarrow> R st st'"
  by (rule trans [OF fire])

lemma finished: "R st (fst (finish ex env r st))"
  by (simp add: finish_def fire)

lemma made_result: "R st (fst (make_result ex flow_name tr input success output recs tools st))"
proof -
  let ?r = "build_result ex (x_local st) flow_name tr input success output recs tools"
  let ?s = "if ex_recorder ex then st\<lparr>x_observed := x_observed st @ [observe ?r]\<rparr> else st"
  have s: "R st ?s"
    by (simp add: refl observed)
  have ended: "R st (fire ex ev ?s)" for ev
    by (rule trans [OF s fire])
  have del: "R st (?s\<lparr>x_snaps := k\<rparr>)" if "ex_delete_on_success ex" for k
    using that by (intro trans [OF s snaps]) simp
  have del_ended: "R st (fire ex ev (?s\<lparr>x_snaps := k\<rparr>))" if "ex_delete_on_success ex" for k ev
    by (rule trans [OF del [OF that] fire])
  show ?thesis
    unfolding make_result_def Let_def
    using ended del del_ended by (auto split: option.splits prod.splits sum.splits)
qed

lemma checked_cancellation: "R st (fst (check_cancellation ex flow_name tr input idx opts recs st))"
  by (auto simp: check_cancellation_def Let_def refl intro!: bind made_result split: option.splits)

lemma reanchored:
  assumes "R st (fst x)"
  shows "R st (fst (reanchor_cancellation ex flow_name tr input step idx recs x))"
  using assms by (auto simp: reanchor_cancellation_def Let_def refl
      intro!: bind trans [OF assms] made_result split: prod.splits sum.splits raised.splits)

lemma saved: "R st (fst (save_snapshot ex f tr input ctx recs steps levels st))"
  by (auto simp: save_snapshot_def refl intro: snaps split: option.splits sum.splits prod.splits)

lemma finished_flow: "R st (fst (finish_flow ex f flow_name tr input ctx recs st))"
  by (auto simp: finish_flow_def Let_def refl made_result split: option.splits sum.splits)

lemma checked_input: "R st (fst (check_input ex f name tr input st))"
  by (auto simp: check_input_def refl intro!: bind made_result split: option.splits sum.splits)

lemma capability: "R st (fst (execute_capability_step ex f tr idx step name ctx st))"
  by (auto simp: execute_capability_step_def Let_def refl
      intro: trans [OF world fire] trans [OF trans [OF world fire] fire] fire world trans [OF fire fire]
      split: option.splits sum.splits prod.splits)

end

text \<open>The steps and lanes, for a recursive call that stays in the relation.\<close>

context run_rel
begin

lemma subflow_step:
  assumes "\<And>name input opts st. R st (fst (rec name input opts st))"
  shows "R st (fst (execute_subflow_step ex rec env step sub ctx opts st))"
proof -
  have "R st (fst (bind_st (set_version v (fst (rec sub inputs opts (fire ex ev st))),
      snd (rec sub inputs opts (fire ex ev st))) (\<lambda>st r. finish ex env (g r) st)))" for v inputs ev g
    by (rule bind) (auto intro: trans [OF after_fire [OF assms] version] finished)
  then have sub: "R st (fst (bind_st (set_version v s, r) (\<lambda>st r. finish ex env (g r) st)))"
    if "rec sub inputs opts (fire ex ev st) = (s, r)" for v inputs ev g s r
    using that by (metis fst_conv snd_conv)
  show ?thesis
    by (auto simp: execute_subflow_step_def refl intro: sub split: sum.splits exn.splits prod.splits)
qed

lemma step:
  assumes "\<And>name input opts st. R st (fst (rec name input opts st))"
  shows "R st (fst (execute_step ex rec env step ctx opts st))"
  by (auto simp: execute_step_def refl
      intro!: subflow_step [OF assms] bind decision tool split: option.splits decided.splits sum.splits)

lemma linear_step_rel:
  assumes "\<And>name input opts st. R st (fst (rec name input opts st))"
  shows "R st (fst (linear_step ex rec f name tr input opts idx step ctx recs st))"
  unfolding linear_step_def Let_def
  by (intro bind checked_cancellation reanchored step assms)
    (auto simp: refl intro!: bind made_result saved split: option.splits sum.splits)

lemma linear_loop_rel:
  assumes "\<And>name input opts st. R st (fst (rec name input opts st))"
  shows "R st (fst (linear_loop ex rec f name tr input opts idx steps ctx recs st))"
proof (induction steps arbitrary: idx ctx recs st)
  case (Cons s steps)
  then show ?case
    by (auto intro!: bind linear_step_rel [OF assms] simp: refl split: sum.splits)
qed (simp add: refl)

lemma linear_rel:
  assumes "\<And>name input opts st. R st (fst (rec name input opts st))"
  shows "R st (fst (execute_linear ex rec f name input opts st))"
proof -
  obtain s tr where t: "new_trace_id ex st = (s, tr)"
    by (cases "new_trace_id ex st")
  have s: "R st (fire ex ev s)" for ev
    using trans [OF trace [of st] fire] by (simp add: t)
  show ?thesis
    unfolding execute_linear_def t
    by (auto intro!: bind trans [OF s checked_input] linear_loop_rel [OF assms] finished_flow
          simp: refl split: option.splits loop_end.splits)
qed

lemma level_step_rel:
  assumes "\<And>name input opts st. R st (fst (rec name input opts st))"
  shows "R st (fst (level_step ex rec f tr input opts recs ctx step lv st))"
proof -
  have "R st (fst (dispatch_dag_step ex rec f tr input opts recs idx step name ctx st))" for recs idx name
    by (simp add: dispatch_dag_step_def reanchored step [OF assms] capability)
  then show ?thesis
    by (auto simp: level_step_def Let_def refl intro!: bind made_result split: sum.splits option.splits)
qed

lemma run_level_rel:
  assumes "\<And>name input opts st. R st (fst (rec name input opts st))"
  shows "R st (fst (run_level ex rec f tr input opts recs ctx steps lv st))"
proof (induction steps arbitrary: lv st)
  case (Cons s steps)
  then show ?case
    by (auto intro!: bind level_step_rel [OF assms] simp: refl split: level_end.splits)
qed (simp add: refl)

lemma dag_level_rel:
  assumes "\<And>name input opts st. R st (fst (rec name input opts st))"
  shows "R st (fst (dag_level ex rec f tr input opts lvl steps ctx recs skipped idx st))"
  unfolding dag_level_def
  by (intro bind checked_cancellation run_level_rel assms)
    (auto simp: Let_def refl intro!: bind saved split: level_end.splits sum.splits)

lemma dag_loop_rel:
  assumes "\<And>name input opts st. R st (fst (rec name input opts st))"
  shows "R st (fst (dag_loop ex rec f tr input opts lvl levels ctx recs skipped idx st))"
proof (induction levels arbitrary: lvl ctx recs skipped idx st)
  case (Cons l levels)
  then show ?case
    by (auto intro!: bind dag_level_rel [OF assms] simp: refl split: sum.splits)
qed (simp add: refl)

lemma dag_body_rel:
  assumes "\<And>name input opts st. R st (fst (rec name input opts st))"
  shows "R st (fst (dag_body ex rec f tr input opts lvl ctx recs st))"
  by (auto simp: dag_body_def refl intro!: bind dag_loop_rel [OF assms] finished_flow
      split: sum.splits loop_end.splits)

lemma dag_rel:
  assumes "\<And>name input opts st. R st (fst (rec name input opts st))"
  shows "R st (fst (execute_dag ex rec f input opts st))"
proof -
  let ?v = "set_version (f_version f) st"
  obtain s tr where t: "new_trace_id ex ?v = (s, tr)"
    by (cases "new_trace_id ex ?v")
  have v: "R st (fire ex ev ?v)" for ev
    by (rule trans [OF version fire])
  have s: "R st (fire ex ev s)" for ev
    using trans [OF trans [OF version trace, of st "f_version f"] fire] by (simp add: t)
  show ?thesis
    unfolding execute_dag_def Let_def t
    by (auto intro!: trans [OF v dag_body_rel [OF assms]] bind trans [OF s checked_input]
          dag_body_rel [OF assms] simp: refl split: option.splits)
qed

lemma impl:
  assumes "\<And>name input opts st. R st (fst (rec name input opts st))"
  shows "R st (fst (execute_flow_impl ex rec name input vers force opts st))"
  using trans [OF version linear_rel [OF assms]] trans [OF version dag_rel [OF assms]]
  by (auto simp: execute_flow_impl_def Let_def refl version split: sum.splits option.splits any_flow.splits)

lemma nested: "R st (fst (run_flow ex n name input opts st))"
proof (induction n arbitrary: name input opts st)
  case (Suc n)
  have "R (st\<lparr>x_local := enter_run False ''skip'' None (copy_local (x_local st))\<rparr>)
      (fst (execute_flow_impl ex (run_flow ex n) name input None False opts
         (st\<lparr>x_local := enter_run False ''skip'' None (copy_local (x_local st))\<rparr>)))"
    by (rule impl) (rule Suc.IH)
  from scope [OF this] show ?case
    by (simp add: execute_flow_def run_scope_def case_prod_beta)
qed (simp add: refl)

text \<open>The body of a run, from the state in which it enters its scope.\<close>

lemma whole: "R st (fst (execute_flow_impl ex (run_flow ex n) name input vers force opts st))"
  by (rule impl) (rule nested)

end

end
