(* ===== verification/RunProps.thy ===== *)
theory RunProps
  imports RunRel Sample
begin

text \<open>
  Properties of whole runs of \<open>execute_flow\<close>: the gates in front of every tool call, dry runs
  without effects.
\<close>

section \<open>Runs evolve\<close>

interpretation ev: run_rel ex "\<lambda>st st'. tenacity ex \<longrightarrow> evolves ex st st'" for ex
proof unfold_locales
  fix st st'
  assume "tenacity ex \<longrightarrow> evolves ex (st\<lparr>x_local := enter_run False ''skip'' None (copy_local (x_local st))\<rparr>) st'"
  then show "tenacity ex \<longrightarrow> evolves ex st (st'\<lparr>x_local := x_local st\<rparr>)"
    by (auto simp: evolves_def enter_run_def copy_local_def)
qed (auto simp: evolves_fire evolves_world set_version_def decision_evolves tool_step_evolves
  new_trace_id_def intro: evolves_trans evolves_local, auto simp: evolves_def intro: exI [of _ "[]"])

lemma start_flow_cases:
  obtains "fst (start_flow ex name input vers force opts dry unsupported dyn st) = st"
  | st' where "tenacity ex \<longrightarrow> evolves ex (entered dry unsupported dyn st) st'"
      "fst (start_flow ex name input vers force opts dry unsupported dyn st) = st'\<lparr>x_local := x_local st\<rparr>"
proof (cases "unsupported \<noteq> ''skip'' \<and> unsupported \<noteq> ''abort''")
  case True
  with that(1) show ?thesis by (simp add: start_flow_unfold)
next
  case False
  with that(2) [OF ev.whole] show ?thesis by (simp add: start_flow_unfold case_prod_beta)
qed

lemma enter_run_dry: "l_dry_run (enter_run dry unsupported dyn l) \<longleftrightarrow> dry \<or> l_dry_run l"
  by (auto simp: enter_run_def Let_def split: option.splits)

lemma start_flow_calls:
  assumes "tenacity ex"
  shows "\<exists>cs. x_calls (fst (start_flow ex name input vers force opts dry unsupported dyn st)) =
      x_calls st @ cs \<and> calls_ok ex (dry \<or> l_dry_run (x_local st)) cs"
  by (rule start_flow_cases [of ex name input vers force opts dry unsupported dyn st])
    (use assms in \<open>auto simp: evolves_def entered_def enter_run_dry copy_local_def\<close>)

lemma gated_split: "gated ex seen (as @ c # bs) \<Longrightarrow> permitted ex (seen @ as) c"
  by simp

section \<open>Gates and dry runs\<close>





section \<open>Retries\<close>

text \<open>Attempts and recorded errors differ by the successful attempt.\<close>

definition err_gap :: "('w, 'c, 'k) attempt_state \<Rightarrow> int" where
  "err_gap a = int (at_count a) - int (length (at_errors a))"

definition won :: "exn + 'v \<Rightarrow> int" where
  "won r = (case r of Inl _ \<Rightarrow> 0 | Inr _ \<Rightarrow> 1)"

lemma won_simps [simp]: "won (Inl e) = 0" "won (Inr v) = 1"
  by (simp_all add: won_def)

lemma attempt_gap: "attempt ex env tool inputs mk a = (b, r) \<Longrightarrow> err_gap b = err_gap a + won r"
  by (auto simp: attempt_def Let_def err_gap_def won_def split: prod.split_asm sum.split_asm)

lemma delay_gap: "delay_before ex p n a = (b, d) \<Longrightarrow> err_gap b = err_gap a"
  by (auto simp: delay_before_def err_gap_def split: if_split_asm prod.split_asm)

lemma sleep_gap [simp]: "err_gap (sleep_at ex d a) = err_gap a"
  by (simp add: sleep_at_def err_gap_def)

lemma retry_loop_gap:
  "retry_loop (sleep_at ex) early (delay_before ex p) retryable (attempt ex env tool inputs mk) left k a = (b, r) \<Longrightarrow>
     err_gap b = err_gap a + won r"
proof (induction left arbitrary: k a)
  case 0
  then show ?case
    by (cases "delay_before ex p k (fst (attempt ex env tool inputs mk a))")
      (auto split: prod.split_asm sum.split_asm if_split_asm dest!: attempt_gap delay_gap)
next
  case (Suc left)
  obtain s q where t: "attempt ex env tool inputs mk a = (s, q)"
    by (cases "attempt ex env tool inputs mk a")
  obtain c d where w: "delay_before ex p k s = (c, d)"
    by (cases "delay_before ex p k s")
  from Suc.prems t w Suc.IH [of "k + 1" "sleep_at ex d c"] attempt_gap [OF t] delay_gap [OF w] show ?case
    by (auto split: sum.split_asm if_split_asm)
qed

lemma invoke_tool_gap:
  assumes "tenacity ex" and "invoke_tool ex env tool inputs policy a = (b, r)"
  shows "err_gap b = err_gap a + won r"
proof -
  from assms(1) obtain early where R: "\<And>n wait retryable f a. 0 < n \<Longrightarrow>
      ex_retrying ex n wait retryable f a = retry_loop (sleep_at ex) early wait retryable f (n - 1) 1 a"
    by (auto simp: tenacity_def)
  from assms(2) show ?thesis
    by (auto simp: invoke_tool_def R split: option.split_asm if_split_asm sum.split_asm
        dest: attempt_gap retry_loop_gap)
qed

text \<open>
  C10: A guarded tool call runs the tool at most \<open>max_retries\<close> + 1 times and exactly once when strict
  safety is on and the tool's contract rules out retries; each attempt is counted, and each failed
  one leaves an entry in the list of retry errors.
\<close>

theorem attempts_are_bounded:
  assumes "tenacity ex" and "invoke_tool ex env tool inputs policy a = (b, r)"
  shows "\<exists>n. x_calls (at_x b) = x_calls (at_x a) @ replicate n (RanTool (se_trace env) (se_index env) tool inputs) \<and>
    at_count b = at_count a + n \<and>
    n \<le> (case policy of None \<Rightarrow> 1 | Some p \<Rightarrow> max_retries p + 1) \<and>
    (ex_strict_safety ex \<and> retry_disallowed_by_contract tool \<longrightarrow> n = 1) \<and>
    length (at_errors b) + (case r of Inl _ \<Rightarrow> 0 | Inr _ \<Rightarrow> 1) = length (at_errors a) + n"
proof -
  from invoke_tool_attempted [OF assms] obtain n where n: "n \<le> max_attempts policy"
    "attempted env tool inputs n a b" "ex_strict_safety ex \<and> retry_disallowed_by_contract tool \<longrightarrow> n = 1"
    by blast
  with invoke_tool_gap [OF assms] show ?thesis
    by (intro exI [of _ n]) (auto simp: attempted_def max_attempts_def err_gap_def split: sum.splits)
qed

theorem attempts_are_bounded_witness:
  "\<exists>b r. invoke_tool sample_ex \<lparr>se_trace = [], se_flow = [], se_index = 0, se_step_id = None\<rparr>
       writer [] (Some default_retry_policy) \<lparr>at_x = sample_state, at_count = 0, at_errors = []\<rparr> = (b, r) \<and>
     at_count b \<le> max_retries default_retry_policy + 1"
proof -
  let ?i = "invoke_tool sample_ex \<lparr>se_trace = [], se_flow = [], se_index = 0, se_step_id = None\<rparr>
       writer [] (Some default_retry_policy) \<lparr>at_x = sample_state, at_count = 0, at_errors = []\<rparr>"
  obtain b r where i: "?i = (b, r)" by (cases ?i)
  from attempts_are_bounded [OF sample_ex_tenacity i] i
  show ?thesis
    by auto
qed

section \<open>The step cache\<close>

lemma outcome_fields [simp]:
  "sd_cached (with_outcome oc d) = sd_cached d"
  "sd_fallback_used (with_outcome oc d) = sd_fallback_used d"
  by (cases oc; simp)+

lemma check_outputs_Inr:
  "check_outputs ex env step name out d = Inr d' \<Longrightarrow>
     d' = with_outcome (Succeeded out) d \<or> (\<exists>e. d' = with_outcome (Failed e) d)"
  by (auto simp: check_outputs_def simp del: with_outcome.simps split: sum.split_asm option.split_asm)

lemma apply_on_error_marks:
  assumes "apply_on_error ex env step name inputs e d st = (st', d')" and "sd_success d'"
  shows "sd_skipped d' \<or> sd_fallback_used d'"
  using assms by (auto simp: apply_on_error_def fallback_data_def Let_def
      split: prod.split_asm sum.split_asm option.split_asm if_split_asm)

lemma apply_on_error_cached:
  "apply_on_error ex env step name inputs e d st = (st', d') \<Longrightarrow> sd_cached d' = sd_cached d"
  by (auto simp: apply_on_error_def fallback_data_def Let_def simp del: with_outcome.simps
      split: prod.split_asm sum.split_asm option.split_asm if_split_asm)

lemma invoke_tool_cache:
  assumes "tenacity ex" and "invoke_tool ex env tool inputs policy a = (b, r)"
  shows "x_cache (at_x b) = x_cache (at_x a)"
  using invoke_tool_attempted [OF assms] by (auto simp: attempted_def)

text \<open>The cache after a call is the one before, or has the outputs of a plain success in it.\<close>

definition cache_effect ::
  "('w, 'c, 'k) executor \<Rightarrow> cache_key option \<Rightarrow> step_data \<Rightarrow> 'c \<Rightarrow> 'c \<Rightarrow> bool" where
  "cache_effect ex key d c c' \<longleftrightarrow> c' = c \<or>
     (\<exists>ops k out. ex_step_cache ex = Some ops \<and> key = Some k \<and> c' = op_cache_set ops c k out \<and>
        sd_success d \<and> sd_outputs d = Some out \<and> \<not> sd_skipped d)"

lemma call_tool_cache:
  assumes "tenacity ex" and "call_tool ex env step name tool inputs key d st = (st', Inr d')"
  shows "cache_effect ex key d' (x_cache st) (x_cache st') \<and> sd_cached d' = sd_cached d \<and>
    (x_cache st' \<noteq> x_cache st \<longrightarrow> sd_fallback_used d' = sd_fallback_used d)"
proof -
  let ?a = "\<lparr>at_x = st, at_count = 0, at_errors = []\<rparr>"
  obtain a r where i: "invoke_tool ex env tool inputs (s_retry step) ?a = (a, r)"
    by (cases "invoke_tool ex env tool inputs (s_retry step) ?a")
  from invoke_tool_cache [OF assms(1) i] have c: "x_cache (at_x a) = x_cache st"
    by simp
  let ?d = "d\<lparr>sd_retry_count := at_count a - 1, sd_retry_errors := at_errors a\<rparr>"
  show ?thesis
  proof (cases r)
    case (Inl e)
    obtain s q where h: "apply_on_error ex env step name inputs (wrap_tool_exception name (se_index env) e) ?d (at_x a) = (s, q)"
      by (cases "apply_on_error ex env step name inputs (wrap_tool_exception name (se_index env) e) ?d (at_x a)")
    with assms(2) i Inl have "st' = s" "d' = q"
      by (simp_all add: call_tool_def)
    with apply_on_error_frame [OF h] apply_on_error_cached [OF h] c show ?thesis
      by (auto simp: cache_effect_def)
  next
    case (Inr out)
    with assms(2) i obtain d2 where "check_outputs ex env step name out ?d = Inr d2" "d' = d2"
      "st' = (if sd_success d2 then cache_put ex key out (at_x a) else at_x a)"
      by (auto simp: call_tool_def Let_def split: sum.split_asm)
    with check_outputs_Inr [of ex env step name out ?d d2] c show ?thesis
      by (auto simp: cache_effect_def cache_put_def split: option.splits)
  qed
qed

lemma gated_call_cases:
  assumes "gated_call ex env step name tool inputs d st = (st', Inr d')"
  obtains s w cs where "s = with_calls st w cs" "list_all is_ask cs" "st' = s" "sd_cached d' = sd_cached d"
  | s w cs oc where "s = with_calls st w cs" "list_all is_ask cs"
      "dry_run_step ex env name tool inputs s = (st', Some oc)" "sd_cached d' = sd_cached d"
  | s w cs key approval out d2 where "s = with_calls st w cs" "list_all is_ask cs" "st' = s"
      "cache_key_for ex tool inputs (x_local st) = Inr key" "cache_get ex key s = Some out"
      "check_outputs ex env step name out (d\<lparr>sd_approval := approval\<rparr>) = Inr d2"
      "d' = d2\<lparr>sd_cached := sd_success d2\<rparr>"
  | s w cs key approval where "s = with_calls st w cs" "list_all is_ask cs"
      "cache_key_for ex tool inputs (x_local st) = Inr key"
      "call_tool ex env step name tool inputs key (d\<lparr>sd_approval := approval\<rparr>) s = (st', Inr d')"
proof -
  obtain s1 gate approval where g: "safety_gate ex env tool inputs st = (s1, gate, approval)"
    by (cases "safety_gate ex env tool inputs st") auto
  from safety_gate_frame [OF g] obtain w1 cs1 where s1: "s1 = with_calls st w1 cs1" "list_all is_ask cs1"
    by blast
  obtain s2 verdict where i: "input_guardrail ex env tool inputs s1 = (s2, verdict)"
    by (cases "input_guardrail ex env tool inputs s1") auto
  from input_guardrail_frame [OF i] s1 obtain w2 cs2 where s2: "s2 = with_calls st w2 cs2" "list_all is_ask cs2"
    by fastforce
  let ?d = "d\<lparr>sd_approval := approval\<rparr>"
  let ?rest = "\<lambda>st. case cache_key_for ex tool inputs (x_local st) of
      Inl e \<Rightarrow> (st, Inl (RExn e))
    | Inr key \<Rightarrow> (case cache_get ex key st of
          Some out \<Rightarrow> (st, case check_outputs ex env step name out ?d of
             Inl e \<Rightarrow> Inl e | Inr d \<Rightarrow> Inr (d\<lparr>sd_cached := sd_success d\<rparr>))
        | None \<Rightarrow> call_tool ex env step name tool inputs key ?d st)"
  consider (gate) e where "st' = s1" "d' = with_outcome (Failed e) ?d"
    | (guard) e where "st' = s2" "d' = with_outcome (Failed e) ?d"
    | (dry) oc where "dry_run_step ex env name tool inputs s2 = (st', Some oc)" "d' = with_outcome oc ?d"
    | (rest) "?rest s2 = (st', Inr d')"
    using assms g i dry_run_step_frame [of ex env name tool inputs s2]
    by (auto simp: gated_call_def Let_def simp del: with_outcome.simps
        split: option.split_asm if_split_asm prod.split_asm)
  then show ?thesis
  proof cases
    case rest
    with that(3,4) s2 show ?thesis
      by (auto split: sum.split_asm option.split_asm)
  qed (use that(1,2) s1 s2 in \<open>auto simp del: with_outcome.simps\<close>)
qed

text \<open>
  C11: A step answered from the cache runs no tool, writes nothing, and returns the outputs stored
  under the key of its validated inputs; any other step changes the cache at most by storing, under
  that key, the outputs it returns, and only when the tool itself succeeded.
\<close>

theorem cache_hits_and_writes:
  assumes "tenacity ex" and "gated_call ex env step name tool inputs d st = (st', Inr d')" and "\<not> sd_cached d"
  shows "if sd_cached d' then
      (\<exists>cs. x_calls st' = x_calls st @ cs \<and> list_all is_ask cs) \<and> x_cache st' = x_cache st \<and>
      (\<exists>ops k. ex_step_cache ex = Some ops \<and> cache_key_for ex tool inputs (x_local st) = Inr (Some k) \<and>
         sd_outputs d' \<noteq> None \<and> op_cache_get ops (x_cache st) k = sd_outputs d')
    else x_cache st' = x_cache st \<or>
      (\<exists>ops k out. ex_step_cache ex = Some ops \<and> cache_key_for ex tool inputs (x_local st) = Inr (Some k) \<and>
         x_cache st' = op_cache_set ops (x_cache st) k out \<and> sd_success d' \<and> sd_outputs d' = Some out \<and>
         \<not> sd_skipped d')"
  using assms(2)
proof (cases rule: gated_call_cases)
  case (1 s w cs)
  with assms(3) show ?thesis by simp
next
  case (2 s w cs oc)
  with assms(3) dry_run_step_frame [OF 2(3)] show ?thesis by auto
next
  case (3 s w cs key approval out d2)
  then obtain ops k where k: "ex_step_cache ex = Some ops" "key = Some k" "op_cache_get ops (x_cache st) k = Some out"
    by (auto simp: cache_get_def split: option.split_asm)
  with 3 check_outputs_Inr [OF 3(6)] show ?thesis
    by auto
next
  case (4 s w cs key approval)
  with call_tool_cache [OF assms(1) 4(4)] assms(3) show ?thesis
    by (auto simp: cache_effect_def)
qed

theorem cache_hits_and_writes_witness:
  "\<exists>st' d'. gated_call cached_ex \<lparr>se_trace = [], se_flow = [], se_index = 0, se_step_id = None\<rparr> mk_step ''write''
       writer [] (blank_step 0 ''write'') cached_state = (st', Inr d') \<and>
     sd_cached d' \<and> sd_outputs d' = Some [(''k'', VInt 7)] \<and>
     (\<exists>cs. x_calls st' = x_calls cached_state @ cs \<and> list_all is_ask cs)"
proof -
  let ?g = "gated_call cached_ex \<lparr>se_trace = [], se_flow = [], se_index = 0, se_step_id = None\<rparr> mk_step ''write''
       writer [] (blank_step 0 ''write'') cached_state"
  have "\<exists>st' d'. ?g = (st', Inr d') \<and> sd_cached d' \<and> sd_outputs d' = Some [(''k'', VInt 7)]"
    by (simp add: run_eval cached_ex_def cached_state_def sample_executor_def sample_platform_def in_memory_cache_def)
  then obtain st' d' where g: "?g = (st', Inr d')" "sd_cached d'" "sd_outputs d' = Some [(''k'', VInt 7)]"
    by blast
  have "\<not> sd_cached (blank_step 0 ''write'')"
    by (simp add: blank_step_def)
  from cache_hits_and_writes [OF cached_tenacity g(1) this] g show ?thesis
    by auto
qed

end
