(* ===== verification/Raises.thy ===== *)
theory Raises
  imports FlowExec
begin

text \<open>
  What a run can raise besides an exception of the program: a locale over a predicate on
  \<open>raised\<close> that holds of every exception, and of cancellations when the run has a deadline or a
  token, carries it through steps, lanes and nested sub-flows.
\<close>

definition raises_ok :: "(raised \<Rightarrow> bool) \<Rightarrow> 's \<times> (raised + 'a) \<Rightarrow> bool" where
  "raises_ok P x \<longleftrightarrow> (\<forall>e. snd x = Inl e \<longrightarrow> P e)"

text \<open>A step whose sub-flow is fine.\<close>

definition sub_raises ::
  "(raised \<Rightarrow> bool) \<Rightarrow> 'w run_opts \<Rightarrow> ('w, 'c, 'k) run_flow \<Rightarrow> 'a flow_step_scheme \<Rightarrow> bool" where
  "sub_raises P opts rec step \<longleftrightarrow>
     (\<forall>sub inputs st. s_flow_name step = Some sub \<longrightarrow> raises_ok P (rec sub inputs opts st))"

named_theorems raises_intros

lemma schema_exn: "validate_flow_schema pl ref n p idx label = Inl e \<Longrightarrow> \<exists>x. e = RExn x"
  by (auto simp: validate_flow_schema_def split: option.splits sum.splits exn.splits)

lemma check_outputs_exn: "check_outputs ex env step name out d = Inl e \<Longrightarrow> \<exists>x. e = RExn x"
  by (auto simp: check_outputs_def split: sum.splits option.splits)

lemma branch_exn: "select_branch pl step ctx a b = Inl e \<Longrightarrow> \<exists>x. e = RExn x"
  by (auto simp: select_branch_def split: sum.splits exn.splits option.splits)

lemma settle_exn: "settle_step ex f step name ctx r out lv = Inl e \<Longrightarrow> \<exists>x. e = RExn x"
  by (auto simp: settle_step_def Let_def split: sum.splits if_splits option.splits dest: branch_exn)

lemma levels_steps:
  assumes "compute_dag_levels ord f = Inr levels" and "l \<in> set levels" and "s \<in> set l"
  shows "s \<in> set (f_steps f)"
proof -
  obtain ids where l: "l = List.map_filter (step_by_id f) ids"
    using assms(1,2) by (auto simp: compute_dag_levels_def group_levels_def Let_def split: option.splits)
  then obtain sid where "step_by_id f sid = Some s"
    using assms(3) set_map_filter by metis
  then show ?thesis
    unfolding step_by_id_def by (auto dest: map_of_SomeD)
qed

locale raises =
  fixes P :: "raised \<Rightarrow> bool" and opts :: "'w run_opts"
  assumes exn: "P (RExn e)"
    and cancel: "opts = no_opts \<or> P (RCancelled n i r l c)"
    and cancel_any: "P (RCancelled n i r l c) \<Longrightarrow> P (RCancelled n' i' r' l' c')"
begin

lemma ok_simps [simp]: "raises_ok P (s, Inr a)" "raises_ok P (s, Inl (RExn e))"
  by (simp_all add: raises_ok_def exn)

lemma ok_cancelled: "opts \<noteq> no_opts \<Longrightarrow> raises_ok P (s, Inl (RCancelled n i r l c))"
  using cancel by (auto simp: raises_ok_def)

lemma bind [raises_intros]:
  "raises_ok P x \<Longrightarrow> (\<And>s a. x = (s, Inr a) \<Longrightarrow> raises_ok P (f s a)) \<Longrightarrow> raises_ok P (bind_st x f)"
  by (cases x; cases "snd x") (auto simp: raises_ok_def)

lemma finish [raises_intros]: "raises_ok P (finish ex env r st)"
  by (simp add: finish_def)

lemma make_result [raises_intros]: "raises_ok P (make_result ex n tr i ok out recs k st)"
  by (auto simp: make_result_def Let_def split: option.splits prod.splits sum.splits)

lemma check_cancellation [raises_intros]: "raises_ok P (check_cancellation ex n tr i idx opts recs st)"
proof (cases "opts = no_opts")
  case True
  then show ?thesis by (simp add: check_cancellation_def no_opts_def)
next
  case False
  then show ?thesis
    by (auto simp: check_cancellation_def Let_def intro!: raises_intros ok_cancelled split: option.splits)
qed

lemma reanchor [raises_intros]: "raises_ok P x \<Longrightarrow> raises_ok P (reanchor_cancellation ex n tr i step idx recs x)"
  by (auto simp: reanchor_cancellation_def Let_def raises_ok_def [of P "(s, Inl (RCancelled a b c d e))" for s a b c d e]
      intro!: raises_intros dest: cancel_any split: prod.splits sum.splits raised.splits)

lemma save [raises_intros]: "raises_ok P (save_snapshot ex f tr i ctx recs k l st)"
  by (auto simp: save_snapshot_def split: option.splits sum.splits prod.splits)

lemma finish_flow [raises_intros]: "raises_ok P (finish_flow ex f n tr i ctx recs st)"
  by (auto simp: finish_flow_def Let_def intro!: raises_intros split: option.splits sum.splits
      dest!: schema_exn)

lemma check_input [raises_intros]: "raises_ok P (check_input ex f n tr i st)"
  by (auto simp: check_input_def intro!: raises_intros split: option.splits sum.splits dest!: schema_exn)

lemma decision [raises_intros]: "raises_ok P (resolve_decision ex env step ctx st)"
  by (auto simp: resolve_decision_def decision_failed_def Let_def intro!: raises_intros
      split: option.splits sum.splits prod.splits decision_outcome.splits)

lemma call_tool [raises_intros]: "raises_ok P (call_tool ex env step name tool inputs key d st)"
  by (auto simp: call_tool_def Let_def split: prod.splits sum.splits dest!: check_outputs_exn)

lemma gated_call [raises_intros]: "raises_ok P (gated_call ex env step name tool inputs d st)"
  by (auto simp: gated_call_def Let_def intro: raises_intros split: prod.splits sum.splits option.splits
      dest!: check_outputs_exn)

lemma tool_step [raises_intros]: "raises_ok P (execute_tool_step ex env step name d ctx st)"
  by (auto simp: execute_tool_step_def prepare_step_def Let_def intro!: raises_intros
      split: sum.splits prod.splits exn.splits option.splits)

lemma capability [raises_intros]: "raises_ok P (execute_capability_step ex f tr idx step name ctx st)"
  by (auto simp: execute_capability_step_def Let_def split: option.splits prod.splits sum.splits)

text \<open>The lanes.\<close>

lemma step [raises_intros]: "sub_raises P opts rec step \<Longrightarrow> raises_ok P (execute_step ex rec env step ctx opts st)"
proof -
  assume rec: "sub_raises P opts rec step"
  have "raises_ok P (execute_subflow_step ex rec env step sub ctx opts st)" if "s_flow_name step = Some sub" for sub
  proof -
    have "raises_ok P (s, r)" if "rec sub inputs opts s0 = (s', r)" for inputs s0 s s' r
      using rec \<open>s_flow_name step = Some sub\<close> that unfolding sub_raises_def raises_ok_def by (metis snd_conv)
    then show ?thesis
      by (auto simp: execute_subflow_step_def intro!: raises_intros split: sum.splits exn.splits prod.splits)
  qed
  then show ?thesis
    by (auto simp: execute_step_def intro!: raises_intros split: option.splits decided.splits sum.splits)
qed

lemma linear_step [raises_intros]:
  "sub_raises P opts rec step \<Longrightarrow> raises_ok P (linear_step ex rec f n tr i opts idx step ctx recs st)"
  by (auto simp: linear_step_def Let_def intro!: raises_intros split: option.splits sum.splits)

lemma linear_loop [raises_intros]:
  "\<forall>s \<in> set steps. sub_raises P opts rec s \<Longrightarrow> raises_ok P (linear_loop ex rec f n tr i opts idx steps ctx recs st)"
  by (induction steps arbitrary: idx ctx recs st) (auto intro!: raises_intros split: sum.splits)

lemma linear:
  "\<forall>s \<in> set (f_steps f). sub_raises P opts rec s \<Longrightarrow> raises_ok P (execute_linear ex rec f n i opts st)"
  by (auto simp: execute_linear_def intro!: raises_intros split: prod.splits option.splits loop_end.splits)

lemma level_step [raises_intros]:
  "sub_raises P opts rec step \<Longrightarrow> raises_ok P (level_step ex rec f tr i opts recs ctx step lv st)"
proof -
  assume "sub_raises P opts rec step"
  then have "sub_raises P opts rec (proxy_step step)"
    by (simp add: sub_raises_def proxy_step_def flow_step.truncate_def)
  then show ?thesis
    by (auto simp: level_step_def dispatch_dag_step_def Let_def intro!: raises_intros
        split: sum.splits option.splits dest!: settle_exn)
qed

lemma run_level [raises_intros]:
  "\<forall>s \<in> set steps. sub_raises P opts rec s \<Longrightarrow> raises_ok P (run_level ex rec f tr i opts recs ctx steps lv st)"
  by (induction steps arbitrary: lv st) (auto intro!: raises_intros split: level_end.splits)

lemma dag_level [raises_intros]:
  "\<forall>s \<in> set steps. sub_raises P opts rec s \<Longrightarrow> raises_ok P (dag_level ex rec f tr i opts l steps ctx recs sk idx st)"
  by (auto simp: dag_level_def Let_def intro!: raises_intros split: level_end.splits sum.splits)

lemma dag_loop [raises_intros]:
  "\<forall>l \<in> set levels. \<forall>s \<in> set l. sub_raises P opts rec s \<Longrightarrow>
     raises_ok P (dag_loop ex rec f tr i opts lvl levels ctx recs sk idx st)"
  by (induction levels arbitrary: lvl ctx recs sk idx st) (auto intro!: raises_intros split: sum.splits)

lemma dag_body [raises_intros]:
  "\<forall>s \<in> set (f_steps f). sub_raises P opts rec s \<Longrightarrow> raises_ok P (dag_body ex rec f tr i opts lvl ctx recs st)"
  by (auto simp: dag_body_def intro!: raises_intros split: sum.splits loop_end.splits
      dest: levels_steps in_set_dropD)

lemma dag:
  "\<forall>s \<in> set (f_steps f). sub_raises P opts rec s \<Longrightarrow> raises_ok P (execute_dag ex rec f i opts st)"
  by (auto simp: execute_dag_def Let_def intro!: raises_intros split: option.splits prod.splits)

lemma impl:
  assumes "\<And>f. ex_get_flow ex name vers = Inr f \<Longrightarrow> validate_composition ex f = None \<Longrightarrow>
      \<forall>s \<in> set (af_steps f). sub_raises P opts rec s"
  shows "raises_ok P (execute_flow_impl ex rec name i vers force opts st)"
  using assms
  by (auto simp: execute_flow_impl_def Let_def af_steps_def on_flow_def sub_raises_def flow_step.truncate_def
      intro!: linear dag split: sum.splits option.splits any_flow.splits)

lemma execute_flow:
  assumes "\<And>f. ex_get_flow ex name vers = Inr f \<Longrightarrow> validate_composition ex f = None \<Longrightarrow>
      \<forall>s \<in> set (af_steps f). sub_raises P opts rec s"
  shows "raises_ok P (execute_flow ex rec name i vers force opts dry unsupported dyn st)"
proof -
  have "raises_ok P (execute_flow_impl ex rec name i vers force opts s)" for s
    by (rule impl) (rule assms)
  then show ?thesis
    by (simp add: execute_flow_def run_scope_def raises_ok_def exn case_prod_beta)
qed

text \<open>Nested runs, for a predicate that tolerates an exhausted nesting bound.\<close>

lemma nested: "P ROutOfFuel \<Longrightarrow> raises_ok P (run_flow ex n name i opts st)"
proof (induction n arbitrary: name i st)
  case (Suc n)
  then show ?case
    unfolding run_flow.simps by (intro execute_flow) (simp add: sub_raises_def)
qed (simp add: raises_ok_def)

end

end
