(* ===== verification/Nesting.thy ===== *)
theory Nesting
  imports Raises
begin

text \<open>
  Nested sub-flows end: a flow the composition check accepts nests at most
  \<open>max_composition_depth\<close> sub-flows deep, so a run of it never exhausts the nesting bound with which
  \<open>start_flow\<close> closes the recursion.
\<close>

section \<open>What the composition check bounds\<close>

text \<open>Every chain of sub-flows below a flow has at most the given length.\<close>

primrec depth_ok :: "('w, 'c, 'k) executor \<Rightarrow> nat \<Rightarrow> any_flow \<Rightarrow> bool" where
  "depth_ok ex 0 f = (\<forall>s \<in> set (af_steps f). s_flow_name s = None)"
| "depth_ok ex (Suc n) f =
     (\<forall>s \<in> set (af_steps f). \<forall>sub f'. s_flow_name s = Some sub \<longrightarrow> ex_get_flow ex sub None = Inr f' \<longrightarrow>
        depth_ok ex n f')"

lemma visit_None:
  assumes "visit ex top_flow f path = None" and "s \<in> set (af_steps f)" and "s_flow_name s = Some sub"
  shows "sub \<notin> set path" and "length path \<le> ex_max_depth ex"
    and "\<exists>f'. ex_get_flow ex sub None = Inr f' \<and> visit ex top_flow f' (path @ [sub]) = None"
  using assms by (auto simp: visit.simps [of ex top_flow f path] split: if_splits sum.splits exn.splits dest!: bspec)

lemma visit_depth:
  "visit ex top_flow f path = None \<Longrightarrow> ex_max_depth ex + 1 - length path \<le> n \<Longrightarrow> depth_ok ex n f"
proof (induction n arbitrary: f path)
  case 0
  then show ?case
    using visit_None(2) [OF 0(1)] by (auto intro: ccontr)
next
  case (Suc n)
  show ?case
    unfolding depth_ok.simps
  proof (intro ballI allI impI)
    fix s sub f'
    assume s: "s \<in> set (af_steps f)" "s_flow_name s = Some sub" and f': "ex_get_flow ex sub None = Inr f'"
    from visit_None(3) [OF Suc.prems(1) s] f' have "visit ex top_flow f' (path @ [sub]) = None"
      by simp
    from Suc.IH [OF this] Suc.prems(2) show "depth_ok ex n f'"
      by simp
  qed
qed

lemma validated_depth: "validate_composition ex f = None \<Longrightarrow> depth_ok ex (ex_max_depth ex) f"
  unfolding validate_composition_def by (erule visit_depth) simp

section \<open>Runs that do not exhaust the bound\<close>

interpretation fuel: raises "\<lambda>e. e \<noteq> ROutOfFuel" opts for opts
  by unfold_locales simp_all

lemma depth_fuel:
  "depth_ok ex n f \<Longrightarrow> \<forall>s \<in> set (af_steps f). sub_raises (\<lambda>e. e \<noteq> ROutOfFuel) opts (run_flow ex n) s"
proof (induction n arbitrary: f)
  case (Suc n)
  show ?case
  proof
    fix s
    assume s: "s \<in> set (af_steps f)"
    show "sub_raises (\<lambda>e. e \<noteq> ROutOfFuel) opts (run_flow ex (Suc n)) s"
      unfolding sub_raises_def run_flow.simps
      by (intro allI impI fuel.execute_flow Suc.IH) (use Suc.prems s in auto)
  qed
qed (simp add: sub_raises_def)

text \<open>
  C12: The nesting bound of a run is enough: whatever flow is run, with whatever registry content,
  sub-flows nested to any depth the composition check accepts end within the bound of
  \<open>max_composition_depth\<close> recursive calls, and a flow nested deeper is rejected before it starts.
\<close>

theorem nesting_bound_suffices:
  "snd (start_flow ex name input vers force opts dry unsupported dyn st) \<noteq> Inl ROutOfFuel"
proof -
  have "raises_ok (\<lambda>e. e \<noteq> ROutOfFuel) (start_flow ex name input vers force opts dry unsupported dyn st)"
    unfolding start_flow_def by (intro fuel.execute_flow depth_fuel validated_depth)
  then show ?thesis
    by (auto simp: raises_ok_def)
qed

end
