(* ===== verification/StepLog.thy ===== *)
theory StepLog
  imports Sample
begin

text \<open>
  What the execution log says: every record of a step carries the step's index and is consistent
  (outputs exactly when it succeeded, an error when it failed), the log of a linear run lists the
  steps in order up to the first failure, and the final output of a successful run is the initial
  context with the outputs of the logged records merged into it one after the other.
\<close>

section \<open>Records\<close>

definition wf_step :: "int \<Rightarrow> step_data \<Rightarrow> bool" where
  "wf_step i d \<longleftrightarrow>
     sd_index d = i \<and> (sd_success d \<longleftrightarrow> sd_outputs d \<noteq> None) \<and>
     (\<not> sd_success d \<longrightarrow> sd_error d \<noteq> None \<and> \<not> sd_skipped d) \<and>
     (sd_success d \<and> \<not> sd_skipped d \<longrightarrow> sd_error d = None)"

abbreviation wf_record :: "int \<Rightarrow> step_record \<Rightarrow> bool" where
  "wf_record i r \<equiv> wf_step i (sr_data r)"

lemma wf_outcome [simp]: "wf_step i (with_outcome oc d) \<longleftrightarrow> sd_index d = i"
  by (cases oc) (auto simp: wf_step_def)

lemma index_outcome [simp]: "sd_index (with_outcome oc d) = sd_index d"
  by (cases oc) auto

declare with_outcome.simps [simp del]

lemma wf_cached [simp]: "wf_step i (d\<lparr>sd_cached := c\<rparr>) = wf_step i d"
  by (simp add: wf_step_def)

lemma index_blank [simp]: "sd_index (blank_step i name) = i"
  by (simp add: blank_step_def)

lemma index_fallback [simp]: "sd_index (fallback_data fb errs a d) = sd_index d"
  by (simp add: fallback_data_def)

lemma apply_on_error_wf: "wf_step (sd_index d) (snd (apply_on_error ex env step name inputs e d st))"
  by (auto simp: apply_on_error_def Let_def split: sum.splits prod.splits option.splits)

lemma check_outputs_wf: "check_outputs ex env step name out d = Inr d' \<Longrightarrow> wf_step (sd_index d) d'"
  by (auto simp: check_outputs_def split: sum.splits option.splits)

lemma call_tool_wf:
  assumes "call_tool ex env step name tool inputs key d st = (st', Inr d')"
  shows "wf_step (sd_index d) d'"
proof -
  obtain a r where i: "invoke_tool ex env tool inputs (s_retry step) \<lparr>at_x = st, at_count = 0, at_errors = []\<rparr> = (a, r)"
    by (cases "invoke_tool ex env tool inputs (s_retry step) \<lparr>at_x = st, at_count = 0, at_errors = []\<rparr>")
  let ?d = "d\<lparr>sd_retry_count := at_count a - 1, sd_retry_errors := at_errors a\<rparr>"
  show ?thesis
  proof (cases r)
    case (Inl e)
    with assms i apply_on_error_wf [of ?d ex env step name inputs "wrap_tool_exception name (se_index env) e" "at_x a"]
    show ?thesis by (auto simp: call_tool_def split: prod.splits)
  next
    case (Inr out)
    with assms i check_outputs_wf [of ex env step name out ?d] show ?thesis
      by (auto simp: call_tool_def Let_def split: sum.splits)
  qed
qed

lemma gated_call_wf:
  assumes "gated_call ex env step name tool inputs d st = (st', Inr d')"
  shows "wf_step (sd_index d) d'"
proof -
  have called: "wf_step (sd_index d) d'" if "call_tool ex env step name tool inputs key (d\<lparr>sd_approval := a\<rparr>) s = (s', Inr d')"
    for key a s s'
    using call_tool_wf [OF that] by simp
  have hit: "wf_step (sd_index d) d2" if "check_outputs ex env step name out (d\<lparr>sd_approval := a\<rparr>) = Inr d2" for out a d2
    using check_outputs_wf [OF that] by simp
  from assms show ?thesis
    by (auto simp: gated_call_def Let_def dest: hit intro: called
        split: prod.splits option.splits sum.splits if_splits)
qed

lemma tool_step_wf:
  "execute_tool_step ex env step name dec ctx st = (st', Inr r) \<Longrightarrow> wf_record (se_index env) r"
  by (auto simp: execute_tool_step_def prepare_step_def finish_def Let_def bind_st_Inr_iff dest!: gated_call_wf
      split: sum.splits prod.splits exn.splits option.splits)

text \<open>The result of a sub-flow, as far as a record of it depends on it.\<close>

definition output_iff_success :: "execution_result \<Rightarrow> bool" where
  "output_iff_success r \<longleftrightarrow> (er_success r \<longleftrightarrow> rd_final_output (er_data r) \<noteq> None)"

definition sound_rec :: "('w, 'c, 'k) run_flow \<Rightarrow> bool" where
  "sound_rec rec \<longleftrightarrow> (\<forall>n i opts st st' r. rec n i opts st = (st', Inr r) \<longrightarrow> output_iff_success r)"

lemma subflow_step_wf:
  assumes "sound_rec rec" and "execute_subflow_step ex rec env step sub ctx opts st = (st', Inr r)"
  shows "wf_record (se_index env) r"
proof -
  have "wf_step (se_index env) (sr_data (subflow_record env sub inputs res))" if "output_iff_success res" for inputs res
    using that by (auto simp: subflow_record_def wf_step_def output_iff_success_def blank_step_def)
  then have sub: "wf_step (se_index env) (sr_data (subflow_record env sub inputs res))"
    if "rec sub inputs opts s = (s', Inr res)" for inputs res s s'
    using that assms(1) unfolding sound_rec_def by blast
  with assms(2) show ?thesis
    by (auto simp: execute_subflow_step_def bind_st_Inr_iff finish_def dest: sub
        split: sum.splits exn.splits prod.splits)
qed

lemma decision_wf:
  "resolve_decision ex env step ctx st = (st', Inr (DecisionFailed r)) \<Longrightarrow> wf_record (se_index env) r"
  by (auto simp: resolve_decision_def decision_failed_def finish_def Let_def
      split: option.splits sum.splits prod.splits decision_outcome.splits if_splits)

lemma execute_step_wf:
  assumes "sound_rec rec" and "execute_step ex rec env step ctx opts st = (st', Inr r)"
  shows "wf_record (se_index env) r"
proof (cases "s_flow_name step")
  case None
  with assms(2) obtain s d where d: "resolve_decision ex env step ctx st = (s, Inr d)"
    and rest: "(case d of DecisionFailed r \<Rightarrow> (s, Inr r)
      | Resolved step decision \<Rightarrow> (case display_name step of Inl e \<Rightarrow> (s, Inl (RExn e))
          | Inr name \<Rightarrow> execute_tool_step ex env step name decision ctx s)) = (st', Inr r)"
    by (auto simp: execute_step_def bind_st_Inr_iff)
  show ?thesis
  proof (cases d)
    case (DecisionFailed r')
    with d rest decision_wf show ?thesis by auto
  next
    case (Resolved step' dec)
    with rest tool_step_wf show ?thesis by (auto split: sum.splits)
  qed
next
  case (Some sub)
  with assms subflow_step_wf show ?thesis
    by (auto simp: execute_step_def)
qed

section \<open>Linear runs\<close>

text \<open>The context after the given records: their outputs merged into it in order.\<close>

fun fold_outputs ::
  "collision_policy \<Rightarrow> string \<Rightarrow> nat \<Rightarrow> flow_step list \<Rightarrow> step_record list \<Rightarrow> val dict \<Rightarrow> exn + val dict" where
  "fold_outputs pol name idx (s # steps) (r # recs) ctx =
     bind_err (display_name s) (\<lambda>dname.
     bind_err (merge_step_outputs pol name (int idx) dname (s_output_mapping s) ctx (the (sr_outputs r)))
       (fold_outputs pol name (idx + 1) steps recs))"
| "fold_outputs pol name idx _ _ ctx = Inr ctx"

lemma fold_outputs_Nil [simp]: "fold_outputs pol name idx steps [] ctx = Inr ctx"
  by (cases steps) auto

text \<open>A stretch of the log: records of consecutive steps, all successful.\<close>

primrec good_log :: "nat \<Rightarrow> step_record list \<Rightarrow> bool" where
  "good_log idx [] \<longleftrightarrow> True"
| "good_log idx (r # recs) \<longleftrightarrow> sr_success r \<and> wf_record (int idx) r \<and> good_log (idx + 1) recs"

lemma good_log_snoc:
  "good_log idx (recs @ [r]) \<longleftrightarrow> good_log idx recs \<and> sr_success r \<and> wf_record (int (idx + length recs)) r"
  by (induction recs arbitrary: idx) (auto simp: ac_simps)

lemma good_log_nth:
  "good_log idx recs \<Longrightarrow> j < length recs \<Longrightarrow> sr_success (recs ! j) \<and> wf_record (int (idx + j)) (recs ! j)"
proof (induction recs arbitrary: idx j)
  case (Cons r recs)
  then show ?case
    using Cons.IH [of "idx + 1" "j - 1"] by (cases j) auto
qed simp

lemma make_result_Inr:
  "make_result ex n tr input ok out recs k st = (st', Inr r) \<Longrightarrow>
     er_log r = recs \<and> er_success r = ok \<and> rd_final_output (er_data r) = out \<and> rd_flow_name (er_data r) = n \<and>
     rd_trace_id (er_data r) = tr"
  by (auto simp: make_result_def build_result_def er_success_def Let_def
      split: option.splits if_splits prod.splits sum.splits)

lemma reanchor_Inr:
  "reanchor_cancellation ex n tr input step idx recs x = (st', Inr r) \<longleftrightarrow> x = (st', Inr r)"
  by (auto simp: reanchor_cancellation_def Let_def split: prod.splits sum.splits raised.splits dest: sym)

lemma linear_step_wf:
  assumes "sound_rec rec" and "linear_step ex rec f name tr input opts idx step ctx recs st = (st', Inr y)"
  obtains r where "wf_record (int idx) r"
    "case y of
       Inl res \<Rightarrow> \<not> sr_success r \<and> er_log res = recs @ [r] \<and> \<not> er_success res \<and> rd_final_output (er_data res) = None
     | Inr (ctx', recs') \<Rightarrow> sr_success r \<and> recs' = recs @ [r] \<and>
         (\<exists>dname. display_name step = Inr dname \<and>
            merge_step_outputs (f_on_context_collision f) name (int idx) dname (s_output_mapping step) ctx
              (the (sr_outputs r)) = Inr ctx')"
proof -
  let ?env = "\<lparr>se_trace = tr, se_flow = name, se_index = int idx, se_step_id = None\<rparr>"
  from assms(2) obtain s1 s2 r where r: "execute_step ex rec ?env step ctx opts s1 = (s2, Inr r)"
    and rest: "(let recs = recs @ [r] in
       if \<not> sr_success r then
         bind_st (make_result ex name tr input False None recs None s2) (\<lambda>st res. (st, Inr (Inl res)))
       else
         (case (sr_outputs r, display_name step) of
            (None, _) \<Rightarrow> (s2, Inl (RExn (PyRuntimeError ''succeeded but produced no outputs'')))
          | (_, Inl e) \<Rightarrow> (s2, Inl (RExn e))
          | (Some out, Inr dname) \<Rightarrow>
              (case merge_step_outputs (f_on_context_collision f) name (int idx) dname
                      (s_output_mapping step) ctx out of
                 Inl e \<Rightarrow> (s2, Inl (RExn e))
               | Inr ctx \<Rightarrow>
                   bind_st (save_snapshot ex (LinearFlow f) tr input ctx recs (idx + 1) 0 s2) (\<lambda>st _.
                     (st, Inr (Inr (ctx, recs))))))) = (st', Inr y)"
    unfolding linear_step_def by (auto simp: bind_st_Inr_iff reanchor_Inr)
  from execute_step_wf [OF assms(1) r] have wf: "wf_record (int idx) r"
    by simp
  show ?thesis
  proof (rule that [OF wf])
    show "case y of
       Inl res \<Rightarrow> \<not> sr_success r \<and> er_log res = recs @ [r] \<and> \<not> er_success res \<and> rd_final_output (er_data res) = None
     | Inr (ctx', recs') \<Rightarrow> sr_success r \<and> recs' = recs @ [r] \<and>
         (\<exists>dname. display_name step = Inr dname \<and>
            merge_step_outputs (f_on_context_collision f) name (int idx) dname (s_output_mapping step) ctx
              (the (sr_outputs r)) = Inr ctx')"
      using rest by (auto simp: Let_def bind_st_Inr_iff dest: make_result_Inr
          split: if_splits option.splits sum.splits)
  qed
qed

lemma linear_loop_wf:
  assumes "sound_rec rec" and "linear_loop ex rec f name tr input opts idx steps ctx recs st = (st', Inr e)"
  shows "case e of
      Completed ctx' recs' \<Rightarrow> \<exists>rs. recs' = recs @ rs \<and> length rs = length steps \<and> good_log idx rs \<and>
        fold_outputs (f_on_context_collision f) name idx steps rs ctx = Inr ctx'
    | Stopped res \<Rightarrow> \<exists>rs r. er_log res = recs @ rs @ [r] \<and> length rs < length steps \<and> good_log idx rs \<and>
        \<not> sr_success r \<and> wf_record (int (idx + length rs)) r \<and>
        \<not> er_success res \<and> rd_final_output (er_data res) = None"
  using assms(2)
proof (induction steps arbitrary: idx ctx recs st)
  case Nil
  then show ?case by (auto intro: exI [of _ "[]"])
next
  case (Cons s steps)
  from Cons.prems obtain s1 y where step: "linear_step ex rec f name tr input opts idx s ctx recs st = (s1, Inr y)"
    and rest: "(case y of Inl res \<Rightarrow> (s1, Inr (Stopped res))
       | Inr (ctx, recs) \<Rightarrow> linear_loop ex rec f name tr input opts (idx + 1) steps ctx recs s1) = (st', Inr e)"
    unfolding linear_loop.simps bind_st_Inr_iff by blast
  from linear_step_wf [OF assms(1) step] obtain r where wf: "wf_record (int idx) r"
    and y: "case y of
       Inl res \<Rightarrow> \<not> sr_success r \<and> er_log res = recs @ [r] \<and> \<not> er_success res \<and> rd_final_output (er_data res) = None
     | Inr (ctx', recs') \<Rightarrow> sr_success r \<and> recs' = recs @ [r] \<and>
         (\<exists>dname. display_name s = Inr dname \<and>
            merge_step_outputs (f_on_context_collision f) name (int idx) dname (s_output_mapping s) ctx
              (the (sr_outputs r)) = Inr ctx')" .
  show ?case
  proof (cases y)
    case (Inl res)
    with rest y wf show ?thesis
      by (auto intro!: exI [of _ "[]"] exI [of _ r])
  next
    case (Inr p)
    obtain ctx' recs' where p: "p = (ctx', recs')" by (cases p)
    with Inr y obtain dname where one: "sr_success r" "recs' = recs @ [r]" "display_name s = Inr dname"
      "merge_step_outputs (f_on_context_collision f) name (int idx) dname (s_output_mapping s) ctx
              (the (sr_outputs r)) = Inr ctx'"
      by auto
    from Inr p rest have "linear_loop ex rec f name tr input opts (idx + 1) steps ctx' recs' s1 = (st', Inr e)"
      by simp
    note ih = Cons.IH [OF this]
    show ?thesis
    proof (cases e)
      case (Stopped res)
      with ih obtain rs r' where "er_log res = recs' @ rs @ [r'] \<and> length rs < length steps \<and> good_log (idx + 1) rs \<and>
        \<not> sr_success r' \<and> wf_record (int (idx + 1 + length rs)) r' \<and> \<not> er_success res \<and> rd_final_output (er_data res) = None"
        by auto
      with one wf show ?thesis
        unfolding Stopped loop_end.case
        by (intro exI [of _ "r # rs"] exI [of _ r'] conjI | simp add: add.assoc)+
    next
      case (Completed c rs)
      with ih obtain xs where "rs = recs' @ xs \<and> length xs = length steps \<and> good_log (idx + 1) xs \<and>
        fold_outputs (f_on_context_collision f) name (idx + 1) steps xs ctx' = Inr c"
        by auto
      with Completed one wf show ?thesis
        by (auto intro!: exI [of _ "r # xs"])
    qed
  qed
qed

text \<open>A run has a final output exactly when it succeeds; so the recursive call is sound.\<close>

lemma made_output: "make_result ex n tr input ok out recs k st = (st', Inr r) \<Longrightarrow> (ok \<longleftrightarrow> out \<noteq> None) \<Longrightarrow> output_iff_success r"
  by (auto simp: output_iff_success_def dest!: make_result_Inr)

lemma finish_flow_output: "finish_flow ex f n tr input ctx recs st = (st', Inr r) \<Longrightarrow> output_iff_success r"
  by (auto simp: finish_flow_def Let_def dest: made_output split: sum.split_asm option.split_asm)

lemma check_input_output: "check_input ex f n tr input st = (st', Inr (Some r)) \<Longrightarrow> output_iff_success r"
  by (auto simp: check_input_def dest: made_output split: sum.split_asm option.split_asm)

lemma linear_loop_output:
  "linear_loop ex rec f n tr input opts idx steps ctx recs st = (st', Inr (Stopped r)) \<Longrightarrow> output_iff_success r"
proof (induction steps arbitrary: idx ctx recs st)
  case (Cons s steps)
  have "output_iff_success r" if "linear_step ex rec f n tr input opts idx s ctx recs st = (s1, Inr (Inl r))" for s1
    using that by (auto simp: linear_step_def Let_def dest: made_output
        split: if_split_asm option.split_asm sum.split_asm)
  with Cons show ?case
    by (auto split: sum.split_asm)
qed simp

lemma run_level_output:
  "run_level ex rec f tr input opts recs ctx steps lv st = (st', Inr (LevelStopped r)) \<Longrightarrow> output_iff_success r"
proof (induction steps arbitrary: lv st)
  case (Cons s steps)
  have "output_iff_success r" if "level_step ex rec f tr input opts recs ctx s lv st = (s1, Inr (LevelStopped r))" for s1
    using that by (auto simp: level_step_def Let_def dest: made_output
        split: if_split_asm option.split_asm sum.split_asm)
  with Cons show ?case
    by (auto split: level_end.split_asm)
qed simp

lemma dag_loop_output:
  "dag_loop ex rec f tr input opts lvl levels ctx recs sk idx st = (st', Inr (Stopped r)) \<Longrightarrow> output_iff_success r"
  by (induction levels arbitrary: lvl ctx recs sk idx st)
    (auto simp: dag_level_def Let_def dest: run_level_output split: sum.split_asm level_end.split_asm)

lemma dag_body_output:
  "dag_body ex rec f tr input opts lvl ctx recs st = (st', Inr r) \<Longrightarrow> output_iff_success r"
  by (auto simp: dag_body_def dest: dag_loop_output finish_flow_output
      split: sum.split_asm loop_end.split_asm)

lemma linear_output: "execute_linear ex rec f n input opts st = (st', Inr r) \<Longrightarrow> output_iff_success r"
  by (auto simp: execute_linear_def split: prod.split_asm option.split_asm loop_end.split_asm)
    (rule check_input_output linear_loop_output finish_flow_output, assumption)+

lemma dag_output: "execute_dag ex rec f input opts st = (st', Inr r) \<Longrightarrow> output_iff_success r"
  by (auto simp: execute_dag_def Let_def elim: check_input_output dag_body_output
      split: prod.split_asm option.split_asm)

lemma impl_output: "execute_flow_impl ex rec n input vers force opts st = (st', Inr r) \<Longrightarrow> output_iff_success r"
  by (auto simp: execute_flow_impl_def Let_def elim: linear_output dag_output
      split: sum.split_asm if_split_asm option.split_asm any_flow.split_asm)

lemma sound_run_flow: "sound_rec (run_flow ex n)"
proof -
  have "output_iff_success r" if "run_flow ex n f i opts st = (st', Inr r)" for f i opts st st' r
    using that by (cases n) (auto simp: execute_flow_def run_scope_def split: if_split_asm prod.split_asm dest: impl_output)
  then show ?thesis
    unfolding sound_rec_def by blast
qed

section \<open>The log of a run\<close>

lemma schema_record:
  "validate_flow_schema pl ref n p idx label = Inr (Some r) \<Longrightarrow> \<not> sr_success r \<and> sr_index r = idx"
  by (auto simp: validate_flow_schema_def sr_success_def sr_index_def with_outcome.simps blank_step_def
      split: option.split_asm sum.split_asm exn.split_asm)

lemma finish_flow_Inr:
  assumes "finish_flow ex f n tr input ctx recs st = (st', Inr res)"
  shows "er_success res \<and> er_log res = recs \<and> rd_final_output (er_data res) = Some ctx \<or>
    \<not> er_success res \<and> rd_final_output (er_data res) = None \<and>
      (\<exists>r. er_log res = recs @ [r] \<and> \<not> sr_success r \<and> sr_index r = int (length (af_steps f)))"
  using assms by (auto simp: finish_flow_def Let_def dest!: make_result_Inr schema_record
      split: sum.split_asm option.split_asm)

lemma check_input_None: "check_input ex f n tr input st = (s, Inr None) \<Longrightarrow> s = st"
  by (auto simp: check_input_def split: sum.split_asm option.split_asm)

lemma check_input_Some:
  "check_input ex f n tr input st = (s, Inr (Some res)) \<Longrightarrow>
     \<not> er_success res \<and> rd_final_output (er_data res) = None \<and>
     (\<exists>r. er_log res = [r] \<and> \<not> sr_success r \<and> sr_index r = - 1)"
  by (auto simp: check_input_def dest!: make_result_Inr schema_record split: sum.split_asm option.split_asm)

text \<open>What the result of a linear run from a state with the given run-scoped part looks like.\<close>

definition linear_result :: "flow \<Rightarrow> string \<Rightarrow> val dict \<Rightarrow> execution_result \<Rightarrow> bool" where
  "linear_result f name seed res \<longleftrightarrow>
     (if er_success res then
        length (er_log res) = length (f_steps f) \<and> good_log 0 (er_log res) \<and>
        (\<exists>ctx. rd_final_output (er_data res) = Some ctx \<and>
           fold_outputs (f_on_context_collision f) name 0 (f_steps f) (er_log res) seed = Inr ctx)
      else
        rd_final_output (er_data res) = None \<and>
        (\<exists>rs r. er_log res = rs @ [r] \<and> good_log 0 rs \<and> \<not> sr_success r \<and> length rs \<le> length (f_steps f) \<and>
           (sr_index r = int (length rs) \<or> rs = [] \<and> sr_index r = - 1)))"

lemma execute_linear_result:
  assumes "sound_rec rec" and "execute_linear ex rec f name input opts st = (st', Inr res)"
  shows "linear_result f name (seed_context (x_local st) input) res"
proof -
  let ?seed = "seed_context (x_local st) input"
  obtain s1 tr where t: "new_trace_id ex st = (s1, tr)" by (cases "new_trace_id ex st")
  then have local: "x_local s1 = x_local st"
    by (auto simp: new_trace_id_def)
  let ?s2 = "fire ex (FlowStart tr name (f_version f) input (length (f_steps f))) s1"
  have local2: "x_local ?s2 = x_local st"
    by (simp add: fire_def local)
  from assms(2) t obtain s3 rejected where c: "check_input ex (LinearFlow f) name tr input ?s2 = (s3, Inr rejected)"
    and rest: "(case rejected of Some res \<Rightarrow> (s3, Inr res)
      | None \<Rightarrow> bind_st (linear_loop ex rec f name tr input opts 0 (f_steps f) (seed_context (x_local s3) input) [] s3)
          (\<lambda>st e. case e of Stopped res \<Rightarrow> (st, Inr res)
             | Completed ctx recs \<Rightarrow> finish_flow ex (LinearFlow f) name tr input ctx recs st)) = (st', Inr res)"
    by (auto simp: execute_linear_def)
  show ?thesis
  proof (cases rejected)
    case (Some r)
    with rest check_input_Some c show ?thesis
      by (fastforce simp: linear_result_def)
  next
    case None
    with check_input_None c have "s3 = ?s2" by blast
    with None rest local2 obtain s4 e where l: "linear_loop ex rec f name tr input opts 0 (f_steps f) ?seed [] ?s2 = (s4, Inr e)"
      and rest2: "(case e of Stopped res \<Rightarrow> (s4, Inr res)
             | Completed ctx recs \<Rightarrow> finish_flow ex (LinearFlow f) name tr input ctx recs s4) = (st', Inr res)"
      by auto
    show ?thesis
    proof (cases e)
      case (Stopped r)
      with linear_loop_wf [OF assms(1) l] rest2 show ?thesis
        by (fastforce simp: linear_result_def wf_step_def sr_index_def)
    next
      case (Completed ctx recs)
      with linear_loop_wf [OF assms(1) l] have recs: "length recs = length (f_steps f)" "good_log 0 recs"
          "fold_outputs (f_on_context_collision f) name 0 (f_steps f) recs ?seed = Inr ctx"
        by simp_all
      from Completed rest2 have "finish_flow ex (LinearFlow f) name tr input ctx recs s4 = (st', Inr res)"
        by simp
      from finish_flow_Inr [OF this] recs show ?thesis
        by (auto simp: linear_result_def af_simps)
    qed
  qed
qed

text \<open>
  C13: A successful run of a linear flow logs one successful record per step, in order, and its final
  output is the initial context (input and dynamic parameters) with the outputs of the logged
  records merged in one after the other; a failed run has no output, and its log is the successful
  records of a prefix of the steps followed by exactly one failed record (of the next step, of the
  output check at the end, or of the input check before any step).
\<close>

theorem linear_run_log:
  assumes "start_flow ex name input vers force opts dry unsupported dyn st = (st', Inr res)"
    and "ex_get_flow ex name vers = Inr (LinearFlow f)"
  shows "if er_success res then
      length (er_log res) = length (f_steps f) \<and> good_log 0 (er_log res) \<and>
      (\<exists>ctx. rd_final_output (er_data res) = Some ctx \<and>
         fold_outputs (f_on_context_collision f) name 0 (f_steps f) (er_log res)
           (seed_context (enter_run dry unsupported dyn (copy_local (x_local st))) input) = Inr ctx)
    else
      rd_final_output (er_data res) = None \<and>
      (\<exists>rs r. er_log res = rs @ [r] \<and> good_log 0 rs \<and> \<not> sr_success r \<and> length rs \<le> length (f_steps f) \<and>
         (sr_index r = int (length rs) \<or> rs = [] \<and> sr_index r = - 1))"
proof -
  from assms obtain s where "execute_linear ex (run_flow ex (ex_max_depth ex)) f name input opts
      (set_version (f_version f) (entered dry unsupported dyn st)) = (s, Inr res)"
    by (auto simp: start_flow_unfold execute_flow_impl_def Let_def af_simps
        split: if_split_asm prod.split_asm option.split_asm)
  from execute_linear_result [OF sound_run_flow this] show ?thesis
    by (simp add: linear_result_def entered_def set_version_def seed_context_def)
qed

theorem linear_run_log_witness:
  "\<exists>st' res r ctx.
     start_flow sample_ex ''f'' [(''k'', VInt 1)] None False no_opts False ''skip'' None sample_state = (st', Inr res) \<and>
     er_log res = [r] \<and> good_log 0 [r] \<and> rd_final_output (er_data res) = Some ctx \<and>
     fold_outputs Warn ''f'' 0 [mk_step\<lparr>s_tool_name := Some ''write''\<rparr>] [r] [(''k'', VInt 1)] = Inr ctx"
proof -
  let ?run = "start_flow sample_ex ''f'' [(''k'', VInt 1)] None False no_opts False ''skip'' None sample_state"
  have "\<exists>st' res. ?run = (st', Inr res) \<and> er_success res"
    by (simp add: run_eval)
  then obtain st' res where run: "?run = (st', Inr res)" and ok: "er_success res"
    by blast
  let ?f = "mk_flow ''f'' [mk_step\<lparr>s_tool_name := Some ''write''\<rparr>] :: flow"
  have f: "ex_get_flow sample_ex ''f'' None = Inr (LinearFlow ?f)"
    by (simp add: sample_ex_simps write_flow_def)
  have "seed_context (enter_run False ''skip'' None (copy_local (x_local sample_state))) [(''k'', VInt 1)] = [(''k'', VInt 1)]"
    by (simp add: run_eval)
  with linear_run_log [OF run f] ok run show ?thesis
    by (cases "er_log res") (auto simp: mk_flow_def)
qed

end
