(* ===== verification/Drift.thy ===== *)
theory Drift
  imports RunRel Sample Registry
begin

text \<open>
  The tools of an executor against the hashes its flows were registered with
  (\<open>FlowExecutor.register_tool\<close>, \<open>get_drift_report\<close>, \<open>accept_drift\<close>, \<open>with_replaced_tools\<close>).
  The state is the tool dictionary and the registry; registering a tool whose schema changed marks
  the flows recorded with another hash for review, accepting the drift records the current hashes.
\<close>

section \<open>Operations\<close>

text \<open>\<open>_handle_schema_drift\<close>, over the flows listed at its start.\<close>

fun mark_drifted ::
  "('v :: linorder) version_parser \<Rightarrow> 's store_ops \<Rightarrow> string \<Rightarrow> string \<Rightarrow> any_flow list \<Rightarrow> 's registry \<Rightarrow>
     's registry \<times> (exn + unit)" where
  "mark_drifted pv ops name hash [] r = (r, Inr ())"
| "mark_drifted pv ops name hash (f # fs) r =
     (case af_hashes f of
        None \<Rightarrow> mark_drifted pv ops name hash fs r
      | Some hs \<Rightarrow>
          (case dict_get hs name of
             None \<Rightarrow> mark_drifted pv ops name hash fs r
           | Some h \<Rightarrow>
               (if h \<noteq> hash then
                  bind_st (set_flow_status pv ops r (af_name f) NEEDS_REVIEW (Some (af_version f))) (\<lambda>r _.
                    mark_drifted pv ops name hash fs r)
                else mark_drifted pv ops name hash fs r)))"

definition handle_schema_drift ::
  "'w platform \<Rightarrow> ('v :: linorder) version_parser \<Rightarrow> 's store_ops \<Rightarrow> 'w tool \<Rightarrow> 's registry \<Rightarrow>
     's registry \<times> (exn + unit)" where
  "handle_schema_drift pl pv ops new r =
     (case list_flows ops r None None of
        Inl e \<Rightarrow> (r, Inl e)
      | Inr fs \<Rightarrow> mark_drifted pv ops (t_name new) (schema_hash pl new) fs r)"

definition register_tool ::
  "'w platform \<Rightarrow> ('v :: linorder) version_parser \<Rightarrow> 's store_ops \<Rightarrow> 'w tool \<Rightarrow> 'w tools \<times> 's registry \<Rightarrow>
     ('w tools \<times> 's registry) \<times> (exn + unit)" where
  "register_tool pl pv ops tool s =
     (case s of (tools, r) \<Rightarrow>
        (case (case dict_get tools (t_name tool) of
                 Some old \<Rightarrow>
                   (if schema_hash pl old \<noteq> schema_hash pl tool then handle_schema_drift pl pv ops tool r
                    else (r, Inr ()))
               | None \<Rightarrow> (r, Inr ())) of
           (r, Inl e) \<Rightarrow> ((tools, r), Inl e)
         | (r, Inr _) \<Rightarrow> ((dict_set tools (t_name tool) tool, r), Inr ())))"

record drift_info =
  di_flow_name :: string
  di_tool_name :: string
  di_expected_hash :: string
  di_actual_hash :: string

definition flow_drift :: "'w platform \<Rightarrow> 'w tools \<Rightarrow> any_flow \<Rightarrow> drift_info list" where
  "flow_drift pl tools f =
     (case af_hashes f of
        None \<Rightarrow> []
      | Some hs \<Rightarrow>
          List.map_filter (\<lambda>(tool, expected).
            case dict_get tools tool of
              None \<Rightarrow> None
            | Some t \<Rightarrow>
                (if expected \<noteq> schema_hash pl t
                 then Some \<lparr>di_flow_name = af_name f, di_tool_name = tool, di_expected_hash = expected,
                            di_actual_hash = schema_hash pl t\<rparr>
                 else None)) hs)"

definition get_drift_report ::
  "'w platform \<Rightarrow> 's store_ops \<Rightarrow> 'w tools \<Rightarrow> 's registry \<Rightarrow> exn + drift_info list" where
  "get_drift_report pl ops tools r =
     bind_err (list_flows ops r None None) (\<lambda>fs. Inr (concat (map (flow_drift pl tools) fs)))"

text \<open>The recorded hashes are the current ones of the registered tools among the flow's steps.\<close>

definition accept_drift ::
  "'w platform \<Rightarrow> ('v :: linorder) version_parser \<Rightarrow> 's store_ops \<Rightarrow> 'w tools \<Rightarrow> string \<Rightarrow> string option \<Rightarrow>
     's registry \<Rightarrow> 's registry \<times> (exn + any_flow)" where
  "accept_drift pl pv ops tools name version r =
     (case get_flow ops r name version of
        Inl e \<Rightarrow> (r, Inl e)
      | Inr f \<Rightarrow>
          (case tool_hashes pl tools (af_steps f) [] of
             Inl e \<Rightarrow> (r, Inl e)
           | Inr hashes \<Rightarrow> update_flow_state pv ops r name version (Some ACTIVE) (Some (Some hashes))))"

text \<open>
  \<open>with_replaced_tools\<close>: the arguments the constructor gets; the others have their defaults.
\<close>

definition replaced_base :: "('w, 'c, 'k) executor \<Rightarrow> ('w, 'c, 'k) executor" where
  "replaced_base ex =
     ex\<lparr>ex_tools := [], ex_approval := None, ex_strict_safety := False, ex_max_side_effect := None,
        ex_guardrail := None, ex_capability := None\<rparr>"

fun register_tools ::
  "'w platform \<Rightarrow> ('v :: linorder) version_parser \<Rightarrow> 's store_ops \<Rightarrow> 'w tool list \<Rightarrow> 'w tools \<times> 's registry \<Rightarrow>
     ('w tools \<times> 's registry) \<times> (exn + unit)" where
  "register_tools pl pv ops [] s = (s, Inr ())"
| "register_tools pl pv ops (t # ts) s =
     bind_st (register_tool pl pv ops t s) (\<lambda>s _. register_tools pl pv ops ts s)"

definition with_replaced_tools ::
  "('v :: linorder) version_parser \<Rightarrow> 's store_ops \<Rightarrow> ('w, 'c, 'k) executor \<Rightarrow> 'w tool list \<Rightarrow> 's registry \<Rightarrow>
     's registry \<times> (exn + ('w, 'c, 'k) executor)" where
  "with_replaced_tools pv ops ex tools r =
     (case register_tools (ex_platform ex) pv ops tools ([], r) of
        ((_, r), Inl e) \<Rightarrow> (r, Inl e)
      | ((ts, r), Inr _) \<Rightarrow> (r, Inr ((replaced_base ex)\<lparr>ex_tools := ts\<rparr>)))"

section \<open>Marking flows for review\<close>

text \<open>A flow recorded with another hash for the tool, and what becomes of it.\<close>

definition drifted :: "string \<Rightarrow> string \<Rightarrow> any_flow \<Rightarrow> bool" where
  "drifted name hash f \<longleftrightarrow>
     (\<exists>hs h. af_hashes f = Some hs \<and> dict_get hs name = Some h \<and> h \<noteq> hash)"

definition review :: "string \<Rightarrow> string \<Rightarrow> any_flow \<Rightarrow> any_flow" where
  "review name hash f = (if drifted name hash f then copy_flow (Some NEEDS_REVIEW) None f else f)"

lemma mark_drifted_Cons:
  "mark_drifted pv ops name hash (f # fs) r =
     (if drifted name hash f then
        bind_st (set_flow_status pv ops r (af_name f) NEEDS_REVIEW (Some (af_version f))) (\<lambda>r _.
          mark_drifted pv ops name hash fs r)
      else mark_drifted pv ops name hash fs r)"
  by (auto simp: drifted_def split: option.splits)

declare mark_drifted.simps(2) [simp del]

lemma map_err_all:
  "(\<And>x. x \<in> set xs \<Longrightarrow> f x = Inr (g x)) \<Longrightarrow> map_err f xs = Inr (map g xs)"
  by (induction xs) auto

context registry_store
begin

lemma list_flows_all:
  assumes "good (r_store r)"
  shows "list_flows ops r None None = Inr (map (\<lambda>k. the (contents (r_store r) k)) (op_list_keys ops (r_store r)))"
proof -
  have "op_load_flow ops (r_store r) (fst k) (snd k) = Inr (the (contents (r_store r) k))"
    if "k \<in> set (op_list_keys ops (r_store r))" for k
    using that keys [OF assms] load [OF assms, of "fst k" "snd k"] by auto
  then have "map_err (\<lambda>k. op_load_flow ops (r_store r) (fst k) (snd k)) (op_list_keys ops (r_store r)) =
      Inr (map (\<lambda>k. the (contents (r_store r) k)) (op_list_keys ops (r_store r)))"
    by (rule map_err_all)
  then show ?thesis
    by (simp add: list_flows_def status_selected_def)
qed

lemma listed:
  assumes "good (r_store r)" and "list_flows ops r None None = Inr fs"
  shows "distinct (map flow_key_of fs)" and "set fs = ran (contents (r_store r))"
proof -
  let ?ks = "op_list_keys ops (r_store r)"
  from assms have fs: "fs = map (\<lambda>k. the (contents (r_store r) k)) ?ks"
    by (simp add: list_flows_all)
  have "flow_key_of (the (contents (r_store r) k)) = k" if "k \<in> set ?ks" for k
    using that keys [OF assms(1)] keyed [OF assms(1), of k] by auto
  then have "map flow_key_of fs = ?ks"
    by (simp add: fs comp_def map_idI)
  then show "distinct (map flow_key_of fs)"
    using keys [OF assms(1)] by simp
  show "set fs = ran (contents (r_store r))"
    using keys [OF assms(1)] by (auto simp: fs ran_def image_def dom_def) (metis option.sel)+
qed

lemma set_status_stored:
  assumes "registry_ok pv r" and "contents (r_store r) (flow_key_of f) = Some f"
  obtains r' where "set_flow_status pv ops r (af_name f) st (Some (af_version f)) = (r', Inr (copy_flow (Some st) None f))"
    and "registry_ok pv r'" and "contents (r_store r') = (contents (r_store r))(flow_key_of f \<mapsto> copy_flow (Some st) None f)"
proof -
  have g: "get_flow ops r (af_name f) (Some (af_version f)) = Inr f"
    using assms load [of "r_store r"] by (simp add: get_flow_def registry_ok_def flow_key_of_def)
  obtain r' res where u: "set_flow_status pv ops r (af_name f) st (Some (af_version f)) = (r', res)"
    by (cases "set_flow_status pv ops r (af_name f) st (Some (af_version f))")
  from update_flow_state_ok [OF assms(1) u [unfolded set_flow_status_def]] g u that show thesis
    by (auto split: sum.splits)
qed

lemma mark_drifted_ok:
  assumes "registry_ok pv r" and "distinct (map flow_key_of fs)"
    and "\<forall>f \<in> set fs. contents (r_store r) (flow_key_of f) = Some f"
  shows "\<exists>r'. mark_drifted pv ops name hash fs r = (r', Inr ()) \<and> registry_ok pv r' \<and>
    contents (r_store r') = (\<lambda>k. if k \<in> flow_key_of ` set fs
      then map_option (review name hash) (contents (r_store r) k) else contents (r_store r) k)"
  using assms
proof (induction fs arbitrary: r)
  case (Cons f fs)
  show ?case
  proof (cases "drifted name hash f")
    case True
    from Cons.prems(3) have "contents (r_store r) (flow_key_of f) = Some f" by simp
    from set_status_stored [OF Cons.prems(1) this, of NEEDS_REVIEW] obtain r1 where
      r1: "set_flow_status pv ops r (af_name f) NEEDS_REVIEW (Some (af_version f)) =
          (r1, Inr (copy_flow (Some NEEDS_REVIEW) None f))" "registry_ok pv r1"
        "contents (r_store r1) = (contents (r_store r))(flow_key_of f \<mapsto> copy_flow (Some NEEDS_REVIEW) None f)" .
    have "\<forall>g \<in> set fs. contents (r_store r1) (flow_key_of g) = Some g"
      using Cons.prems(2,3) r1(3) by (auto simp: image_def)
    with Cons.IH [OF r1(2)] Cons.prems(2) obtain r' where
      "mark_drifted pv ops name hash fs r1 = (r', Inr ())" "registry_ok pv r'"
      "contents (r_store r') = (\<lambda>k. if k \<in> flow_key_of ` set fs
         then map_option (review name hash) (contents (r_store r1) k) else contents (r_store r1) k)"
      by auto
    moreover have "flow_key_of f \<notin> flow_key_of ` set fs"
      using Cons.prems(2) by auto
    ultimately show ?thesis
      using True r1 Cons.prems(3)
      by (intro exI [of _ r'] conjI ext) (auto simp: mark_drifted_Cons review_def)
  next
    case False
    from Cons.IH [OF Cons.prems(1)] Cons.prems obtain r' where
      "mark_drifted pv ops name hash fs r = (r', Inr ())" "registry_ok pv r'"
      "contents (r_store r') = (\<lambda>k. if k \<in> flow_key_of ` set fs
         then map_option (review name hash) (contents (r_store r) k) else contents (r_store r) k)"
      by auto
    with False Cons.prems(3) show ?thesis
      by (intro exI [of _ r'] conjI ext) (auto simp: mark_drifted_Cons review_def)
  qed
qed simp

lemma handle_schema_drift_ok:
  assumes "registry_ok pv r"
  shows "\<exists>r'. handle_schema_drift pl pv ops tool r = (r', Inr ()) \<and> registry_ok pv r' \<and>
    contents (r_store r') = map_option (review (t_name tool) (schema_hash pl tool)) \<circ> contents (r_store r)"
proof -
  from assms have g: "good (r_store r)"
    by (simp add: registry_ok_def)
  obtain fs where fs: "list_flows ops r None None = Inr fs"
    using list_flows_all [OF g] by blast
  note l = listed [OF g fs]
  have stored: "\<forall>f \<in> set fs. contents (r_store r) (flow_key_of f) = Some f"
    using l(2) keyed [OF g] by (auto simp: ran_def)
  from mark_drifted_ok [OF assms l(1) stored, of "t_name tool" "schema_hash pl tool"] obtain r' where
    r': "mark_drifted pv ops (t_name tool) (schema_hash pl tool) fs r = (r', Inr ())" "registry_ok pv r'"
      "contents (r_store r') = (\<lambda>k. if k \<in> flow_key_of ` set fs
         then map_option (review (t_name tool) (schema_hash pl tool)) (contents (r_store r) k)
         else contents (r_store r) k)"
    by blast
  have "contents (r_store r) k = None" if "k \<notin> flow_key_of ` set fs" for k
  proof (cases "contents (r_store r) k")
    case (Some f)
    then have "f \<in> set fs" "flow_key_of f = k"
      using l(2) keyed [OF g Some] by (auto intro: ranI)
    with that show ?thesis by auto
  qed simp
  with r' fs show ?thesis
    by (intro exI [of _ r'] conjI ext) (auto simp: handle_schema_drift_def)
qed

end

section \<open>Properties\<close>

definition replaced_schema :: "'w platform \<Rightarrow> 'w tools \<Rightarrow> 'w tool \<Rightarrow> bool" where
  "replaced_schema pl tools tool \<longleftrightarrow>
     (\<exists>old. dict_get tools (t_name tool) = Some old \<and> schema_hash pl old \<noteq> schema_hash pl tool)"

text \<open>
  C14: Registering a tool over one with another schema hash marks exactly the stored flows recorded
  with a hash of that tool other than the new one as NEEDS_REVIEW, leaves every other flow as it
  was, keeps the registry's invariant and stores the tool; without a changed hash the registry is
  not touched.
\<close>

theorem register_tool_marks_drift:
  assumes "registry_inv pv r"
  shows "\<exists>r'. register_tool pl pv in_memory_store tool (tools, r) =
      ((dict_set tools (t_name tool) tool, r'), Inr ()) \<and> registry_inv pv r' \<and>
    (if replaced_schema pl tools tool
     then \<forall>k. dict_get (r_store r') k = map_option (review (t_name tool) (schema_hash pl tool)) (dict_get (r_store r) k)
     else r' = r)"
proof (cases "replaced_schema pl tools tool")
  case True
  have "mem_store.registry_ok pv r"
    using assms by (simp add: registry_inv_iff)
  from mem_store.handle_schema_drift_ok [OF this, of pl tool] obtain r' where
    "handle_schema_drift pl pv in_memory_store tool r = (r', Inr ())" and r': "registry_inv pv r'"
    "map_of (r_store r') = map_option (review (t_name tool) (schema_hash pl tool)) \<circ> map_of (r_store r)"
    unfolding registry_inv_iff by blast
  moreover from True obtain old where "dict_get tools (t_name tool) = Some old" "schema_hash pl old \<noteq> schema_hash pl tool"
    by (auto simp: replaced_schema_def)
  ultimately have "register_tool pl pv in_memory_store tool (tools, r) = ((dict_set tools (t_name tool) tool, r'), Inr ())"
    by (simp add: register_tool_def)
  with r' True show ?thesis
    by (simp only: if_True) (auto intro!: exI [of _ r'])
next
  case False
  then have "register_tool pl pv in_memory_store tool (tools, r) = ((dict_set tools (t_name tool) tool, r), Inr ())"
    by (cases "dict_get tools (t_name tool)") (simp_all add: register_tool_def replaced_schema_def)
  with assms False show ?thesis
    by (simp only: if_False) auto
qed

theorem register_tool_marks_drift_witness:
  "\<exists>r'. register_tool sample_platform plain_versions in_memory_store (writer\<lparr>t_schema_version := ''1''\<rparr>)
       ([(''write'', writer)], empty_registry) = (([(''write'', writer\<lparr>t_schema_version := ''1''\<rparr>)], r'), Inr ())"
  using register_tool_marks_drift [OF empty_registry_inv [of plain_versions], of sample_platform
      "writer\<lparr>t_schema_version := ''1''\<rparr>" "[(''write'', writer)]"]
  by (auto simp: writer_def sample_tool_def)

lemma tool_hashes_current:
  assumes "tool_hashes pl tools steps acc = Inr hs"
    and "\<forall>(n, h) \<in> set acc. \<exists>t. dict_get tools n = Some t \<and> h = schema_hash pl t"
  shows "\<forall>(n, h) \<in> set hs. \<exists>t. dict_get tools n = Some t \<and> h = schema_hash pl t"
  using assms
proof (induction steps arbitrary: acc)
  case (Cons s steps)
  have set_set: "set (dict_set acc k v) \<subseteq> insert (k, v) (set acc)" for k v
    by (induction acc) auto
  obtain name where n: "display_name s = Inr name"
    using Cons.prems(1) by (cases "display_name s") auto
  show ?case
  proof (cases "dict_get tools name")
    case None
    with Cons n show ?thesis by simp
  next
    case (Some t)
    have "\<forall>(n, h) \<in> set (dict_set acc name (schema_hash pl t)). \<exists>t. dict_get tools n = Some t \<and> h = schema_hash pl t"
      using set_set [of name "schema_hash pl t"] Cons.prems(2) Some by fastforce
    with Cons.IH Cons.prems(1) n Some show ?thesis by simp
  qed
qed simp

lemma no_drift:
  assumes "af_hashes f = Some hs"
    and "\<forall>(n, h) \<in> set hs. \<exists>t. dict_get tools n = Some t \<and> h = schema_hash pl t"
  shows "flow_drift pl tools f = []"
proof -
  have "List.map_filter (\<lambda>(tool, expected). case dict_get tools tool of None \<Rightarrow> None
      | Some t \<Rightarrow> (if expected \<noteq> schema_hash pl t
                 then Some \<lparr>di_flow_name = af_name f, di_tool_name = tool, di_expected_hash = expected,
                            di_actual_hash = schema_hash pl t\<rparr> else None)) hs = []"
    using assms(2) by (induction hs) (auto simp: List.map_filter_simps)
  with assms(1) show ?thesis
    by (simp add: flow_drift_def)
qed

text \<open>
  Accepting the drift of a flow makes it ACTIVE with the hashes of the currently registered
  tools, so that no mismatch of that flow is reported any more; all other stored flows stay as they
  were and the registry keeps its invariant.
\<close>

theorem accept_drift_clears:
  assumes "registry_inv pv r" and "accept_drift pl pv in_memory_store tools name version r = (r', Inr f)"
  shows "registry_inv pv r' \<and> af_status f = ACTIVE \<and> flow_drift pl tools f = [] \<and>
    dict_get (r_store r') (flow_key_of f) = Some f \<and>
    (\<forall>k. k \<noteq> flow_key_of f \<longrightarrow> dict_get (r_store r') k = dict_get (r_store r) k)"
proof -
  have ok: "mem_store.registry_ok pv r"
    using assms(1) by (simp add: registry_inv_iff)
  from assms(2) obtain f0 hs where f0: "get_flow in_memory_store r name version = Inr f0"
    and hs: "tool_hashes pl tools (af_steps f0) [] = Inr hs"
    and u: "update_flow_state pv in_memory_store r name version (Some ACTIVE) (Some (Some hs)) = (r', Inr f)"
    by (auto simp: accept_drift_def split: sum.split_asm)
  from mem_store.update_flow_state_ok [OF ok u] f0 have r': "mem_store.registry_ok pv r'"
    and f: "f = copy_flow (Some ACTIVE) (Some (Some hs)) f0"
    and c: "map_of (r_store r') = (map_of (r_store r))(flow_key_of f0 \<mapsto> f)"
    by auto
  have "af_status f = ACTIVE" "af_hashes f = Some hs"
    by (cases f0; simp add: f copy_flow_def af_simps)+
  with no_drift [of f hs] tool_hashes_current [OF hs] r' c f show ?thesis
    by (auto simp: registry_inv_iff)
qed

theorem accept_drift_clears_witness:
  "\<exists>r' f. accept_drift sample_platform plain_versions in_memory_store [(''write'', writer)] ''f'' None
       (fst (register_flow plain_versions dedup_first in_memory_store empty_registry
          (LinearFlow (mk_flow ''f'' [mk_step\<lparr>s_tool_name := Some ''write''\<rparr>]\<lparr>f_version := ''2''\<rparr>)) False)) = (r', Inr f) \<and>
     flow_drift sample_platform [(''write'', writer)] f = []"
proof -
  let ?f = "LinearFlow (mk_flow ''f'' [mk_step\<lparr>s_tool_name := Some ''write''\<rparr>]\<lparr>f_version := ''2''\<rparr>)"
  let ?r = "fst (register_flow plain_versions dedup_first in_memory_store empty_registry ?f False)"
  have inv: "registry_inv plain_versions ?r"
    unfolding registry_inv_iff
    by (rule mem_store.register_flow_ok [OF _ surjective_pairing]) (rule empty_registry_inv [unfolded registry_inv_iff])
  have "\<exists>r' f. accept_drift sample_platform plain_versions in_memory_store [(''write'', writer)] ''f'' None ?r = (r', Inr f)"
    by (simp add: accept_drift_def register_flow_def save_in_def lift_touch_def touch_latest_def parse_version_def
        in_memory_store_def empty_registry_def plain_versions_def get_flow_def update_flow_state_def copy_flow_def
        mk_flow_def mk_step_def af_simps flow_key_of_def display_name_def py_or_def Let_def tool_hashes.simps)
  then show ?thesis
    using accept_drift_clears [OF inv] by blast
qed

lemma register_single:
  "register_tools pl pv ops [t] ([], r) = (([(t_name t, t)], r), Inr ())"
  by (simp add: register_tool_def)

definition capped_ex :: "(nat, unit, unit) executor" where
  "capped_ex = sample_ex\<lparr>ex_max_side_effect := Some SE_READ, ex_approval := None, ex_strict_safety := True\<rparr>"

text \<open>
  C25: The executor \<open>with_replaced_tools\<close> returns has none of the safety gates of the original: a
  writing tool that a strict executor with a read-only ceiling refuses to call is called by its
  clone, although the clone is documented to keep every executor-level setting.
\<close>

theorem replaced_tools_drop_gates:
  "\<exists>clone.
     snd (with_replaced_tools plain_versions in_memory_store capped_ex [writer] empty_registry) = Inr clone \<and>
     ex_tools clone = ex_tools capped_ex \<and>
     x_calls (fst (start_flow capped_ex ''f'' [] None False no_opts False ''skip'' None sample_state)) = [] \<and>
     (\<exists>t i inp. RanTool t i writer inp \<in>
        set (x_calls (fst (start_flow clone ''f'' [] None False no_opts False ''skip'' None sample_state))))"
proof -
  let ?clone = "(replaced_base capped_ex)\<lparr>ex_tools := [(''write'', writer)]\<rparr>"
  have name: "t_name writer = ''write''"
    by (simp add: writer_def sample_tool_def)
  have w: "snd (with_replaced_tools plain_versions in_memory_store capped_ex [writer] empty_registry) = Inr ?clone"
    using register_single [of sample_platform plain_versions in_memory_store writer empty_registry]
    by (simp add: with_replaced_tools_def capped_ex_def sample_ex_simps name)
  have capped: "x_calls (fst (start_flow capped_ex ''f'' [] None False no_opts False ''skip'' None sample_state)) = []"
    by (simp add: run_eval capped_ex_def)
  have run: "x_calls (fst (start_flow ?clone ''f'' [] None False no_opts False ''skip'' None sample_state)) =
      [RanTool (pl_trace_id sample_platform 0) 0 writer []]"
    by (simp add: run_eval capped_ex_def replaced_base_def)
  have "RanTool (pl_trace_id sample_platform 0) 0 writer [] \<in>
      set (x_calls (fst (start_flow ?clone ''f'' [] None False no_opts False ''skip'' None sample_state)))"
    unfolding run by simp
  with w capped show ?thesis
    by (intro exI [of _ ?clone]) (auto simp: capped_ex_def sample_ex_simps)
qed

end
