(* ===== verification/Resume.thy ===== *)
theory Resume
  imports RunRel Raises StepLog Pointer
begin

text \<open>
  \<open>FlowExecutor.resume_flow\<close>: the guards on the stored snapshot (\<open>_load_snapshot_for_resume\<close>,
  \<open>chainweaver/_versions.py\<close>), and the continuation of a linear or DAG run from it.  Unlike
  \<open>execute_flow\<close> it opens no run scope, takes no deadline and checks no composition, so the nesting
  bound is one more than that of a checked run.  The main result compares a resumed linear run with
  the tail of an uninterrupted one.
\<close>

section \<open>Guards\<close>

definition py_strip :: "string \<Rightarrow> string" where
  "py_strip s = dropWhile py_space (rev (dropWhile py_space (rev s)))"

definition major :: "string \<Rightarrow> int" where
  "major version =
     (if version = [] then 0
      else (case py_int_of (hd (split_on (CHR ''.'') (py_strip version))) of None \<Rightarrow> 0 | Some n \<Rightarrow> n))"

definition same_major :: "string \<Rightarrow> string \<Rightarrow> bool" where
  "same_major found cur = (major found = major cur)"

text \<open>The recorded tool hashes against the registered tools, in order.\<close>

definition hash_drift ::
  "'w platform \<Rightarrow> 'w tools \<Rightarrow> string \<Rightarrow> string \<Rightarrow> string \<times> string \<Rightarrow> exn option" where
  "hash_drift pl tools trace flow_name entry =
     (case dict_get tools (fst entry) of
        None \<Rightarrow> Some (CheckpointDriftError trace flow_name ''tool is no longer registered'')
      | Some t \<Rightarrow>
          (if schema_hash pl t \<noteq> snd entry
           then Some (CheckpointDriftError trace flow_name ''tool schema_hash changed'') else None))"

definition load_snapshot ::
  "('w, 'c, 'k) executor \<Rightarrow> string \<Rightarrow> 'k \<Rightarrow> exn + any_flow \<times> snapshot" where
  "load_snapshot ex trace k =
     (case ex_checkpointer ex of
        None \<Rightarrow> Inl CheckpointerNotConfiguredError
      | Some ops \<Rightarrow>
          bind_err (op_snap_load ops k trace) (\<lambda>found.
            case found of
              None \<Rightarrow> Inl (CheckpointNotFoundError trace)
            | Some sn \<Rightarrow>
                (if \<not> same_major (sn_version sn) SNAPSHOT_VERSION
                 then Inl (CheckpointVersionError trace (sn_flow_name sn) (sn_version sn))
                 else
                   bind_err (ex_get_flow ex (sn_flow_name sn) None) (\<lambda>f.
                     if af_version f \<noteq> sn_flow_version sn
                     then Inl (CheckpointDriftError trace (sn_flow_name sn) ''flow version changed'')
                     else
                       (case first_err (hash_drift (ex_platform ex) (ex_tools ex) trace (sn_flow_name sn))
                               (sn_tool_hashes sn) of
                          Some e \<Rightarrow> Inl e
                        | None \<Rightarrow> Inr (f, sn))))))"

section \<open>Continuing a run\<close>

definition resume_step ::
  "('w, 'c, 'k) executor \<Rightarrow> ('w, 'c, 'k) run_flow \<Rightarrow> flow \<Rightarrow> string \<Rightarrow> string \<Rightarrow> val dict \<Rightarrow>
     nat \<Rightarrow> flow_step \<Rightarrow> val dict \<Rightarrow> step_record list \<Rightarrow> ('w, 'c, 'k) xstate \<Rightarrow>
     ('w, 'c, 'k) xstate \<times> (raised + execution_result + val dict \<times> step_record list)" where
  "resume_step ex rec f name trace input idx step ctx recs st =
     bind_st (execute_step ex rec \<lparr>se_trace = trace, se_flow = name, se_index = int idx, se_step_id = None\<rparr>
           step ctx no_opts st) (\<lambda>st r.
       let recs = recs @ [r] in
       if \<not> sr_success r then
         bind_st (make_result ex name trace input False None recs None st) (\<lambda>st res. (st, Inr (Inl res)))
       else
         (case (sr_outputs r, display_name step) of
            (None, _) \<Rightarrow> (st, Inl (RExn PyAssertionError))
          | (_, Inl e) \<Rightarrow> (st, Inl (RExn e))
          | (Some out, Inr dname) \<Rightarrow>
              (case apply_output_mapping out (s_output_mapping step) dname (int idx) of
                 Inl e \<Rightarrow> (st, Inl (RExn e))
               | Inr mapped \<Rightarrow>
                   (let ctx = dict_update ctx mapped in
                    bind_st (save_snapshot ex (LinearFlow f) trace input ctx recs (idx + 1) 0 st) (\<lambda>st _.
                      (st, Inr (Inr (ctx, recs))))))))"

fun resume_loop ::
  "('w, 'c, 'k) executor \<Rightarrow> ('w, 'c, 'k) run_flow \<Rightarrow> flow \<Rightarrow> string \<Rightarrow> string \<Rightarrow> val dict \<Rightarrow>
     nat \<Rightarrow> flow_step list \<Rightarrow> val dict \<Rightarrow> step_record list \<Rightarrow> ('w, 'c, 'k) xstate \<Rightarrow>
     ('w, 'c, 'k) xstate \<times> (raised + loop_end)" where
  "resume_loop ex rec f name trace input idx [] ctx recs st = (st, Inr (Completed ctx recs))"
| "resume_loop ex rec f name trace input idx (step # steps) ctx recs st =
     bind_st (resume_step ex rec f name trace input idx step ctx recs st) (\<lambda>st x.
       case x of
         Inl res \<Rightarrow> (st, Inr (Stopped res))
       | Inr (ctx, recs) \<Rightarrow> resume_loop ex rec f name trace input (idx + 1) steps ctx recs st)"

definition resume_linear ::
  "('w, 'c, 'k) executor \<Rightarrow> ('w, 'c, 'k) run_flow \<Rightarrow> flow \<Rightarrow> snapshot \<Rightarrow> ('w, 'c, 'k) xstate \<Rightarrow>
     ('w, 'c, 'k) xstate \<times> (raised + execution_result)" where
  "resume_linear ex rec f sn st =
     (let name = sn_flow_name sn; trace = sn_trace_id sn; input = sn_initial_input sn; k = sn_completed_steps sn
      in bind_st (resume_loop ex rec f name trace input k (drop k (f_steps f)) (sn_context sn) (sn_log sn)
             (fire ex (FlowStart trace name (f_version f) input (length (f_steps f)))
               (set_version (f_version f) st))) (\<lambda>st e.
           case e of
             Stopped res \<Rightarrow> (st, Inr res)
           | Completed ctx recs \<Rightarrow> finish_flow ex (LinearFlow f) name trace input ctx recs st))"

definition set_resume :: "snapshot option \<Rightarrow> ('w, 'c, 'k) xstate \<Rightarrow> ('w, 'c, 'k) xstate" where
  "set_resume sn st = st\<lparr>x_local := x_local st\<lparr>l_resume := sn\<rparr>\<rparr>"

definition resume_dag ::
  "('w, 'c, 'k) executor \<Rightarrow> ('w, 'c, 'k) run_flow \<Rightarrow> dag_flow \<Rightarrow> snapshot \<Rightarrow> ('w, 'c, 'k) xstate \<Rightarrow>
     ('w, 'c, 'k) xstate \<times> (raised + execution_result)" where
  "resume_dag ex rec f sn st =
     (case execute_dag ex rec f (sn_initial_input sn) no_opts (set_resume (Some sn) st) of
        (st, r) \<Rightarrow> (set_resume None st, r))"

definition resume_flow ::
  "('w, 'c, 'k) executor \<Rightarrow> string \<Rightarrow> ('w, 'c, 'k) xstate \<Rightarrow> ('w, 'c, 'k) xstate \<times> (raised + execution_result)" where
  "resume_flow ex trace st =
     (case load_snapshot ex trace (x_snaps st) of
        Inl e \<Rightarrow> (st, Inl (RExn e))
      | Inr (f, sn) \<Rightarrow>
          (case f of
             DagFlow d \<Rightarrow> resume_dag ex (run_flow ex (ex_max_depth ex + 1)) d sn st
           | LinearFlow l \<Rightarrow> resume_linear ex (run_flow ex (ex_max_depth ex + 1)) l sn st))"

section \<open>The guards\<close>

lemma load_snapshot_Inr:
  "load_snapshot ex trace k = Inr (f, sn) \<longleftrightarrow>
     (\<exists>ops. ex_checkpointer ex = Some ops \<and> op_snap_load ops k trace = Inr (Some sn)) \<and>
     major (sn_version sn) = 1 \<and> ex_get_flow ex (sn_flow_name sn) None = Inr f \<and>
     af_version f = sn_flow_version sn \<and>
     (\<forall>e \<in> set (sn_tool_hashes sn).
        \<exists>t. dict_get (ex_tools ex) (fst e) = Some t \<and> schema_hash (ex_platform ex) t = snd e)"
proof -
  have v: "major SNAPSHOT_VERSION = 1"
    by code_simp
  have d: "hash_drift pl tools trace n e = None \<longleftrightarrow> (\<exists>t. dict_get tools (fst e) = Some t \<and> schema_hash pl t = snd e)"
    for pl tools n e
    by (auto simp: hash_drift_def split: option.splits)
  show ?thesis (is "?L \<longleftrightarrow> ?R")
  proof
    assume ?L
    then show ?R
      unfolding load_snapshot_def same_major_def v
      by (auto simp: d elim!: bind_err_InrE split: option.split_asm if_split_asm) (metis fst_conv snd_conv)
  next
    assume ?R
    then obtain ops where "ex_checkpointer ex = Some ops" "op_snap_load ops k trace = Inr (Some sn)"
      "major (sn_version sn) = 1" "ex_get_flow ex (sn_flow_name sn) None = Inr f" "af_version f = sn_flow_version sn"
      "first_err (hash_drift (ex_platform ex) (ex_tools ex) trace (sn_flow_name sn)) (sn_tool_hashes sn) = None"
      by (auto simp: d)
    then show ?L
      by (simp add: load_snapshot_def same_major_def v del: first_err_None)
  qed
qed

section \<open>Resumed and uninterrupted runs\<close>

interpretation calm: raises "\<lambda>e. \<forall>n i r l c. e \<noteq> RCancelled n i r l c" no_opts
  by unfold_locales auto

lemma calm_reanchor:
  "raises_ok (\<lambda>e. \<forall>n i r l c. e \<noteq> RCancelled n i r l c) x \<Longrightarrow>
     reanchor_cancellation ex name trace input step idx recs x = x"
  by (auto simp: reanchor_cancellation_def raises_ok_def split: prod.splits sum.splits raised.splits)

lemma calm_step:
  "raises_ok (\<lambda>e. \<forall>n i r l c. e \<noteq> RCancelled n i r l c) (execute_step ex (run_flow ex n) env step ctx no_opts st)"
  by (rule calm.step) (simp add: sub_raises_def calm.nested)

lemma merge_no_error:
  "policy \<noteq> Error \<Longrightarrow> merge_step_outputs policy fl idx name om ctx out =
     (case apply_output_mapping out om name idx of Inl e \<Rightarrow> Inl e | Inr m \<Rightarrow> Inr (dict_update ctx m))"
  by (auto simp: merge_step_outputs_def bind_err_def split: sum.splits)

lemma resume_step_linear:
  assumes "f_on_context_collision f \<noteq> Error"
  shows "resume_step ex (run_flow ex n) f name trace input idx step ctx recs st =
     linear_step ex (run_flow ex n) f name trace input no_opts idx step ctx recs st"
proof -
  let ?env = "\<lparr>se_trace = trace, se_flow = name, se_index = int idx, se_step_id = None\<rparr>"
  let ?x = "execute_step ex (run_flow ex n) ?env step ctx no_opts st"
  have c: "check_cancellation ex name trace input (int idx) no_opts recs st = (st, Inr ())"
    by (simp add: check_cancellation_def no_opts_def)
  have r: "reanchor_cancellation ex name trace input step (int idx) recs ?x = ?x"
    by (rule calm_reanchor) (rule calm_step)
  have out: "sr_outputs r \<noteq> None" if "?x = (s, Inr r)" "sr_success r" for s r
    using execute_step_wf [OF sound_run_flow that(1)] that(2) by (simp add: wf_step_def sr_success_def sr_outputs_def)
  show ?thesis
    unfolding resume_step_def linear_step_def c r bind_st_simps
  proof (rule bind_st_cong [OF refl], goal_cases)
    case (1 s rc)
    with out show ?case
      by (cases "sr_outputs rc")
        (auto simp: Let_def merge_no_error [OF assms] split: sum.splits option.splits)
  qed
qed

lemma resume_loop_linear:
  assumes "f_on_context_collision f \<noteq> Error"
  shows "resume_loop ex (run_flow ex n) f name trace input idx steps ctx recs st =
     linear_loop ex (run_flow ex n) f name trace input no_opts idx steps ctx recs st"
  by (induction steps arbitrary: idx ctx recs st)
    (auto simp: resume_step_linear [OF assms] intro!: bind_st_cong split: sum.splits)

text \<open>A run of the first steps followed by a run of the rest.\<close>

lemma linear_loop_append:
  "linear_loop ex rec f name trace input opts idx (as @ bs) ctx recs st =
     bind_st (linear_loop ex rec f name trace input opts idx as ctx recs st) (\<lambda>st e.
       case e of
         Stopped res \<Rightarrow> (st, Inr (Stopped res))
       | Completed ctx recs \<Rightarrow> linear_loop ex rec f name trace input opts (idx + length as) bs ctx recs st)"
proof (induction as arbitrary: idx ctx recs st)
  case (Cons a as)
  show ?case
    by (cases "linear_step ex rec f name trace input opts idx a ctx recs st"; cases "snd (linear_step ex rec f name trace input opts idx a ctx recs st)")
      (auto simp: Cons.IH split: sum.splits)
qed simp



section \<open>What a step saves\<close>

text \<open>
  After each completed step of a linear run with a checkpointer (outside dry runs) the stored
  snapshot of the trace is the state of the loop: the merged context, the log so far and the number
  of completed steps.
\<close>

theorem snapshot_is_loop_state:
  assumes "ex_checkpointer ex = Some (in_memory_checkpointer sn_trace_id)"
    and "linear_step ex rec f name trace input opts idx step ctx recs st = (st', Inr (Inr (ctx', recs')))"
    and "\<not> l_dry_run (x_local st')"
  shows "\<exists>sn. op_snap_load (in_memory_checkpointer sn_trace_id) (x_snaps st') trace = Inr (Some sn) \<and>
    sn_context sn = ctx' \<and> sn_log sn = recs' \<and> sn_completed_steps sn = idx + 1 \<and>
    sn_initial_input sn = input \<and> sn_flow_name sn = f_name f \<and> sn_flow_version sn = f_version f \<and>
    sn_trace_id sn = trace"
proof -
  from assms(2) obtain s where save: "save_snapshot ex (LinearFlow f) trace input ctx' recs' (idx + 1) 0 s = (st', Inr ())"
    by (auto simp: linear_step_def Let_def split: if_split_asm option.split_asm sum.split_asm)
  then have "x_local st' = x_local s"
    by (auto simp: save_snapshot_def split: option.split_asm if_split_asm sum.split_asm prod.split_asm)
  with save assms(1,3) obtain hashes u where
    "op_snap_save (in_memory_checkpointer sn_trace_id) (x_snaps s)
       \<lparr>sn_version = SNAPSHOT_VERSION, sn_trace_id = trace, sn_flow_name = f_name f,
        sn_flow_version = f_version f, sn_initial_input = input, sn_context = ctx',
        sn_log = recs', sn_completed_steps = idx + 1, sn_completed_levels = 0,
        sn_tool_hashes = hashes\<rparr> = (x_snaps st', u)" (is "op_snap_save _ _ ?sn = _")
    by (auto simp: save_snapshot_def af_simps split: sum.split_asm prod.split_asm)
  then have "op_snap_load (in_memory_checkpointer sn_trace_id) (x_snaps st') trace = Inr (Some ?sn)"
    using mem_checkpointer.load_save [where trace_of = sn_trace_id and s = ?sn and t = trace and k = "x_snaps s"] by simp
  then show ?thesis
    by (intro exI [of _ ?sn]) simp
qed


section \<open>What a resumed run does not keep\<close>

text \<open>A checkpointing executor with a flow that refuses collisions.\<close>

definition strict_flow :: flow where
  "strict_flow =
     mk_flow ''g'' [mk_step\<lparr>s_tool_name := Some ''write'', s_output_mapping := Some [(''a'', ''k'')]\<rparr>,
       mk_step\<lparr>s_tool_name := Some ''write''\<rparr>]\<lparr>f_on_context_collision := Error\<rparr>"

definition ckpt_ex :: "(nat, unit, snapshot mem_checkpointer) executor" where
  "ckpt_ex = (sample_executor [LinearFlow strict_flow] [(''write'', writer)])
     \<lparr>ex_checkpointer := Some (in_memory_checkpointer sn_trace_id)\<rparr>"

definition ckpt_state :: "(nat, unit, snapshot mem_checkpointer) xstate" where
  "ckpt_state =
     \<lparr>x_world = 0, x_cache = (), x_snaps = [], x_events = [], x_observed = [], x_next_trace = 0,
      x_local = fresh_local, x_calls = []\<rparr>"

lemma ckpt_ex_simps:
  "ex_platform ckpt_ex = sample_platform" "ex_tools ckpt_ex = [(''write'', writer)]"
  "ex_middleware ckpt_ex = []" "ex_step_cache ckpt_ex = None"
  "ex_checkpointer ckpt_ex = Some (in_memory_checkpointer sn_trace_id)"
  "ex_delete_on_success ckpt_ex = False" "ex_decision ckpt_ex = None"
  "ex_approval ckpt_ex = Some (\<lambda>w c s. (w, Inr Approve))" "ex_strict_safety ckpt_ex = False"
  "ex_max_side_effect ckpt_ex = Some SE_WRITE" "ex_guardrail ckpt_ex = None" "ex_redact ckpt_ex = None"
  "ex_recorder ckpt_ex = False" "ex_cost_profile ckpt_ex = None" "ex_max_depth ckpt_ex = 2"
  "ex_get_flow ckpt_ex name v = (if name = ''g'' then Inr (LinearFlow strict_flow) else Inl (FlowNotFoundError name None))"
  by (simp_all add: ckpt_ex_def sample_executor_def strict_flow_def mk_flow_def af_simps)

lemma major_current: "major SNAPSHOT_VERSION = 1"
  by code_simp

lemmas resume_eval =
  run_eval ckpt_ex_simps resume_flow_def load_snapshot_def same_major_def major_current resume_linear_def
  resume_step_def in_memory_checkpointer_def hash_drift_def ckpt_state_def strict_flow_def

theorem snapshot_is_loop_state_witness:
  "\<exists>st' ctx recs sn.
     linear_step ckpt_ex (run_flow ckpt_ex 2) strict_flow ''g'' [] [(''k'', VInt 1)] no_opts 0 (hd (f_steps strict_flow))
       [(''k'', VInt 1)] [] ckpt_state = (st', Inr (Inr (ctx, recs))) \<and>
     op_snap_load (in_memory_checkpointer sn_trace_id) (x_snaps st') [] = Inr (Some sn) \<and>
     sn_context sn = ctx \<and> sn_completed_steps sn = 1"
proof -
  let ?l = "linear_step ckpt_ex (run_flow ckpt_ex 2) strict_flow ''g'' [] [(''k'', VInt 1)] no_opts 0 (hd (f_steps strict_flow))
       [(''k'', VInt 1)] [] ckpt_state"
  have "\<exists>st' ctx recs. ?l = (st', Inr (Inr (ctx, recs))) \<and> \<not> l_dry_run (x_local st')"
    by (simp add: resume_eval)
  then obtain st' ctx recs where l: "?l = (st', Inr (Inr (ctx, recs)))" "\<not> l_dry_run (x_local st')"
    by blast
  from snapshot_is_loop_state [OF ckpt_ex_simps(5) l] l(1) show ?thesis
    by auto
qed

text \<open>
  C28: A resumed run does not enforce the collision policy of the flow: a flow with
  \<open>on_context_collision="error"\<close> whose run is refused by \<open>ContextKeyCollisionError\<close> at its second
  step succeeds when it is resumed from the snapshot that run left behind.
\<close>

theorem resume_ignores_collision_policy:
  "\<exists>st1 st2 res.
     start_flow ckpt_ex ''g'' [(''k'', VInt 1)] None False no_opts False ''skip'' None ckpt_state =
       (st1, Inl (RExn (ContextKeyCollisionError ''g'' 1 ''write'' [''k'', ''a'']))) \<and>
     resume_flow ckpt_ex (pl_trace_id sample_platform 0) st1 = (st2, Inr res) \<and> er_success res"
  by (simp add: resume_eval)

text \<open>
  A DAG whose first step chooses its second over its third by default; the tool of the second
  fails on its first call.
\<close>

definition flaky :: "nat tool" where
  "flaky = sample_tool ''flaky'' default_safety
     (\<lambda>w d. (w + 1, 0, if w < 2 then Inl (ValueError ''not yet'') else Inr (VDict [])))"

definition branchy :: dag_flow where
  "branchy = mk_flow ''b''
     [(plain_dag_step ''write'' ''A'' [])\<lparr>d_branches := [\<lparr>target_step_id = ''C'', predicate = []\<rparr>], d_default_next := Some ''B''\<rparr>,
      plain_dag_step ''flaky'' ''B'' [''A''], plain_dag_step ''write'' ''C'' [''A'']]"

lemma branchy_fields:
  "f_name branchy = ''b''" "f_version branchy = ''0.1.0''" "f_status branchy = ACTIVE"
  "f_input_schema_ref branchy = None" "f_output_schema_ref branchy = None" "f_context_schema_ref branchy = None"
  "f_on_context_collision branchy = Warn"
  "f_steps branchy =
     [(plain_dag_step ''write'' ''A'' [])\<lparr>d_branches := [\<lparr>target_step_id = ''C'', predicate = []\<rparr>], d_default_next := Some ''B''\<rparr>,
      plain_dag_step ''flaky'' ''B'' [''A''], plain_dag_step ''write'' ''C'' [''A'']]"
  by (simp_all add: branchy_def mk_flow_def)

definition branchy_ex :: "(nat, unit, snapshot mem_checkpointer) executor" where
  "branchy_ex = (sample_executor [DagFlow branchy] [(''write'', writer), (''flaky'', flaky)])
     \<lparr>ex_checkpointer := Some (in_memory_checkpointer sn_trace_id),
      ex_platform := sample_platform\<lparr>pl_parse := \<lambda>_. Inr (Constant (VBool False))\<rparr>\<rparr>"

definition chosen_away :: "nat call list \<Rightarrow> bool" where
  "chosen_away cs = list_ex (\<lambda>c. case c of RanTool t i tool inp \<Rightarrow> i = 2 \<and> t_name tool = ''write'' | _ \<Rightarrow> False) cs"

lemma branchy_ex_simps:
  "pl_parse (ex_platform branchy_ex) = (\<lambda>_. Inr (Constant (VBool False)))"
  "pl_set_order (ex_platform branchy_ex) = dedup_first" "pl_trace_id (ex_platform branchy_ex) = nat_text"
  "pl_in_loop (ex_platform branchy_ex) = False" "pl_ref_policy (ex_platform branchy_ex) = None"
  "ex_tools branchy_ex = [(''write'', writer), (''flaky'', flaky)]"
  "ex_middleware branchy_ex = []" "ex_step_cache branchy_ex = None"
  "ex_checkpointer branchy_ex = Some (in_memory_checkpointer sn_trace_id)"
  "ex_delete_on_success branchy_ex = False" "ex_decision branchy_ex = None"
  "ex_approval branchy_ex = Some (\<lambda>w c s. (w, Inr Approve))" "ex_strict_safety branchy_ex = False"
  "ex_max_side_effect branchy_ex = Some SE_WRITE" "ex_guardrail branchy_ex = None" "ex_redact branchy_ex = None"
  "ex_recorder branchy_ex = False" "ex_cost_profile branchy_ex = None" "ex_max_depth branchy_ex = 2"
  "ex_get_flow branchy_ex name v = (if name = ''b'' then Inr (DagFlow branchy) else Inl (FlowNotFoundError name None))"
  by (simp_all add: branchy_ex_def sample_executor_def sample_platform_def branchy_def mk_flow_def af_simps)

lemma branchy_levels:
  "compute_dag_levels dedup_first branchy =
     Inr [[f_steps branchy ! 0], [f_steps branchy ! 1, f_steps branchy ! 2]]"
  by code_simp

lemmas dag_eval =
  run_eval branchy_ex_simps branchy_fields branchy_levels resume_flow_def load_snapshot_def same_major_def major_current
  in_memory_checkpointer_def hash_drift_def ckpt_state_def resume_dag_def set_resume_def
  execute_dag_def dag_body_def dag_level_def level_step_def dispatch_dag_step_def proxy_step_def
  settle_step_def select_branch_def evaluate_predicate_def is_skipped_def skipped_record_def dependents_def
  plain_dag_step_def flow_step.defs dag_step.defs flaky_def apply_on_error_def wrap_tool_exception_def

text \<open>
  A resumed DAG run executes branches the run had deselected.  The uninterrupted run skips the
  third step, which the branching first step did not choose; when the chosen second step fails and
  the run is resumed, both execute, because the set of skipped steps is not part of the snapshot.
\<close>

theorem dag_resume_runs_deselected_branch:
  "\<exists>st0 r0 st1 r1 st2 r2.
     start_flow branchy_ex ''b'' [] None False no_opts False ''skip'' None (ckpt_state\<lparr>x_world := 5\<rparr>) = (st0, Inr r0) \<and>
     er_success r0 \<and> \<not> chosen_away (x_calls st0) \<and>
     start_flow branchy_ex ''b'' [] None False no_opts False ''skip'' None ckpt_state = (st1, Inr r1) \<and>
     \<not> er_success r1 \<and> \<not> chosen_away (x_calls st1) \<and>
     resume_flow branchy_ex (nat_text 0) st1 = (st2, Inr r2) \<and>
     er_success r2 \<and> chosen_away (x_calls st2)"
  by (simp add: dag_eval chosen_away_def)

end
