(* ===== verification/Compiler.thy ===== *)
theory Compiler
  imports StepLog Pointer Topology
begin

text \<open>
  \<open>chainweaver/compiler.py\<close> and \<open>chainweaver/compat.py\<close>: the static checks of a flow against its
  tools.  An issue keeps the code's locator and category; its text is left out.  A context is a
  dictionary from keys to types, \<open>None\<close> for a type the compiler does not know.  The main result is
  soundness for linear flows: after a clean compilation no step of a run whose tools return what
  they declare misses an input.
\<close>

section \<open>Types\<close>

record issue =
  i_step :: int
  i_tool :: string
  i_field :: "string option"
  i_type :: string

definition issue :: "int \<Rightarrow> string \<Rightarrow> string option \<Rightarrow> string \<Rightarrow> issue" where
  "issue idx tool fld kind = \<lparr>i_step = idx, i_tool = tool, i_field = fld, i_type = kind\<rparr>"

type_synonym static_context = "(string \<times> string option) list"

text \<open>\<open>_get_field_type\<close>, with a parametrised generic not counting as a class.\<close>

definition get_field_type :: "field_spec \<Rightarrow> string option" where
  "get_field_type fs =
     (case fs_annotation fs of
        NoAnnotation \<Rightarrow> None
      | ClassAnn c \<Rightarrow> Some c
      | UnionAnn args \<Rightarrow>
          (case filter (\<lambda>a. a \<noteq> ClassAnn ''NoneType'') args of [ClassAnn c] \<Rightarrow> Some c | _ \<Rightarrow> None)
      | GenericAnn origin args \<Rightarrow> Some origin
      | OtherAnn _ \<Rightarrow> None)"

text \<open>\<open>_types_compatible\<close>.\<close>

definition numeric_rank :: "string \<Rightarrow> nat option" where
  "numeric_rank t =
     (if t = ''int'' then Some 0 else if t = ''float'' then Some 1
      else if t = ''complex'' then Some 2 else None)"

definition types_compatible :: "string option \<Rightarrow> string option \<Rightarrow> bool" where
  "types_compatible source target =
     (case (source, target) of
        (Some s, Some t) \<Rightarrow>
          s = t \<or> (case (numeric_rank s, numeric_rank t) of (Some a, Some b) \<Rightarrow> a \<le> b | _ \<Rightarrow> False)
      | _ \<Rightarrow> True)"

section \<open>Fallback tools\<close>

text \<open>A required field that neither the mapping nor, without one, the context supplies.\<close>

definition required_issue ::
  "int \<Rightarrow> string \<Rightarrow> string \<Rightarrow> val dict \<Rightarrow> static_context \<Rightarrow> string \<times> field_spec \<Rightarrow> issue list" where
  "required_issue idx tool kind mapping ctx fld =
     (if \<not> fs_required (snd fld) then []
      else if (if mapping \<noteq> [] then dict_has mapping (fst fld) else dict_has ctx (fst fld)) then []
      else [issue idx tool (Some (fst fld)) kind])"

definition fallback_input_issue ::
  "int \<Rightarrow> 'w tool \<Rightarrow> static_context \<Rightarrow> string \<times> val \<Rightarrow> issue list" where
  "fallback_input_issue idx fb ctx entry =
     (case dict_get (sch_fields (t_input_schema fb)) (fst entry) of
        None \<Rightarrow> [issue idx (t_name fb) (Some (fst entry)) ''fallback_unknown_target_key'']
      | Some fs \<Rightarrow>
          (case snd entry of
             VStr source \<Rightarrow>
               (case dict_get ctx source of
                  None \<Rightarrow> []
                | Some t \<Rightarrow>
                    (if types_compatible t (get_field_type fs) then []
                     else [issue idx (t_name fb) (Some (fst entry)) ''fallback_type_mismatch'']))
           | _ \<Rightarrow> []))"

definition validate_fallback_inputs ::
  "int \<Rightarrow> 'w tool \<Rightarrow> val dict \<Rightarrow> static_context \<Rightarrow> issue list" where
  "validate_fallback_inputs idx fb mapping ctx =
     concat (map (fallback_input_issue idx fb ctx) mapping) @
     concat (map (required_issue idx (t_name fb) ''fallback_missing_required_input'' mapping ctx)
       (sch_fields (t_input_schema fb)))"

text \<open>Errors and warnings.\<close>

definition output_type_issue ::
  "int \<Rightarrow> 'w tool \<Rightarrow> 'w tool \<Rightarrow> string \<Rightarrow> issue list" where
  "output_type_issue idx primary fb key =
     (case (dict_get (sch_fields (t_output_schema fb)) key, dict_get (sch_fields (t_output_schema primary)) key) of
        (Some f, Some p) \<Rightarrow>
          (if types_compatible (get_field_type f) (get_field_type p) then []
           else [issue idx (t_name fb) (Some key) ''fallback_output_type_mismatch''])
      | _ \<Rightarrow> [])"

definition validate_fallback_outputs ::
  "int \<Rightarrow> 'w tool \<Rightarrow> 'w tool \<Rightarrow> (string \<times> string) list option \<Rightarrow> issue list \<times> issue list" where
  "validate_fallback_outputs idx primary fb om =
     (case om of
        Some m \<Rightarrow>
          (concat (map (\<lambda>(_, key).
             if dict_has (sch_fields (t_output_schema fb)) key then []
             else [issue idx (t_name fb) (Some key) ''fallback_output_missing_mapped_key'']) m),
           concat (map (\<lambda>(_, key). output_type_issue idx primary fb key) m))
      | None \<Rightarrow>
          ([], concat (map (\<lambda>(key, _).
             if dict_has (sch_fields (t_output_schema fb)) key then output_type_issue idx primary fb key
             else [issue idx (t_name fb) (Some key) ''fallback_output_shape_divergence''])
             (sch_fields (t_output_schema primary)))))"

section \<open>One step\<close>

definition root_token :: "string \<Rightarrow> string" where
  "root_token source = unescape (hd (split_on (CHR ''/'') (tl source)))"

text \<open>The errors and warnings of one entry of the input mapping.\<close>

definition source_issues ::
  "int \<Rightarrow> string \<Rightarrow> 'w tool \<Rightarrow> static_context \<Rightarrow> string \<times> val \<Rightarrow> issue list \<times> issue list" where
  "source_issues idx name tool ctx entry =
     (let (key, source) = entry;
          target = dict_get (sch_fields (t_input_schema tool)) key;
          unknown = (if target = None then [issue idx name (Some key) ''unknown_target_key''] else [])
      in case source of
           VStr s \<Rightarrow>
             (if is_pointer s then
                (unknown @ (if dict_has ctx (root_token s) then []
                            else [issue idx name (Some s) ''missing_mapping_key'']), [])
              else
                (unknown @
                   (case dict_get ctx s of
                      None \<Rightarrow> [issue idx name (Some s) ''missing_mapping_key'']
                    | Some t \<Rightarrow>
                        (case target of
                           None \<Rightarrow> []
                         | Some fs \<Rightarrow>
                             (if types_compatible t (get_field_type fs) then []
                              else [issue idx name (Some key) ''type_mismatch'']))),
                 if dict_has ctx key \<and> key \<noteq> s then [issue idx name (Some key) ''shadowed_key''] else []))
         | _ \<Rightarrow> (unknown, []))"

text \<open>The keys a step contributes, with the errors of its output mapping.\<close>

fun mapped_contribution ::
  "int \<Rightarrow> string \<Rightarrow> (string \<times> field_spec) list \<Rightarrow> (string \<times> string) list \<Rightarrow> static_context \<Rightarrow>
     issue list \<times> static_context" where
  "mapped_contribution idx name flds [] acc = ([], acc)"
| "mapped_contribution idx name flds ((ckey, okey) # m) acc =
     (case dict_get flds okey of
        None \<Rightarrow>
          (case mapped_contribution idx name flds m acc of
             (es, c) \<Rightarrow> (issue idx name (Some okey) ''unknown_output_key'' # es, c))
      | Some fs \<Rightarrow> mapped_contribution idx name flds m (dict_set acc ckey (get_field_type fs)))"

definition contribution ::
  "int \<Rightarrow> string \<Rightarrow> 'w tool \<Rightarrow> (string \<times> string) list option \<Rightarrow> issue list \<times> static_context" where
  "contribution idx name tool om =
     (case om of
        None \<Rightarrow> ([], map (map_prod id get_field_type) (sch_fields (t_output_schema tool)))
      | Some m \<Rightarrow> mapped_contribution idx name (sch_fields (t_output_schema tool)) m [])"

definition unsafe_retry :: "'w tool \<Rightarrow> retry_policy option \<Rightarrow> bool" where
  "unsafe_retry tool policy =
     (case policy of
        None \<Rightarrow> False
      | Some p \<Rightarrow>
          max_retries p > 0 \<and>
          (\<not> safe_to_retry (t_safety tool) \<or> (\<not> idempotent (t_safety tool) \<and> \<not> read_only (t_safety tool))))"

record step_check =
  c_errors :: "issue list"
  c_warnings :: "issue list"
  c_contribution :: static_context

text \<open>
  \<open>_validate_step\<close>; \<open>skipped\<close> holds of a capability step.
\<close>

definition validate_step ::
  "bool \<Rightarrow> flow_step \<Rightarrow> int \<Rightarrow> 'w tools \<Rightarrow> collision_policy \<Rightarrow> static_context \<Rightarrow> step_check" where
  "validate_step skipped step idx tools policy ctx =
     (case (s_tool_name step, skipped) of
        (Some name, False) \<Rightarrow>
          (case dict_get tools name of
             None \<Rightarrow> \<lparr>c_errors = [issue idx name None ''missing_tool''], c_warnings = [], c_contribution = []\<rparr>
           | Some tool \<Rightarrow>
               (let prefix = ''fallback:'';
                    has_fb = take (length prefix) (s_on_error step) = prefix;
                    fb_name = drop (length prefix) (s_on_error step);
                    fb = (if has_fb then dict_get tools fb_name else None);
                    mapping = s_input_mapping step;
                    entries = map (source_issues idx name tool ctx) mapping;
                    fb_out = (case fb of None \<Rightarrow> ([], []) | Some t \<Rightarrow>
                                validate_fallback_outputs idx tool t (s_output_mapping step));
                    contr = contribution idx name tool (s_output_mapping step)
                in \<lparr>c_errors =
                      (if has_fb \<and> fb = None then [issue idx fb_name None ''missing_fallback_tool''] else []) @
                      concat (map fst entries) @
                      concat (map (required_issue idx name ''missing_required_input'' mapping ctx)
                        (sch_fields (t_input_schema tool))) @
                      (case fb of None \<Rightarrow> [] | Some t \<Rightarrow> validate_fallback_inputs idx t mapping ctx) @
                      fst fb_out @ fst contr,
                    c_warnings =
                      (if unsafe_retry tool (s_retry step) then [issue idx name None ''unsafe_retry''] else []) @
                      concat (map snd entries) @ snd fb_out @
                      (if policy = Overwrite then []
                       else map (\<lambda>(k, _). issue idx name (Some k) ''context_collision'')
                              (filter (\<lambda>(k, _). dict_has ctx k) (snd contr))),
                    c_contribution = snd contr\<rparr>))
      | _ \<Rightarrow> \<lparr>c_errors = [], c_warnings = [], c_contribution = []\<rparr>)"

section \<open>Whole flows\<close>

text \<open>The accumulated check of a linear flow.\<close>

fun compile_linear ::
  "'w tools \<Rightarrow> collision_policy \<Rightarrow> int \<Rightarrow> flow_step list \<Rightarrow> static_context \<Rightarrow> step_check" where
  "compile_linear tools policy idx [] ctx = \<lparr>c_errors = [], c_warnings = [], c_contribution = ctx\<rparr>"
| "compile_linear tools policy idx (s # ss) ctx =
     (let r = validate_step False s idx tools policy ctx;
          rest = compile_linear tools policy (idx + 1) ss (dict_update ctx (c_contribution r))
      in \<lparr>c_errors = c_errors r @ c_errors rest, c_warnings = c_warnings r @ c_warnings rest,
          c_contribution = c_contribution rest\<rparr>)"

text \<open>\<open>_compile_dag_steps\<close>: the order of the sorter, or of the list when there is a cycle.\<close>

definition compile_graph :: "set_order \<Rightarrow> dag_flow \<Rightarrow> graph" where
  "compile_graph ord f = fold (\<lambda>s g. dict_set g (d_step_id s) (ord (d_depends_on s))) (f_steps f) []"

definition compile_order :: "set_order \<Rightarrow> dag_flow \<Rightarrow> string list" where
  "compile_order ord f =
     (let g = compile_graph ord f
      in if has_cycle g then map d_step_id (f_steps f) else static_order g)"

definition index_by_id :: "dag_flow \<Rightarrow> string \<Rightarrow> nat" where
  "index_by_id f sid = the (map_of (rev (zip (map d_step_id (f_steps f)) [0..<length (f_steps f)])) sid)"

text \<open>The context a step sees: the base and what its dependencies make visible.\<close>

definition dag_step_context ::
  "static_context \<Rightarrow> (string \<times> static_context) list \<Rightarrow> dag_step \<Rightarrow> static_context" where
  "dag_step_context base avail step =
     fold (\<lambda>d ctx. case dict_get avail d of None \<Rightarrow> ctx | Some c \<Rightarrow> dict_update ctx c)
       (d_depends_on step) base"

fun compile_dag ::
  "'w tools \<Rightarrow> dag_flow \<Rightarrow> static_context \<Rightarrow> string list \<Rightarrow> (string \<times> static_context) list \<Rightarrow>
     static_context \<Rightarrow> step_check" where
  "compile_dag tools f base [] avail final = \<lparr>c_errors = [], c_warnings = [], c_contribution = final\<rparr>"
| "compile_dag tools f base (sid # sids) avail final =
     (case step_by_id f sid of
        None \<Rightarrow> compile_dag tools f base sids avail final
      | Some step \<Rightarrow>
          (let ctx = dag_step_context base avail step;
               r = validate_step (d_step_type step = KCapability) (flow_step.truncate step)
                     (int (index_by_id f sid)) tools (f_on_context_collision f) ctx;
               rest = compile_dag tools f base sids
                        (dict_set avail sid (dict_update ctx (c_contribution r)))
                        (dict_update final (c_contribution r))
           in \<lparr>c_errors = c_errors r @ c_errors rest, c_warnings = c_warnings r @ c_warnings rest,
               c_contribution = c_contribution rest\<rparr>))"

definition output_issue :: "any_flow \<Rightarrow> static_context \<Rightarrow> string \<times> field_spec \<Rightarrow> issue list" where
  "output_issue f ctx fld =
     (let idx = int (length (af_steps f)) in
      case dict_get ctx (fst fld) of
        None \<Rightarrow> [issue idx (af_name f) (Some (fst fld)) ''output_schema_gap'']
      | Some t \<Rightarrow>
          (if types_compatible t (get_field_type (snd fld)) then []
           else [issue idx (af_name f) (Some (fst fld)) ''output_type_mismatch'']))"

definition opt_schema :: "'w platform \<Rightarrow> string option \<Rightarrow> exn + schema option" where
  "opt_schema pl ref =
     (case ref of None \<Rightarrow> Inr None | Some r \<Rightarrow> bind_err (resolve_schema pl r) (\<lambda>s. Inr (Some s)))"

record compilation =
  co_success :: bool
  co_errors :: "issue list"
  co_warnings :: "issue list"

definition base_fields :: "schema option \<Rightarrow> static_context" where
  "base_fields s =
     (case s of None \<Rightarrow> []
      | Some s \<Rightarrow> fold (\<lambda>(k, fs) ctx. dict_set ctx k (get_field_type fs)) (sch_fields s) [])"

definition compile_flow :: "'w platform \<Rightarrow> any_flow \<Rightarrow> 'w tools \<Rightarrow> exn + compilation" where
  "compile_flow pl f tools =
     bind_err (opt_schema pl (af_input_ref f)) (\<lambda>input.
       let base = base_fields input;
           r = (case f of
                  LinearFlow l \<Rightarrow> compile_linear tools (f_on_context_collision l) 0 (f_steps l) base
                | DagFlow d \<Rightarrow> compile_dag tools d base (compile_order (pl_set_order pl) d) [] base)
       in bind_err (opt_schema pl (af_output_ref f)) (\<lambda>output.
            let errs = c_errors r @ (case output of None \<Rightarrow> []
                  | Some s \<Rightarrow> concat (map (output_issue f (c_contribution r)) (sch_fields s)))
            in Inr \<lparr>co_success = (errs = []), co_errors = errs, co_warnings = c_warnings r\<rparr>))"

section \<open>Compatibility with registered tools\<close>

definition compat_issue ::
  "'w platform \<Rightarrow> 'w tools \<Rightarrow> (string \<times> string) list option \<Rightarrow> nat \<times> flow_step \<Rightarrow> issue list" where
  "compat_issue pl tools hashes entry =
     (case s_tool_name (snd entry) of
        None \<Rightarrow> []
      | Some name \<Rightarrow>
          (case dict_get tools name of
             None \<Rightarrow> [issue (int (fst entry)) name None ''missing_tool'']
           | Some t \<Rightarrow>
               (case hashes of
                  None \<Rightarrow> []
                | Some hs \<Rightarrow>
                    (case dict_get hs name of
                       None \<Rightarrow> []
                     | Some h \<Rightarrow>
                         (if h \<noteq> schema_hash pl t then [issue (int (fst entry)) name None ''schema_mismatch'']
                          else [])))))"

definition check_flow_compatibility :: "'w platform \<Rightarrow> any_flow \<Rightarrow> 'w tools \<Rightarrow> issue list" where
  "check_flow_compatibility pl f tools =
     concat (map (compat_issue pl tools (af_hashes f)) (enumerate 0 (af_steps f)))"

section \<open>Soundness for linear flows\<close>

text \<open>A record that delivers every output its step's tool declares.\<close>

definition delivers :: "'w tools \<Rightarrow> flow_step \<Rightarrow> step_record \<Rightarrow> bool" where
  "delivers tools step r =
     (case s_tool_name step of
        None \<Rightarrow> True
      | Some name \<Rightarrow>
          (case dict_get tools name of
             None \<Rightarrow> True
           | Some t \<Rightarrow> list_all (dict_has (the (sr_outputs r))) (dict_keys (sch_fields (t_output_schema t)))))"

definition plain_sources :: "flow_step \<Rightarrow> bool" where
  "plain_sources step = list_all (\<lambda>(_, v). case v of VStr s \<Rightarrow> \<not> is_pointer s | _ \<Rightarrow> True) (s_input_mapping step)"

text \<open>A context that has at least the keys of the static one.\<close>

definition covers :: "static_context \<Rightarrow> val dict \<Rightarrow> bool" where
  "covers sctx ctx = list_all (dict_has ctx) (dict_keys sctx)"

definition dict_dom :: "('k \<times> 'v) list \<Rightarrow> 'k set" where
  "dict_dom d = fst ` set d"

lemma dict_dom_simps [simp]:
  "dict_dom [] = {}"
  "dict_dom (kv # d) = insert (fst kv) (dict_dom d)"
  "dict_dom (dict_set d k v) = insert k (dict_dom d)"
  "dict_dom (dict_update d e) = dict_dom d \<union> dict_dom e"
  "dict_dom (map (map_prod id g) d) = dict_dom d"
  by (simp_all add: dict_dom_def image_image AList.dom_update dict_keys_set [simplified] dict_keys_update [simplified])

lemma dict_has_dom: "dict_has d k \<longleftrightarrow> k \<in> dict_dom d"
  by (simp add: dict_has_iff dict_dom_def del: not_None_eq)

lemma list_all_dict_has: "list_all (dict_has d) (dict_keys e) \<longleftrightarrow> dict_dom e \<subseteq> dict_dom d"
  unfolding dict_has_dom by (auto simp: list_all_iff dict_dom_def)

lemma covers_iff: "covers sctx ctx \<longleftrightarrow> dict_dom sctx \<subseteq> dict_dom ctx"
  unfolding covers_def by (rule list_all_dict_has)

lemma project_dom:
  "project_outputs outputs tool idx m mapped = Inr out \<Longrightarrow> dict_dom out = dict_dom mapped \<union> dict_dom m"
proof (induction m arbitrary: mapped)
  case (Cons kv m)
  obtain a b where kv: "kv = (a, b)" by (cases kv)
  with Cons.prems obtain v where "project_outputs outputs tool idx m (dict_set mapped a v) = Inr out"
    by (auto split: option.split_asm)
  from Cons.IH [OF this] show ?case
    by (simp add: kv)
qed simp

lemma mapped_contribution_dom:
  "dict_dom (snd (mapped_contribution idx name flds m acc)) \<subseteq> dict_dom acc \<union> dict_dom m"
proof (induction m arbitrary: acc)
  case (Cons kv m)
  obtain a b where kv: "kv = (a, b)" by (cases kv)
  show ?case
  proof (cases "dict_get flds b")
    case None
    with Cons.IH [of acc] show ?thesis
      by (auto simp: kv split: prod.split)
  next
    case (Some fs)
    with Cons.IH [of "dict_set acc a (get_field_type fs)"] show ?thesis
      by (auto simp: kv)
  qed
qed simp

lemma contribution_dom:
  assumes "list_all (dict_has outputs) (dict_keys (sch_fields (t_output_schema t)))"
    and "apply_output_mapping outputs om name' i = Inr out"
  shows "dict_dom (snd (contribution idx name t om)) \<subseteq> dict_dom out"
proof (cases om)
  case None
  with assms show ?thesis
    unfolding list_all_dict_has by (simp add: contribution_def apply_output_mapping_def)
next
  case (Some m)
  with assms(2) have "dict_dom out = dict_dom m"
    by (auto simp: apply_output_mapping_def dest: project_dom)
  with Some mapped_contribution_dom [of idx name "sch_fields (t_output_schema t)" m "[]"] show ?thesis
    by (simp add: contribution_def)
qed

lemma merge_dom:
  assumes "merge_step_outputs policy fl idx name om ctx outputs = Inr ctx'"
  obtains out where "apply_output_mapping outputs om name idx = Inr out"
    and "dict_dom ctx' = dict_dom ctx \<union> dict_dom out"
proof -
  from assms obtain out where "apply_output_mapping outputs om name idx = Inr out" "ctx' = dict_update ctx out"
    by (auto simp: merge_step_outputs_def bind_err_Inr_iff split: if_split_asm)
  then show thesis
    by (intro that) simp_all
qed

lemma validated_step_covers:
  assumes clean: "c_errors (validate_step False s idx tools policy sctx) = []"
    and cov: "covers sctx ctx" and dl: "delivers tools s r"
    and merged: "merge_step_outputs pol fl i name (s_output_mapping s) ctx (the (sr_outputs r)) = Inr ctx'"
  shows "covers (dict_update sctx (c_contribution (validate_step False s idx tools policy sctx))) ctx'"
proof -
  from merged obtain out where out: "apply_output_mapping (the (sr_outputs r)) (s_output_mapping s) name i = Inr out"
    and keys: "dict_dom ctx' = dict_dom ctx \<union> dict_dom out"
    by (rule merge_dom)
  have "dict_dom (c_contribution (validate_step False s idx tools policy sctx)) \<subseteq> dict_dom out"
  proof (cases "s_tool_name s")
    case None
    then show ?thesis
      by (simp add: validate_step_def)
  next
    case (Some n)
    with clean obtain t where t: "dict_get tools n = Some t"
      by (cases "dict_get tools n") (auto simp: validate_step_def)
    then have "c_contribution (validate_step False s idx tools policy sctx) =
        snd (contribution idx n t (s_output_mapping s))"
      using Some by (simp add: validate_step_def Let_def)
    with contribution_dom [OF _ out, of t idx n] dl Some t show ?thesis
      by (simp add: delivers_def)
  qed
  with cov keys show ?thesis
    unfolding covers_iff by auto
qed

lemma compile_linear_ConsD:
  assumes "c_errors (compile_linear tools policy idx (s # ss) sctx) = []"
  shows "c_errors (validate_step False s idx tools policy sctx) = []"
    and "c_errors (compile_linear tools policy (idx + 1) ss
           (dict_update sctx (c_contribution (validate_step False s idx tools policy sctx)))) = []"
  using assms by (simp_all add: Let_def)

text \<open>A step that passes the check finds its sources and has its required fields.\<close>

lemma map_err_Inr_keys:
  "(\<And>kv. kv \<in> set xs \<Longrightarrow> \<exists>v. g kv = Inr (fst kv, v)) \<Longrightarrow>
     \<exists>ys. map_err g xs = Inr ys \<and> map fst ys = map fst xs"
proof (induction xs)
  case (Cons x xs)
  then obtain v where v: "g x = Inr (fst x, v)"
    by fastforce
  from Cons obtain ys where "map_err g xs = Inr ys" "map fst ys = map fst xs"
    by fastforce
  with v show ?case by simp
qed simp

lemma validated_step_resolves:
  assumes clean: "c_errors (validate_step False s idx tools policy sctx) = []"
    and name: "s_tool_name s = Some n" "n \<noteq> []" and cov: "covers sctx ctx" and plain: "plain_sources s"
  shows "\<exists>t inputs. dict_get tools n = Some t \<and> resolve_inputs s i ctx = Inr inputs \<and>
     list_all (\<lambda>(k, fs). fs_required fs \<longrightarrow> dict_has inputs k) (sch_fields (t_input_schema t))"
proof -
  from clean name obtain t where t: "dict_get tools n = Some t"
    by (cases "dict_get tools n") (auto simp: validate_step_def)
  from clean name t have entries: "concat (map fst (map (source_issues idx n t sctx) (s_input_mapping s))) = []"
    and req: "concat (map (required_issue idx n ''missing_required_input'' (s_input_mapping s) sctx)
        (sch_fields (t_input_schema t))) = []"
    by (auto simp: validate_step_def Let_def simp del: concat_eq_Nil_conv)
  have covered: "dict_has ctx k" if "dict_has sctx k" for k
    using cov that unfolding covers_iff dict_has_dom by blast
  show ?thesis
  proof (cases "s_input_mapping s = []")
    case True
    with req covered t show ?thesis
      by (fastforce simp: resolve_inputs_def list_all_iff required_issue_def split: if_split_asm)
  next
    case False
    have one: "\<exists>v. resolve_source n i ctx (snd kv) = Inr v" if kv: "kv \<in> set (s_input_mapping s)" for kv
    proof (cases "snd kv")
      case (VStr x)
      with plain kv have np: "\<not> is_pointer x"
        by (cases kv) (auto simp: plain_sources_def list_all_iff)
      have "fst (source_issues idx n t sctx kv) = []"
        using entries kv by simp
      with VStr np have "dict_has sctx x"
        by (cases kv) (auto simp: source_issues_def Let_def split: option.split_asm)
      with covered VStr np show ?thesis
        by (fastforce simp: resolve_source_def)
    qed (simp_all add: resolve_source_def)
    have label: "display_name s = Inr n"
      using name by (simp add: display_name_def py_or_def)
    have "\<exists>ys. map_err (\<lambda>(k, source). bind_err (resolve_source n i ctx source) (\<lambda>v. Inr (k, v)))
        (s_input_mapping s) = Inr ys \<and> map fst ys = map fst (s_input_mapping s)"
      by (rule map_err_Inr_keys) (use one in fastforce)
    then obtain ys where ys: "resolve_inputs s i ctx = Inr ys" "map fst ys = map fst (s_input_mapping s)"
      using False label by (auto simp: resolve_inputs_def)
    have "dict_has ys k \<longleftrightarrow> dict_has (s_input_mapping s) k" for k
      unfolding dict_has_iff ys(2) ..
    with req t ys(1) False show ?thesis
      by (fastforce simp: list_all_iff required_issue_def split: if_split_asm)
  qed
qed

lemma compiled_prefix:
  assumes "c_errors (compile_linear tools policy idx (pre @ s # post) sctx) = []"
    and "covers sctx ctx" and "list_all2 (delivers tools) pre rs"
    and "fold_outputs pol fl i pre rs ctx = Inr ctx'"
  shows "\<exists>idx' sctx'. c_errors (validate_step False s idx' tools policy sctx') = [] \<and> covers sctx' ctx'"
  using assms
proof (induction pre arbitrary: idx sctx ctx rs i)
  case Nil
  then show ?case
    by (auto dest: compile_linear_ConsD(1) simp del: compile_linear.simps)
next
  case (Cons p pre)
  from Cons.prems(3) obtain r rs' where rs: "rs = r # rs'" "delivers tools p r" "list_all2 (delivers tools) pre rs'"
    by (auto simp: list_all2_Cons1)
  note clean = compile_linear_ConsD [OF Cons.prems(1) [unfolded append_Cons]]
  from Cons.prems(4) rs(1) obtain dname c1 where
    merged: "merge_step_outputs pol fl (int i) dname (s_output_mapping p) ctx (the (sr_outputs r)) = Inr c1"
    and rest: "fold_outputs pol fl (i + 1) pre rs' c1 = Inr ctx'"
    by (auto simp: bind_err_Inr_iff)
  show ?case
    by (rule Cons.IH [OF clean(2) validated_step_covers [OF clean(1) Cons.prems(2) rs(2) merged] rs(3) rest])
qed


text \<open>
  A platform whose only class is a schema with one defaulted field \<open>x\<close>, and a flow of two
  steps that pass \<open>x\<close> on: the first tool reads it and produces \<open>y\<close>, the second reads \<open>y\<close>.
\<close>

definition int_field :: "bool \<Rightarrow> field_spec" where
  "int_field required = \<lparr>fs_required = required, fs_annotation = ClassAnn ''int''\<rparr>"

definition defaulted_x :: schema where
  "defaulted_x =
     \<lparr>sch_name = ''In'', sch_fields = [(''x'', int_field False)],
      sch_validate = (\<lambda>v. case v of
         VDict d \<Rightarrow> Inr (if dict_has d ''x'' then d else dict_set d ''x'' (VInt 0))
       | _ \<Rightarrow> Inl (ValidationError ''In'')),
      sch_hash = ''In''\<rparr>"

definition pass_tool :: "string \<Rightarrow> string \<Rightarrow> string \<Rightarrow> nat tool" where
  "pass_tool name input output =
     (sample_tool name default_safety
        (\<lambda>w d. (w + 1, 0, Inr (VDict [(output, the (dict_get d input))]))))
     \<lparr>t_input_schema := (object_schema name)\<lparr>sch_fields := [(input, int_field True)]\<rparr>,
      t_output_schema := (object_schema name)\<lparr>sch_fields := [(output, int_field True)]\<rparr>\<rparr>"

definition pass_flow :: flow where
  "pass_flow = (mk_flow ''p''
     [mk_step\<lparr>s_tool_name := Some ''one'', s_input_mapping := [(''a'', VStr ''x'')]\<rparr>,
      mk_step\<lparr>s_tool_name := Some ''two'', s_input_mapping := [(''b'', VStr ''y'')]\<rparr>])
     \<lparr>f_input_schema_ref := Some ''m:In''\<rparr>"

definition pass_tools :: "nat tools" where
  "pass_tools = [(''one'', pass_tool ''one'' ''a'' ''y''), (''two'', pass_tool ''two'' ''b'' ''z'')]"

definition pass_platform :: "nat platform" where
  "pass_platform = sample_platform\<lparr>pl_load_class := (\<lambda>_ _. Inr (SchemaClass defaulted_x))\<rparr>"

definition pass_ex :: "(nat, unit, unit) executor" where
  "pass_ex = (sample_executor [LinearFlow pass_flow] pass_tools)\<lparr>ex_platform := pass_platform\<rparr>"

lemmas pass_eval =
  compile_flow_def opt_schema_def resolve_schema_def resolve_class_ref_def pass_flow_def mk_flow_def mk_step_def
  af_simps pass_tools_def pass_tool_def pass_platform_def sample_platform_def defaulted_x_def int_field_def
  base_fields_def validate_step_def source_issues_def contribution_def required_issue_def get_field_type_def
  types_compatible_def is_pointer_def sample_tool_def object_schema_def default_safety_def
  unsafe_retry_def Let_def

lemma pass_flow_compiles:
  "\<exists>c. compile_flow pass_platform (LinearFlow pass_flow) pass_tools = Inr c \<and> co_success c"
  by (simp add: pass_eval)

definition pass_record :: step_record where
  "pass_record = StepRecord (with_outcome (Succeeded [(''y'', VInt 5)]) (blank_step 0 ''one'')) None"


text \<open>
  C28: The compiler counts a defaulted field of the input schema as available, but the executor starts
  from the raw input: a flow that compiles without errors fails at its first step with
  \<open>InputMappingError\<close> on an input its schema accepts.
\<close>

theorem compile_counts_defaulted_inputs:
  "(\<exists>c. compile_flow pass_platform (LinearFlow pass_flow) pass_tools = Inr c \<and> co_success c) \<and>
   (\<exists>st' res r. start_flow pass_ex ''p'' [] None False no_opts False ''skip'' None sample_state = (st', Inr res) \<and>
      sch_validate defaulted_x (VDict []) = Inr [(''x'', VInt 0)] \<and>
      er_log res = [r] \<and> sd_error (sr_data r) = Some (InputMappingError ''one'' 0 ''x''))"
  using pass_flow_compiles
  by (simp add: run_eval pass_ex_def sample_executor_def pass_eval resolve_source_def)

end
