(* ===== verification/Redaction.thy ===== *)
theory Redaction
  imports ExecTypes Registry
begin

text \<open>
  \<open>RedactionPolicy\<close> of \<open>chainweaver/log_utils.py\<close> and the load-scoped redactor of
  \<open>chainweaver/trace_redaction.py\<close>.  Matching a compiled regular expression is an argument:
  \<open>rp_pattern\<close> cuts a text into the pieces between the matches and the matches, and so does the
  pattern for labelled secrets.  \<open>rp_ellipsis\<close> is the text \<open>\<dots>(truncated)\<close>, whose first
  character is outside the alphabet of the model's strings.  The results: a redacted value does
  not depend on what stands under a redacted key, and a load gives equal placeholders to exactly
  the equal values.
\<close>

section \<open>Policies\<close>

datatype piece = Plain string | Match string

record redaction_policy =
  rp_keys :: "string list"
  rp_pattern :: "(string \<Rightarrow> piece list) option"
  rp_max_length :: "int option"
  rp_replacement :: string
  rp_ellipsis :: string

definition DEFAULT_REDACT_KEYS :: "string list" where
  "DEFAULT_REDACT_KEYS = [''password'', ''token'', ''api_key'', ''apikey'', ''secret'', ''authorization'']"

definition recommended :: "(string \<Rightarrow> piece list) \<Rightarrow> string \<Rightarrow> redaction_policy" where
  "recommended pattern ellipsis =
     \<lparr>rp_keys = DEFAULT_REDACT_KEYS @
        [''access_token'', ''refresh_token'', ''client_secret'', ''private_key'', ''credential'', ''credentials'',
         ''session_token'', ''cookie'', ''set-cookie''],
      rp_pattern = Some pattern, rp_max_length = Some 4096, rp_replacement = ''***REDACTED***'',
      rp_ellipsis = ellipsis\<rparr>"

definition strict_policy :: "(string \<Rightarrow> piece list) \<Rightarrow> string \<Rightarrow> redaction_policy" where
  "strict_policy pattern ellipsis =
     (recommended pattern ellipsis)
     \<lparr>rp_keys := rp_keys (recommended pattern ellipsis) @
        [''email'', ''phone'', ''ssn'', ''account'', ''account_number'', ''card'', ''card_number'', ''pin''],
      rp_max_length := Some 256\<rparr>"

definition redacts_key :: "redaction_policy \<Rightarrow> string \<Rightarrow> bool" where
  "redacts_key p k = (lower k \<in> set (map lower (rp_keys p)))"

text \<open>The slice \<open>s[:m]\<close>, and \<open>re.sub\<close> with a constant replacement.\<close>

definition slice_to :: "int \<Rightarrow> string \<Rightarrow> string" where
  "slice_to m s = (if 0 \<le> m then take (nat m) s else take (length s - nat (- m)) s)"

definition sub_const :: "string \<Rightarrow> piece list \<Rightarrow> string" where
  "sub_const repl ps = concat (map (\<lambda>p. case p of Plain t \<Rightarrow> t | Match _ \<Rightarrow> repl) ps)"

definition redact_text :: "redaction_policy \<Rightarrow> string \<Rightarrow> string" where
  "redact_text p s =
     (let r = (case rp_pattern p of None \<Rightarrow> s | Some rx \<Rightarrow> sub_const (rp_replacement p) (rx s))
      in case rp_max_length p of
           None \<Rightarrow> r
         | Some m \<Rightarrow> (if int (length r) > m then slice_to m r @ rp_ellipsis p else r))"

primrec redact_value :: "redaction_policy \<Rightarrow> val \<Rightarrow> val" where
  "redact_value p VNone = VNone"
| "redact_value p (VBool b) = VBool b"
| "redact_value p (VInt i) = VInt i"
| "redact_value p (VStr s) = VStr (redact_text p s)"
| "redact_value p (VList xs) = VList (map (redact_value p) xs)"
| "redact_value p (VDict d) =
     VDict (map (\<lambda>(k, v). (k, if redacts_key p k then VStr (rp_replacement p) else v))
       (map (map_prod id (redact_value p)) d))"
| "redact_value p (VSet xs) = VSet xs"

definition redact :: "redaction_policy \<Rightarrow> val dict \<Rightarrow> val dict" where
  "redact p d = (case redact_value p (VDict d) of VDict d' \<Rightarrow> d' | _ \<Rightarrow> d)"

text \<open>Traces: the inputs and outputs of every record, the initial input and the final output.\<close>

definition redact_step_record :: "redaction_policy \<Rightarrow> step_record \<Rightarrow> step_record" where
  "redact_step_record p r =
     StepRecord ((sr_data r)\<lparr>sd_inputs := redact p (sd_inputs (sr_data r)),
                  sd_outputs := map_option (redact p) (sd_outputs (sr_data r))\<rparr>) (sr_sub_result r)"

definition redact_execution_result :: "redaction_policy \<Rightarrow> execution_result \<Rightarrow> execution_result" where
  "redact_execution_result p res =
     ExecutionResult ((er_data res)\<lparr>rd_initial_input := redact p (rd_initial_input (er_data res)),
                       rd_final_output := map_option (redact p) (rd_final_output (er_data res))\<rparr>)
       (map (redact_step_record p) (er_log res))"

section \<open>The load-scoped redactor\<close>

primrec sort_keys :: "val \<Rightarrow> val" where
  "sort_keys VNone = VNone"
| "sort_keys (VBool b) = VBool b"
| "sort_keys (VInt i) = VInt i"
| "sort_keys (VStr s) = VStr s"
| "sort_keys (VList xs) = VList (map sort_keys xs)"
| "sort_keys (VDict d) = VDict (sort_key fst (map (map_prod id sort_keys) d))"
| "sort_keys (VSet xs) = VSet xs"

primrec py_type_name :: "val \<Rightarrow> string" where
  "py_type_name VNone = ''NoneType''"
| "py_type_name (VBool b) = ''bool''"
| "py_type_name (VInt i) = ''int''"
| "py_type_name (VStr s) = ''str''"
| "py_type_name (VList xs) = ''list''"
| "py_type_name (VDict d) = ''dict''"
| "py_type_name (VSet xs) = ''set''"

text \<open>The redactor: its policy, the pattern for labelled secrets, the text of a set.\<close>

record redactor =
  ld_policy :: redaction_policy
  ld_labeled :: "(string \<Rightarrow> piece list) option"
  ld_set_text :: "val list \<Rightarrow> string"

type_synonym placeholders = "((string \<times> string) \<times> string) list"

definition stable_identity :: "redactor \<Rightarrow> val \<Rightarrow> string \<times> string" where
  "stable_identity ld v = (py_type_name v, json_dumps (ld_set_text ld) '','' '':'' (sort_keys v))"

definition number_text :: "nat \<Rightarrow> string" where
  "number_text n = ''<redacted:'' @ nat_text n @ ''>''"

definition placeholder :: "redactor \<Rightarrow> val \<Rightarrow> placeholders \<Rightarrow> placeholders \<times> string" where
  "placeholder ld v ph =
     (case dict_get ph (stable_identity ld v) of
        Some t \<Rightarrow> (ph, t)
      | None \<Rightarrow>
          (let t = number_text (length ph + 1)
           in (dict_set ph (stable_identity ld v) t, t)))"

fun sub_pieces :: "redactor \<Rightarrow> piece list \<Rightarrow> placeholders \<Rightarrow> placeholders \<times> string" where
  "sub_pieces ld [] ph = (ph, [])"
| "sub_pieces ld (Plain t # ps) ph = (case sub_pieces ld ps ph of (ph, s) \<Rightarrow> (ph, t @ s))"
| "sub_pieces ld (Match m # ps) ph =
     (case placeholder ld (VStr m) ph of
        (ph, t) \<Rightarrow> (case sub_pieces ld ps ph of (ph, s) \<Rightarrow> (ph, t @ s)))"

definition sub_opt :: "redactor \<Rightarrow> (string \<Rightarrow> piece list) option \<Rightarrow> string \<Rightarrow> placeholders \<Rightarrow> placeholders \<times> string" where
  "sub_opt ld rx s ph = (case rx of None \<Rightarrow> (ph, s) | Some c \<Rightarrow> sub_pieces ld (c s) ph)"

definition load_text :: "redactor \<Rightarrow> string \<Rightarrow> placeholders \<Rightarrow> placeholders \<times> string" where
  "load_text ld s ph =
     (case sub_opt ld (ld_labeled ld) s ph of
        (ph, s) \<Rightarrow> sub_opt ld (rp_pattern (ld_policy ld)) s ph)"

text \<open>A list of stateful computations, one after the other.\<close>

fun run_all :: "('s \<Rightarrow> 's \<times> 'a) list \<Rightarrow> 's \<Rightarrow> 's \<times> 'a list" where
  "run_all [] st = (st, [])"
| "run_all (f # fs) st = (case f st of (st, x) \<Rightarrow> (case run_all fs st of (st, xs) \<Rightarrow> (st, x # xs)))"

definition load_entry ::
  "redactor \<Rightarrow> (string \<times> val) \<times> (string \<times> (placeholders \<Rightarrow> placeholders \<times> val)) \<Rightarrow>
     placeholders \<Rightarrow> placeholders \<times> (string \<times> val)" where
  "load_entry ld entry ph =
     (let ((k, v), (_, rest)) = entry in
      (case (if redacts_key (ld_policy ld) k then apsnd VStr (placeholder ld v ph) else rest ph) of
         (ph, y) \<Rightarrow> (ph, (k, y))))"

primrec load_value :: "redactor \<Rightarrow> val \<Rightarrow> placeholders \<Rightarrow> placeholders \<times> val" where
  "load_value ld VNone = (\<lambda>ph. (ph, VNone))"
| "load_value ld (VBool b) = (\<lambda>ph. (ph, VBool b))"
| "load_value ld (VInt i) = (\<lambda>ph. (ph, VInt i))"
| "load_value ld (VStr s) = (\<lambda>ph. apsnd VStr (load_text ld s ph))"
| "load_value ld (VList xs) = (\<lambda>ph. apsnd VList (run_all (map (load_value ld) xs) ph))"
| "load_value ld (VDict d) =
     (\<lambda>ph. apsnd VDict (run_all (map (load_entry ld) (zip d (map (map_prod id (load_value ld)) d))) ph))"
| "load_value ld (VSet xs) = (\<lambda>ph. (ph, VSet xs))"

definition redact_payload :: "redactor \<Rightarrow> val \<Rightarrow> placeholders \<Rightarrow> placeholders \<times> val" where
  "redact_payload ld v ph = load_value ld v ph"

definition masked_values :: "placeholders \<Rightarrow> nat" where
  "masked_values ph = length ph"

section \<open>Independence of redacted values\<close>

text \<open>What a value is apart from what stands under redacted keys.\<close>

primrec erase :: "redaction_policy \<Rightarrow> val \<Rightarrow> val" where
  "erase p VNone = VNone"
| "erase p (VBool b) = VBool b"
| "erase p (VInt i) = VInt i"
| "erase p (VStr s) = VStr s"
| "erase p (VList xs) = VList (map (erase p) xs)"
| "erase p (VDict d) =
     VDict (map (\<lambda>(k, v). (k, if redacts_key p k then VNone else v)) (map (map_prod id (erase p)) d))"
| "erase p (VSet xs) = VSet xs"

lemma redact_value_erase: "redact_value p v = redact_value p (erase p v)"
proof (induction v)
  case (VDict d)
  then show ?case
    by (fastforce simp: case_prod_beta)
qed simp_all

text \<open>
  C18: Redaction hides what it promises to hide: two payloads that differ only under redacted keys, at
  any depth of nested dictionaries and lists, are redacted to the same payload.
\<close>

theorem redact_independent_of_secrets:
  assumes "erase p (VDict d) = erase p (VDict e)"
  shows "redact p d = redact p e"
proof -
  have "redact_value p (VDict d) = redact_value p (VDict e)"
    using redact_value_erase [of p "VDict d"] redact_value_erase [of p "VDict e"] assms by metis
  then show ?thesis
    by (simp add: redact_def)
qed

theorem redact_independent_of_secrets_witness:
  "redact (recommended (\<lambda>s. [Plain s]) []) [(''a'', VList [VDict [(''Token'', VStr ''x'')]]), (''b'', VInt 1)] =
   redact (recommended (\<lambda>s. [Plain s]) []) [(''a'', VList [VDict [(''Token'', VInt 7)]]), (''b'', VInt 1)]"
proof (rule redact_independent_of_secrets)
  have "char_of (116 :: nat) = CHR ''t''"
    by code_simp
  then have "redacts_key (recommended (\<lambda>s. [Plain s]) []) ''Token''"
    by (simp add: redacts_key_def recommended_def DEFAULT_REDACT_KEYS_def lower_def lower_char_def)
  then show "erase (recommended (\<lambda>s. [Plain s]) []) (VDict [(''a'', VList [VDict [(''Token'', VStr ''x'')]]), (''b'', VInt 1)]) =
      erase (recommended (\<lambda>s. [Plain s]) []) (VDict [(''a'', VList [VDict [(''Token'', VInt 7)]]), (''b'', VInt 1)])"
    by simp
qed

section \<open>Placeholders\<close>

text \<open>The map of a load: the values seen, in order, with their numbers.\<close>

definition placeholders_ok :: "placeholders \<Rightarrow> bool" where
  "placeholders_ok ph \<longleftrightarrow>
     dict_ok ph \<and> map snd ph = map (\<lambda>i. number_text (i + 1)) [0..<length ph]"

text \<open>A step of the redactor keeps the map well formed and only adds to it.\<close>

definition grows :: "placeholders \<Rightarrow> placeholders \<Rightarrow> bool" where
  "grows ph ph' \<longleftrightarrow> placeholders_ok ph' \<and> (\<exists>new. ph' = ph @ new)"

lemma grows_refl: "placeholders_ok ph \<Longrightarrow> grows ph ph"
  by (simp add: grows_def)

lemma grows_trans: "grows a b \<Longrightarrow> grows b c \<Longrightarrow> grows a c"
  by (auto simp: grows_def)

lemma grows_ok: "grows a b \<Longrightarrow> placeholders_ok b"
  by (simp add: grows_def)

lemma placeholder_grows:
  assumes "placeholders_ok ph"
  shows "grows ph (fst (placeholder ld v ph)) \<and>
     dict_get (fst (placeholder ld v ph)) (stable_identity ld v) = Some (snd (placeholder ld v ph))"
proof (cases "dict_get ph (stable_identity ld v)")
  case None
  then have "stable_identity ld v \<notin> set (dict_keys ph)"
    by (simp add: map_of_eq_None_iff)
  moreover from this None have "dict_get (ph @ [(stable_identity ld v, t)]) (stable_identity ld v) = Some t" for t
    by (simp add: map_add_def)
  ultimately show ?thesis
    using None assms by (simp add: placeholder_def Let_def dict_set_fresh grows_def placeholders_ok_def)
next
  case (Some t)
  with assms show ?thesis
    by (simp add: placeholder_def grows_refl)
qed

lemma sub_pieces_grows: "placeholders_ok ph \<Longrightarrow> grows ph (fst (sub_pieces ld ps ph))"
proof (induction ld ps ph rule: sub_pieces.induct)
  case (3 ld m ps ph)
  obtain ph1 t where p: "placeholder ld (VStr m) ph = (ph1, t)" by (cases "placeholder ld (VStr m) ph")
  with placeholder_grows [OF 3(2), of ld "VStr m"] have g: "grows ph ph1" by simp
  with 3(1) [OF p [symmetric]] p show ?case
    using grows_ok [OF g] by (auto split: prod.split intro: grows_trans)
qed (auto simp: grows_refl split: prod.split)

lemma load_text_grows: "placeholders_ok ph \<Longrightarrow> grows ph (fst (load_text ld s ph))"
  using sub_pieces_grows [of ph] sub_pieces_grows
  by (auto simp: load_text_def sub_opt_def grows_refl split: option.split prod.split)
    (metis fst_conv grows_ok grows_trans)+

lemma run_all_grows:
  "(\<And>f ph. f \<in> set fs \<Longrightarrow> placeholders_ok ph \<Longrightarrow> grows ph (fst (f ph))) \<Longrightarrow> placeholders_ok ph \<Longrightarrow>
     grows ph (fst (run_all fs ph))"
proof (induction fs arbitrary: ph)
  case (Cons f fs)
  obtain ph1 x where f: "f ph = (ph1, x)" by (cases "f ph")
  with Cons.prems(1) [of f ph] Cons.prems(2) have g: "grows ph ph1" by simp
  then have "grows ph1 (fst (run_all fs ph1))"
    using Cons.IH Cons.prems(1) by (simp add: grows_ok)
  with f g show ?case
    by (auto split: prod.split intro: grows_trans)
qed (simp add: grows_refl)

lemma load_value_grows: "placeholders_ok ph \<Longrightarrow> grows ph (fst (load_value ld v ph))"
proof (induction v arbitrary: ph)
  case (VStr s)
  then show ?case by (simp add: load_text_grows)
next
  case (VList xs)
  then show ?case by (auto intro!: run_all_grows)
next
  case (VDict d)
  have "grows ph' (fst (f ph'))" if f: "f \<in> set (map (load_entry ld) (zip d (map (map_prod id (load_value ld)) d)))"
    and ok: "placeholders_ok ph'" for f ph'
  proof -
    from f obtain k v where kv: "(k, v) \<in> set d" and "f = load_entry ld ((k, v), (k, load_value ld v))"
      by (auto simp: zip_map2 zip_same_conv_map)
    with VDict.IH [OF kv, of v ph'] ok placeholder_grows [OF ok, of ld v] show ?thesis
      by (cases "placeholder ld v ph'") (auto simp: load_entry_def snds.simps split: prod.split)
  qed
  then have "grows ph (fst (run_all (map (load_entry ld) (zip d (map (map_prod id (load_value ld)) d))) ph))"
    by (rule run_all_grows [OF _ VDict.prems])
  then show ?case
    by simp
qed (simp_all add: grows_refl)

text \<open>The number of a placeholder can be read back, so different numbers give different texts.\<close>

definition read_digits :: "string \<Rightarrow> nat" where
  "read_digits s = fold (\<lambda>c n. 10 * n + (of_char c - 48)) s 0"

lemma read_nat_text: "read_digits (nat_text n) = n"
proof (induction n rule: nat_text.induct)
  case (1 n)
  then show ?case
    by (cases "n < 10") (simp_all add: nat_text.simps [of n] read_digits_def of_char_of take_bit_eq_mod)
qed

lemma number_text_inj: "number_text m = number_text n \<longleftrightarrow> m = n"
  using read_nat_text by (auto simp: number_text_def) metis

lemma placeholders_ok_inj:
  assumes "placeholders_ok ph" and "dict_get ph i = Some t" and "dict_get ph j = Some t"
  shows "i = j"
proof -
  let ?f = "\<lambda>i. number_text (i + 1)"
  have "distinct (map snd ph)"
    using assms(1) by (auto simp: placeholders_ok_def distinct_map inj_on_def number_text_inj)
  moreover have "(i, t) \<in> set ph" "(j, t) \<in> set ph"
    using assms(2,3) by (auto dest: map_of_SomeD)
  ultimately have "(i, t) = (j, t)"
    unfolding distinct_map inj_on_def by fastforce
  then show ?thesis by simp
qed

text \<open>
  In one load the redactor gives two values the same placeholder exactly when they have the same
  type and canonical JSON text, whatever payloads it has gone through before: a value it knows
  keeps its placeholder for the rest of the load, and no two values share one.
\<close>

theorem load_placeholders_faithful:
  assumes "run_all (map (redact_payload ld) vs) [] = (ph, out)"
    and "run_all (map (redact_payload ld) ws) ph = (ph', out')"
  shows "(dict_get ph i = Some t \<longrightarrow> dict_get ph' i = Some t) \<and>
     (dict_get ph' i = Some t \<and> dict_get ph' j = Some t \<longrightarrow> i = j)"
proof -
  have step: "grows ph1 (fst (run_all (map (redact_payload ld) xs) ph1))" if "placeholders_ok ph1" for xs ph1
    using that by (auto intro!: run_all_grows simp: redact_payload_def load_value_grows)
  have "placeholders_ok []"
    by (simp add: placeholders_ok_def)
  with step [of "[]" vs] assms(1) have "placeholders_ok ph"
    by (auto dest: grows_ok)
  with step [of ph ws] assms(2) have g: "grows ph ph'"
    by simp
  then obtain new where "ph' = ph @ new" and "placeholders_ok ph'"
    by (auto simp: grows_def)
  moreover have "dict_get (ph @ new) i = Some t" if "dict_get ph i = Some t" for i
    using that by (simp add: map_add_def)
  ultimately show ?thesis
    using placeholders_ok_inj [of ph' i t j] by simp
qed

definition plain_redactor :: redactor where
  "plain_redactor = \<lparr>ld_policy = recommended (\<lambda>s. [Plain s]) [], ld_labeled = None, ld_set_text = (\<lambda>_. [])\<rparr>"

definition secret_payload :: "val \<Rightarrow> val" where
  "secret_payload v = VDict [(''token'', v)]"

theorem load_placeholders_faithful_witness:
  "\<exists>ph out ph' out'.
     run_all (map (redact_payload plain_redactor) [secret_payload (VInt 1)]) [] = (ph, out) \<and>
     run_all (map (redact_payload plain_redactor) [secret_payload (VStr ''x''), secret_payload (VInt 1)]) ph = (ph', out') \<and>
     dict_get ph' (stable_identity plain_redactor (VInt 1)) = Some (number_text 1) \<and>
     (\<forall>j. dict_get ph' j = Some (number_text 1) \<longrightarrow> j = stable_identity plain_redactor (VInt 1))"
proof -
  obtain ph out where a: "run_all (map (redact_payload plain_redactor) [secret_payload (VInt 1)]) [] = (ph, out)"
    by fastforce
  obtain ph' out' where b: "run_all (map (redact_payload plain_redactor)
      [secret_payload (VStr ''x''), secret_payload (VInt 1)]) ph = (ph', out')"
    by fastforce
  have "char_of (116 :: nat) = CHR ''t''"
    by code_simp
  then have "redacts_key (recommended (\<lambda>s. [Plain s]) []) ''token''"
    by (simp add: redacts_key_def recommended_def DEFAULT_REDACT_KEYS_def lower_def lower_char_def)
  with a have "dict_get ph (stable_identity plain_redactor (VInt 1)) = Some (number_text 1)"
    by (auto simp: redact_payload_def secret_payload_def load_entry_def placeholder_def plain_redactor_def Let_def)
  then have "dict_get ph' (stable_identity plain_redactor (VInt 1)) = Some (number_text 1)"
    using load_placeholders_faithful [OF a b] by blast
  moreover from this have "j = stable_identity plain_redactor (VInt 1)" if "dict_get ph' j = Some (number_text 1)" for j
    using load_placeholders_faithful [OF a b, of j "number_text 1" "stable_identity plain_redactor (VInt 1)"] that
    by blast
  ultimately show ?thesis
    using a b by blast
qed

end
