(* ===== verification/Analyzer.thy ===== *)
theory Analyzer
  imports Compiler Redaction
begin

text \<open>
  \<open>chainweaver/analyzer.py\<close>: which tools can follow each other by their schemas, the enumeration of
  chains, the flows and mappings suggested from them, and the advisory suggestions for a flow.
  The texts of messages are left out.  The results: the enumeration lists exactly the chains
  it describes, suggested flows are wired, and what the dead-step check does and does not see.
\<close>

section \<open>Schemas as the analyzer reads them\<close>

definition field_types :: "schema \<Rightarrow> (string \<times> annotation) list" where
  "field_types s = map (map_prod id fs_annotation) (sch_fields s)"

definition required_fields :: "schema \<Rightarrow> string list" where
  "required_fields s = map fst (filter (\<lambda>(_, fs). fs_required fs) (sch_fields s))"

definition is_compatible :: "'w tool \<Rightarrow> 'w tool \<Rightarrow> bool" where
  "is_compatible producer consumer =
     (let out_types = field_types (t_output_schema producer);
          required = required_fields (t_input_schema consumer)
      in list_all (\<lambda>(name, ty).
           case dict_get out_types name of None \<Rightarrow> name \<notin> set required | Some t \<Rightarrow> t = ty)
         (field_types (t_input_schema consumer)))"

definition auto_input_mapping :: "'w tool option \<Rightarrow> 'w tool \<Rightarrow> val dict" where
  "auto_input_mapping producer consumer =
     (let names = dict_keys (sch_fields (t_input_schema consumer))
      in map (\<lambda>n. (n, VStr n))
           (case producer of
              None \<Rightarrow> names
            | Some p \<Rightarrow> filter (\<lambda>n. n \<in> set (dict_keys (sch_fields (t_output_schema p)))) names))"

section \<open>Chains\<close>

text \<open>The constructor: tools indexed by name, duplicates refused.\<close>

definition analyzer :: "'w tool list \<Rightarrow> exn + 'w tools" where
  "analyzer ts =
     (if distinct (map t_name ts) then Inr (map (\<lambda>t. (t_name t, t)) ts)
      else Inl (ValueError ''Duplicate tool names supplied to ChainAnalyzer''))"

definition successors :: "'w tools \<Rightarrow> string \<times> 'w tool \<Rightarrow> string list" where
  "successors tools producer =
     map fst (filter (\<lambda>(name, consumer). name \<noteq> fst producer \<and> is_compatible (snd producer) consumer) tools)"

definition compatibility_matrix :: "'w tools \<Rightarrow> (string \<times> string list) list" where
  "compatibility_matrix tools = map (\<lambda>p. (fst p, successors tools p)) tools"

text \<open>The depth-first search; the path is never empty.\<close>

function dfs ::
  "(string \<times> string list) list \<Rightarrow> string option \<Rightarrow> nat \<Rightarrow> string list \<Rightarrow> string list list" where
  "dfs matrix final max_depth path =
     (if final = None \<or> final = Some (last path) then [path] else []) @
     (if length path \<ge> max_depth then []
      else concat (map (\<lambda>s. if s \<in> set path then [] else dfs matrix final max_depth (path @ [s]))
             (the (dict_get matrix (last path)))))"
  by pat_completeness auto

termination
  by (relation "measure (\<lambda>(_, _, max_depth, path). max_depth - length path)") auto

declare dfs.simps [simp del]

definition find_chains ::
  "'w tools \<Rightarrow> int \<Rightarrow> string option \<Rightarrow> string option \<Rightarrow> exn + string list list" where
  "find_chains tools max_depth start final =
     (if max_depth < 1 then Inl (ValueError ''max_depth must be >= 1'')
      else if (case start of None \<Rightarrow> False | Some s \<Rightarrow> \<not> dict_has tools s) then Inl (ValueError ''Unknown start tool'')
      else if (case final of None \<Rightarrow> False | Some s \<Rightarrow> \<not> dict_has tools s) then Inl (ValueError ''Unknown end tool'')
      else
        Inr (concat (map (\<lambda>s. dfs (compatibility_matrix tools) final (nat max_depth) [s])
               (case start of None \<Rightarrow> dict_keys tools | Some s \<Rightarrow> [s]))))"

text \<open>\<open>suggest_flows\<close>.\<close>

fun chain_steps :: "'w tools \<Rightarrow> 'w tool option \<Rightarrow> string list \<Rightarrow> flow_step list" where
  "chain_steps tools previous [] = []"
| "chain_steps tools previous (name # names) =
     (let tool = the (dict_get tools name)
      in mk_step\<lparr>s_tool_name := Some name, s_input_mapping := auto_input_mapping previous tool\<rparr> #
         chain_steps tools (Some tool) names)"

definition join_names :: "string list \<Rightarrow> string" where
  "join_names names = concat (map (\<lambda>(i, n). if i = 0 then n else ''__'' @ n) (enumerate 0 names))"

definition chain_flow :: "'w tools \<Rightarrow> string list \<Rightarrow> flow" where
  "chain_flow tools chain =
     (mk_flow (''suggested__'' @ join_names chain) (chain_steps tools None chain))\<lparr>f_version := ''0.0.0''\<rparr>"

definition suggest_flows ::
  "'w tools \<Rightarrow> int \<Rightarrow> string option \<Rightarrow> string option \<Rightarrow> int \<Rightarrow> exn + flow list" where
  "suggest_flows tools max_depth start final min_depth =
     (if min_depth < 1 then Inl (ValueError ''min_depth must be >= 1'')
      else bind_err (find_chains tools max_depth start final) (\<lambda>chains.
        Inr (map (chain_flow tools) (filter (\<lambda>c. min_depth \<le> int (length c)) chains))))"

section \<open>Loose mappings\<close>

definition normalize_field_name :: "string \<Rightarrow> string" where
  "normalize_field_name name = lower (filter (\<lambda>c. c \<noteq> CHR ''_'' \<and> c \<noteq> CHR ''-'') name)"

definition type_category :: "annotation \<Rightarrow> string option" where
  "type_category a =
     (case a of
        ClassAnn c \<Rightarrow>
          dict_get [(''str'', ''string''), (''int'', ''number''), (''float'', ''number''), (''bool'', ''boolean'')] c
      | _ \<Rightarrow> None)"

datatype type_relation = TypeExact | TypeCompatible

definition relate_types :: "annotation \<Rightarrow> annotation \<Rightarrow> type_relation option" where
  "relate_types producer consumer =
     (if producer = consumer then Some TypeExact
      else if type_category producer \<noteq> None \<and> type_category producer = type_category consumer
      then Some TypeCompatible else None)"

datatype name_relation = ExactName | NormalizedName | SynonymName

text \<open>\<open>_match_field\<close>: the candidates in order, the first with a type relation wins.\<close>

definition match_candidates ::
  "set_order \<Rightarrow> string \<Rightarrow> (string \<times> annotation) list \<Rightarrow> (string \<times> string) list \<Rightarrow> (string \<times> string list) list \<Rightarrow>
     (string \<times> name_relation) list" where
  "match_candidates ord fld out_types by_norm synonyms =
     (let norm = normalize_field_name fld
      in (if dict_has out_types fld then [(fld, ExactName)] else []) @
         (case dict_get by_norm norm of
            Some n \<Rightarrow> (if n \<noteq> fld then [(n, NormalizedName)] else []) | None \<Rightarrow> []) @
         concat (map (\<lambda>a. case dict_get by_norm a of Some n \<Rightarrow> [(n, SynonymName)] | None \<Rightarrow> [])
           (ord (case dict_get synonyms norm of None \<Rightarrow> [] | Some as \<Rightarrow> as))))"

fun first_match ::
  "(string \<times> annotation) list \<Rightarrow> annotation \<Rightarrow> (string \<times> name_relation) list \<Rightarrow>
     (string \<times> type_relation \<times> name_relation) option" where
  "first_match out_types ty [] = None"
| "first_match out_types ty ((n, how) # cands) =
     (case relate_types (the (dict_get out_types n)) ty of
        Some rel \<Rightarrow> Some (n, rel, how)
      | None \<Rightarrow> first_match out_types ty cands)"

record mapping_suggestion =
  ms_producer :: string
  ms_consumer :: string
  ms_mappings :: "(string \<times> string) list"
  ms_warnings :: "(string \<times> string \<times> type_relation \<times> name_relation) list"

text \<open>The loop over the fields of the consumer; \<open>None\<close> when a required one has no match.\<close>

fun match_fields ::
  "(string \<Rightarrow> annotation \<Rightarrow> (string \<times> type_relation \<times> name_relation) option) \<Rightarrow> string list \<Rightarrow>
     (string \<times> annotation) list \<Rightarrow>
     ((string \<times> string) list \<times> (string \<times> string \<times> type_relation \<times> name_relation) list) option" where
  "match_fields match required [] = Some ([], [])"
| "match_fields match required ((fld, ty) # flds) =
     (case match fld ty of
        None \<Rightarrow> (if fld \<in> set required then None else match_fields match required flds)
      | Some (n, rel, how) \<Rightarrow>
          map_option (\<lambda>(ms, ws).
              ((fld, n) # ms, if how \<noteq> ExactName \<or> rel \<noteq> TypeExact then (fld, n, rel, how) # ws else ws))
            (match_fields match required flds))"

definition norm_synonyms :: "(string \<times> string list) list \<Rightarrow> (string \<times> string list) list" where
  "norm_synonyms synonyms =
     fold (\<lambda>(fld, aliases) acc.
         let key = normalize_field_name fld
         in dict_set acc key ((case dict_get acc key of None \<Rightarrow> [] | Some as \<Rightarrow> as) @ map normalize_field_name aliases))
       synonyms []"

definition suggest_pair ::
  "set_order \<Rightarrow> (string \<times> string list) list \<Rightarrow> string \<times> 'w tool \<Rightarrow> string \<times> 'w tool \<Rightarrow> mapping_suggestion list" where
  "suggest_pair ord synonyms producer consumer =
     (if fst consumer = fst producer \<or> is_compatible (snd producer) (snd consumer) then []
      else
        (let out_types = field_types (t_output_schema (snd producer));
             by_norm = fold (\<lambda>n d. dict_set d (normalize_field_name n) n) (dict_keys out_types) [];
             match = (\<lambda>fld ty. first_match out_types ty (match_candidates ord fld out_types by_norm synonyms))
         in case match_fields match (required_fields (t_input_schema (snd consumer)))
                   (field_types (t_input_schema (snd consumer))) of
              None \<Rightarrow> []
            | Some (ms, ws) \<Rightarrow>
                (if ws \<noteq> [] \<and> ms \<noteq> []
                 then [\<lparr>ms_producer = fst producer, ms_consumer = fst consumer, ms_mappings = ms, ms_warnings = ws\<rparr>]
                 else [])))"

definition suggest_schema_mappings ::
  "set_order \<Rightarrow> 'w tools \<Rightarrow> (string \<times> string list) list option \<Rightarrow> mapping_suggestion list" where
  "suggest_schema_mappings ord tools synonyms =
     (let syn = norm_synonyms (case synonyms of None \<Rightarrow> [] | Some s \<Rightarrow> s)
      in concat (map (\<lambda>p. concat (map (suggest_pair ord syn p) tools)) tools))"

section \<open>Suggestions for a flow\<close>

datatype suggestion = Suggestion (sg_code: string) (sg_index: nat) (sg_tool: "string option")

definition wasteful_passthroughs :: "flow_step list \<Rightarrow> suggestion list" where
  "wasteful_passthroughs steps =
     concat (map (\<lambda>(i, s). if s_input_mapping s \<noteq> [] then [] else [Suggestion ''CW001'' i (s_tool_name s)])
       (enumerate 0 steps))"

definition step_reads :: "flow_step \<Rightarrow> string list" where
  "step_reads s = concat (map (\<lambda>(_, v). case v of VStr x \<Rightarrow> [x] | _ \<Rightarrow> []) (s_input_mapping s))"

definition disjoint :: "string list \<Rightarrow> string list \<Rightarrow> bool" where
  "disjoint xs ys = list_all (\<lambda>x. x \<notin> set ys) xs"

definition find_tool :: "'w tools \<Rightarrow> flow_step \<Rightarrow> 'w tool option" where
  "find_tool tools s = (case s_tool_name s of None \<Rightarrow> None | Some n \<Rightarrow> dict_get tools n)"

definition reads_of :: "'w tool \<Rightarrow> flow_step \<Rightarrow> string list" where
  "reads_of t s = (if s_input_mapping s = [] then dict_keys (sch_fields (t_input_schema t)) else step_reads s)"

definition pair_suggestion :: "'w tools \<Rightarrow> nat \<Rightarrow> flow_step \<Rightarrow> flow_step \<Rightarrow> suggestion list" where
  "pair_suggestion tools i a b =
     (case (find_tool tools a, find_tool tools b) of
        (Some ta, Some tb) \<Rightarrow>
          (let outs = dict_keys (sch_fields (t_output_schema ta)); reads = reads_of tb b
           in if outs \<noteq> [] \<and> reads \<noteq> [] \<and> disjoint outs reads then [Suggestion ''CW002'' i (s_tool_name a)] else [])
      | _ \<Rightarrow> [])"

definition parallelizable_pairs :: "'w tools option \<Rightarrow> flow_step list \<Rightarrow> suggestion list" where
  "parallelizable_pairs tools steps =
     (case tools of
        None \<Rightarrow> []
      | Some ts \<Rightarrow> concat (map (\<lambda>(i, a, b). pair_suggestion ts i a b) (enumerate 0 (zip steps (tl steps)))))"

text \<open>What the steps after each step read.\<close>

definition step_accum :: "'w tools \<Rightarrow> flow_step \<Rightarrow> string list" where
  "step_accum tools s =
     (if s_input_mapping s = [] then
        (case find_tool tools s of None \<Rightarrow> [] | Some t \<Rightarrow> dict_keys (sch_fields (t_input_schema t)))
      else step_reads s)"

fun dead_from :: "'w tools \<Rightarrow> nat \<Rightarrow> flow_step list \<Rightarrow> suggestion list" where
  "dead_from tools i [] = []"
| "dead_from tools i [s] = []"
| "dead_from tools i (s # steps) =
     (case find_tool tools s of
        None \<Rightarrow> []
      | Some t \<Rightarrow>
          (let produced = dict_keys (sch_fields (t_output_schema t))
           in if produced \<noteq> [] \<and> disjoint produced (concat (map (step_accum tools) steps))
              then [Suggestion ''CW003'' i (s_tool_name s)] else [])) @
     dead_from tools (i + 1) steps"

definition dead_steps :: "'w tools option \<Rightarrow> flow_step list \<Rightarrow> suggestion list" where
  "dead_steps tools steps = (case tools of None \<Rightarrow> [] | Some ts \<Rightarrow> dead_from ts 0 steps)"

text \<open>\<open>json.dumps(\<dots>, sort_keys=True)\<close> of the outputs of a step.\<close>

definition output_signature :: "(val list \<Rightarrow> string) \<Rightarrow> step_record \<Rightarrow> string" where
  "output_signature set_text r =
     json_dumps set_text '','' '':''
       (sort_keys (case sr_outputs r of None \<Rightarrow> VNone | Some out \<Rightarrow> VDict out))"

definition cacheable_step :: "(val list \<Rightarrow> string) \<Rightarrow> execution_result list \<Rightarrow> nat \<Rightarrow> bool" where
  "cacheable_step set_text traces i =
     (list_all (\<lambda>t. i < length (er_log t) \<and> sr_success (er_log t ! i)) traces \<and>
      length (remdups (map (\<lambda>t. output_signature set_text (er_log t ! i)) traces)) = 1)"

definition cacheable_steps :: "(val list \<Rightarrow> string) \<Rightarrow> flow_step list \<Rightarrow> execution_result list \<Rightarrow> suggestion list" where
  "cacheable_steps set_text steps traces =
     (if length traces < 2 then []
      else concat (map (\<lambda>(i, s). if cacheable_step set_text traces i then [Suggestion ''CW004'' i (s_tool_name s)] else [])
             (enumerate 0 steps)))"

definition suggest_optimizations ::
  "(val list \<Rightarrow> string) \<Rightarrow> any_flow \<Rightarrow> 'w tool list option \<Rightarrow> execution_result list option \<Rightarrow> suggestion list" where
  "suggest_optimizations set_text f tools traces =
     (case f of
        DagFlow _ \<Rightarrow> []
      | LinearFlow l \<Rightarrow>
          (let by_name = map_option (\<lambda>ts. fold (\<lambda>t d. dict_set d (t_name t) t) ts []) tools
           in wasteful_passthroughs (f_steps l) @ parallelizable_pairs by_name (f_steps l) @
              dead_steps by_name (f_steps l) @
              (case traces of None \<Rightarrow> [] | Some ts \<Rightarrow> cacheable_steps set_text (f_steps l) ts)))"

section \<open>The enumeration of chains\<close>

definition compatible_names :: "'w tools \<Rightarrow> string \<Rightarrow> string \<Rightarrow> bool" where
  "compatible_names tools a b =
     (case (dict_get tools a, dict_get tools b) of (Some ta, Some tb) \<Rightarrow> is_compatible ta tb | _ \<Rightarrow> False)"

definition valid_chain :: "'w tools \<Rightarrow> string list \<Rightarrow> bool" where
  "valid_chain tools c \<longleftrightarrow>
     c \<noteq> [] \<and> distinct c \<and> list_all (dict_has tools) c \<and> successively (compatible_names tools) c"

lemma distinct_concat_map:
  "distinct xs \<Longrightarrow> (\<And>x. x \<in> set xs \<Longrightarrow> distinct (f x)) \<Longrightarrow>
     (\<And>x y. x \<in> set xs \<Longrightarrow> y \<in> set xs \<Longrightarrow> x \<noteq> y \<Longrightarrow> set (f x) \<inter> set (f y) = {}) \<Longrightarrow>
     distinct (concat (map f xs))"
proof (induction xs)
  case (Cons a xs)
  have "set (f a) \<inter> set (f y) = {}" if "y \<in> set xs" for y
    using Cons.prems that by auto
  with Cons show ?case by auto
qed simp

lemma matrix_get:
  assumes "dict_ok tools" and "dict_get tools a = Some t"
  shows "dict_get (compatibility_matrix tools) a = Some (successors tools (a, t))"
proof -
  have "dict_get (map (\<lambda>p. (fst p, successors tools p)) xs) a = Some (successors tools (a, t))"
    if "dict_get xs a = Some t" for xs
    using that by (induction xs) (auto split: if_splits)
  from this [OF assms(2)] show ?thesis
    by (simp add: compatibility_matrix_def)
qed

lemma set_successors:
  assumes "dict_ok tools" and "dict_get tools a = Some t"
  shows "s \<in> set (successors tools (a, t)) \<longleftrightarrow> s \<noteq> a \<and> compatible_names tools a s"
proof -
  have "s \<in> set (successors tools (a, t)) \<longleftrightarrow> (\<exists>u. (s, u) \<in> set tools \<and> s \<noteq> a \<and> is_compatible t u)"
    by (force simp: successors_def)
  also have "\<dots> \<longleftrightarrow> (\<exists>u. dict_get tools s = Some u \<and> s \<noteq> a \<and> is_compatible t u)"
    using assms(1) by simp
  finally show ?thesis
    using assms(2) by (auto simp: compatible_names_def split: option.splits)
qed

lemma distinct_successors: "dict_ok tools \<Longrightarrow> distinct (successors tools p)"
  unfolding successors_def by (rule distinct_map_filter)

lemma valid_chain_snoc:
  "path \<noteq> [] \<Longrightarrow> valid_chain tools (path @ [s]) \<longleftrightarrow>
     valid_chain tools path \<and> s \<notin> set path \<and> compatible_names tools (last path) s"
  by (auto simp: valid_chain_def successively_append_iff compatible_names_def split: option.splits)

lemma valid_chain_prefix: "path \<noteq> [] \<Longrightarrow> valid_chain tools (path @ q) \<Longrightarrow> valid_chain tools path"
  by (auto simp: valid_chain_def successively_append_iff)

text \<open>The chains that extend a path.\<close>

definition extensions :: "'w tools \<Rightarrow> string option \<Rightarrow> nat \<Rightarrow> string list \<Rightarrow> string list set" where
  "extensions tools final d path =
     {c. (\<exists>q. c = path @ q) \<and> valid_chain tools c \<and> length c \<le> d \<and> (final = None \<or> final = Some (last c))}"

lemma extensions_step:
  assumes "valid_chain tools path" and "length path \<le> d"
  shows "extensions tools final d path =
     (if final = None \<or> final = Some (last path) then {path} else {}) \<union>
     (if length path \<ge> d then {} else
        (\<Union>s \<in> {s. s \<notin> set path \<and> compatible_names tools (last path) s}. extensions tools final d (path @ [s])))"
    (is "?L = ?R")
proof (rule set_eqI)
  fix c
  have ne: "path \<noteq> []"
    using assms(1) by (simp add: valid_chain_def)
  show "c \<in> ?L \<longleftrightarrow> c \<in> ?R"
  proof
    assume "c \<in> ?L"
    then obtain q where q: "c = path @ q" "valid_chain tools c" "length c \<le> d" "final = None \<or> final = Some (last c)"
      by (auto simp: extensions_def)
    show "c \<in> ?R"
    proof (cases q)
      case Nil
      with q show ?thesis by auto
    next
      case (Cons s q')
      with q have c: "c = (path @ [s]) @ q'" by simp
      with q(2) have "valid_chain tools (path @ [s])"
        using valid_chain_prefix [of "path @ [s]" tools q'] by simp
      with valid_chain_snoc [OF ne] have "s \<notin> set path" "compatible_names tools (last path) s"
        by auto
      moreover have "c \<in> extensions tools final d (path @ [s])"
        using q c by (auto simp: extensions_def)
      moreover have "length path < d"
        using q(3) c by simp
      ultimately show ?thesis by auto
    qed
  next
    assume "c \<in> ?R"
    then consider "c = path" "final = None \<or> final = Some (last path)"
      | s where "c \<in> extensions tools final d (path @ [s])"
      by (auto split: if_split_asm)
    then show "c \<in> ?L"
      by cases (use assms in \<open>auto simp: extensions_def\<close>)
  qed
qed

lemma extensions_disjoint: "s \<noteq> s' \<Longrightarrow> extensions tools final d (path @ [s]) \<inter> extensions tools final d (path @ [s']) = {}"
  by (auto simp: extensions_def)

lemma dfs_spec:
  assumes ok: "dict_ok tools"
  shows "matrix = compatibility_matrix tools \<Longrightarrow> valid_chain tools path \<Longrightarrow> length path \<le> d \<Longrightarrow>
     set (dfs matrix final d path) = extensions tools final d path \<and> distinct (dfs matrix final d path)"
proof (induction matrix final d path rule: dfs.induct)
  case (1 matrix final d path)
  note M = 1(2) and chain = 1(3) and len = 1(4)
  from chain have ne: "path \<noteq> []" and "dict_has tools (last path)"
    by (auto simp: valid_chain_def list_all_iff)
  then obtain t where t: "dict_get tools (last path) = Some t"
    by auto
  let ?ss = "successors tools (last path, t)"
  let ?g = "\<lambda>s. if s \<in> set path then [] else dfs matrix final d (path @ [s])"
  have row: "the (dict_get matrix (last path)) = ?ss"
    using M matrix_get [OF ok t] by simp
  show ?case
  proof (cases "length path \<ge> d")
    case True
    then show ?thesis
      unfolding dfs.simps [of matrix final d path] extensions_step [OF chain len] by simp
  next
    case False
    have ext: "set (?g s) = extensions tools final d (path @ [s]) \<and> distinct (?g s)"
      if "s \<in> set ?ss" "s \<notin> set path" for s
    proof -
      have "valid_chain tools (path @ [s])"
        using that chain set_successors [OF ok t] by (simp add: valid_chain_snoc [OF ne])
      with 1(1) [OF _ _ _ M] that row False show ?thesis
        by simp
    qed
    have "set (concat (map ?g ?ss)) = (\<Union>s \<in> set ?ss. set (?g s))"
      by (simp only: set_concat set_map image_image)
    also have "\<dots> = (\<Union>s \<in> set ?ss. if s \<in> set path then {} else extensions tools final d (path @ [s]))"
      by (rule SUP_cong [OF refl]) (use ext in auto)
    also have "\<dots> = (\<Union>s \<in> {s. s \<notin> set path \<and> compatible_names tools (last path) s}. extensions tools final d (path @ [s]))"
      using last_in_set [OF ne] set_successors [OF ok t]
      by (intro equalityI subsetI) (force split: if_split_asm)+
    finally have sets: "set (concat (map ?g ?ss)) =
        (\<Union>s \<in> {s. s \<notin> set path \<and> compatible_names tools (last path) s}. extensions tools final d (path @ [s]))" .
    have "distinct (concat (map ?g ?ss))"
    proof (rule distinct_concat_map [OF distinct_successors [OF ok]])
      show "distinct (?g s)" if "s \<in> set ?ss" for s
        using ext that by (cases "s \<in> set path") auto
      show "set (?g s) \<inter> set (?g s') = {}" if "s \<in> set ?ss" "s' \<in> set ?ss" "s \<noteq> s'" for s s'
        using ext [OF that(1)] ext [OF that(2)] extensions_disjoint [OF that(3), of tools final d path]
        by (cases "s \<in> set path"; cases "s' \<in> set path") auto
    qed
    moreover have "path \<notin> set (concat (map ?g ?ss))"
      unfolding sets by (auto simp: extensions_def)
    moreover define rest where "rest = concat (map ?g ?ss)"
    ultimately have rest: "distinct rest" "path \<notin> set rest"
      by simp_all
    have "dfs matrix final d path = (if final = None \<or> final = Some (last path) then [path] else []) @ rest"
      using False row by (simp only: dfs.simps [of matrix final d path] if_False rest_def)
    moreover have "extensions tools final d path =
        (if final = None \<or> final = Some (last path) then {path} else {}) \<union> set rest"
      unfolding extensions_step [OF chain len] rest_def sets using False by simp
    ultimately show ?thesis
      using rest by (cases "final = None \<or> final = Some (last path)") auto
  qed
qed

text \<open>
  C17: \<open>find_chains\<close> lists every chain once: the sequences of different registered tools, at most
  \<open>max_depth\<close> long, in which each tool accepts what its predecessor produces, from the start tool
  and to the end tool when these are given.  It fails only for a depth below one or an unknown tool.
\<close>

theorem find_chains_exact:
  assumes "dict_ok tools"
  shows "case find_chains tools d start final of
      Inr cs \<Rightarrow> distinct cs \<and>
        set cs = {c. valid_chain tools c \<and> int (length c) \<le> d \<and>
          (start = None \<or> start = Some (hd c)) \<and> (final = None \<or> final = Some (last c))}
    | Inl e \<Rightarrow> d < 1 \<or> (\<exists>s. s \<in> set_option start \<union> set_option final \<and> dict_get tools s = None)"
proof (cases "find_chains tools d start final")
  case (Inl e)
  then show ?thesis
    by (auto simp: find_chains_def split: if_split_asm option.split_asm)
next
  case (Inr cs)
  let ?starts = "case start of None \<Rightarrow> dict_keys tools | Some s \<Rightarrow> [s]"
  let ?f = "\<lambda>s. dfs (compatibility_matrix tools) final (nat d) [s]"
  from Inr have d: "1 \<le> d" and cs: "cs = concat (map ?f ?starts)"
    by (auto simp: find_chains_def split: if_split_asm)
  have known: "dict_has tools s" if "start = Some s" for s
    using Inr that by (auto simp: find_chains_def split: if_split_asm)
  have starts: "set ?starts = {s. dict_has tools s \<and> (start = None \<or> start = Some s)}"
    using known by (auto simp: dict_has_iff simp del: not_None_eq split: option.splits)
  have f: "set (?f s) = extensions tools final (nat d) [s] \<and> distinct (?f s)" if "s \<in> set ?starts" for s
  proof -
    have "valid_chain tools [s]"
      using that unfolding starts by (auto simp: valid_chain_def)
    from dfs_spec [OF assms refl this] d show ?thesis by simp
  qed
  have "distinct cs"
    unfolding cs
  proof (rule distinct_concat_map)
    show "distinct ?starts"
      using assms by (simp split: option.split)
    show "distinct (?f s)" if "s \<in> set ?starts" for s
      using f [OF that] by blast
    show "set (?f s) \<inter> set (?f s') = {}" if "s \<in> set ?starts" "s' \<in> set ?starts" "s \<noteq> s'" for s s'
      using f [OF that(1)] f [OF that(2)] extensions_disjoint [OF that(3), of tools final "nat d" "[]"] by simp
  qed
  moreover have "set cs = (\<Union>s \<in> set ?starts. extensions tools final (nat d) [s])"
    using f by (auto simp: cs)
  moreover have "c \<in> (\<Union>s \<in> set ?starts. extensions tools final (nat d) [s]) \<longleftrightarrow>
      valid_chain tools c \<and> int (length c) \<le> d \<and>
      (start = None \<or> start = Some (hd c)) \<and> (final = None \<or> final = Some (last c))" for c
    unfolding starts by (cases c) (auto simp: extensions_def valid_chain_def)
  ultimately show ?thesis
    unfolding Inr sum.case by (intro conjI set_eqI) (simp_all only: mem_Collect_eq)
qed

theorem find_chains_exact_witness:
  "find_chains pass_tools 2 None None = Inr [[''one''], [''two'']] \<and>
   set [[''one''], [''two'']] = {c. valid_chain pass_tools c \<and> int (length c) \<le> 2}"
proof -
  have ok: "dict_ok pass_tools"
    by (simp add: pass_tools_def)
  have "find_chains pass_tools 2 None None = Inr [[''one''], [''two'']]"
    by (simp add: find_chains_def compatibility_matrix_def successors_def is_compatible_def field_types_def
        required_fields_def dfs.simps pass_eval)
  with find_chains_exact [OF ok, of 2 None None] show ?thesis
    by simp
qed

section \<open>What the suggestions miss\<close>

text \<open>The second step of this flow reads the first one's output through a pointer.\<close>

definition pointer_steps :: "flow_step list" where
  "pointer_steps =
     [mk_step\<lparr>s_tool_name := Some ''one'', s_input_mapping := [(''a'', VStr ''x'')]\<rparr>,
      mk_step\<lparr>s_tool_name := Some ''two'', s_input_mapping := [(''b'', VStr ''/y'')]\<rparr>]"

text \<open>
  The dead-step and the parallel-pair suggestion take a pointer source for the name of a context
  key: a step whose output is read through a pointer is reported as unread and as independent of its
  reader, although the reader's input cannot be resolved without it.
\<close>

theorem suggestions_miss_pointer_reads:
  "dead_steps (Some pass_tools) pointer_steps = [Suggestion ''CW003'' 0 (Some ''one'')] \<and>
   parallelizable_pairs (Some pass_tools) pointer_steps = [Suggestion ''CW002'' 0 (Some ''one'')] \<and>
   dict_keys (sch_fields (t_output_schema (pass_tool ''one'' ''a'' ''y''))) = [''y''] \<and>
   resolve_inputs (pointer_steps ! 1) 1 [(''x'', VInt 1), (''y'', VInt 5)] = Inr [(''b'', VInt 5)] \<and>
   resolve_inputs (pointer_steps ! 1) 1 [(''x'', VInt 1)] = Inl (InputMappingError ''two'' 1 ''/y'')"
proof -
  have r: "resolve_pointer (VDict d) ''/y'' = walk [] (VDict d) [''y'']" for d
    by (simp add: resolve_pointer_def parse_pointer_def is_pointer_def unescape_def)
  show ?thesis
    by (simp add: dead_steps_def parallelizable_pairs_def pair_suggestion_def pointer_steps_def find_tool_def
        reads_of_def step_reads_def step_accum_def disjoint_def pass_eval resolve_inputs_def display_name_def
        py_or_def resolve_source_def r walk.simps join_with.simps)
qed

end
