(* ===== verification/McpSecurity.thy ===== *)
theory McpSecurity
  imports Redaction
begin

text \<open>
  \<open>chainweaver/mcp/security.py\<close>: the gate in front of every call of an exposed flow
  (authentication, rate limit, authorization, with an audit event for each decision), the
  fixed-window rate limiter, the rendering of errors for clients, the profiles and the readiness
  check.  The hooks of the host are arguments that act on a world; monotonic time is a
  rational number.  A hook's answer is a value: what it returned or how it raised.
\<close>

section \<open>Callers, hooks and events\<close>

record caller =
  ca_id :: string
  ca_scopes :: "string list"
  ca_metadata :: "val dict"

record mcp_request =
  mr_request_id :: string
  mr_flow_name :: string
  mr_flow_version :: string
  mr_tool_name :: string
  mr_inputs :: "val dict"
  mr_safety :: "safety_contract option"
  mr_headers :: "(string \<times> string) list"

text \<open>Errors of the boundary; \<open>HookError\<close> is an exception of a limiter, which is not caught.\<close>

datatype mcp_error =
    FlowAuthenticationError (me_flow: string) (me_reason: string)
  | RateLimitExceededError (me_flow: string) (me_reason: string)
  | FlowAuthorizationError (me_flow: string) (me_reason: string)
  | HookError (me_text: string)

datatype auth_answer =
    AuthRaised string string \<comment> \<open>a \<open>FlowAuthenticationError\<close> with its flow and reason\<close>
  | AuthCrashed string
  | AuthNone
  | AuthOk caller

record authz_context =
  az_request_id :: string
  az_flow_name :: string
  az_flow_version :: string
  az_tool_name :: string
  az_caller :: "caller option"
  az_input_summary :: "val dict"
  az_safety :: "safety_contract option"

datatype authz_answer =
    AuthzRaised string string
  | AuthzCrashed string
  | AuthzBool bool
  | AuthzDecision bool string "string option"

datatype gate_action = Authenticate | RateLimit | Authorize

record audit_event =
  ae_action :: gate_action
  ae_allowed :: bool
  ae_flow_name :: string
  ae_tool_name :: string
  ae_request_id :: string
  ae_caller_id :: "string option"
  ae_reason :: "string option"
  ae_detail :: "string option"

datatype error_detail = Full | TypeOnly | Generic

record 'w request_gate =
  g_authenticator :: "('w \<Rightarrow> mcp_request \<Rightarrow> 'w \<times> auth_answer) option"
  g_limiter :: "('w \<Rightarrow> caller option \<Rightarrow> string \<Rightarrow> 'w \<times> (string + bool)) option"
  g_authorizer :: "('w \<Rightarrow> authz_context \<Rightarrow> 'w \<times> authz_answer) option"
  g_audit_hook :: "('w \<Rightarrow> audit_event \<Rightarrow> 'w) option"
  g_error_detail :: error_detail
  g_redaction :: "redaction_policy option"

text \<open>The world of the hooks and the events emitted so far, each of them also a line of the log.\<close>

record 'w gate_state =
  gs_world :: 'w
  gs_events :: "audit_event list"

section \<open>The request gate\<close>

definition emit ::
  "'w request_gate \<Rightarrow> mcp_request \<Rightarrow> gate_action \<Rightarrow> bool \<Rightarrow> string option \<Rightarrow> string option \<Rightarrow> string option \<Rightarrow>
     'w gate_state \<Rightarrow> 'w gate_state" where
  "emit g rq act allowed who reason detail st =
     (let ev = \<lparr>ae_action = act, ae_allowed = allowed, ae_flow_name = mr_flow_name rq,
                ae_tool_name = mr_tool_name rq, ae_request_id = mr_request_id rq, ae_caller_id = who,
                ae_reason = reason, ae_detail = detail\<rparr>
      in \<lparr>gs_world = (case g_audit_hook g of None \<Rightarrow> gs_world st | Some hook \<Rightarrow> hook (gs_world st) ev),
          gs_events = gs_events st @ [ev]\<rparr>)"

definition authenticate ::
  "'w request_gate \<Rightarrow> mcp_request \<Rightarrow> 'w gate_state \<Rightarrow> 'w gate_state \<times> (mcp_error + caller option)" where
  "authenticate g rq st =
     (case g_authenticator g of
        None \<Rightarrow> (st, Inr None)
      | Some auth \<Rightarrow>
          (case auth (gs_world st) rq of
             (w, answer) \<Rightarrow>
               (let st = st\<lparr>gs_world := w\<rparr>;
                    refuse = (\<lambda>reason detail. emit g rq Authenticate False None (Some reason) detail st)
                in case answer of
                     AuthRaised fl reason \<Rightarrow> (refuse reason None, Inl (FlowAuthenticationError fl reason))
                   | AuthCrashed ty \<Rightarrow>
                       (refuse ''unauthenticated'' (Some (''authenticator raised: '' @ ty)),
                        Inl (FlowAuthenticationError (mr_flow_name rq) ''unauthenticated''))
                   | AuthNone \<Rightarrow>
                       (refuse ''unauthenticated'' None,
                        Inl (FlowAuthenticationError (mr_flow_name rq) ''unauthenticated''))
                   | AuthOk c \<Rightarrow>
                       (emit g rq Authenticate True (Some (ca_id c)) None None st, Inr (Some c)))))"

definition rate_limit ::
  "'w request_gate \<Rightarrow> mcp_request \<Rightarrow> caller option \<Rightarrow> 'w gate_state \<Rightarrow> 'w gate_state \<times> (mcp_error + unit)" where
  "rate_limit g rq who st =
     (case g_limiter g of
        None \<Rightarrow> (st, Inr ())
      | Some acquire \<Rightarrow>
          (case acquire (gs_world st) who (mr_flow_name rq) of
             (w, answer) \<Rightarrow>
               (let st = st\<lparr>gs_world := w\<rparr>; cid = map_option ca_id who
                in case answer of
                     Inl e \<Rightarrow> (st, Inl (HookError e))
                   | Inr False \<Rightarrow>
                       (emit g rq RateLimit False cid (Some ''rate_limited'') None st,
                        Inl (RateLimitExceededError (mr_flow_name rq) ''rate_limited''))
                   | Inr True \<Rightarrow> (emit g rq RateLimit True cid None None st, Inr ()))))"

text \<open>\<open>_DEFAULT_SUMMARY_REDACTION\<close>: the default keys, strings cut at 200 characters.\<close>

definition summary_redaction :: "string \<Rightarrow> redaction_policy" where
  "summary_redaction ellipsis =
     \<lparr>rp_keys = DEFAULT_REDACT_KEYS, rp_pattern = None, rp_max_length = Some 200,
      rp_replacement = ''***REDACTED***'', rp_ellipsis = ellipsis\<rparr>"

definition authz_context_of :: "string \<Rightarrow> mcp_request \<Rightarrow> caller option \<Rightarrow> authz_context" where
  "authz_context_of ellipsis rq who =
     \<lparr>az_request_id = mr_request_id rq, az_flow_name = mr_flow_name rq, az_flow_version = mr_flow_version rq,
      az_tool_name = mr_tool_name rq, az_caller = who,
      az_input_summary = redact (summary_redaction ellipsis) (mr_inputs rq), az_safety = mr_safety rq\<rparr>"

definition authorize ::
  "string \<Rightarrow> 'w request_gate \<Rightarrow> mcp_request \<Rightarrow> caller option \<Rightarrow> 'w gate_state \<Rightarrow>
     'w gate_state \<times> (mcp_error + unit)" where
  "authorize ellipsis g rq who st =
     (case g_authorizer g of
        None \<Rightarrow> (st, Inr ())
      | Some decide \<Rightarrow>
          (case decide (gs_world st) (authz_context_of ellipsis rq who) of
             (w, answer) \<Rightarrow>
               (let st = st\<lparr>gs_world := w\<rparr>; cid = map_option ca_id who;
                    refuse = (\<lambda>reason detail. emit g rq Authorize False cid (Some reason) detail st);
                    judge = (\<lambda>allowed reason detail.
                      if allowed then (emit g rq Authorize True cid None None st, Inr ())
                      else (refuse reason detail, Inl (FlowAuthorizationError (mr_flow_name rq) reason)))
                in case answer of
                     AuthzRaised fl reason \<Rightarrow> (refuse reason None, Inl (FlowAuthorizationError fl reason))
                   | AuthzCrashed ty \<Rightarrow>
                       (refuse ''forbidden'' (Some (''authorizer raised: '' @ ty)),
                        Inl (FlowAuthorizationError (mr_flow_name rq) ''forbidden''))
                   | AuthzBool b \<Rightarrow> judge b ''forbidden'' None
                   | AuthzDecision b reason detail \<Rightarrow> judge b reason detail)))"

definition check ::
  "string \<Rightarrow> 'w request_gate \<Rightarrow> mcp_request \<Rightarrow> 'w gate_state \<Rightarrow> 'w gate_state \<times> (mcp_error + unit)" where
  "check ellipsis g rq st =
     bind_st (authenticate g rq st) (\<lambda>st who.
     bind_st (rate_limit g rq who st) (\<lambda>st _.
       authorize ellipsis g rq who st))"

section \<open>Errors for clients\<close>

definition GENERIC_ERROR_MESSAGE :: string where
  "GENERIC_ERROR_MESSAGE = ''The flow failed; contact the server operator for details.''"

definition render_error_detail ::
  "string option \<Rightarrow> string option \<Rightarrow> error_detail \<Rightarrow> redaction_policy option \<Rightarrow> string" where
  "render_error_detail ty msg mode redaction =
     (if mode = Generic then GENERIC_ERROR_MESSAGE
      else
        (let etype = (case ty of None \<Rightarrow> ''FlowExecutionError'' | Some t \<Rightarrow> if t = [] then ''FlowExecutionError'' else t)
         in if mode = TypeOnly then etype
            else
              (let m = default_arg msg [];
                   m = (case redaction of None \<Rightarrow> m | Some p \<Rightarrow> redact_text p m)
               in if m = [] then etype else etype @ '': '' @ m)))"

definition render_error :: "'w request_gate \<Rightarrow> string option \<Rightarrow> string option \<Rightarrow> string" where
  "render_error g ty msg = render_error_detail ty msg (g_error_detail g) (g_redaction g)"

definition set_error_detail :: "error_detail \<Rightarrow> 'w request_gate \<Rightarrow> 'w request_gate" where
  "set_error_detail mode g = g\<lparr>g_error_detail := mode\<rparr>"

section \<open>Profiles and readiness\<close>

record server_profile =
  sp_name :: string
  sp_lifecycles :: "lifecycle list"
  sp_side_effects :: "side_effect list"
  sp_allow_approval :: bool
  sp_force_expose :: bool
  sp_error_detail :: error_detail
  sp_require_authorizer :: bool
  sp_require_authenticator :: bool
  sp_require_rate_limiter :: bool

definition strict_profile :: server_profile where
  "strict_profile =
     \<lparr>sp_name = ''strict'', sp_lifecycles = [LC_ACTIVE], sp_side_effects = [SE_NONE, SE_READ],
      sp_allow_approval = False, sp_force_expose = False, sp_error_detail = Generic,
      sp_require_authorizer = True, sp_require_authenticator = True, sp_require_rate_limiter = False\<rparr>"

definition balanced_profile :: server_profile where
  "balanced_profile =
     \<lparr>sp_name = ''balanced'', sp_lifecycles = [LC_ACTIVE], sp_side_effects = [SE_NONE, SE_READ],
      sp_allow_approval = False, sp_force_expose = False, sp_error_detail = TypeOnly,
      sp_require_authorizer = False, sp_require_authenticator = False, sp_require_rate_limiter = False\<rparr>"

definition trusted_network_profile :: server_profile where
  "trusted_network_profile =
     \<lparr>sp_name = ''trusted-network'', sp_lifecycles = [LC_ACTIVE, LC_REVIEWED],
      sp_side_effects = [SE_NONE, SE_READ, SE_WRITE], sp_allow_approval = True, sp_force_expose = False,
      sp_error_detail = Full, sp_require_authorizer = False, sp_require_authenticator = False,
      sp_require_rate_limiter = False\<rparr>"

definition named_profile :: "string \<Rightarrow> exn + server_profile" where
  "named_profile name =
     (case dict_get [(''strict'', strict_profile), (''balanced'', balanced_profile),
                     (''trusted-network'', trusted_network_profile)] name of
        None \<Rightarrow> Inl (ValueError ''Unknown MCP server profile'') | Some p \<Rightarrow> Inr p)"

datatype severity = SevError | SevWarning | SevInfo

definition evaluate_readiness ::
  "server_profile \<Rightarrow> bool \<Rightarrow> bool \<Rightarrow> bool \<Rightarrow> error_detail \<Rightarrow> side_effect list \<Rightarrow> (severity \<times> string) list" where
  "evaluate_readiness p authorizer authenticator limiter detail exposed =
     (let found =
        (if sp_require_authorizer p \<and> \<not> authorizer then [(SevError, ''missing-authorizer'')] else []) @
        (if sp_require_authenticator p \<and> \<not> authenticator then [(SevError, ''missing-authenticator'')] else []) @
        (if sp_require_rate_limiter p \<and> \<not> limiter then [(SevWarning, ''missing-rate-limiter'')] else []) @
        (if detail \<noteq> sp_error_detail p then [(SevWarning, ''error-detail-relaxed'')] else []) @
        (if list_all (\<lambda>s. s \<in> set (sp_side_effects p)) exposed then []
         else [(SevError, ''side-effects-over-ceiling'')])
      in if found = [] then [(SevInfo, ''ready'')] else found)"

section \<open>The fixed-window rate limiter\<close>

record limiter_config =
  lc_max_calls :: nat
  lc_window :: rat
  lc_per_flow :: bool
  lc_max_tracked :: nat

type_synonym windows = "((string \<times> string) \<times> (rat \<times> nat)) list"

definition new_limiter :: "int \<Rightarrow> rat \<Rightarrow> bool \<Rightarrow> int \<Rightarrow> exn + limiter_config" where
  "new_limiter max_calls window per_flow max_tracked =
     (if max_calls < 1 then Inl (ValueError ''max_calls must be >= 1.'')
      else if window \<le> 0 then Inl (ValueError ''window_seconds must be > 0.'')
      else if max_tracked < 1 then Inl (ValueError ''max_tracked must be >= 1.'')
      else Inr \<lparr>lc_max_calls = nat max_calls, lc_window = window, lc_per_flow = per_flow,
                lc_max_tracked = nat max_tracked\<rparr>)"

definition limiter_key :: "limiter_config \<Rightarrow> caller option \<Rightarrow> string \<Rightarrow> string \<times> string" where
  "limiter_key c who flow =
     ((case who of None \<Rightarrow> ''anonymous'' | Some x \<Rightarrow> ca_id x), if lc_per_flow c then flow else [])"

definition evict_expired :: "limiter_config \<Rightarrow> rat \<Rightarrow> windows \<Rightarrow> windows" where
  "evict_expired c now hits = filter (\<lambda>(k, start, n). \<not> now - start \<ge> lc_window c) hits"

definition acquire_key :: "limiter_config \<Rightarrow> rat \<Rightarrow> string \<times> string \<Rightarrow> windows \<Rightarrow> windows \<times> bool" where
  "acquire_key c now key hits =
     (let (start, n) = (case dict_get hits key of None \<Rightarrow> (now, 0) | Some e \<Rightarrow> e);
          (start, n) = (if now - start \<ge> lc_window c then (now, 0) else (start, n))
      in if n \<ge> lc_max_calls c then (dict_set hits key (start, n), False)
         else
           (let hits = (if \<not> dict_has hits key \<and> length hits \<ge> lc_max_tracked c
                        then evict_expired c now hits else hits)
            in (dict_set hits key (start, n + 1), True)))"

definition acquire ::
  "limiter_config \<Rightarrow> rat \<Rightarrow> caller option \<Rightarrow> string \<Rightarrow> windows \<Rightarrow> windows \<times> bool" where
  "acquire c now who flow hits = acquire_key c now (limiter_key c who flow) hits"

section \<open>Every decision is audited\<close>

definition configured :: "'w request_gate \<Rightarrow> gate_action list" where
  "configured g =
     (if g_authenticator g = None then [] else [Authenticate]) @
     (if g_limiter g = None then [] else [RateLimit]) @
     (if g_authorizer g = None then [] else [Authorize])"

lemma emit_events [simp]:
  "\<exists>ev. gs_events (emit g rq act allowed who reason detail st) = gs_events st @ [ev] \<and> ae_action ev = act \<and>
     ae_allowed ev = allowed \<and> ae_reason ev = reason \<and> ae_request_id ev = mr_request_id rq"
  by (simp add: emit_def Let_def)

text \<open>One stage: the events it adds, against its answer.\<close>

definition stage :: "gate_action \<Rightarrow> bool \<Rightarrow> mcp_request \<Rightarrow> audit_event list \<Rightarrow> mcp_error + 'a \<Rightarrow> bool" where
  "stage act present rq evs r \<longleftrightarrow>
     list_all (\<lambda>ev. ae_request_id ev = mr_request_id rq \<and> ae_action ev = act) evs \<and>
     (case r of
        Inr _ \<Rightarrow> (if present then length evs = 1 \<and> ae_allowed (hd evs) else evs = [])
      | Inl (HookError _) \<Rightarrow> present \<and> evs = []
      | Inl e \<Rightarrow> present \<and> length evs = 1 \<and> \<not> ae_allowed (hd evs) \<and> ae_reason (hd evs) = Some (me_reason e))"

lemma authenticate_stage:
  "\<exists>evs. gs_events (fst (authenticate g rq st)) = gs_events st @ evs \<and>
     stage Authenticate (g_authenticator g \<noteq> None) rq evs (snd (authenticate g rq st))"
  by (auto simp: authenticate_def stage_def emit_def Let_def split: option.split prod.split auth_answer.split)

lemma rate_limit_stage:
  "\<exists>evs. gs_events (fst (rate_limit g rq who st)) = gs_events st @ evs \<and>
     stage RateLimit (g_limiter g \<noteq> None) rq evs (snd (rate_limit g rq who st))"
  by (auto simp: rate_limit_def stage_def emit_def Let_def split: option.split prod.split sum.split bool.split)

lemma authorize_stage:
  "\<exists>evs. gs_events (fst (authorize el g rq who st)) = gs_events st @ evs \<and>
     stage Authorize (g_authorizer g \<noteq> None) rq evs (snd (authorize el g rq who st))"
  by (auto simp: authorize_def stage_def emit_def Let_def split: option.split prod.split authz_answer.split)

definition audited :: "'w request_gate \<Rightarrow> mcp_request \<Rightarrow> audit_event list \<Rightarrow> mcp_error + 'a \<Rightarrow> bool" where
  "audited g rq evs r \<longleftrightarrow>
     list_all (\<lambda>ev. ae_request_id ev = mr_request_id rq) evs \<and>
     map ae_action evs = take (length evs) (configured g) \<and>
     (case r of
        Inr _ \<Rightarrow> length evs = length (configured g) \<and> list_all ae_allowed evs
      | Inl (HookError _) \<Rightarrow> length evs < length (configured g) \<and> list_all ae_allowed evs
      | Inl e \<Rightarrow> evs \<noteq> [] \<and> list_all ae_allowed (butlast evs) \<and> \<not> ae_allowed (last evs) \<and>
          ae_reason (last evs) = Some (me_reason e))"

lemma length_1: "length xs = Suc 0 \<longleftrightarrow> (\<exists>x. xs = [x])"
  by (cases xs) auto


text \<open>What an authorizer sees does not depend on what the arguments hold under secret keys.\<close>

lemma summary_hides_secrets:
  assumes "erase (summary_redaction el) (VDict (mr_inputs rq)) = erase (summary_redaction el) (VDict inputs)"
  shows "authz_context_of el (rq\<lparr>mr_inputs := inputs\<rparr>) who = authz_context_of el rq who"
proof -
  have "redact_value (summary_redaction el) (VDict (mr_inputs rq)) = redact_value (summary_redaction el) (VDict inputs)"
    unfolding redact_value_erase [of "summary_redaction el" "VDict (mr_inputs rq)"]
      redact_value_erase [of "summary_redaction el" "VDict inputs"] assms ..
  then show ?thesis
    by (simp add: authz_context_of_def redact_def)
qed

section \<open>The bound of the limiter\<close>

text \<open>A history of calls, each with its time, and the times at which those of one key were let through.\<close>

fun run_limiter ::
  "limiter_config \<Rightarrow> (rat \<times> caller option \<times> string) list \<Rightarrow> windows \<Rightarrow> bool list" where
  "run_limiter c [] hits = []"
| "run_limiter c ((now, who, flow) # calls) hits =
     (case acquire c now who flow hits of (hits, ok) \<Rightarrow> ok # run_limiter c calls hits)"

definition permitted ::
  "limiter_config \<Rightarrow> string \<times> string \<Rightarrow> (rat \<times> caller option \<times> string) list \<Rightarrow> bool list \<Rightarrow> rat list" where
  "permitted c key calls oks =
     map (fst \<circ> fst) (filter (\<lambda>((now, who, flow), ok). ok \<and> limiter_key c who flow = key) (zip calls oks))"

definition count_in :: "(rat \<Rightarrow> bool) \<Rightarrow> rat list \<Rightarrow> nat" where
  "count_in P xs = length (filter P xs)"

lemma count_in_simps [simp]:
  "count_in P [] = 0" "count_in P (xs @ ys) = count_in P xs + count_in P ys"
  "count_in P [x] = (if P x then 1 else 0)"
  by (simp_all add: count_in_def)

lemma count_in_mono: "(\<And>x. x \<in> set xs \<Longrightarrow> P x \<Longrightarrow> Q x) \<Longrightarrow> count_in P xs \<le> count_in Q xs"
  by (induction xs) (auto simp: count_in_def)

lemma count_in_zero: "(\<And>x. x \<in> set xs \<Longrightarrow> \<not> P x) \<Longrightarrow> count_in P xs = 0"
  by (simp add: count_in_def)

lemma count_in_split: "count_in P xs = count_in (\<lambda>x. P x \<and> x < s) xs + count_in (\<lambda>x. P x \<and> s \<le> x) xs"
  by (induction xs) (auto simp: count_in_def)

text \<open>
  The window \<open>(s, n)\<close> of one key against the times \<open>H\<close> at which it was let through, up to the time
  \<open>T\<close>: \<open>n\<close> bounds the calls of the window, all but the first of them later than its start, and the
  window before it had one call less than the maximum in reach; so every interval of the window's
  length had less than twice the maximum.
\<close>

definition window_inv :: "limiter_config \<Rightarrow> rat list \<Rightarrow> rat \<Rightarrow> rat \<Rightarrow> nat \<Rightarrow> bool" where
  "window_inv c H T s n \<longleftrightarrow>
     s \<le> T \<and> (\<forall>h \<in> set H. h \<le> T \<and> h < s + lc_window c) \<and>
     count_in (\<lambda>h. s \<le> h) H \<le> n \<and> count_in (\<lambda>h. s < h) H \<le> n - 1 \<and> n \<le> lc_max_calls c \<and>
     count_in (\<lambda>h. s - lc_window c < h \<and> h < s) H \<le> lc_max_calls c - 1 \<and>
     (\<forall>t. count_in (\<lambda>h. t \<le> h \<and> h < t + lc_window c) H \<le> 2 * lc_max_calls c - 1)"

lemma window_inv_later: "window_inv c H T s n \<Longrightarrow> T \<le> now \<Longrightarrow> window_inv c H now s n"
  by (auto simp: window_inv_def)

lemma window_inv_empty: "0 < lc_window c \<Longrightarrow> window_inv c [] now now 0"
  by (simp add: window_inv_def)

lemma window_inv_step:
  assumes "window_inv c H T s n" and "T \<le> now" and "now - s < lc_window c" and "n < lc_max_calls c"
    and "n = 0 \<Longrightarrow> s = now"
  shows "window_inv c (H @ [now]) now s (n + 1)"
proof -
  let ?W = "lc_window c" and ?M = "lc_max_calls c"
  have s: "s \<le> now" and H: "\<forall>h \<in> set H. h \<le> now \<and> h < s + ?W"
    using assms(1,2) by (auto simp: window_inv_def)
  have new: "count_in (\<lambda>h. s \<le> h) H \<le> n" and late: "count_in (\<lambda>h. s < h) H \<le> n - 1"
    and old: "count_in (\<lambda>h. s - ?W < h \<and> h < s) H \<le> ?M - 1"
    and all: "\<And>t. count_in (\<lambda>h. t \<le> h \<and> h < t + ?W) H \<le> 2 * ?M - 1"
    using assms(1) by (auto simp: window_inv_def)
  have "count_in (\<lambda>h. t \<le> h \<and> h < t + ?W) (H @ [now]) \<le> 2 * ?M - 1" for t
  proof (cases "t \<le> now \<and> now < t + ?W")
    case True
    have "count_in (\<lambda>h. t \<le> h \<and> h < t + ?W) H \<le>
        count_in (\<lambda>h. s - ?W < h \<and> h < s) H + count_in (\<lambda>h. s \<le> h) H"
      unfolding count_in_split [of "\<lambda>h. t \<le> h \<and> h < t + ?W" H s]
      using True s by (intro add_mono count_in_mono) auto
    with new old assms(4) True show ?thesis by simp
  next
    case False
    then have "count_in (\<lambda>h. t \<le> h \<and> h < t + ?W) (H @ [now]) = count_in (\<lambda>h. t \<le> h \<and> h < t + ?W) H"
      by auto
    with all [of t] show ?thesis by simp
  qed
  moreover have "count_in (\<lambda>h. s < h) (H @ [now]) \<le> n + 1 - 1"
    using late assms(5) by (cases n) auto
  ultimately show ?thesis
    using assms(3,4) s H new old by (simp add: window_inv_def)
qed

lemma window_inv_fresh:
  assumes "window_inv c H T s n" and "T \<le> now" and "s + lc_window c \<le> now" and "0 < lc_window c"
  shows "window_inv c H now now 0"
proof -
  let ?W = "lc_window c" and ?M = "lc_max_calls c"
  have early: "\<forall>h \<in> set H. h < now"
    using assms by (fastforce simp: window_inv_def)
  have zero: "count_in (\<lambda>h. now \<le> h) H = 0" "count_in (\<lambda>h. now < h) H = 0"
    by (rule count_in_zero, use early in fastforce)+
  have "count_in (\<lambda>h. now - ?W < h \<and> h < now) H \<le> count_in (\<lambda>h. s < h) H"
    using assms(3) by (intro count_in_mono) auto
  also have "\<dots> \<le> ?M - 1"
    using assms(1) by (auto simp: window_inv_def)
  finally have "count_in (\<lambda>h. now - ?W < h \<and> h < now) H \<le> ?M - 1" .
  moreover have "\<forall>h \<in> set H. h \<le> now \<and> h < now + ?W"
    using early assms(4) by fastforce
  ultimately show ?thesis
    using assms(1) zero by (simp add: window_inv_def)
qed

text \<open>The window as the table keeps it: absent once it is over, or before the first call.\<close>

definition key_inv :: "limiter_config \<Rightarrow> string \<times> string \<Rightarrow> windows \<Rightarrow> rat list \<Rightarrow> rat \<Rightarrow> bool" where
  "key_inv c key hits H T \<longleftrightarrow>
     dict_ok hits \<and>
     (case dict_get hits key of
        Some (s, n) \<Rightarrow> window_inv c H T s n \<and> (n = 0 \<longrightarrow> lc_max_calls c = 0)
      | None \<Rightarrow> H = [] \<or> (\<exists>s n. window_inv c H T s n \<and> s + lc_window c \<le> T))"

lemma evict_ok: "dict_ok hits \<Longrightarrow> dict_ok (evict_expired c now hits)"
  unfolding evict_expired_def by (rule distinct_map_filter)

lemma map_of_filter_distinct:
  "dict_ok xs \<Longrightarrow> dict_get (filter P xs) k =
     (case dict_get xs k of None \<Rightarrow> None | Some v \<Rightarrow> if P (k, v) then Some v else None)"
proof (induction xs)
  case (Cons x xs)
  obtain a b where x: "x = (a, b)" by (cases x)
  with Cons.prems have "dict_get xs a = None"
    by (simp add: map_of_eq_None_iff)
  with Cons x show ?case
    by (cases "k = a") auto
qed simp

lemma evict_get:
  "dict_ok hits \<Longrightarrow> dict_get (evict_expired c now hits) key =
     (case dict_get hits key of
        None \<Rightarrow> None | Some (s, n) \<Rightarrow> if now - s \<ge> lc_window c then None else Some (s, n))"
  by (simp add: evict_expired_def map_of_filter_distinct split: option.split prod.split)

lemma key_inv_later:
  assumes "key_inv c key hits H T" and "T \<le> now"
  shows "key_inv c key hits H now"
proof (cases "dict_get hits key")
  case None
  with assms show ?thesis
    by (auto simp: key_inv_def) (meson order_trans window_inv_later)
next
  case (Some p)
  with assms show ?thesis
    by (cases p) (auto simp: key_inv_def intro: window_inv_later)
qed

lemma key_inv_evict:
  assumes inv: "key_inv c key hits H T" and T: "T \<le> now"
  shows "key_inv c key (evict_expired c now hits) H now"
proof -
  note later = key_inv_later [OF inv T]
  have ok: "dict_ok hits"
    using inv by (simp add: key_inv_def)
  show ?thesis
  proof (cases "dict_get hits key")
    case None
    with later ok show ?thesis
      by (simp add: key_inv_def evict_ok evict_get)
  next
    case (Some p)
    obtain s n where p: "p = (s, n)" by (cases p)
    show ?thesis
    proof (cases "lc_window c \<le> now - s")
      case True
      then have "s + lc_window c \<le> now" by simp
      with later ok Some p True show ?thesis
        by (auto simp: key_inv_def evict_ok evict_get)
    next
      case False
      with later ok Some p show ?thesis
        by (simp add: key_inv_def evict_ok evict_get)
    qed
  qed
qed

lemma acquire_key_inv:
  assumes inv: "key_inv c key hits H T" and T: "T \<le> now" and W: "0 < lc_window c"
    and a: "acquire_key c now key' hits = (hits', ok)"
  shows "key_inv c key hits' (if ok \<and> key' = key then H @ [now] else H) now"
proof -
  let ?e = "case dict_get hits key' of None \<Rightarrow> (now, 0) | Some e \<Rightarrow> e"
  obtain s0 n0 where e0: "?e = (s0, n0)" by fastforce
  obtain s n where e: "(if now - s0 \<ge> lc_window c then (now, 0) else (s0, n0)) = (s, n)" by fastforce
  define hits1 where "hits1 = (if \<not> dict_has hits key' \<and> length hits \<ge> lc_max_tracked c
      then evict_expired c now hits else hits)"
  have ok: "ok \<longleftrightarrow> \<not> n \<ge> lc_max_calls c"
    and hits': "hits' = (if ok then dict_set hits1 key' (s, n + 1) else dict_set hits key' (s, n))"
    using a unfolding acquire_key_def Let_def e0 e prod.case hits1_def by (auto simp: e split: if_split_asm)
  have inv1: "key_inv c key hits1 H now"
    using key_inv_evict [OF inv T] key_inv_later [OF inv T] by (simp add: hits1_def)
  show ?thesis
  proof (cases "key' = key")
    case False
    with inv1 key_inv_later [OF inv T] show ?thesis
      unfolding hits' by (simp add: key_inv_def dict_simps)
  next
    case True
    have W1: "window_inv c H now s n \<and> (n = 0 \<longrightarrow> s = now \<or> lc_max_calls c = 0)"
    proof (cases "dict_get hits key")
      case None
      with e0 e True W have sn: "s = now" "n = 0"
        by (auto split: if_split_asm)
      from None inv consider "H = []" | s' n' where "window_inv c H T s' n'" "s' + lc_window c \<le> T"
        by (auto simp: key_inv_def)
      then show ?thesis
      proof cases
        case 1
        with sn W show ?thesis by (simp add: window_inv_empty)
      next
        case 2
        with sn T W show ?thesis by (simp add: window_inv_fresh [OF 2(1) T])
      qed
    next
      case (Some p)
      with e0 True inv have W0: "window_inv c H T s0 n0" "n0 = 0 \<longrightarrow> lc_max_calls c = 0"
        by (auto simp: key_inv_def)
      show ?thesis
      proof (cases "lc_window c \<le> now - s0")
        case True
        then have "s0 + lc_window c \<le> now" by simp
        with True e window_inv_fresh [OF W0(1) T _ W] show ?thesis by simp
      next
        case False
        with e W0 window_inv_later [OF W0(1) T] show ?thesis by simp
      qed
    qed
    have fresh: "now - s < lc_window c"
      using e W by (auto split: if_split_asm)
    have "dict_ok hits1" "dict_ok hits"
      using inv1 inv by (auto simp: key_inv_def)
    moreover have "window_inv c (H @ [now]) now s (n + 1)" if ok
      using window_inv_step [OF conjunct1 [OF W1] order_refl fresh] W1 that ok by auto
    ultimately show ?thesis
      unfolding hits' using True W1 ok by (auto simp: key_inv_def dict_simps)
  qed
qed

lemma run_limiter_bound:
  assumes "key_inv c key hits H T" and "sorted (T # map fst calls)" and "0 < lc_window c"
  shows "count_in (\<lambda>x. t \<le> x \<and> x < t + lc_window c) (H @ permitted c key calls (run_limiter c calls hits))
     \<le> 2 * lc_max_calls c - 1"
  using assms
proof (induction calls arbitrary: hits H T)
  case Nil
  then show ?case
    by (auto simp: permitted_def key_inv_def window_inv_def split: option.splits)
next
  case (Cons call calls)
  obtain now who flow where call: "call = (now, who, flow)" by (cases call)
  obtain hits' ok where a: "acquire c now who flow hits = (hits', ok)" by fastforce
  let ?H = "if ok \<and> limiter_key c who flow = key then H @ [now] else H"
  have "key_inv c key hits' ?H now"
    using acquire_key_inv [OF Cons.prems(1) _ Cons.prems(3) a [unfolded acquire_def]] Cons.prems(2) call by simp
  moreover have "sorted (now # map fst calls)"
    using Cons.prems(2) call by simp
  moreover have "?H @ permitted c key calls (run_limiter c calls hits') =
      H @ permitted c key (call # calls) (run_limiter c (call # calls) hits)"
    using a by (auto simp: permitted_def call)
  ultimately show ?case
    using Cons.IH [of hits' ?H now] Cons.prems(3) by metis
qed

text \<open>
  C20: The fixed-window limiter bounds the rate of every key whatever else it tracks and evicts: in any
  history of calls at non-decreasing times, the calls of one caller (and flow) that it lets
  through in an interval as long as the window are less than twice \<open>max_calls\<close>.
\<close>

theorem fixed_window_bound:
  assumes "sorted (map fst calls)" and "0 < lc_window c"
  shows "length (filter (\<lambda>x. t \<le> x \<and> x < t + lc_window c) (permitted c key calls (run_limiter c calls []))) \<le>
     2 * lc_max_calls c - 1"
proof (cases calls)
  case Nil
  then show ?thesis by (simp add: permitted_def)
next
  case (Cons call rest)
  have "key_inv c key [] [] (fst call)"
    by (simp add: key_inv_def)
  moreover have "sorted (fst call # map fst calls)"
    using assms(1) Cons by simp
  ultimately show ?thesis
    using run_limiter_bound [of c key "[]" "[]" "fst call" calls t] assms(2) by (simp add: count_in_def)
qed

text \<open>The bound is reached: late calls of one window and all of the next fall into one interval.\<close>

theorem fixed_window_bound_witness:
  "let c = \<lparr>lc_max_calls = 2, lc_window = 2, lc_per_flow = False, lc_max_tracked = 5\<rparr>;
       calls = [(0, None, ''f''), (3 / 2, None, ''f''), (7 / 4, None, ''f''), (2, None, ''f''), (3, None, ''f'')];
       times = permitted c (''anonymous'', []) calls (run_limiter c calls [])
   in times = [0, 3 / 2, 2, 3] \<and>
      length (filter (\<lambda>x. 3 / 2 \<le> x \<and> x < 3 / 2 + 2) times) = 3 \<and>
      length (filter (\<lambda>x. 3 / 2 \<le> x \<and> x < 3 / 2 + 2) times) \<le> 2 * lc_max_calls c - 1"
proof -
  let ?c = "\<lparr>lc_max_calls = 2, lc_window = 2, lc_per_flow = False, lc_max_tracked = 5\<rparr>"
  let ?calls = "[(0, None, ''f''), (3 / 2, None, ''f''), (7 / 4, None, ''f''), (2, None, ''f''), (3, None, ''f'')]
    :: (rat \<times> caller option \<times> string) list"
  let ?times = "permitted ?c (''anonymous'', []) ?calls (run_limiter ?c ?calls [])"
  have "sorted (map fst ?calls)" "0 < lc_window ?c"
    by simp_all
  note bound = fixed_window_bound [OF this, of "3 / 2" "(''anonymous'', [])"]
  have "?times = [0, 3 / 2, 2, 3]"
    by (simp add: permitted_def acquire_def acquire_key_def limiter_key_def Let_def)
  with bound show ?thesis
    unfolding Let_def by simp
qed

end
