(* ===== verification/McpServer.thy ===== *)
theory McpServer
  imports McpSecurity Sample
begin

text \<open>
  \<open>FlowServer\<close> of \<open>chainweaver/mcp/server.py\<close>: which flows of an executor are exposed as MCP
  tools and under which names and hints, the hardening before a network transport serves
  them, and the dispatch of a call through the gate.  The MCP library, which publishes the tools
  and speaks the protocol, is not modelled; the run of the flow is an argument of the dispatcher.
\<close>

section \<open>Configuration\<close>

record server_args =
  va_flow_names :: "string list option"
  va_prefix :: string
  va_force_expose :: "bool option"
  va_lifecycles :: "lifecycle list option"
  va_side_effects :: "side_effect list option"
  va_owners :: "string list option"
  va_allow_approval :: "bool option"
  va_profile :: "server_profile option"
  va_error_detail :: "error_detail option"

record server_config =
  vc_flow_names :: "string list option"
  vc_prefix :: string
  vc_force_expose :: bool
  vc_lifecycles :: "lifecycle list"
  vc_side_effects :: "side_effect list"
  vc_owners :: "string list option"
  vc_allow_approval :: bool
  vc_profile :: "server_profile option"
  vc_error_detail :: error_detail
  vc_error_detail_explicit :: bool

text \<open>An explicit argument, else the profile's value, else the default.\<close>

definition resolve_arg :: "'a option \<Rightarrow> server_profile option \<Rightarrow> (server_profile \<Rightarrow> 'a) \<Rightarrow> 'a \<Rightarrow> 'a" where
  "resolve_arg explicit profile pick dflt =
     (case explicit of Some x \<Rightarrow> x | None \<Rightarrow> (case profile of Some p \<Rightarrow> pick p | None \<Rightarrow> dflt))"

definition configure :: "server_args \<Rightarrow> server_config" where
  "configure a =
     \<lparr>vc_flow_names = va_flow_names a, vc_prefix = va_prefix a,
      vc_force_expose = resolve_arg (va_force_expose a) (va_profile a) sp_force_expose False,
      vc_lifecycles = resolve_arg (va_lifecycles a) (va_profile a) sp_lifecycles [LC_ACTIVE],
      vc_side_effects = resolve_arg (va_side_effects a) (va_profile a) sp_side_effects [SE_NONE, SE_READ],
      vc_owners = va_owners a,
      vc_allow_approval = resolve_arg (va_allow_approval a) (va_profile a) sp_allow_approval False,
      vc_profile = va_profile a,
      vc_error_detail = resolve_arg (va_error_detail a) (va_profile a) sp_error_detail Full,
      vc_error_detail_explicit = (va_error_detail a \<noteq> None \<or> va_profile a \<noteq> None)\<rparr>"

section \<open>Exposure\<close>

definition af_governance :: "any_flow \<Rightarrow> flow_governance" where
  "af_governance = on_flow f_governance f_governance"

text \<open>\<open>_resolve_flow_safety\<close>.\<close>

fun declared_contracts :: "'w tools \<Rightarrow> flow_step list \<Rightarrow> safety_contract list option" where
  "declared_contracts tools [] = Some []"
| "declared_contracts tools (s # ss) =
     (case s_tool_name s of
        None \<Rightarrow> None
      | Some n \<Rightarrow>
          (case get_tool tools n of
             Inl _ \<Rightarrow> None
           | Inr t \<Rightarrow>
               (if \<not> t_safety_declared t then None
                else map_option (Cons (t_safety t)) (declared_contracts tools ss))))"

definition resolve_flow_safety :: "'w tools \<Rightarrow> any_flow \<Rightarrow> exn + safety_contract option" where
  "resolve_flow_safety tools f =
     (case af_safety f of
        Some s \<Rightarrow> Inr (Some s)
      | None \<Rightarrow>
          (case declared_contracts tools (af_steps f) of
             None \<Rightarrow> Inr None
           | Some [] \<Rightarrow> Inr None
           | Some cs \<Rightarrow> bind_err (merge_safety cs None) (\<lambda>s. Inr (Some s))))"

datatype exclusion = BadLifecycle | BadOwner | UnknownSafety | BadSideEffects | NeedsApproval

definition implicit_exclusion_reason ::
  "server_config \<Rightarrow> any_flow \<Rightarrow> safety_contract option \<Rightarrow> exclusion option" where
  "implicit_exclusion_reason c f safety =
     (if lifecycle (af_governance f) \<notin> set (vc_lifecycles c) then Some BadLifecycle
      else if (case vc_owners c of None \<Rightarrow> False | Some os \<Rightarrow>
                 (case owner (af_governance f) of None \<Rightarrow> True | Some x \<Rightarrow> x \<notin> set os)) then Some BadOwner
      else
        (case safety of
           None \<Rightarrow> Some UnknownSafety
         | Some s \<Rightarrow>
             (if side_effects s \<notin> set (vc_side_effects c) then Some BadSideEffects
              else if requires_approval s \<and> \<not> vc_allow_approval c then Some NeedsApproval
              else None)))"

text \<open>The latest of the active flows of each name, in the order in which the names first appear.\<close>

definition newer_flow :: "('v :: linorder) version_parser \<Rightarrow> any_flow \<Rightarrow> any_flow \<Rightarrow> exn + bool" where
  "newer_flow pv f current =
     bind_err (parse_version pv (af_name f) (af_version f)) (\<lambda>v.
     bind_err (parse_version pv (af_name current) (af_version current)) (\<lambda>w. Inr (w < v)))"

fun latest_active ::
  "('v :: linorder) version_parser \<Rightarrow> any_flow list \<Rightarrow> (string \<times> any_flow) list \<Rightarrow>
     exn + (string \<times> any_flow) list" where
  "latest_active pv [] acc = Inr acc"
| "latest_active pv (f # fs) acc =
     (case dict_get acc (af_name f) of
        None \<Rightarrow> latest_active pv fs (dict_set acc (af_name f) f)
      | Some current \<Rightarrow>
          bind_err (newer_flow pv f current) (\<lambda>newer.
            latest_active pv fs (if newer then dict_set acc (af_name f) f else acc)))"

definition candidate_flows ::
  "('v :: linorder) version_parser \<Rightarrow> 's store_ops \<Rightarrow> 's registry \<Rightarrow> server_config \<Rightarrow> exn + any_flow list" where
  "candidate_flows pv ops r c =
     (case vc_flow_names c of
        None \<Rightarrow>
          bind_err (get_active_flows ops r) (\<lambda>fs.
          bind_err (latest_active pv fs []) (\<lambda>d. Inr (map snd d)))
      | Some names \<Rightarrow> map_err (\<lambda>n. get_flow ops r n None) names)"

text \<open>The schemas a flow is published with; \<open>None\<close> is the permissive input and the absent output.\<close>

definition resolve_input_schema :: "'w platform \<Rightarrow> 'w tools \<Rightarrow> any_flow \<Rightarrow> exn + schema option" where
  "resolve_input_schema pl tools f =
     (case af_input_ref f of
        Some ref \<Rightarrow> bind_err (resolve_schema pl ref) (\<lambda>s. Inr (Some s))
      | None \<Rightarrow>
          (case af_steps f of
             [] \<Rightarrow> Inr None
           | s # _ \<Rightarrow>
               (case s_tool_name s of
                  None \<Rightarrow> Inr None
                | Some n \<Rightarrow> (case get_tool tools n of Inl _ \<Rightarrow> Inr None | Inr t \<Rightarrow> Inr (Some (t_input_schema t))))))"

definition tool_output :: "'w tools \<Rightarrow> string \<Rightarrow> schema option" where
  "tool_output tools n = (case get_tool tools n of Inl _ \<Rightarrow> None | Inr t \<Rightarrow> Some (t_output_schema t))"

definition resolve_output_schema :: "'w platform \<Rightarrow> 'w tools \<Rightarrow> any_flow \<Rightarrow> exn + schema option" where
  "resolve_output_schema pl tools f =
     (case af_output_ref f of
        Some ref \<Rightarrow> bind_err (resolve_schema pl ref) (\<lambda>s. Inr (Some s))
      | None \<Rightarrow>
          (if af_steps f = [] then Inr None
           else
             (case f of
                DagFlow d \<Rightarrow>
                  bind_err (map_err display_name (sinks d)) (\<lambda>names.
                    case names of [n] \<Rightarrow> Inr (tool_output tools n) | _ \<Rightarrow> Inr None)
              | LinearFlow l \<Rightarrow>
                  (case s_tool_name (last (f_steps l)) of
                     None \<Rightarrow> Inr None | Some n \<Rightarrow> Inr (tool_output tools n)))))"

record exposed_flow =
  ex_mcp_name :: string
  ex_flow :: any_flow
  ex_safety :: "safety_contract option"
  ex_input :: "schema option"
  ex_output :: "schema option"

definition mcp_name :: "server_config \<Rightarrow> any_flow \<Rightarrow> string" where
  "mcp_name c f = (if vc_prefix c = [] then af_name f else vc_prefix c @ ''__'' @ af_name f)"

definition register_exposed ::
  "'w platform \<Rightarrow> 'w tools \<Rightarrow> server_config \<Rightarrow> any_flow \<Rightarrow> safety_contract option \<Rightarrow> exposed_flow list \<Rightarrow>
     exn + exposed_flow list" where
  "register_exposed pl tools c f safety acc =
     bind_err (resolve_input_schema pl tools f) (\<lambda>input.
     bind_err (resolve_output_schema pl tools f) (\<lambda>output.
       if mcp_name c f \<in> set (map ex_mcp_name acc) then Inl (ValueError ''MCP tool name collision'')
       else Inr (acc @ [\<lparr>ex_mcp_name = mcp_name c f, ex_flow = f, ex_safety = safety, ex_input = input,
                         ex_output = output\<rparr>])))"

definition forced :: "server_config \<Rightarrow> bool" where
  "forced c \<longleftrightarrow> vc_flow_names c \<noteq> None \<and> vc_force_expose c"

fun expose_all ::
  "'w platform \<Rightarrow> 'w tools \<Rightarrow> server_config \<Rightarrow> any_flow list \<Rightarrow> exposed_flow list \<Rightarrow>
     exn + exposed_flow list" where
  "expose_all pl tools c [] acc = Inr acc"
| "expose_all pl tools c (f # fs) acc =
     bind_err (resolve_flow_safety tools f) (\<lambda>safety.
       if \<not> forced c \<and> implicit_exclusion_reason c f safety \<noteq> None then expose_all pl tools c fs acc
       else bind_err (register_exposed pl tools c f safety acc) (expose_all pl tools c fs))"

definition register_all_flows ::
  "('v :: linorder) version_parser \<Rightarrow> 's store_ops \<Rightarrow> 's registry \<Rightarrow> 'w platform \<Rightarrow> 'w tools \<Rightarrow>
     server_config \<Rightarrow> exn + exposed_flow list" where
  "register_all_flows pv ops r pl tools c =
     bind_err (candidate_flows pv ops r c) (\<lambda>fs. expose_all pl tools c fs [])"

definition exposed_side_effects :: "exposed_flow list \<Rightarrow> side_effect list" where
  "exposed_side_effects es = concat (map (\<lambda>e. case ex_safety e of None \<Rightarrow> [] | Some s \<Rightarrow> [side_effects s]) es)"

text \<open>\<open>_tool_annotations\<close>.\<close>

record tool_hints =
  th_read_only :: bool
  th_destructive :: bool
  th_idempotent :: bool
  th_open_world :: bool

definition tool_annotations :: "safety_contract option \<Rightarrow> tool_hints" where
  "tool_annotations safety =
     (case safety of
        None \<Rightarrow> \<lparr>th_read_only = False, th_destructive = True, th_idempotent = False, th_open_world = True\<rparr>
      | Some s \<Rightarrow>
          \<lparr>th_read_only = read_only s, th_destructive = (side_effects s = SE_DESTRUCTIVE),
           th_idempotent = idempotent s, th_open_world = (side_effects s = SE_EXTERNAL)\<rparr>)"

section \<open>Serving\<close>

datatype transport = Stdio | Sse | StreamableHttp

definition network :: "transport \<Rightarrow> bool" where
  "network t \<longleftrightarrow> t \<noteq> Stdio"

definition default_readiness_profile :: server_profile where
  "default_readiness_profile =
     \<lparr>sp_name = ''network-default'', sp_lifecycles = [LC_ACTIVE], sp_side_effects = [SE_NONE, SE_READ],
      sp_allow_approval = False, sp_force_expose = False, sp_error_detail = TypeOnly,
      sp_require_authorizer = True, sp_require_authenticator = True, sp_require_rate_limiter = False\<rparr>"

text \<open>\<open>_preflight\<close>: the missing hooks it warns of, the new configuration and gate, the findings.\<close>

definition preflight ::
  "server_config \<Rightarrow> 'w request_gate \<Rightarrow> exposed_flow list \<Rightarrow> transport \<Rightarrow>
     gate_action list \<times> server_config \<times> 'w request_gate \<times> (severity \<times> string) list" where
  "preflight c g es t =
     (if \<not> network t then ([], c, g, [])
      else
        (let missing = (if g_authenticator g = None then [Authenticate] else []) @
                       (if g_authorizer g = None then [Authorize] else []);
             tighten = (\<not> vc_error_detail_explicit c \<and> vc_error_detail c \<noteq> TypeOnly);
             c = (if tighten then c\<lparr>vc_error_detail := TypeOnly\<rparr> else c);
             g = (if tighten then set_error_detail TypeOnly g else g)
         in (missing, c, g,
             evaluate_readiness (default_arg (vc_profile c) default_readiness_profile)
               (g_authorizer g \<noteq> None) (g_authenticator g \<noteq> None) (g_limiter g \<noteq> None)
               (vc_error_detail c) (exposed_side_effects es))))"

definition readiness_report ::
  "server_config \<Rightarrow> 'w request_gate \<Rightarrow> exposed_flow list \<Rightarrow> (severity \<times> string) list" where
  "readiness_report c g es =
     (case vc_profile c of
        None \<Rightarrow> [(SevInfo, ''no-profile'')]
      | Some p \<Rightarrow>
          evaluate_readiness p (g_authorizer g \<noteq> None) (g_authenticator g \<noteq> None) (g_limiter g \<noteq> None)
            (vc_error_detail c) (exposed_side_effects es))"

text \<open>
  The dispatcher of one exposed flow.  \<open>execute\<close> runs the flow on the validated input and \<open>text\<close> is
  \<open>str(exc)\<close> of the exception of a record; an exception that escapes the run, the validation of the
  arguments or the validation of the output reaches the client as it is.
\<close>

datatype reply =
    Reply "val dict"
  | Refused mcp_error
  | FlowFailed string
  | RaisedToClient exn

definition validate_with :: "schema option \<Rightarrow> val dict \<Rightarrow> exn + val dict" where
  "validate_with s d = (case s of None \<Rightarrow> Inr d | Some s \<Rightarrow> sch_validate s (VDict d))"

definition failure_detail :: "(exn \<Rightarrow> string) \<Rightarrow> 'w request_gate \<Rightarrow> execution_result \<Rightarrow> string" where
  "failure_detail text g res =
     (case (if er_log res = [] then None else sd_error (sr_data (last (er_log res)))) of
        Some e \<Rightarrow> render_error g (Some (exn_type e)) (Some (text e))
      | None \<Rightarrow>
          render_error g (Some ''FlowExecutionError'')
            (Some ''flow execution failed without a recorded step error''))"

definition dispatch ::
  "string \<Rightarrow> (exn \<Rightarrow> string) \<Rightarrow> 'w request_gate \<Rightarrow> schema option \<Rightarrow> schema option \<Rightarrow>
     ('w \<Rightarrow> val dict \<Rightarrow> 'w \<times> (exn + execution_result)) \<Rightarrow> mcp_request \<Rightarrow> 'w gate_state \<Rightarrow>
     'w gate_state \<times> reply" where
  "dispatch ellipsis text g input output execute rq st =
     (case check ellipsis g rq st of
        (st, Inl e) \<Rightarrow> (st, Refused e)
      | (st, Inr _) \<Rightarrow>
          (case validate_with input (mr_inputs rq) of
             Inl e \<Rightarrow> (st, RaisedToClient e)
           | Inr args \<Rightarrow>
               (case execute (gs_world st) args of
                  (w, r) \<Rightarrow>
                    (st\<lparr>gs_world := w\<rparr>,
                     case r of
                       Inl e \<Rightarrow> RaisedToClient e
                     | Inr res \<Rightarrow>
                         (if \<not> er_success res then FlowFailed (failure_detail text g res)
                          else
                            (case (output, rd_final_output (er_data res)) of
                               (Some s, Some out) \<Rightarrow>
                                 (case sch_validate s (VDict out) of
                                    Inl e \<Rightarrow> RaisedToClient e | Inr d \<Rightarrow> Reply d)
                             | (_, out) \<Rightarrow> Reply (default_arg out [])))))))"

section \<open>What is exposed\<close>

text \<open>A flow is no newer than another one: the same, or of a parsed version at most as high.\<close>

definition not_newer :: "('v :: linorder) version_parser \<Rightarrow> any_flow \<Rightarrow> any_flow \<Rightarrow> bool" where
  "not_newer pv g f \<longleftrightarrow>
     g = f \<or> (case (pv (af_version g), pv (af_version f)) of (Some v, Some w) \<Rightarrow> v \<le> w | _ \<Rightarrow> False)"

definition latest_inv ::
  "('v :: linorder) version_parser \<Rightarrow> any_flow set \<Rightarrow> (string \<times> any_flow) list \<Rightarrow> bool" where
  "latest_inv pv S acc \<longleftrightarrow>
     dict_ok acc \<and> (\<forall>g \<in> S. dict_has acc (af_name g)) \<and>
     (\<forall>n f. dict_get acc n = Some f \<longrightarrow> af_name f = n \<and> f \<in> S \<and> (\<forall>g \<in> S. af_name g = n \<longrightarrow> not_newer pv g f))"

lemma not_newer_trans: "not_newer pv g f \<Longrightarrow> not_newer pv f h \<Longrightarrow> not_newer pv g h"
  by (auto simp: not_newer_def split: option.splits)

lemma newer_flow_Inr:
  "newer_flow pv f g = Inr b \<Longrightarrow> (if b then not_newer pv g f else not_newer pv f g)"
  by (auto simp: newer_flow_def not_newer_def parse_version_def bind_err_Inr_iff split: option.splits)

lemma latest_inv_new:
  assumes "latest_inv pv S acc" and "dict_get acc (af_name f) = None"
  shows "latest_inv pv (insert f S) (dict_set acc (af_name f) f)"
  using assms by (auto simp: latest_inv_def dict_simps not_newer_def [of pv f f] split: if_split_asm)

lemma latest_inv_known:
  assumes inv: "latest_inv pv S acc" and cur: "dict_get acc (af_name f) = Some h"
    and newer: "newer_flow pv f h = Inr b"
  shows "latest_inv pv (insert f S) (if b then dict_set acc (af_name f) f else acc)"
proof -
  have h: "af_name h = af_name f" "h \<in> S" "\<And>g. g \<in> S \<Longrightarrow> af_name g = af_name f \<Longrightarrow> not_newer pv g h"
    using inv cur by (auto simp: latest_inv_def)
  note n = newer_flow_Inr [OF newer]
  show ?thesis
  proof (cases b)
    case True
    have "not_newer pv g f" if "g \<in> insert f S" "af_name g = af_name f" for g
      using that h(3) n True by (auto simp: not_newer_def [of pv f f] intro: not_newer_trans)
    with inv True show ?thesis
      by (auto simp: latest_inv_def dict_simps split: if_split_asm)
  next
    case False
    with n have "not_newer pv f h" by simp
    with inv False cur show ?thesis
      unfolding latest_inv_def by (auto simp del: map_of_eq_Some_iff)
  qed
qed

lemma latest_active_inv:
  "latest_active pv fs acc = Inr d \<Longrightarrow> latest_inv pv S acc \<Longrightarrow> latest_inv pv (S \<union> set fs) d"
proof (induction fs arbitrary: acc S)
  case (Cons f fs)
  show ?case
  proof (cases "dict_get acc (af_name f)")
    case None
    with Cons.prems(1) have "latest_active pv fs (dict_set acc (af_name f) f) = Inr d" by simp
    from Cons.IH [OF this latest_inv_new [OF Cons.prems(2) None]] show ?thesis by simp
  next
    case (Some h)
    with Cons.prems(1) obtain b where b: "newer_flow pv f h = Inr b"
      and "latest_active pv fs (if b then dict_set acc (af_name f) f else acc) = Inr d"
      by (auto simp: bind_err_Inr_iff)
    from Cons.IH [OF this(2) latest_inv_known [OF Cons.prems(2) Some b]] show ?thesis by simp
  qed
qed simp

text \<open>What a flow that is exposed without force has passed.\<close>

definition passes_filters :: "'w tools \<Rightarrow> server_config \<Rightarrow> exposed_flow \<Rightarrow> bool" where
  "passes_filters tools c e \<longleftrightarrow>
     lifecycle (af_governance (ex_flow e)) \<in> set (vc_lifecycles c) \<and>
     (case vc_owners c of None \<Rightarrow> True | Some os \<Rightarrow> owner (af_governance (ex_flow e)) \<in> Some ` set os) \<and>
     (case ex_safety e of
        None \<Rightarrow> False
      | Some s \<Rightarrow> resolve_flow_safety tools (ex_flow e) = Inr (Some s) \<and>
          side_effects s \<in> set (vc_side_effects c) \<and> (requires_approval s \<longrightarrow> vc_allow_approval c))"

lemma exclusion_None:
  "implicit_exclusion_reason c f safety = None \<Longrightarrow> resolve_flow_safety tools f = Inr safety \<Longrightarrow>
     passes_filters tools c \<lparr>ex_mcp_name = n, ex_flow = f, ex_safety = safety, ex_input = i, ex_output = out\<rparr>"
  by (auto simp: implicit_exclusion_reason_def passes_filters_def image_iff
      split: if_split_asm option.splits)

lemma expose_all_spec:
  assumes "expose_all pl tools c fs acc = Inr es" and "distinct (map ex_mcp_name acc)"
  shows "distinct (map ex_mcp_name es) \<and>
     (\<exists>new. es = acc @ new \<and> set (map ex_flow new) \<subseteq> set fs \<and>
        (\<not> forced c \<longrightarrow> list_all (passes_filters tools c) new))"
  using assms
proof (induction fs arbitrary: acc)
  case (Cons f fs)
  from Cons.prems(1) obtain safety where safety: "resolve_flow_safety tools f = Inr safety"
    and rest: "(if \<not> forced c \<and> implicit_exclusion_reason c f safety \<noteq> None then expose_all pl tools c fs acc
       else bind_err (register_exposed pl tools c f safety acc) (expose_all pl tools c fs)) = Inr es"
    by (auto simp: bind_err_Inr_iff)
  show ?case
  proof (cases "\<not> forced c \<and> implicit_exclusion_reason c f safety \<noteq> None")
    case True
    with rest have "expose_all pl tools c fs acc = Inr es" by simp
    from Cons.IH [OF this Cons.prems(2)] obtain new where "distinct (map ex_mcp_name es)"
      and "es = acc @ new" "set (map ex_flow new) \<subseteq> set fs" "\<not> forced c \<longrightarrow> list_all (passes_filters tools c) new"
      by blast
    then show ?thesis
      by (intro conjI exI [of _ new]) auto
  next
    case False
    from False rest obtain i out where fresh: "mcp_name c f \<notin> set (map ex_mcp_name acc)"
      and go: "expose_all pl tools c fs (acc @ [\<lparr>ex_mcp_name = mcp_name c f, ex_flow = f, ex_safety = safety,
        ex_input = i, ex_output = out\<rparr>]) = Inr es"
      by (auto simp: bind_err_Inr_iff register_exposed_def split: if_split_asm)
    let ?e = "\<lparr>ex_mcp_name = mcp_name c f, ex_flow = f, ex_safety = safety, ex_input = i, ex_output = out\<rparr>"
    from fresh Cons.prems(2) have "distinct (map ex_mcp_name (acc @ [?e]))" by simp
    from Cons.IH [OF go this] obtain new where d: "distinct (map ex_mcp_name es)"
      and new: "es = (acc @ [?e]) @ new" "set (map ex_flow new) \<subseteq> set fs"
        "\<not> forced c \<longrightarrow> list_all (passes_filters tools c) new"
      by blast
    have "passes_filters tools c ?e" if "\<not> forced c"
      using False that exclusion_None [OF _ safety] by simp
    with d new show ?thesis
      by (intro conjI exI [of _ "?e # new"]) auto
  qed
qed simp

text \<open>
  C21: A server that does not force the exposure publishes a flow only under a name of its own and only
  when its review state, its owner, and the safety contract it declares or its tools add up to
  pass the configured filters; without a list of names, every published flow is an active one and
  no active flow of the same name has a higher version.
\<close>

theorem exposed_flows_pass_filters:
  assumes "register_all_flows pv ops r pl tools c = Inr es" and "\<not> forced c"
  shows "distinct (map ex_mcp_name es) \<and> list_all (passes_filters tools c) es \<and>
     (vc_flow_names c = None \<longrightarrow>
        (\<exists>active. get_active_flows ops r = Inr active \<and>
           (\<forall>e \<in> set es. ex_flow e \<in> set active \<and>
              (\<forall>g \<in> set active. af_name g = af_name (ex_flow e) \<longrightarrow> not_newer pv g (ex_flow e)))))"
proof -
  from assms(1) obtain fs where fs: "candidate_flows pv ops r c = Inr fs"
    and ex: "expose_all pl tools c fs [] = Inr es"
    by (auto simp: register_all_flows_def bind_err_Inr_iff)
  from expose_all_spec [OF ex] assms(2) have e: "distinct (map ex_mcp_name es)"
    "list_all (passes_filters tools c) es" "set (map ex_flow es) \<subseteq> set fs"
    by auto
  have "\<exists>active. get_active_flows ops r = Inr active \<and>
      (\<forall>f \<in> set fs. f \<in> set active \<and> (\<forall>g \<in> set active. af_name g = af_name f \<longrightarrow> not_newer pv g f))"
    if none: "vc_flow_names c = None"
  proof -
    from fs none obtain active d where a: "get_active_flows ops r = Inr active"
      and l: "latest_active pv active [] = Inr d" and d: "fs = map snd d"
      by (auto simp: candidate_flows_def bind_err_Inr_iff)
    have "latest_inv pv (set active) d"
    proof -
      have "latest_inv pv {} []"
        by (simp add: latest_inv_def)
      from latest_active_inv [OF l this] show ?thesis by simp
    qed
    then have ok: "dict_ok d" and inv: "\<And>n f. dict_get d n = Some f \<Longrightarrow> af_name f = n \<and> f \<in> set active \<and>
        (\<forall>g \<in> set active. af_name g = n \<longrightarrow> not_newer pv g f)"
      unfolding latest_inv_def by blast+
    have "f \<in> set active \<and> (\<forall>g \<in> set active. af_name g = af_name f \<longrightarrow> not_newer pv g f)" if f: "f \<in> set fs" for f
    proof -
      from f d obtain n where "(n, f) \<in> set d" by auto
      with ok have "dict_get d n = Some f" by simp
      from inv [OF this] show ?thesis by auto
    qed
    with a show ?thesis by blast
  qed
  with e show ?thesis
    by (fastforce simp del: list_all_iff)
qed

definition reading_flow :: "string \<Rightarrow> any_flow" where
  "reading_flow v = LinearFlow ((mk_flow ''f'' [mk_step\<lparr>s_tool_name := Some ''read''\<rparr>])\<lparr>f_version := v\<rparr>)"

definition two_versions :: mem_store where
  "two_versions = map (\<lambda>v. ((''f'', v), reading_flow v)) [''1'', ''2'']"

definition reader :: "nat tool" where
  "reader = sample_tool ''read'' default_safety (\<lambda>w d. (w, 0, Inr (VDict [])))"

definition default_args :: server_args where
  "default_args =
     \<lparr>va_flow_names = None, va_prefix = [], va_force_expose = None, va_lifecycles = None, va_side_effects = None,
      va_owners = None, va_allow_approval = None, va_profile = None, va_error_detail = None\<rparr>"

lemmas default_config = configure_def default_args_def resolve_arg_def

lemma merge_default: "merge_safety [default_safety] None = Inr default_safety"
  by code_simp

lemma reading_flow_safety:
  "resolve_flow_safety [(''read'', reader)] (reading_flow v) = Inr (Some default_safety)"
  by (simp add: resolve_flow_safety_def reading_flow_def reader_def sample_tool_def get_tool_def af_simps
      mk_flow_def mk_step_def merge_default)

lemma reading_flow_passes:
  "implicit_exclusion_reason (configure default_args) (reading_flow v) (Some default_safety) = None"
  by (simp add: implicit_exclusion_reason_def default_config reading_flow_def af_governance_def on_flow_def mk_flow_def
      default_governance_def default_safety_def)

lemma reading_schemas:
  "resolve_input_schema pl [(''read'', reader)] (reading_flow v) = Inr (Some (t_input_schema reader))"
  "resolve_output_schema pl [(''read'', reader)] (reading_flow v) = Inr (Some (t_output_schema reader))"
  by (simp_all add: resolve_input_schema_def resolve_output_schema_def tool_output_def reading_flow_def
      get_tool_def af_simps mk_flow_def mk_step_def)

lemma reading_candidates:
  "candidate_flows plain_versions in_memory_store
     \<lparr>r_store = two_versions, r_latest = [(''f'', ''2'')], r_dir_hashes = []\<rparr> (configure default_args) =
   Inr [reading_flow ''2'']"
  by (simp add: candidate_flows_def default_config get_active_flows_def list_flows_def in_memory_store_def
      status_selected_def newer_flow_def parse_version_def plain_versions_def two_versions_def af_simps
      reading_flow_def mk_flow_def)

theorem exposed_flows_pass_filters_witness:
  "\<exists>es. register_all_flows plain_versions in_memory_store \<lparr>r_store = two_versions, r_latest = [(''f'', ''2'')], r_dir_hashes = []\<rparr>
       sample_platform [(''read'', reader)] (configure default_args) = Inr es \<and>
     map ex_flow es = [reading_flow ''2''] \<and> list_all (passes_filters [(''read'', reader)] (configure default_args)) es"
proof -
  let ?r = "\<lparr>r_store = two_versions, r_latest = [(''f'', ''2'')], r_dir_hashes = []\<rparr>"
  let ?es = "[\<lparr>ex_mcp_name = mcp_name (configure default_args) (reading_flow ''2''), ex_flow = reading_flow ''2'',
             ex_safety = Some default_safety, ex_input = Some (t_input_schema reader),
             ex_output = Some (t_output_schema reader)\<rparr>]"
  have r: "register_all_flows plain_versions in_memory_store ?r sample_platform [(''read'', reader)] (configure default_args) = Inr ?es"
    unfolding register_all_flows_def reading_candidates bind_err_simps expose_all.simps reading_flow_safety
      reading_flow_passes register_exposed_def reading_schemas list.set list.map empty_iff if_False append.simps
    by simp
  have f: "\<not> forced (configure default_args)"
    by (simp add: forced_def default_config)
  from conjunct1 [OF conjunct2 [OF exposed_flows_pass_filters [OF r f]]]
  show ?thesis
    by (intro exI [of _ ?es] conjI r) simp_all
qed

section \<open>What the derived contract does not see\<close>

definition broken_reader :: "nat tool" where
  "broken_reader = sample_tool ''read'' default_safety (\<lambda>w d. (w, 0, Inl (ValueError ''offline'')))"

definition wiper :: "nat tool" where
  "wiper = sample_tool ''wipe'' (default_safety\<lparr>side_effects := SE_DESTRUCTIVE, read_only := False\<rparr>)
     (\<lambda>w d. (w + 1, 0, Inr (VDict d)))"

definition fallback_flow :: any_flow where
  "fallback_flow =
     LinearFlow (mk_flow ''f'' [mk_step\<lparr>s_tool_name := Some ''read'', s_on_error := ''fallback:wipe''\<rparr>])"

definition serving_ex :: "(nat, unit, unit) executor" where
  "serving_ex = (sample_executor [fallback_flow] [(''read'', broken_reader), (''wipe'', wiper)])
     \<lparr>ex_approval := None, ex_max_side_effect := None\<rparr>"

lemma serving_ex_simps:
  "ex_platform serving_ex = sample_platform" "ex_tools serving_ex = [(''read'', broken_reader), (''wipe'', wiper)]"
  "ex_middleware serving_ex = []" "ex_step_cache serving_ex = None" "ex_checkpointer serving_ex = None"
  "ex_delete_on_success serving_ex = False" "ex_decision serving_ex = None"
  "ex_approval serving_ex = None" "ex_strict_safety serving_ex = False"
  "ex_max_side_effect serving_ex = None" "ex_guardrail serving_ex = None" "ex_redact serving_ex = None"
  "ex_recorder serving_ex = False" "ex_cost_profile serving_ex = None" "ex_max_depth serving_ex = 2"
  "ex_get_flow serving_ex name v = (if name = ''f'' then Inr fallback_flow else Inl (FlowNotFoundError name None))"
  by (simp_all add: serving_ex_def sample_executor_def fallback_flow_def mk_flow_def af_simps)

lemma fallback_flow_safety:
  "resolve_flow_safety (ex_tools serving_ex) fallback_flow = Inr (Some default_safety)"
  by (simp add: resolve_flow_safety_def fallback_flow_def broken_reader_def sample_tool_def get_tool_def
      serving_ex_simps af_simps mk_flow_def mk_step_def merge_default)

text \<open>
  The safety contract a server derives for a flow leaves the fallback tools of its steps out: under
  the default filters a flow whose only step reads and falls back to a destructive tool is
  exposed as read-only, and a call of it runs the destructive tool.
\<close>

theorem exposed_flow_runs_destructive_fallback:
  "resolve_flow_safety (ex_tools serving_ex) fallback_flow = Inr (Some default_safety) \<and>
   implicit_exclusion_reason (configure default_args) fallback_flow (Some default_safety) = None \<and>
   th_read_only (tool_annotations (Some default_safety)) \<and>
   \<not> th_destructive (tool_annotations (Some default_safety)) \<and>
   side_effects (t_safety wiper) = SE_DESTRUCTIVE \<and>
   (\<exists>t i inp. RanTool t i wiper inp \<in>
      set (x_calls (fst (start_flow serving_ex ''f'' [] None False no_opts False ''skip'' None sample_state))))"
proof -
  have run: "x_calls (fst (start_flow serving_ex ''f'' [] None False no_opts False ''skip'' None sample_state)) =
      [RanTool (pl_trace_id sample_platform 0) 0 broken_reader [], RanTool (pl_trace_id sample_platform 0) 0 wiper []]"
    by (simp add: run_eval serving_ex_simps broken_reader_def wiper_def fallback_flow_def apply_on_error_def
        fallback_data_def)
  have "implicit_exclusion_reason (configure default_args) fallback_flow (Some default_safety) = None"
    by (simp add: implicit_exclusion_reason_def default_config fallback_flow_def af_governance_def on_flow_def
        mk_flow_def default_governance_def default_safety_def)
  moreover have "\<exists>t i inp. RanTool t i wiper inp \<in>
      set (x_calls (fst (start_flow serving_ex ''f'' [] None False no_opts False ''skip'' None sample_state)))"
    unfolding run by auto
  ultimately show ?thesis
    using fallback_flow_safety by (simp add: tool_annotations_def default_safety_def wiper_def sample_tool_def)
qed

end
