(* ===== verification/Replay.thy ===== *)
theory Replay
  imports Resume Compiler
begin

text \<open>
  \<open>FlowExecutor.replay_flow\<close>: a recorded result is run again, from the start or from a later step
  on a context rebuilt from its log, and the outputs of both runs are compared; and
  \<open>FlowExecutor.explain_flow\<close>: the static plan of a flow.
\<close>

section \<open>Replay\<close>

datatype replay_mode = Verify | Execute

record step_diff =
  df_index :: int
  df_tool_name :: string
  df_field :: string
  df_expected :: val
  df_actual :: val

record replay_result =
  rr_original_trace_id :: string
  rr_new :: execution_result
  rr_mode :: replay_mode
  rr_diffs :: "step_diff list"
  rr_all_steps_match :: bool

text \<open>The context before the resume point, from the recorded outputs.\<close>

fun rebuild_context :: "flow_step list \<Rightarrow> step_record list \<Rightarrow> val dict \<Rightarrow> exn + val dict" where
  "rebuild_context steps [] ctx = Inr ctx"
| "rebuild_context steps (r # rs) ctx =
     (case default_arg (sr_outputs r) [] of
        [] \<Rightarrow> rebuild_context steps rs ctx
      | out \<Rightarrow>
          (if 0 \<le> sr_index r \<and> sr_index r < int (length steps) then
             (let step = steps ! nat (sr_index r)
              in bind_err (display_name step) (\<lambda>name.
                 bind_err (apply_output_mapping out (s_output_mapping step) name (sr_index r)) (\<lambda>mapped.
                   rebuild_context steps rs (dict_update ctx mapped))))
           else rebuild_context steps rs (dict_update ctx out)))"

definition replay_step ::
  "('w, 'c, 'k) executor \<Rightarrow> ('w, 'c, 'k) run_flow \<Rightarrow> flow \<Rightarrow> string \<Rightarrow> val dict \<Rightarrow>
     nat \<Rightarrow> flow_step \<Rightarrow> val dict \<Rightarrow> step_record list \<Rightarrow> ('w, 'c, 'k) xstate \<Rightarrow>
     ('w, 'c, 'k) xstate \<times> (raised + execution_result + val dict \<times> step_record list)" where
  "replay_step ex rec f trace input idx step ctx recs st =
     bind_st (execute_step ex rec \<lparr>se_trace = trace, se_flow = f_name f, se_index = int idx, se_step_id = None\<rparr>
           step ctx no_opts st) (\<lambda>st r.
       let recs = recs @ [r] in
       if \<not> sr_success r then
         bind_st (make_result ex (f_name f) trace input False None recs None st) (\<lambda>st res. (st, Inr (Inl res)))
       else
         (case (sr_outputs r, display_name step) of
            (None, _) \<Rightarrow> (st, Inl (RExn PyAssertionError))
          | (_, Inl e) \<Rightarrow> (st, Inl (RExn e))
          | (Some out, Inr dname) \<Rightarrow>
              (case apply_output_mapping out (s_output_mapping step) dname (int idx) of
                 Inl e \<Rightarrow> (st, Inl (RExn e))
               | Inr mapped \<Rightarrow> (st, Inr (Inr (dict_update ctx mapped, recs))))))"

fun replay_loop ::
  "('w, 'c, 'k) executor \<Rightarrow> ('w, 'c, 'k) run_flow \<Rightarrow> flow \<Rightarrow> string \<Rightarrow> val dict \<Rightarrow>
     nat \<Rightarrow> flow_step list \<Rightarrow> val dict \<Rightarrow> step_record list \<Rightarrow> ('w, 'c, 'k) xstate \<Rightarrow>
     ('w, 'c, 'k) xstate \<times> (raised + loop_end)" where
  "replay_loop ex rec f trace input idx [] ctx recs st = (st, Inr (Completed ctx recs))"
| "replay_loop ex rec f trace input idx (step # steps) ctx recs st =
     bind_st (replay_step ex rec f trace input idx step ctx recs st) (\<lambda>st x.
       case x of
         Inl res \<Rightarrow> (st, Inr (Stopped res))
       | Inr (ctx, recs) \<Rightarrow> replay_loop ex rec f trace input (idx + 1) steps ctx recs st)"

text \<open>\<open>_replay_linear_from\<close>.\<close>

definition replay_linear_from ::
  "('w, 'c, 'k) executor \<Rightarrow> ('w, 'c, 'k) run_flow \<Rightarrow> flow \<Rightarrow> execution_result \<Rightarrow> nat \<Rightarrow>
     ('w, 'c, 'k) xstate \<Rightarrow> ('w, 'c, 'k) xstate \<times> (raised + execution_result)" where
  "replay_linear_from ex rec f res k st =
     (let st = set_version (f_version f) st; input = rd_initial_input (er_data res)
      in if length (f_steps f) < k then
           (st, Inl (RExn (ValueError ''resume_from_step exceeds step count'')))
         else
           (case rebuild_context (f_steps f) (take k (er_log res)) input of
              Inl e \<Rightarrow> (st, Inl (RExn e))
            | Inr ctx \<Rightarrow>
                (case new_trace_id ex st of
                   (st, trace) \<Rightarrow>
                     bind_st (replay_loop ex rec f trace input k (drop k (f_steps f)) ctx []
                         (fire ex (FlowStart trace (f_name f) (f_version f) input (length (f_steps f))) st))
                       (\<lambda>st e.
                         case e of
                           Stopped res \<Rightarrow> (st, Inr res)
                         | Completed ctx recs \<Rightarrow>
                             make_result ex (f_name f) trace input True (Some ctx) recs None st))))"

text \<open>\<open>_compute_diffs\<close>; a negative offset reads the original log from its end.\<close>

definition py_index :: "'a list \<Rightarrow> int \<Rightarrow> exn + 'a" where
  "py_index xs i =
     (let j = (if i < 0 then i + int (length xs) else i)
      in if 0 \<le> j \<and> j < int (length xs) then Inr (xs ! nat j)
         else Inl (PyException ''IndexError'' ''list index out of range''))"

definition field_diff :: "step_data \<Rightarrow> val dict \<Rightarrow> val dict \<Rightarrow> string \<Rightarrow> step_diff list" where
  "field_diff d new_out orig_out key =
     (let actual = default_arg (dict_get new_out key) VNone; expected = default_arg (dict_get orig_out key) VNone
      in if py_eq actual expected then []
         else [\<lparr>df_index = sd_index d, df_tool_name = sd_tool_name d, df_field = key, df_expected = expected,
                df_actual = actual\<rparr>])"

definition record_diffs :: "'w platform \<Rightarrow> step_record \<Rightarrow> step_record \<Rightarrow> step_diff list" where
  "record_diffs pl new_step orig_step =
     (let new_out = default_arg (sr_outputs new_step) []; orig_out = default_arg (sr_outputs orig_step) []
      in if py_eq (VDict new_out) (VDict orig_out) then []
         else concat (map (field_diff (sr_data new_step) new_out orig_out)
                (pl_set_order pl (dict_keys new_out @ dict_keys orig_out))))"

fun diffs_from ::
  "'w platform \<Rightarrow> step_record list \<Rightarrow> int \<Rightarrow> step_record list \<Rightarrow> exn + step_diff list" where
  "diffs_from pl orig i [] = Inr []"
| "diffs_from pl orig i (r # rs) =
     (if int (length orig) \<le> i then Inr []
      else
        bind_err (py_index orig i) (\<lambda>old.
        bind_err (diffs_from pl orig (i + 1) rs) (\<lambda>ds. Inr (record_diffs pl r old @ ds))))"

definition compute_diffs ::
  "'w platform \<Rightarrow> execution_result \<Rightarrow> execution_result \<Rightarrow> int \<Rightarrow> exn + step_diff list" where
  "compute_diffs pl orig new k = diffs_from pl (er_log orig) k (er_log new)"

definition set_in_replay :: "('w, 'c, 'k) xstate \<Rightarrow> ('w, 'c, 'k) xstate" where
  "set_in_replay st = st\<lparr>x_local := x_local st\<lparr>l_in_replay := True\<rparr>\<rparr>"

definition rerun ::
  "('w, 'c, 'k) executor \<Rightarrow> any_flow \<Rightarrow> execution_result \<Rightarrow> int \<Rightarrow> ('w, 'c, 'k) xstate \<Rightarrow>
     ('w, 'c, 'k) xstate \<times> (raised + execution_result)" where
  "rerun ex f res k st =
     (if k \<le> 0 then
        start_flow ex (rd_flow_name (er_data res)) (rd_initial_input (er_data res)) None False no_opts False
          ''skip'' None st
      else
        (case f of
           DagFlow d \<Rightarrow> (st, Inl (RExn (ValueError ''resume_from_step is not supported for DAGFlow yet.'')))
         | LinearFlow l \<Rightarrow> replay_linear_from ex (run_flow ex (ex_max_depth ex + 1)) l res (nat k) st))"

definition replay_flow ::
  "('w, 'c, 'k) executor \<Rightarrow> execution_result \<Rightarrow> replay_mode \<Rightarrow> int \<Rightarrow> ('w, 'c, 'k) xstate \<Rightarrow>
     ('w, 'c, 'k) xstate \<times> (raised + replay_result)" where
  "replay_flow ex res mode k st =
     (case ex_get_flow ex (rd_flow_name (er_data res)) None of
        Inl e \<Rightarrow> (st, Inl (RExn e))
      | Inr f \<Rightarrow>
          bind_st (run_scope (\<lambda>st. rerun ex f res k (set_in_replay st)) st) (\<lambda>st new.
            case (if mode = Verify then compute_diffs (ex_platform ex) res new k else Inr []) of
              Inl e \<Rightarrow> (st, Inl (RExn e))
            | Inr ds \<Rightarrow>
                (st, Inr \<lparr>rr_original_trace_id = rd_trace_id (er_data res), rr_new = new, rr_mode = mode,
                          rr_diffs = ds, rr_all_steps_match = (ds = [])\<rparr>)))"

section \<open>Explaining a flow\<close>

text \<open>The description of a source: the whole context, a context entry (found or not), a constant.\<close>

datatype input_source = FullContext | FromContext string bool | Literal val

datatype plan_warning = SubflowNotRegistered string | ToolNotRegistered string

type_synonym shape = "(string \<times> string) list"

record step_plan =
  pn_index :: nat
  pn_tool_name :: string
  pn_sources :: "(string \<times> input_source) list"
  pn_input :: shape
  pn_output :: shape
  pn_unresolved :: "string list"
  pn_warnings :: "plan_warning list"

record execution_plan =
  ep_flow_name :: string
  ep_step_count :: nat
  ep_steps :: "step_plan list"
  ep_final_shape :: shape
  ep_all_resolvable :: bool

text \<open>\<open>text\<close> is the name of an annotation, which the typing module words.\<close>

definition schema_field_shape :: "(annotation \<Rightarrow> string) \<Rightarrow> schema \<Rightarrow> shape" where
  "schema_field_shape text s = map (map_prod id (\<lambda>fs. text (fs_annotation fs))) (sch_fields s)"

fun type_name :: "val \<Rightarrow> string" where
  "type_name VNone = ''NoneType''"
| "type_name (VBool _) = ''bool''"
| "type_name (VInt _) = ''int''"
| "type_name (VStr _) = ''str''"
| "type_name (VList _) = ''list''"
| "type_name (VDict _) = ''dict''"
| "type_name (VSet _) = ''set''"

definition lookup_key :: "string \<Rightarrow> string" where
  "lookup_key raw = (if is_pointer raw then root_token raw else raw)"

definition describe_source :: "shape \<Rightarrow> val \<Rightarrow> input_source" where
  "describe_source pctx source =
     (case source of
        VStr raw \<Rightarrow> FromContext raw (dict_has pctx (lookup_key raw))
      | _ \<Rightarrow> Literal source)"

definition describe_input_sources :: "flow_step \<Rightarrow> shape \<Rightarrow> (string \<times> input_source) list" where
  "describe_input_sources step pctx =
     (if s_input_mapping step = [] then [(''<all>'', FullContext)]
      else map (map_prod id (describe_source pctx)) (s_input_mapping step))"

definition unresolved_keys :: "flow_step \<Rightarrow> shape \<Rightarrow> string list" where
  "unresolved_keys step pctx =
     concat (map (\<lambda>(_, source). case source of
         VStr raw \<Rightarrow> (if dict_has pctx (lookup_key raw) then [] else [raw]) | _ \<Rightarrow> []) (s_input_mapping step))"

definition project_outputs_shape :: "(string \<times> string) list option \<Rightarrow> shape \<Rightarrow> shape \<Rightarrow> shape" where
  "project_outputs_shape om outputs pctx =
     (case om of
        None \<Rightarrow> dict_update pctx outputs
      | Some m \<Rightarrow>
          fold (\<lambda>(ckey, okey) p. dict_set p ckey (default_arg (dict_get outputs okey) ''Any'')) m pctx)"

definition explain_subflow ::
  "(annotation \<Rightarrow> string) \<Rightarrow> ('w, 'c, 'k) executor \<Rightarrow> nat \<Rightarrow> flow_step \<Rightarrow> string \<Rightarrow> shape \<Rightarrow> exn + step_plan \<times> shape"
where
  "explain_subflow text ex idx step sub pctx =
     (let plan = (\<lambda>out warn. \<lparr>pn_index = idx, pn_tool_name = sub,
            pn_sources = describe_input_sources step pctx, pn_input = [], pn_output = out,
            pn_unresolved = unresolved_keys step pctx, pn_warnings = warn\<rparr>)
      in case ex_get_flow ex sub None of
           Inl (FlowNotFoundError _ _) \<Rightarrow> Inr (plan [] [SubflowNotRegistered sub], pctx)
         | Inl e \<Rightarrow> Inl e
         | Inr f \<Rightarrow>
             (case af_output_ref f of
                None \<Rightarrow> Inr (plan [] [], pctx)
              | Some ref \<Rightarrow>
                  bind_err (resolve_schema (ex_platform ex) ref) (\<lambda>s.
                    let out = schema_field_shape text s
                    in Inr (plan out [], dict_update pctx out))))"

definition explain_tool ::
  "(annotation \<Rightarrow> string) \<Rightarrow> ('w, 'c, 'k) executor \<Rightarrow> nat \<Rightarrow> flow_step \<Rightarrow> shape \<Rightarrow> exn + step_plan \<times> shape"
where
  "explain_tool text ex idx step pctx =
     bind_err (display_name step) (\<lambda>name.
       let label = (if name = [] then ''<unknown>'' else name);
           tool = (if name = [] then None else dict_get (ex_tools ex) name);
           inp = (case tool of None \<Rightarrow> [] | Some t \<Rightarrow> schema_field_shape text (t_input_schema t));
           out = (case tool of None \<Rightarrow> [] | Some t \<Rightarrow> schema_field_shape text (t_output_schema t))
       in Inr (\<lparr>pn_index = idx, pn_tool_name = label, pn_sources = describe_input_sources step pctx,
                pn_input = inp, pn_output = out, pn_unresolved = unresolved_keys step pctx,
                pn_warnings = (if tool = None then [ToolNotRegistered name] else [])\<rparr>,
               (if tool = None then pctx
                else project_outputs_shape (s_output_mapping step) out pctx)))"

definition explain_step ::
  "(annotation \<Rightarrow> string) \<Rightarrow> ('w, 'c, 'k) executor \<Rightarrow> nat \<Rightarrow> flow_step \<Rightarrow> shape \<Rightarrow> exn + step_plan \<times> shape"
where
  "explain_step text ex idx step pctx =
     (case s_flow_name step of
        Some sub \<Rightarrow> explain_subflow text ex idx step sub pctx
      | None \<Rightarrow> explain_tool text ex idx step pctx)"

fun explain_steps ::
  "(annotation \<Rightarrow> string) \<Rightarrow> ('w, 'c, 'k) executor \<Rightarrow> nat \<Rightarrow> flow_step list \<Rightarrow> shape \<Rightarrow>
     exn + step_plan list \<times> shape" where
  "explain_steps text ex idx [] pctx = Inr ([], pctx)"
| "explain_steps text ex idx (s # ss) pctx =
     bind_err (explain_step text ex idx s pctx) (\<lambda>(plan, pctx).
     bind_err (explain_steps text ex (idx + 1) ss pctx) (\<lambda>(plans, pctx).
       Inr (plan # plans, pctx)))"

definition flow_order :: "('w, 'c, 'k) executor \<Rightarrow> any_flow \<Rightarrow> exn + flow_step list" where
  "flow_order ex f =
     (case f of
        LinearFlow l \<Rightarrow> Inr (f_steps l)
      | DagFlow d \<Rightarrow>
          bind_err (compute_dag_levels (pl_set_order (ex_platform ex)) d) (\<lambda>levels.
            Inr (map flow_step.truncate (concat levels))))"

definition explain_flow ::
  "(annotation \<Rightarrow> string) \<Rightarrow> ('w, 'c, 'k) executor \<Rightarrow> string \<Rightarrow> val dict \<Rightarrow> exn + execution_plan" where
  "explain_flow text ex name input =
     bind_err (ex_get_flow ex name None) (\<lambda>f.
     bind_err (flow_order ex f) (\<lambda>steps.
     bind_err (explain_steps text ex 0 steps (map (map_prod id type_name) input)) (\<lambda>(plans, pctx).
       Inr \<lparr>ep_flow_name = name, ep_step_count = length steps, ep_steps = plans, ep_final_shape = pctx,
            ep_all_resolvable =
              list_all (\<lambda>p. pn_unresolved p = [] \<and> pn_warnings p = []) plans\<rparr>)))"

section \<open>A replay from a later step\<close>

text \<open>The rebuilt context is the fold of the recorded outputs.\<close>

lemma project_nothing:
  "project_outputs [] tool idx m acc = Inr out \<Longrightarrow> m = [] \<and> out = acc"
  by (cases m) auto

lemma merge_nothing:
  assumes "merge_step_outputs pol fl idx name om ctx [] = Inr c" shows "c = ctx"
  using assms by (auto simp: merge_step_outputs_def apply_output_mapping_def bind_err_Inr_iff
      split: option.split_asm if_split_asm dest: project_nothing)

lemma rebuild_is_fold:
  assumes "pol \<noteq> Error"
  shows "good_log idx rs \<Longrightarrow> idx + length rs \<le> length steps \<Longrightarrow>
    fold_outputs pol name idx (drop idx steps) rs ctx = Inr c \<Longrightarrow> rebuild_context steps rs ctx = Inr c"
proof (induction rs arbitrary: idx ctx)
  case (Cons r rs)
  then have idx: "idx < length steps" by simp
  then have steps: "drop idx steps = steps ! idx # drop (Suc idx) steps"
    by (simp add: Cons_nth_drop_Suc)
  from Cons.prems(1) obtain out where out: "sr_outputs r = Some out" and i: "sr_index r = int idx"
    by (auto simp: wf_step_def sr_success_def sr_outputs_def sr_index_def)
  from Cons.prems(3) out obtain dname c1 where d: "display_name (steps ! idx) = Inr dname"
    and m: "merge_step_outputs pol name (int idx) dname (s_output_mapping (steps ! idx)) ctx out = Inr c1"
    and rest: "fold_outputs pol name (Suc idx) (drop (Suc idx) steps) rs c1 = Inr c"
    by (auto simp: steps bind_err_Inr_iff)
  have IH: "rebuild_context steps rs c1 = Inr c"
    using Cons.IH [OF _ _ rest] Cons.prems(1,2) by simp
  show ?case
  proof (cases out)
    case Nil
    with m merge_nothing have "c1 = ctx" by blast
    with IH out Nil show ?thesis
      by (simp add: default_arg_def)
  next
    case (Cons kv out')
    with m d i idx IH out assms show ?thesis
      by (auto simp: default_arg_def merge_no_error Let_def split: sum.split_asm)
  qed
qed simp

lemma fold_outputs_append:
  "length rs = length steps \<Longrightarrow>
     fold_outputs pol name idx (steps @ steps') (rs @ rs') ctx =
       bind_err (fold_outputs pol name idx steps rs ctx) (fold_outputs pol name (idx + length steps) steps' rs')"
proof (induction steps arbitrary: rs idx ctx)
  case (Cons s steps)
  then obtain r rs1 where rs: "rs = r # rs1" "length rs1 = length steps"
    by (cases rs) auto
  show ?case
    by (simp add: rs Cons.IH bind_err_def split: sum.splits)
qed simp

lemma fold_outputs_cong:
  "map sr_outputs rs = map sr_outputs rs' \<Longrightarrow>
     fold_outputs pol name idx steps rs ctx = fold_outputs pol name idx steps rs' ctx"
proof (induction steps arbitrary: rs rs' idx ctx)
  case (Cons s steps)
  show ?case
  proof (cases rs)
    case (Cons r rs1)
    with Cons.prems obtain r' rs1' where "rs' = r' # rs1'" "sr_outputs r = sr_outputs r'"
      "map sr_outputs rs1 = map sr_outputs rs1'"
      by (cases rs') auto
    with Cons Cons.IH show ?thesis
      by (auto intro!: bind_err_cong)
  qed (use Cons.prems in simp)
qed simp

lemma replay_step_Inr:
  assumes "replay_step ex rec f trace input idx step ctx recs st = (st', Inr y)" and "pol \<noteq> Error"
  shows "\<exists>r. case y of
      Inl res \<Rightarrow> \<not> er_success res
    | Inr (ctx', recs') \<Rightarrow> recs' = recs @ [r] \<and> (\<exists>dname. display_name step = Inr dname \<and>
        merge_step_outputs pol name (int idx) dname (s_output_mapping step) ctx (the (sr_outputs r)) = Inr ctx')"
  using assms by (auto simp: replay_step_def Let_def merge_no_error dest!: make_result_Inr
      split: if_split_asm option.split_asm sum.split_asm)

lemma replay_loop_Inr:
  assumes "pol \<noteq> Error"
  shows "replay_loop ex rec f trace input idx steps ctx recs st = (st', Inr e) \<Longrightarrow>
    (case e of
       Stopped res \<Rightarrow> \<not> er_success res
     | Completed ctx' recs' \<Rightarrow> \<exists>rs. recs' = recs @ rs \<and> length rs = length steps \<and>
         fold_outputs pol name idx steps rs ctx = Inr ctx')"
proof (induction steps arbitrary: idx ctx recs st)
  case (Cons s steps)
  from Cons.prems obtain s1 y where one: "replay_step ex rec f trace input idx s ctx recs st = (s1, Inr y)"
    and rest: "(case y of Inl res \<Rightarrow> (s1, Inr (Stopped res))
       | Inr (ctx, recs) \<Rightarrow> replay_loop ex rec f trace input (Suc idx) steps ctx recs s1) = (st', Inr e)"
    by auto
  note step = replay_step_Inr [OF one assms, of name]
  show ?case
  proof (cases y)
    case (Inl res)
    with step rest show ?thesis by auto
  next
    case (Inr p)
    then obtain c1 recs1 where p: "y = Inr (c1, recs1)" by (cases p) simp
    with step obtain r dname where r: "recs1 = recs @ [r]" "display_name s = Inr dname"
      "merge_step_outputs pol name (int idx) dname (s_output_mapping s) ctx (the (sr_outputs r)) = Inr c1"
      by auto
    from rest p have "replay_loop ex rec f trace input (idx + 1) steps c1 recs1 s1 = (st', Inr e)"
      by simp
    note IH = Cons.IH [OF this]
    show ?thesis
    proof (cases e)
      case (Stopped res)
      with IH show ?thesis by simp
    next
      case (Completed c recs')
      with IH obtain rs where "recs' = recs1 @ rs" "length rs = length steps"
        "fold_outputs pol name (Suc idx) steps rs c1 = Inr c"
        by auto
      with r Completed show ?thesis
        by (auto intro!: exI [of _ "r # rs"])
    qed
  qed
qed (auto split: loop_end.splits)

lemma fold_outputs_take:
  "fold_outputs pol name idx (take k steps) (take k rs) ctx = fold_outputs pol name idx steps (take k rs) ctx"
proof (induction k arbitrary: idx steps rs ctx)
  case (Suc k)
  then show ?case
    by (cases steps; cases rs) (auto intro!: bind_err_cong)
qed simp

lemma good_log_take: "good_log idx rs \<Longrightarrow> good_log idx (take k rs)"
proof (induction k arbitrary: idx rs)
  case (Suc k)
  then show ?case by (cases rs) auto
qed simp

text \<open>A result names its flow and its input.\<close>

definition made_for :: "string \<Rightarrow> val dict \<Rightarrow> execution_result \<Rightarrow> bool" where
  "made_for name input r \<longleftrightarrow> rd_flow_name (er_data r) = name \<and> rd_initial_input (er_data r) = input"

lemma make_result_for: "make_result ex n tr input ok out recs k st = (st', Inr r) \<Longrightarrow> made_for n input r"
  by (auto simp: make_result_def build_result_def Let_def made_for_def
      split: option.splits if_splits prod.splits sum.splits)

lemma finish_flow_for: "finish_flow ex f n tr input ctx recs st = (st', Inr r) \<Longrightarrow> made_for n input r"
  by (auto simp: finish_flow_def Let_def dest: make_result_for split: sum.split_asm option.split_asm)

lemma check_input_for: "check_input ex f n tr input st = (st', Inr (Some r)) \<Longrightarrow> made_for n input r"
  by (auto simp: check_input_def dest: make_result_for split: sum.split_asm option.split_asm)

lemma linear_loop_for:
  "linear_loop ex rec f n tr input opts idx steps ctx recs st = (st', Inr (Stopped r)) \<Longrightarrow> made_for n input r"
proof (induction steps arbitrary: idx ctx recs st)
  case (Cons s steps)
  have "made_for n input r" if "linear_step ex rec f n tr input opts idx s ctx recs st = (s1, Inr (Inl r))" for s1
    using that by (auto simp: linear_step_def Let_def dest: make_result_for
        split: if_split_asm option.split_asm sum.split_asm)
  with Cons show ?case
    by (auto split: sum.split_asm)
qed simp

lemma execute_linear_for: "execute_linear ex rec f n input opts st = (st', Inr r) \<Longrightarrow> made_for n input r"
  by (auto simp: execute_linear_def split: prod.split_asm option.split_asm loop_end.split_asm)
    (rule check_input_for linear_loop_for finish_flow_for, assumption)+

lemma start_linear_Inr:
  assumes "start_flow ex name input vers force opts dry unsupported dyn st = (st', Inr res)"
    and "ex_get_flow ex name vers = Inr (LinearFlow f)"
  shows "made_for name input res \<and>
    linear_result f name (seed_context (enter_run dry unsupported dyn (copy_local (x_local st))) input) res"
proof -
  from assms obtain s where e: "execute_linear ex (run_flow ex (ex_max_depth ex)) f name input opts
      (set_version (f_version f) (entered dry unsupported dyn st)) = (s, Inr res)"
    by (auto simp: start_flow_unfold execute_flow_impl_def Let_def af_simps
        split: if_split_asm prod.split_asm option.split_asm)
  from execute_linear_result [OF sound_run_flow e] execute_linear_for [OF e] show ?thesis
    by (simp add: entered_def set_version_def seed_context_def)
qed

text \<open>A plain run starts from its input when no dynamic parameters are set.\<close>

lemma plain_seed:
  "dict_ok input \<Longrightarrow> l_dynamic_params (x_local st) = [] \<Longrightarrow>
     seed_context (enter_run False ''skip'' None (copy_local (x_local st))) input = input"
  by (simp add: seed_context_def enter_run_def copy_local_def Let_def dict_update_fresh)

lemma rerun_result:
  assumes "rerun ex (LinearFlow f) res (int k) st = (st', Inr new)" and "er_success new" and "f_name f = name"
    and "rd_flow_name (er_data res) = name" "rd_initial_input (er_data res) = input"
    and "ex_get_flow ex name None = Inr (LinearFlow f)" and "pol = f_on_context_collision f" "pol \<noteq> Error"
    and "dict_ok input" "l_dynamic_params (x_local st) = []"
    and rebuilt: "rebuild_context (f_steps f) (take k (er_log res)) input = Inr mid"
  shows "\<exists>ctx. rd_final_output (er_data new) = Some ctx \<and>
    fold_outputs pol name k (drop k (f_steps f)) (er_log new) mid = Inr ctx \<and> k \<le> length (f_steps f)"
proof (cases "k = 0")
  case True
  with assms(1,4,5) have run: "start_flow ex name input None False no_opts False ''skip'' None st = (st', Inr new)"
    by (simp add: rerun_def)
  from start_linear_Inr [OF run assms(6)] plain_seed [OF assms(9,10)] assms(2) True rebuilt show ?thesis
    by (auto simp: linear_result_def assms(7))
next
  case False
  with assms(1,5) rebuilt obtain s1 s2 tr e where
    k: "k \<le> length (f_steps f)" and
    loop: "replay_loop ex (run_flow ex (ex_max_depth ex + 1)) f tr input k (drop k (f_steps f)) mid [] s1 = (s2, Inr e)"
    and fin: "(case e of Stopped r \<Rightarrow> (s2, Inr r)
       | Completed ctx recs \<Rightarrow> make_result ex (f_name f) tr input True (Some ctx) recs None s2) = (st', Inr new)"
    by (auto simp: rerun_def replay_linear_from_def Let_def split: if_split_asm prod.split_asm)
  from replay_loop_Inr [OF assms(8) loop, of name] show ?thesis
  proof (cases e)
    case (Stopped r)
    with replay_loop_Inr [OF assms(8) loop, of name] fin assms(2) show ?thesis by auto
  next
    case (Completed ctx recs)
    with replay_loop_Inr [OF assms(8) loop, of name] fin k show ?thesis
      by (auto dest: make_result_Inr)
  qed
qed


definition two_writes :: any_flow where
  "two_writes = LinearFlow (mk_flow ''f'' [mk_step\<lparr>s_tool_name := Some ''write''\<rparr>,
     mk_step\<lparr>s_tool_name := Some ''write'', s_input_mapping := [(''a'', VStr ''k'')]\<rparr>])"

definition two_ex :: "(nat, unit, unit) executor" where
  "two_ex = sample_executor [two_writes] [(''write'', writer)]"

lemma two_ex_simps:
  "ex_platform two_ex = sample_platform" "ex_tools two_ex = [(''write'', writer)]"
  "ex_middleware two_ex = []" "ex_step_cache two_ex = None" "ex_checkpointer two_ex = None"
  "ex_delete_on_success two_ex = False" "ex_decision two_ex = None"
  "ex_approval two_ex = Some (\<lambda>w c s. (w, Inr Approve))" "ex_strict_safety two_ex = False"
  "ex_max_side_effect two_ex = Some SE_WRITE" "ex_guardrail two_ex = None" "ex_redact two_ex = None"
  "ex_recorder two_ex = False" "ex_cost_profile two_ex = None" "ex_max_depth two_ex = 2"
  "ex_get_flow two_ex name v = (if name = ''f'' then Inr two_writes else Inl (FlowNotFoundError name None))"
  by (simp_all add: two_ex_def sample_executor_def two_writes_def mk_flow_def af_simps)

lemmas replay_eval = replay_flow_def rerun_def replay_linear_from_def replay_step_def set_in_replay_def
  compute_diffs_def py_index_def record_diffs_def run_scope_def default_arg_def


section \<open>What a verifying replay misses\<close>

definition fading :: "nat tool" where
  "fading = sample_tool ''write'' default_safety
     (\<lambda>w d. (w + 1, 0, if w = 0 then Inr (VDict []) else Inl (ValueError ''gone'')))"

definition fading_ex :: "(nat, unit, unit) executor" where
  "fading_ex = sample_ex\<lparr>ex_tools := [(''write'', fading)]\<rparr>"

text \<open>
  A verifying replay can report that all steps match although it failed: a step that returned an
  empty output in the recorded run and raises in the replay makes no difference, since the missing
  outputs of a failed step are compared as an empty dict.
\<close>

theorem verify_misses_failed_step:
  "\<exists>st' res st2 rr.
     start_flow fading_ex ''f'' [] None False no_opts False ''skip'' None sample_state = (st', Inr res) \<and>
     er_success res \<and> replay_flow fading_ex res Verify 0 st' = (st2, Inr rr) \<and>
     rr_all_steps_match rr \<and> \<not> er_success (rr_new rr)"
  by (simp add: run_eval fading_ex_def fading_def replay_eval apply_on_error_def eqs_dict_def)

section \<open>A plan without warnings\<close>

lemma project_shape_dom:
  "dict_dom (project_outputs_shape om out p) =
     dict_dom p \<union> (case om of None \<Rightarrow> dict_dom out | Some m \<Rightarrow> dict_dom m)"
proof (cases om)
  case (Some m)
  have "dict_dom (fold (\<lambda>(ckey, okey) p. dict_set p ckey (default_arg (dict_get out okey) ''Any'')) m p) =
      dict_dom p \<union> dict_dom m" for m :: "(string \<times> string) list"
    by (induction m arbitrary: p) auto
  with Some show ?thesis
    by (simp add: project_outputs_shape_def)
qed (simp add: project_outputs_shape_def)

definition plan_ok :: "step_plan \<Rightarrow> bool" where
  "plan_ok p \<longleftrightarrow> pn_unresolved p = [] \<and> pn_warnings p = []"

text \<open>A context that has every key of the projected one.\<close>

abbreviation holds_keys :: "shape \<Rightarrow> val dict \<Rightarrow> bool" where
  "holds_keys p ctx \<equiv> dict_dom p \<subseteq> dict_dom ctx"

lemma explained_tool_step:
  assumes "explain_step text ex idx s p = Inr (plan, p')" and "plan_ok plan" and "s_flow_name s = None"
    and "holds_keys p ctx" and "delivers (ex_tools ex) s r"
    and merged: "merge_step_outputs pol fl i dname (s_output_mapping s) ctx (the (sr_outputs r)) = Inr ctx'"
  shows "holds_keys p' ctx'"
proof -
  from assms(1-3) obtain n t where n: "display_name s = Inr n" "n \<noteq> []" "dict_get (ex_tools ex) n = Some t"
    and p': "p' = project_outputs_shape (s_output_mapping s) (schema_field_shape text (t_output_schema t)) p"
    by (auto simp: explain_step_def explain_tool_def Let_def bind_err_Inr_iff plan_ok_def split: if_split_asm option.split_asm)
  from n assms(3) have tool: "s_tool_name s = Some n"
    by (auto simp: display_name_def py_or_def split: option.split_asm if_split_asm)
  from merged obtain out where out: "apply_output_mapping (the (sr_outputs r)) (s_output_mapping s) dname i = Inr out"
    and keys: "dict_dom ctx' = dict_dom ctx \<union> dict_dom out"
    by (rule merge_dom)
  have "(case s_output_mapping s of None \<Rightarrow> dict_dom (schema_field_shape text (t_output_schema t))
      | Some m \<Rightarrow> dict_dom m) \<subseteq> dict_dom out"
  proof (cases "s_output_mapping s")
    case None
    from assms(5) tool n(3) have "dict_dom (sch_fields (t_output_schema t)) \<subseteq> dict_dom (the (sr_outputs r))"
      unfolding delivers_def list_all_dict_has by simp
    with None out show ?thesis
      by (simp add: schema_field_shape_def apply_output_mapping_def)
  next
    case (Some m)
    with out show ?thesis
      by (auto simp: apply_output_mapping_def dest: project_dom)
  qed
  with assms(4) keys show ?thesis
    unfolding p' project_shape_dom by auto
qed

lemma explained_step_resolves:
  assumes "explain_step text ex idx s p = Inr (plan, p')" and "plan_ok plan" and "holds_keys p ctx"
    and "display_name s = Inr n" and "plain_sources s"
  shows "\<exists>inputs. resolve_inputs s i ctx = Inr inputs"
proof (cases "s_input_mapping s = []")
  case True
  with assms(4) show ?thesis
    by (simp add: resolve_inputs_def)
next
  case False
  from assms(1,2) have un: "unresolved_keys s p = []"
    by (auto simp: explain_step_def explain_tool_def explain_subflow_def Let_def bind_err_Inr_iff plan_ok_def
        split: option.split_asm sum.split_asm exn.split_asm)
  have one: "\<exists>v. resolve_source n i ctx (snd kv) = Inr v" if kv: "kv \<in> set (s_input_mapping s)" for kv
  proof (cases "snd kv")
    case (VStr x)
    with assms(5) kv have np: "\<not> is_pointer x"
      by (cases kv) (auto simp: plain_sources_def list_all_iff)
    with un VStr kv have "dict_has p x"
      by (cases kv) (fastforce simp: unresolved_keys_def lookup_key_def split: if_split_asm)
    with assms(3) have "dict_has ctx x"
      unfolding dict_has_dom by blast
    with VStr np show ?thesis
      by (fastforce simp: resolve_source_def)
  qed (simp_all add: resolve_source_def)
  have "\<exists>ys. map_err (\<lambda>(k, source). bind_err (resolve_source n i ctx source) (\<lambda>v. Inr (k, v)))
      (s_input_mapping s) = Inr ys \<and> map fst ys = map fst (s_input_mapping s)"
    by (rule map_err_Inr_keys) (use one in fastforce)
  with False assms(4) show ?thesis
    by (auto simp: resolve_inputs_def)
qed

lemma explained_prefix:
  assumes "explain_steps text ex idx (pre @ s # post) p = Inr (plans, p')" and "list_all plan_ok plans"
    and "holds_keys p ctx" and "list_all2 (delivers (ex_tools ex)) pre rs"
    and "list_all (\<lambda>q. s_flow_name q = None) pre" and "fold_outputs pol fl i pre rs ctx = Inr ctx'"
  shows "\<exists>idx' q plan q'. explain_step text ex idx' s q = Inr (plan, q') \<and> plan_ok plan \<and> holds_keys q ctx'"
  using assms
proof (induction pre arbitrary: idx p plans ctx rs i)
  case Nil
  then obtain plan q where "explain_step text ex idx s p = Inr (plan, q)" "plan_ok plan"
    by (auto simp: bind_err_Inr_iff)
  moreover from Nil have "holds_keys p ctx'" by simp
  ultimately show ?case by blast
next
  case (Cons h pre)
  from Cons.prems(1,2) obtain plan q plans' where h: "explain_step text ex idx h p = Inr (plan, q)" "plan_ok plan"
    and rest: "explain_steps text ex (Suc idx) (pre @ s # post) q = Inr (plans', p')" "list_all plan_ok plans'"
    by (auto simp: bind_err_Inr_iff)
  from Cons.prems(4) obtain r rs' where rs: "rs = r # rs'" "delivers (ex_tools ex) h r"
    "list_all2 (delivers (ex_tools ex)) pre rs'"
    by (auto simp: list_all2_Cons1)
  from Cons.prems(6) rs(1) obtain dname c1 where
    merged: "merge_step_outputs pol fl (int i) dname (s_output_mapping h) ctx (the (sr_outputs r)) = Inr c1"
    and fold: "fold_outputs pol fl (Suc i) pre rs' c1 = Inr ctx'"
    by (auto simp: bind_err_Inr_iff)
  from Cons.prems(5) have "s_flow_name h = None" "list_all (\<lambda>q. s_flow_name q = None) pre"
    by simp_all
  with explained_tool_step [OF h _ Cons.prems(3) rs(2) merged] Cons.IH [OF rest _ rs(3) _ fold] show ?case
    by blast
qed


lemmas explain_eval = explain_flow_def flow_order_def explain_step_def explain_tool_def explain_subflow_def
  unresolved_keys_def lookup_key_def schema_field_shape_def project_outputs_shape_def


section \<open>What the plan gets wrong\<close>

definition y_schema :: schema where
  "y_schema = (object_schema ''Y'')\<lparr>sch_fields := [(''y'', int_field True)]\<rparr>"

definition renamed_flow :: any_flow where
  "renamed_flow = LinearFlow (mk_flow ''p''
     [mk_step\<lparr>s_flow_name := Some ''sub'', s_output_mapping := Some [(''w'', ''y'')]\<rparr>,
      mk_step\<lparr>s_tool_name := Some ''two'', s_input_mapping := [(''b'', VStr ''y'')]\<rparr>])"

definition sub_flow :: any_flow where
  "sub_flow = LinearFlow ((mk_flow ''sub''
     [mk_step\<lparr>s_tool_name := Some ''one'', s_input_mapping := [(''a'', VStr ''x'')]\<rparr>])
     \<lparr>f_output_schema_ref := Some ''m:Y''\<rparr>)"

definition renamed_ex :: "(nat, unit, unit) executor" where
  "renamed_ex = (sample_executor [renamed_flow, sub_flow] pass_tools)
     \<lparr>ex_platform := sample_platform\<lparr>pl_load_class := (\<lambda>_ _. Inr (SchemaClass y_schema))\<rparr>\<rparr>"

text \<open>
  C0: The plan does not apply the output mapping of a sub-flow step: for a sub-flow whose output \<open>y\<close> the
  step renames to \<open>w\<close>, a later step that reads \<open>y\<close> is reported as resolvable, and fails at run
  time with \<open>InputMappingError\<close>.
\<close>

theorem explain_ignores_subflow_projection:
  "(\<exists>plan. explain_flow (\<lambda>_. ''int'') renamed_ex ''p'' [(''x'', VInt 5)] = Inr plan \<and> ep_all_resolvable plan) \<and>
   (\<exists>st' res r1 r2. start_flow renamed_ex ''p'' [(''x'', VInt 5)] None False no_opts False ''skip'' None sample_state =
        (st', Inr res) \<and>
      er_log res = [r1, r2] \<and> sr_success r1 \<and> sd_error (sr_data r2) = Some (InputMappingError ''two'' 1 ''y''))"
proof
  show "\<exists>plan. explain_flow (\<lambda>_. ''int'') renamed_ex ''p'' [(''x'', VInt 5)] = Inr plan \<and> ep_all_resolvable plan"
    by (simp add: explain_eval display_name_def py_or_def renamed_ex_def sample_executor_def renamed_flow_def
        sub_flow_def y_schema_def pass_eval)
  show "\<exists>st' res r1 r2. start_flow renamed_ex ''p'' [(''x'', VInt 5)] None False no_opts False ''skip'' None sample_state =
        (st', Inr res) \<and>
      er_log res = [r1, r2] \<and> sr_success r1 \<and> sd_error (sr_data r2) = Some (InputMappingError ''two'' 1 ''y'')"
    by (simp add: run_eval renamed_ex_def sample_executor_def renamed_flow_def sub_flow_def y_schema_def
        pass_eval resolve_source_def eval_nat_numeral execute_subflow_step_def subflow_record_def execute_flow_def run_scope_def)
qed

end
