(* ===== verification/AsyncLane.thy ===== *)
theory AsyncLane
  imports Resume RunProps
begin

text \<open>
  The asynchronous lane of the executor, \<open>execute_flow_async\<close> and \<open>resume_flow_async\<close>, run as one
  task that no other task interleaves with, with the default \<open>max_step_concurrency\<close> of one and
  tools that are not streaming tools.  An \<open>await\<close> is then a call.  The methods the lane shares
  with the synchronous one (results, snapshots, gates, guardrails, cancellation) are those of
  \<open>StepExec\<close> and \<open>FlowExec\<close>.  The main result says when the two lanes agree.
\<close>

section \<open>Tools\<close>

text \<open>\<open>Tool._call_fn_async\<close> and \<open>Tool.run_async\<close>.\<close>

definition call_fn_async :: "'w platform \<Rightarrow> 'w tool \<Rightarrow> 'w \<Rightarrow> val dict \<Rightarrow> 'w \<times> (exn + val)" where
  "call_fn_async pl t w inp =
     (case t_fn t w inp of
        (w', duration, out) \<Rightarrow>
          (case t_timeout t of
             None \<Rightarrow> (w', out)
           | Some limit \<Rightarrow>
               (if duration > limit then (w', Inl (ToolTimeoutError (t_name t) limit))
                else
                  (w', case out of
                         Inl e \<Rightarrow> Inl (if pl_isinstance pl e ''asyncio.TimeoutError''
                                      then ToolTimeoutError (t_name t) limit else e)
                       | Inr v \<Rightarrow> Inr v))))"

definition run_async :: "'w platform \<Rightarrow> 'w tool \<Rightarrow> 'w \<Rightarrow> val dict \<Rightarrow> 'w \<times> (exn + val dict)" where
  "run_async pl t w raw_inputs =
     (case sch_validate (t_input_schema t) (VDict raw_inputs) of
        Inl e \<Rightarrow> (w, Inl e)
      | Inr inp \<Rightarrow> bind_st (call_fn_async pl t w inp) (\<lambda>w raw. (w, validate_output pl t raw)))"

definition run_logged_async ::
  "('w, 'c, 'k) executor \<Rightarrow> step_env \<Rightarrow> 'w tool \<Rightarrow> val dict \<Rightarrow> ('w, 'c, 'k) xstate \<Rightarrow>
     ('w, 'c, 'k) xstate \<times> (exn + val dict)" where
  "run_logged_async ex env tool inputs st =
     (case run_async (ex_platform ex) tool (x_world st) inputs of
        (w, r) \<Rightarrow> (log_call (RanTool (se_trace env) (se_index env) tool inputs) (st\<lparr>x_world := w\<rparr>), r))"

section \<open>Retries and the error policy\<close>

definition attempt_async ::
  "('w, 'c, 'k) executor \<Rightarrow> step_env \<Rightarrow> 'w tool \<Rightarrow> val dict \<Rightarrow> (exn \<Rightarrow> retry_error) \<Rightarrow>
     ('w, 'c, 'k) attempt_state \<Rightarrow> ('w, 'c, 'k) attempt_state \<times> (exn + val dict)" where
  "attempt_async ex env tool inputs note a =
     (case run_logged_async ex env tool inputs (at_x a) of
        (st, r) \<Rightarrow>
          (let a = a\<lparr>at_x := st, at_count := at_count a + 1\<rparr>
           in case r of
                Inl e \<Rightarrow> (a\<lparr>at_errors := at_errors a @ [note e]\<rparr>, Inl e)
              | Inr out \<Rightarrow> (a, Inr out)))"

text \<open>The loop over the attempts \<open>n\<close>, \<open>n + 1\<close>, ..., of which \<open>left + 1\<close> remain.\<close>

primrec retry_async ::
  "('w, 'c, 'k) executor \<Rightarrow> step_env \<Rightarrow> 'w tool \<Rightarrow> val dict \<Rightarrow> retry_policy \<Rightarrow> string list \<Rightarrow> nat \<Rightarrow> nat \<Rightarrow>
     ('w, 'c, 'k) attempt_state \<Rightarrow> ('w, 'c, 'k) attempt_state \<times> (exn + val dict)" where
  "retry_async ex env tool inputs p classes 0 n a = attempt_async ex env tool inputs RetryErr a"
| "retry_async ex env tool inputs p classes (Suc left) n a =
     (case attempt_async ex env tool inputs RetryErr a of
        (a, Inr out) \<Rightarrow> (a, Inr out)
      | (a, Inl e) \<Rightarrow>
          (if \<not> list_ex (pl_isinstance (ex_platform ex) e) classes then (a, Inl e)
           else
             (case delay_before ex p n a of
                (a, d) \<Rightarrow>
                  retry_async ex env tool inputs p classes left (n + 1) (if 0 < d then sleep_at ex d a else a))))"

definition invoke_tool_async ::
  "('w, 'c, 'k) executor \<Rightarrow> step_env \<Rightarrow> 'w tool \<Rightarrow> val dict \<Rightarrow> retry_policy option \<Rightarrow>
     ('w, 'c, 'k) attempt_state \<Rightarrow> ('w, 'c, 'k) attempt_state \<times> (exn + val dict)" where
  "invoke_tool_async ex env tool inputs policy a =
     (case policy of
        None \<Rightarrow> attempt_async ex env tool inputs RetryErr a
      | Some p \<Rightarrow>
          (if ex_strict_safety ex \<and> retry_disallowed_by_contract tool
           then attempt_async ex env tool inputs RetrySuppressed a
           else
             (case resolved_retryable_errors (resolve_exception (ex_platform ex)) p of
                Inl e \<Rightarrow> (a, Inl e)
              | Inr classes \<Rightarrow> retry_async ex env tool inputs p classes (max_retries p) 1 a)))"

definition apply_on_error_async ::
  "('w, 'c, 'k) executor \<Rightarrow> step_env \<Rightarrow> flow_step \<Rightarrow> val dict \<Rightarrow> exn \<Rightarrow> step_data \<Rightarrow>
     ('w, 'c, 'k) xstate \<Rightarrow> ('w, 'c, 'k) xstate \<times> step_data" where
  "apply_on_error_async ex env step inputs e d st =
     (if s_on_error step = ''fail'' then (st, with_outcome (Failed e) d)
      else if s_on_error step = ''skip'' then (st, with_outcome (Skipped (Some e)) d)
      else if take (length ''fallback:'') (s_on_error step) = ''fallback:'' then
        (let fb = drop (length ''fallback:'') (s_on_error step);
             errs = sd_retry_errors d @ [RetryErr e]
         in case get_tool (ex_tools ex) fb of
              Inl missing \<Rightarrow>
                (st, with_outcome (Failed missing) (fallback_data fb (errs @ [FallbackNotRegistered fb]) None d))
            | Inr tool \<Rightarrow>
                (case safety_gate ex env tool inputs st of
                   (st, Some err, approval) \<Rightarrow>
                     (st, with_outcome (Failed err) (fallback_data fb (errs @ [FallbackRefused fb err]) approval d))
                 | (st, None, approval) \<Rightarrow>
                     (case run_logged_async ex env tool inputs st of
                        (st, Inl err) \<Rightarrow>
                          (st, with_outcome (Failed (wrap_tool_exception fb (se_index env) err))
                                 (fallback_data fb (errs @ [FallbackFailed fb err]) approval d))
                      | (st, Inr out) \<Rightarrow> (st, with_outcome (Succeeded out) (fallback_data fb errs approval d)))))
      else (st, with_outcome (Failed e) d))"

section \<open>A step\<close>

definition call_tool_async ::
  "('w, 'c, 'k) executor \<Rightarrow> step_env \<Rightarrow> flow_step \<Rightarrow> string \<Rightarrow> 'w tool \<Rightarrow> val dict \<Rightarrow> cache_key option \<Rightarrow>
     step_data \<Rightarrow> ('w, 'c, 'k) xstate \<Rightarrow> ('w, 'c, 'k) xstate \<times> (raised + step_data)" where
  "call_tool_async ex env step name tool inputs key d st =
     (case invoke_tool_async ex env tool inputs (s_retry step) \<lparr>at_x = st, at_count = 0, at_errors = []\<rparr> of
        (a, r) \<Rightarrow>
          (let st = at_x a; d = d\<lparr>sd_retry_count := at_count a - 1, sd_retry_errors := at_errors a\<rparr>
           in case r of
                Inl e \<Rightarrow>
                  (case apply_on_error_async ex env step inputs (wrap_tool_exception name (se_index env) e) d st of
                     (st, d) \<Rightarrow> (st, Inr d))
              | Inr out \<Rightarrow>
                  (case check_outputs ex env step name out d of
                     Inl e \<Rightarrow> (st, Inl e)
                   | Inr d \<Rightarrow> ((if sd_success d then cache_put ex key out st else st), Inr d))))"

definition cache_key_async ::
  "('w, 'c, 'k) executor \<Rightarrow> 'w tool \<Rightarrow> val dict \<Rightarrow> local_state \<Rightarrow> exn + cache_key option" where
  "cache_key_async ex tool inputs l =
     (if ex_step_cache ex = None \<or> \<not> t_cacheable tool \<or> l_in_replay l then Inr None
      else case sch_validate (t_input_schema tool) (VDict inputs) of
             Inl (ValidationError _) \<Rightarrow> Inr None
           | Inl e \<Rightarrow> Inl e
           | Inr validated \<Rightarrow>
               Inr (Some \<lparr>ck_tool_name = t_name tool, ck_schema_hash = schema_hash (ex_platform ex) tool,
                          ck_input_value_hash = pl_input_hash (ex_platform ex) validated\<rparr>))"

definition gated_call_async ::
  "('w, 'c, 'k) executor \<Rightarrow> step_env \<Rightarrow> flow_step \<Rightarrow> string \<Rightarrow> 'w tool \<Rightarrow> val dict \<Rightarrow> step_data \<Rightarrow>
     ('w, 'c, 'k) xstate \<Rightarrow> ('w, 'c, 'k) xstate \<times> (raised + step_data)" where
  "gated_call_async ex env step name tool inputs d st =
     (case safety_gate ex env tool inputs st of
        (st, Some e, approval) \<Rightarrow> (st, Inr (with_outcome (Failed e) (d\<lparr>sd_approval := approval\<rparr>)))
      | (st, None, approval) \<Rightarrow>
          (let d = d\<lparr>sd_approval := approval\<rparr>
           in case input_guardrail ex env tool inputs st of
                (st, Some e) \<Rightarrow> (st, Inr (with_outcome (Failed e) d))
              | (st, None) \<Rightarrow>
                  (case cache_key_async ex tool inputs (x_local st) of
                     Inl e \<Rightarrow> (st, Inl (RExn e))
                   | Inr key \<Rightarrow>
                       (case cache_get ex key st of
                          Some out \<Rightarrow>
                            (st, case check_outputs ex env step name out d of
                                   Inl e \<Rightarrow> Inl e
                                 | Inr d \<Rightarrow> Inr (d\<lparr>sd_cached := sd_success d\<rparr>))
                        | None \<Rightarrow> call_tool_async ex env step name tool inputs key d st))))"

definition execute_tool_step_async ::
  "('w, 'c, 'k) executor \<Rightarrow> step_env \<Rightarrow> flow_step \<Rightarrow> string \<Rightarrow> val dict \<Rightarrow>
     ('w, 'c, 'k) xstate \<Rightarrow> ('w, 'c, 'k) xstate \<times> (raised + step_record)" where
  "execute_tool_step_async ex env step name ctx st =
     (let d = blank_step (se_index env) name
      in case prepare_step ex env d step name ctx of
           Inl e \<Rightarrow> (st, Inl e)
         | Inr (Inl d) \<Rightarrow> finish ex env (StepRecord d None) st
         | Inr (Inr (tool, inputs)) \<Rightarrow>
             bind_st (gated_call_async ex env step name tool inputs (d\<lparr>sd_inputs := inputs\<rparr>)
                 (fire ex (StepStart (se_trace env) (se_flow env) (se_index env) name inputs) st)) (\<lambda>st d.
               finish ex env (StepRecord d None) st))"

text \<open>
  \<open>_execute_step_async\<close>; its \<open>_execute_subflow_step_async\<close> is the synchronous method with the call
  of the sub-flow awaited.
\<close>

definition execute_step_async ::
  "('w, 'c, 'k) executor \<Rightarrow> ('w, 'c, 'k) run_flow \<Rightarrow> step_env \<Rightarrow> flow_step \<Rightarrow> val dict \<Rightarrow> 'w run_opts \<Rightarrow>
     ('w, 'c, 'k) xstate \<Rightarrow> ('w, 'c, 'k) xstate \<times> (raised + step_record)" where
  "execute_step_async ex rec env step ctx opts st =
     (case s_flow_name step of
        Some sub \<Rightarrow> execute_subflow_step ex rec env step sub ctx opts st
      | None \<Rightarrow>
          (case display_name step of
             Inl e \<Rightarrow> (st, Inl (RExn e))
           | Inr name \<Rightarrow> execute_tool_step_async ex env step name ctx st))"

section \<open>Linear flows\<close>

text \<open>The end of an asynchronous run: the output schema and the result, no context schema.\<close>

definition finish_flow_async ::
  "('w, 'c, 'k) executor \<Rightarrow> any_flow \<Rightarrow> string \<Rightarrow> string \<Rightarrow> val dict \<Rightarrow> val dict \<Rightarrow> step_record list \<Rightarrow>
     ('w, 'c, 'k) xstate \<Rightarrow> ('w, 'c, 'k) xstate \<times> (raised + execution_result)" where
  "finish_flow_async ex f flow_name trace input ctx recs st =
     (case validate_flow_schema (ex_platform ex) (af_output_ref f) flow_name ctx
             (int (length (af_steps f))) ''flow_output'' of
        Inl e \<Rightarrow> (st, Inl e)
      | Inr (Some r) \<Rightarrow> make_result ex flow_name trace input False None (recs @ [r]) (Some (length recs)) st
      | Inr None \<Rightarrow> make_result ex flow_name trace input True (Some ctx) recs None st)"

definition linear_step_async ::
  "('w, 'c, 'k) executor \<Rightarrow> ('w, 'c, 'k) run_flow \<Rightarrow> flow \<Rightarrow> string \<Rightarrow> val dict \<Rightarrow> 'w run_opts \<Rightarrow>
     nat \<Rightarrow> flow_step \<Rightarrow> val dict \<Rightarrow> step_record list \<Rightarrow> ('w, 'c, 'k) xstate \<Rightarrow>
     ('w, 'c, 'k) xstate \<times> (raised + execution_result + val dict \<times> step_record list)" where
  "linear_step_async ex rec f trace input opts idx step ctx recs st =
     (let name = f_name f in
      bind_st (check_cancellation ex name trace input (int idx) opts recs st) (\<lambda>st _.
      bind_st (reanchor_cancellation ex name trace input step (int idx) recs
         (execute_step_async ex rec \<lparr>se_trace = trace, se_flow = name, se_index = int idx, se_step_id = None\<rparr>
            step ctx opts st)) (\<lambda>st r.
        let recs = recs @ [r] in
        if \<not> sr_success r then
          bind_st (make_result ex name trace input False None recs None st) (\<lambda>st res. (st, Inr (Inl res)))
        else
          (case (sr_outputs r, display_name step) of
             (None, _) \<Rightarrow> (st, Inl (RExn (PyRuntimeError ''succeeded but produced no outputs'')))
           | (_, Inl e) \<Rightarrow> (st, Inl (RExn e))
           | (Some out, Inr dname) \<Rightarrow>
               (case merge_step_outputs (f_on_context_collision f) name (int idx) dname
                       (s_output_mapping step) ctx out of
                  Inl e \<Rightarrow> (st, Inl (RExn e))
                | Inr ctx \<Rightarrow>
                    bind_st (save_snapshot ex (LinearFlow f) trace input ctx recs (idx + 1) 0 st) (\<lambda>st _.
                      (st, Inr (Inr (ctx, recs)))))))))"

fun linear_loop_async ::
  "('w, 'c, 'k) executor \<Rightarrow> ('w, 'c, 'k) run_flow \<Rightarrow> flow \<Rightarrow> string \<Rightarrow> val dict \<Rightarrow> 'w run_opts \<Rightarrow>
     nat \<Rightarrow> flow_step list \<Rightarrow> val dict \<Rightarrow> step_record list \<Rightarrow> ('w, 'c, 'k) xstate \<Rightarrow>
     ('w, 'c, 'k) xstate \<times> (raised + loop_end)" where
  "linear_loop_async ex rec f trace input opts idx [] ctx recs st = (st, Inr (Completed ctx recs))"
| "linear_loop_async ex rec f trace input opts idx (step # steps) ctx recs st =
     bind_st (linear_step_async ex rec f trace input opts idx step ctx recs st) (\<lambda>st x.
       case x of
         Inl res \<Rightarrow> (st, Inr (Stopped res))
       | Inr (ctx, recs) \<Rightarrow> linear_loop_async ex rec f trace input opts (idx + 1) steps ctx recs st)"

definition execute_linear_async ::
  "('w, 'c, 'k) executor \<Rightarrow> ('w, 'c, 'k) run_flow \<Rightarrow> flow \<Rightarrow> val dict \<Rightarrow> 'w run_opts \<Rightarrow>
     ('w, 'c, 'k) xstate \<Rightarrow> ('w, 'c, 'k) xstate \<times> (raised + execution_result)" where
  "execute_linear_async ex rec f input opts st =
     (let name = f_name f in
      case new_trace_id ex (set_version (f_version f) st) of
        (st, trace) \<Rightarrow>
          bind_st (check_input ex (LinearFlow f) name trace input
              (fire ex (FlowStart trace name (f_version f) input (length (f_steps f))) st)) (\<lambda>st rejected.
            case rejected of
              Some res \<Rightarrow> (st, Inr res)
            | None \<Rightarrow>
                bind_st (linear_loop_async ex rec f trace input opts 0 (f_steps f)
                    (seed_context (x_local st) input) [] st) (\<lambda>st e.
                  case e of
                    Stopped res \<Rightarrow> (st, Inr res)
                  | Completed ctx recs \<Rightarrow> finish_flow_async ex (LinearFlow f) name trace input ctx recs st)))"

section \<open>DAG flows\<close>

text \<open>The proxy of a DAG step; it has neither an output mapping nor decision candidates.\<close>

definition async_proxy :: "dag_step \<Rightarrow> flow_step" where
  "async_proxy s = (flow_step.truncate s)\<lparr>s_output_mapping := None, s_decision_candidates := None\<rparr>"

text \<open>
  \<open>_run_dag_level_async\<close>: every step of the level runs, whatever the records say.  The proxy has no
  step id, so the gates see none.
\<close>

fun run_dag_level_async ::
  "('w, 'c, 'k) executor \<Rightarrow> ('w, 'c, 'k) run_flow \<Rightarrow> dag_flow \<Rightarrow> string \<Rightarrow> val dict \<Rightarrow> 'w run_opts \<Rightarrow>
     nat \<Rightarrow> dag_step list \<Rightarrow> step_record list \<Rightarrow> ('w, 'c, 'k) xstate \<Rightarrow>
     ('w, 'c, 'k) xstate \<times> (raised + step_record list)" where
  "run_dag_level_async ex rec f trace ctx opts idx [] acc st = (st, Inr acc)"
| "run_dag_level_async ex rec f trace ctx opts idx (step # steps) acc st =
     bind_st (execute_step_async ex rec
         \<lparr>se_trace = trace, se_flow = f_name f, se_index = int idx, se_step_id = None\<rparr>
         (async_proxy step) ctx opts st) (\<lambda>st r.
       run_dag_level_async ex rec f trace ctx opts (idx + 1) steps (acc @ [r]) st)"

text \<open>The first step of a level that is not a tool step, with its index and name.\<close>

fun first_non_tool :: "nat \<Rightarrow> dag_step list \<Rightarrow> exn + (nat \<times> string) option" where
  "first_non_tool idx [] = Inr None"
| "first_non_tool idx (s # ss) =
     (if d_step_type s \<noteq> KTool then bind_err (display_name s) (\<lambda>name. Inr (Some (idx, name)))
      else first_non_tool (idx + 1) ss)"

text \<open>
  The records of a level in declaration order: the log grows by one record after the other until
  one failed or repeats a key of a sibling, which replaces its record.
\<close>

datatype level_verdict = LevelFailed "step_record list" | LevelOutputs "val dict" "step_record list"

fun settle_level_async ::
  "(dag_step \<times> step_record) list \<Rightarrow> val dict \<Rightarrow> step_record list \<Rightarrow> raised + level_verdict" where
  "settle_level_async [] outs recs = Inr (LevelOutputs outs recs)"
| "settle_level_async ((step, r) # rest) outs recs =
     (if \<not> sr_success r then Inr (LevelFailed (recs @ [r]))
      else
        (case (sr_outputs r, display_name step) of
           (None, _) \<Rightarrow> Inl (RExn PyAssertionError)
         | (_, Inl e) \<Rightarrow> Inl (RExn e)
         | (Some out, Inr name) \<Rightarrow>
             (case apply_output_mapping out (s_output_mapping step) name (sr_index r) of
                Inl e \<Rightarrow> Inl (RExn e)
              | Inr mapped \<Rightarrow>
                  (case add_outputs outs mapped of
                     Inl k \<Rightarrow>
                       Inr (LevelFailed (recs @ [failed_again r name (FlowExecutionError name (sr_index r)
                              (Msg (''sibling key conflict on '' @ k)))]))
                   | Inr outs \<Rightarrow> settle_level_async rest outs (recs @ [r])))))"

definition dag_level_async ::
  "('w, 'c, 'k) executor \<Rightarrow> ('w, 'c, 'k) run_flow \<Rightarrow> dag_flow \<Rightarrow> string \<Rightarrow> val dict \<Rightarrow> 'w run_opts \<Rightarrow>
     nat \<Rightarrow> dag_step list \<Rightarrow> val dict \<Rightarrow> step_record list \<Rightarrow> nat \<Rightarrow> ('w, 'c, 'k) xstate \<Rightarrow>
     ('w, 'c, 'k) xstate \<times> (raised + execution_result + val dict \<times> step_record list \<times> nat)"
where
  "dag_level_async ex rec f trace input opts lvl steps ctx recs idx st =
     (let stop = (\<lambda>recs st. bind_st (make_result ex (f_name f) trace input False None recs None st)
                    (\<lambda>st res. (st, Inr (Inl res))))
      in bind_st (check_cancellation ex (f_name f) trace input (int idx) opts recs st) (\<lambda>st _.
           case first_non_tool idx steps of
             Inl e \<Rightarrow> (st, Inl (RExn e))
           | Inr (Some (i, name)) \<Rightarrow>
               stop (recs @ [StepRecord (with_outcome (Failed (FlowExecutionError name (int i)
                       (Msg ''step_type is not supported by FlowExecutor''))) (blank_step (int i) name)) None]) st
           | Inr None \<Rightarrow>
               bind_st (run_dag_level_async ex rec f trace ctx opts idx steps [] st) (\<lambda>st rs.
                 case settle_level_async (zip steps rs) [] recs of
                   Inl e \<Rightarrow> (st, Inl e)
                 | Inr (LevelFailed recs) \<Rightarrow> stop recs st
                 | Inr (LevelOutputs outs recs) \<Rightarrow>
                     (case merge_step_outputs (f_on_context_collision f) (f_name f) (int lvl)
                             (''DAG level '' @ nat_text lvl) None ctx outs of
                        Inl e \<Rightarrow> (st, Inl (RExn e))
                      | Inr ctx \<Rightarrow>
                          bind_st (save_snapshot ex (DagFlow f) trace input ctx recs 0 (lvl + 1) st) (\<lambda>st _.
                            (st, Inr (Inr (ctx, recs, idx + length steps))))))))"

fun dag_loop_async ::
  "('w, 'c, 'k) executor \<Rightarrow> ('w, 'c, 'k) run_flow \<Rightarrow> dag_flow \<Rightarrow> string \<Rightarrow> val dict \<Rightarrow> 'w run_opts \<Rightarrow>
     nat \<Rightarrow> dag_step list list \<Rightarrow> val dict \<Rightarrow> step_record list \<Rightarrow> nat \<Rightarrow> ('w, 'c, 'k) xstate \<Rightarrow>
     ('w, 'c, 'k) xstate \<times> (raised + loop_end)" where
  "dag_loop_async ex rec f trace input opts lvl [] ctx recs idx st = (st, Inr (Completed ctx recs))"
| "dag_loop_async ex rec f trace input opts lvl (steps # levels) ctx recs idx st =
     bind_st (dag_level_async ex rec f trace input opts lvl steps ctx recs idx st) (\<lambda>st x.
       case x of
         Inl res \<Rightarrow> (st, Inr (Stopped res))
       | Inr (ctx, recs, idx) \<Rightarrow> dag_loop_async ex rec f trace input opts (lvl + 1) levels ctx recs idx st)"

definition dag_body_async ::
  "('w, 'c, 'k) executor \<Rightarrow> ('w, 'c, 'k) run_flow \<Rightarrow> dag_flow \<Rightarrow> string \<Rightarrow> val dict \<Rightarrow> 'w run_opts \<Rightarrow>
     nat \<Rightarrow> dag_step list list \<Rightarrow> val dict \<Rightarrow> step_record list \<Rightarrow> ('w, 'c, 'k) xstate \<Rightarrow>
     ('w, 'c, 'k) xstate \<times> (raised + execution_result)" where
  "dag_body_async ex rec f trace input opts lvl levels ctx recs st =
     bind_st (dag_loop_async ex rec f trace input opts lvl (drop lvl levels) ctx recs
         (sum_list (map length (take lvl levels))) st) (\<lambda>st e.
       case e of
         Stopped res \<Rightarrow> (st, Inr res)
       | Completed ctx recs \<Rightarrow> finish_flow_async ex (DagFlow f) (f_name f) trace input ctx recs st)"

definition execute_dag_async ::
  "('w, 'c, 'k) executor \<Rightarrow> ('w, 'c, 'k) run_flow \<Rightarrow> dag_flow \<Rightarrow> val dict \<Rightarrow> 'w run_opts \<Rightarrow>
     ('w, 'c, 'k) xstate \<Rightarrow> ('w, 'c, 'k) xstate \<times> (raised + execution_result)" where
  "execute_dag_async ex rec f input opts st =
     (let st = set_version (f_version f) st;
          start = (\<lambda>trace. FlowStart trace (f_name f) (f_version f) input (length (f_steps f)))
      in case compute_dag_levels (pl_set_order (ex_platform ex)) f of
           Inl e \<Rightarrow> (st, Inl (RExn e))
         | Inr levels \<Rightarrow>
             (case l_resume (x_local st) of
                Some sn \<Rightarrow>
                  dag_body_async ex rec f (sn_trace_id sn) input opts (sn_completed_levels sn) levels
                    (sn_context sn) (sn_log sn) (fire ex (start (sn_trace_id sn)) st)
              | None \<Rightarrow>
                  (case new_trace_id ex st of
                     (st, trace) \<Rightarrow>
                       bind_st (check_input ex (DagFlow f) (f_name f) trace input (fire ex (start trace) st))
                         (\<lambda>st rejected.
                           case rejected of
                             Some res \<Rightarrow> (st, Inr res)
                           | None \<Rightarrow>
                               dag_body_async ex rec f trace input opts 0 levels
                                 (seed_context (x_local st) input) [] st))))"

section \<open>The entry points\<close>

text \<open>\<open>_assert_async_lane_supported\<close>: what each step declares that the lane cannot honour.\<close>

definition quoted :: "string \<Rightarrow> string" where
  "quoted s = [CHR 0x27] @ s @ [CHR 0x27]"

definition unsupported_note :: "nat \<Rightarrow> string \<Rightarrow> string \<Rightarrow> string" where
  "unsupported_note idx name what = ''step '' @ nat_text idx @ '' ('' @ quoted name @ ''): '' @ what"

definition wants_decision :: "'a flow_step_scheme \<Rightarrow> bool" where
  "wants_decision s = (default_arg (s_decision_candidates s) [] \<noteq> [])"

definition dag_unsupported :: "nat \<times> dag_step \<Rightarrow> exn + string list" where
  "dag_unsupported e =
     (let s = snd e;
          whats = (if wants_decision s then [''decision_candidates (issue #102)''] else []) @
                  (if d_branches s \<noteq> [] then [''conditional branches (issue #9)''] else []) @
                  (if d_default_next s \<noteq> None then [''default_next routing (issue #9)''] else [])
      in if whats = [] then Inr []
         else bind_err (display_name s) (\<lambda>name. Inr (map (unsupported_note (fst e) name) whats)))"

definition step_unsupported :: "nat \<times> flow_step \<Rightarrow> exn + string list" where
  "step_unsupported e =
     (if wants_decision (snd e)
      then bind_err (display_name (snd e)) (\<lambda>name.
             Inr [unsupported_note (fst e) name ''decision_candidates (issue #102)''])
      else Inr [])"

definition assert_async_lane_supported :: "any_flow \<Rightarrow> exn + unit" where
  "assert_async_lane_supported f =
     bind_err (case f of
         LinearFlow l \<Rightarrow> map_err step_unsupported (enumerate 0 (f_steps l))
       | DagFlow d \<Rightarrow> map_err dag_unsupported (enumerate 0 (f_steps d))) (\<lambda>notes.
       if concat notes = [] then Inr () else Inl (AsyncLaneUnsupportedError (af_name f) (concat notes)))"

definition execute_flow_async ::
  "('w, 'c, 'k) executor \<Rightarrow> ('w, 'c, 'k) run_flow \<Rightarrow> string \<Rightarrow> val dict \<Rightarrow> string option \<Rightarrow> bool \<Rightarrow>
     'w run_opts \<Rightarrow> val dict option \<Rightarrow> ('w, 'c, 'k) xstate \<Rightarrow>
     ('w, 'c, 'k) xstate \<times> (raised + execution_result)" where
  "execute_flow_async ex rec name input version force opts dyn st =
     (case ex_get_flow ex name version of
        Inl e \<Rightarrow> (st, Inl (RExn e))
      | Inr f \<Rightarrow>
          (if \<not> force \<and> af_status f \<noteq> ACTIVE
           then (st, Inl (RExn (FlowStatusError name (status_value (af_status f)))))
           else
             (case assert_async_lane_supported f of
                Inl e \<Rightarrow> (st, Inl (RExn e))
              | Inr _ \<Rightarrow>
                  (case validate_composition ex f of
                     Some e \<Rightarrow> (st, Inl (RExn e))
                   | None \<Rightarrow>
                       run_scope (\<lambda>st.
                         let st = (case dyn of
                                     None \<Rightarrow> st
                                   | Some d \<Rightarrow> st\<lparr>x_local := x_local st
                                       \<lparr>l_dynamic_params := dict_update (l_dynamic_params (x_local st)) d\<rparr>\<rparr>)
                         in case f of
                              DagFlow d \<Rightarrow> execute_dag_async ex rec d input opts st
                            | LinearFlow l \<Rightarrow> execute_linear_async ex rec l input opts st) st))))"

primrec run_flow_async :: "('w, 'c, 'k) executor \<Rightarrow> nat \<Rightarrow> ('w, 'c, 'k) run_flow" where
  "run_flow_async ex 0 = (\<lambda>name input opts st. (st, Inl ROutOfFuel))"
| "run_flow_async ex (Suc n) = (\<lambda>name input opts st.
     execute_flow_async ex (run_flow_async ex n) name input None False opts None st)"

definition start_flow_async ::
  "('w, 'c, 'k) executor \<Rightarrow> string \<Rightarrow> val dict \<Rightarrow> string option \<Rightarrow> bool \<Rightarrow> 'w run_opts \<Rightarrow>
     val dict option \<Rightarrow> ('w, 'c, 'k) xstate \<Rightarrow> ('w, 'c, 'k) xstate \<times> (raised + execution_result)" where
  "start_flow_async ex = execute_flow_async ex (run_flow_async ex (ex_max_depth ex))"

text \<open>\<open>resume_flow_async\<close>; unlike \<open>resume_flow\<close> it opens a run scope.\<close>

definition resume_step_async ::
  "('w, 'c, 'k) executor \<Rightarrow> ('w, 'c, 'k) run_flow \<Rightarrow> flow \<Rightarrow> string \<Rightarrow> string \<Rightarrow> val dict \<Rightarrow>
     nat \<Rightarrow> flow_step \<Rightarrow> val dict \<Rightarrow> step_record list \<Rightarrow> ('w, 'c, 'k) xstate \<Rightarrow>
     ('w, 'c, 'k) xstate \<times> (raised + execution_result + val dict \<times> step_record list)" where
  "resume_step_async ex rec f name trace input idx step ctx recs st =
     bind_st (execute_step_async ex rec \<lparr>se_trace = trace, se_flow = name, se_index = int idx, se_step_id = None\<rparr>
           step ctx no_opts st) (\<lambda>st r.
       let recs = recs @ [r] in
       if \<not> sr_success r then
         bind_st (make_result ex name trace input False None recs None st) (\<lambda>st res. (st, Inr (Inl res)))
       else
         (case (sr_outputs r, display_name step) of
            (None, _) \<Rightarrow> (st, Inl (RExn PyAssertionError))
          | (_, Inl e) \<Rightarrow> (st, Inl (RExn e))
          | (Some out, Inr dname) \<Rightarrow>
              (case apply_output_mapping out (s_output_mapping step) dname (int idx) of
                 Inl e \<Rightarrow> (st, Inl (RExn e))
               | Inr mapped \<Rightarrow>
                   (let ctx = dict_update ctx mapped in
                    bind_st (save_snapshot ex (LinearFlow f) trace input ctx recs (idx + 1) 0 st) (\<lambda>st _.
                      (st, Inr (Inr (ctx, recs))))))))"

fun resume_loop_async ::
  "('w, 'c, 'k) executor \<Rightarrow> ('w, 'c, 'k) run_flow \<Rightarrow> flow \<Rightarrow> string \<Rightarrow> string \<Rightarrow> val dict \<Rightarrow>
     nat \<Rightarrow> flow_step list \<Rightarrow> val dict \<Rightarrow> step_record list \<Rightarrow> ('w, 'c, 'k) xstate \<Rightarrow>
     ('w, 'c, 'k) xstate \<times> (raised + loop_end)" where
  "resume_loop_async ex rec f name trace input idx [] ctx recs st = (st, Inr (Completed ctx recs))"
| "resume_loop_async ex rec f name trace input idx (step # steps) ctx recs st =
     bind_st (resume_step_async ex rec f name trace input idx step ctx recs st) (\<lambda>st x.
       case x of
         Inl res \<Rightarrow> (st, Inr (Stopped res))
       | Inr (ctx, recs) \<Rightarrow> resume_loop_async ex rec f name trace input (idx + 1) steps ctx recs st)"

definition resume_linear_async ::
  "('w, 'c, 'k) executor \<Rightarrow> ('w, 'c, 'k) run_flow \<Rightarrow> flow \<Rightarrow> snapshot \<Rightarrow> ('w, 'c, 'k) xstate \<Rightarrow>
     ('w, 'c, 'k) xstate \<times> (raised + execution_result)" where
  "resume_linear_async ex rec f sn st =
     (let name = sn_flow_name sn; trace = sn_trace_id sn; input = sn_initial_input sn; k = sn_completed_steps sn
      in bind_st (resume_loop_async ex rec f name trace input k (drop k (f_steps f)) (sn_context sn) (sn_log sn)
             (fire ex (FlowStart trace name (f_version f) input (length (f_steps f)))
               (set_version (f_version f) st))) (\<lambda>st e.
           case e of
             Stopped res \<Rightarrow> (st, Inr res)
           | Completed ctx recs \<Rightarrow> finish_flow_async ex (LinearFlow f) name trace input ctx recs st))"

definition resume_dag_async ::
  "('w, 'c, 'k) executor \<Rightarrow> ('w, 'c, 'k) run_flow \<Rightarrow> dag_flow \<Rightarrow> snapshot \<Rightarrow> ('w, 'c, 'k) xstate \<Rightarrow>
     ('w, 'c, 'k) xstate \<times> (raised + execution_result)" where
  "resume_dag_async ex rec f sn st =
     (case execute_dag_async ex rec f (sn_initial_input sn) no_opts (set_resume (Some sn) st) of
        (st, r) \<Rightarrow> (set_resume None st, r))"

definition resume_flow_async ::
  "('w, 'c, 'k) executor \<Rightarrow> string \<Rightarrow> ('w, 'c, 'k) xstate \<Rightarrow> ('w, 'c, 'k) xstate \<times> (raised + execution_result)" where
  "resume_flow_async ex trace st =
     (case load_snapshot ex trace (x_snaps st) of
        Inl e \<Rightarrow> (st, Inl (RExn e))
      | Inr (f, sn) \<Rightarrow>
          (case assert_async_lane_supported f of
             Inl e \<Rightarrow> (st, Inl (RExn e))
           | Inr _ \<Rightarrow>
               run_scope (\<lambda>st.
                 let rec = run_flow_async ex (ex_max_depth ex + 1)
                 in case f of
                      DagFlow d \<Rightarrow> resume_dag_async ex rec d sn st
                    | LinearFlow l \<Rightarrow> resume_linear_async ex rec l sn st) st))"

section \<open>The two lanes\<close>

text \<open>
  An executor on which the lanes can agree: its tools behave the same in a thread and in the event
  loop, sleeping for no time has no effect, its retry loop is the documented one, and its flows
  are linear, without context schemas, decision candidates and fallback tools.
\<close>

definition neutral_tool :: "'w platform \<Rightarrow> 'w tool \<Rightarrow> bool" where
  "neutral_tool pl t \<longleftrightarrow> (\<forall>w inp. call_fn_async pl t w inp = call_fn pl t w inp)"

definition neutral_step :: "flow_step \<Rightarrow> bool" where
  "neutral_step s \<longleftrightarrow> s_on_error s \<in> {''fail'', ''skip''} \<and> s_decision_candidates s = None"

definition neutral_flow :: "string \<Rightarrow> any_flow \<Rightarrow> bool" where
  "neutral_flow name f \<longleftrightarrow>
     (case f of
        LinearFlow l \<Rightarrow> f_name l = name \<and> f_context_schema_ref l = None \<and> list_all neutral_step (f_steps l)
      | DagFlow _ \<Rightarrow> False)"

definition neutral :: "('w, 'c, 'k) executor \<Rightarrow> bool" where
  "neutral ex \<longleftrightarrow>
     (\<forall>name t. dict_get (ex_tools ex) name = Some t \<longrightarrow> neutral_tool (ex_platform ex) t) \<and>
     (\<forall>d w. d \<le> 0 \<longrightarrow> pl_sleep (ex_platform ex) d w = w) \<and>
     (\<forall>n wait retryable f a. 0 < n \<longrightarrow>
        ex_retrying ex n wait retryable f a = retry_loop (sleep_at ex) False wait retryable f (n - 1) 1 a) \<and>
     (\<forall>name v f. ex_get_flow ex name v = Inr f \<longrightarrow> neutral_flow name f)"

lemma neutral_tenacity: "neutral ex \<Longrightarrow> tenacity ex"
  unfolding neutral_def tenacity_def by blast

lemma check_cancellation_Inr:
  "check_cancellation ex name trace input i opts recs st = (s, Inr u) \<Longrightarrow> s = st"
  by (auto simp: check_cancellation_def Let_def split: if_split_asm option.split_asm)

lemma run_async_eq:
  assumes "neutral_tool (ex_platform ex) t"
  shows "run_async (ex_platform ex) t = run (ex_platform ex) t"
proof -
  from assms have eq: "call_fn_async (ex_platform ex) t w inp = call_fn (ex_platform ex) t w inp" for w inp
    by (simp add: neutral_tool_def)
  show ?thesis
    unfolding run_async_def [abs_def] run_def [abs_def] eq by (rule refl)
qed

lemma run_logged_async_eq:
  "neutral_tool (ex_platform ex) t \<Longrightarrow> run_logged_async ex env t inputs st = run_logged ex env t inputs st"
  unfolding run_logged_async_def run_logged_def by (simp only: run_async_eq)

lemma attempt_async_eq:
  assumes "neutral_tool (ex_platform ex) t"
  shows "attempt_async ex env t = attempt ex env t"
  unfolding attempt_async_def [abs_def] attempt_def [abs_def] run_logged_async_eq [OF assms] by (rule refl)

lemma sleep_nothing: "neutral ex \<Longrightarrow> \<not> 0 < d \<Longrightarrow> sleep_at ex d a = a"
  by (simp add: sleep_at_def neutral_def)

lemma retry_async_eq:
  assumes neutral: "neutral ex" and tool: "neutral_tool (ex_platform ex) t"
  shows "retry_async ex env t inputs p classes left n a =
     retry_loop (sleep_at ex) False (delay_before ex p) (\<lambda>e. list_ex (pl_isinstance (ex_platform ex) e) classes)
       (attempt ex env t inputs RetryErr) left n a"
proof (induction left arbitrary: n a)
  case 0
  show ?case
    by (simp add: attempt_async_eq [OF tool] split: prod.split sum.split)
next
  case (Suc left)
  show ?case
    by (simp add: attempt_async_eq [OF tool] Suc.IH sleep_nothing [OF neutral] split: prod.split sum.split)
qed

lemma invoke_tool_async_eq:
  assumes neutral: "neutral ex" and tool: "neutral_tool (ex_platform ex) t"
  shows "invoke_tool_async ex env t inputs policy a = invoke_tool ex env t inputs policy a"
proof -
  have r: "ex_retrying ex (max_retries p + 1) wait retryable f a =
      retry_loop (sleep_at ex) False wait retryable f (max_retries p) 1 a" for p wait retryable f a
    using neutral by (simp add: neutral_def)
  show ?thesis
    unfolding invoke_tool_async_def invoke_tool_def r
    by (cases policy) (auto simp: attempt_async_eq [OF tool] retry_async_eq [OF assms] split: sum.split)
qed

lemma call_tool_async_eq:
  assumes neutral: "neutral ex" and tool: "neutral_tool (ex_platform ex) t" and step: "neutral_step step"
  shows "call_tool_async ex env step name t inputs key d st = call_tool ex env step name t inputs key d st"
proof -
  have "apply_on_error_async ex env step inputs e d st = apply_on_error ex env step name inputs e d st" for e d st
    using step by (auto simp: apply_on_error_async_def apply_on_error_def neutral_step_def)
  note eq = this
  show ?thesis
    unfolding call_tool_async_def call_tool_def invoke_tool_async_eq [OF neutral tool] eq by (rule refl)
qed

lemma gated_call_async_eq:
  assumes "neutral ex" and "neutral_tool (ex_platform ex) t" and "neutral_step step" and dry: "\<not> l_dry_run (x_local st)"
  shows "gated_call_async ex env step name t inputs d st = gated_call ex env step name t inputs d st"
proof -
  have gate: "x_local s = x_local st" if "safety_gate ex env t inputs st = (s, g, a)" for s g a
    using safety_gate_frame [OF that] by auto
  have guard: "x_local s' = x_local s" if "input_guardrail ex env t inputs s = (s', e)" for s s' e
    using input_guardrail_frame [OF that] by auto
  have key: "cache_key_async ex t inputs l = cache_key_for ex t inputs l" if "\<not> l_dry_run l" for l
    using that by (simp add: cache_key_async_def cache_key_for_def)
  show ?thesis
    unfolding gated_call_async_def gated_call_def call_tool_async_eq [OF assms(1-3)]
    using dry by (auto simp: Let_def key split: prod.split option.split dest!: gate guard)
qed

lemma execute_tool_step_async_eq:
  assumes neutral: "neutral ex" and "neutral_step step" and "\<not> l_dry_run (x_local st)"
  shows "execute_tool_step_async ex env step name ctx st = execute_tool_step ex env step name None ctx st"
proof -
  have d: "(blank_step i name)\<lparr>sd_decision := None\<rparr> = blank_step i name" for i
    by (simp add: blank_step_def)
  have t: "neutral_tool (ex_platform ex) t" if "prepare_step ex env d step name ctx = Inr (Inr (t, inputs))" for d t inputs
    using that neutral by (auto simp: prepare_step_def get_tool_def neutral_def
        split: option.split_asm sum.split_asm exn.split_asm)
  show ?thesis
    unfolding execute_tool_step_async_def execute_tool_step_def d Let_def
    using assms by (auto simp: gated_call_async_eq [OF neutral] t fire_def split: sum.split prod.split)
qed

text \<open>A step, for a sub-flow call that agrees outside of dry runs.\<close>

lemma execute_step_async_eq:
  assumes neutral: "neutral ex"
    and rec: "\<And>name input opts st. \<not> l_dry_run (x_local st) \<Longrightarrow> rec' name input opts st = rec name input opts st"
    and step: "neutral_step step" and dry: "\<not> l_dry_run (x_local st)"
  shows "execute_step_async ex rec' env step ctx opts st = execute_step ex rec env step ctx opts st"
proof (cases "s_flow_name step")
  case None
  with step dry show ?thesis
    by (simp add: execute_step_async_def execute_step_def resolve_decision_def neutral_step_def
        execute_tool_step_async_eq [OF neutral] split: sum.split)
next
  case (Some sub)
  have "rec' sub inputs opts (fire ex ev st) = rec sub inputs opts (fire ex ev st)" for inputs ev
    by (rule rec) (simp add: fire_def dry)
  with Some show ?thesis
    by (cases "resolve_inputs step (se_index env) ctx")
      (simp_all add: execute_step_async_def execute_step_def execute_subflow_step_def)
qed

lemma linear_step_async_eq:
  assumes "neutral ex"
    and "\<And>name input opts st. \<not> l_dry_run (x_local st) \<Longrightarrow> rec' name input opts st = rec name input opts st"
    and "neutral_step step" and "\<not> l_dry_run (x_local st)"
  shows "linear_step_async ex rec' f trace input opts idx step ctx recs st =
     linear_step ex rec f (f_name f) trace input opts idx step ctx recs st"
  unfolding linear_step_async_def linear_step_def Let_def
  by (rule bind_st_cong [OF refl]) (auto dest!: check_cancellation_Inr simp: execute_step_async_eq [OF assms])

lemma linear_loop_async_eq:
  assumes neutral: "neutral ex"
    and rec: "\<And>name input opts st. \<not> l_dry_run (x_local st) \<Longrightarrow> rec' name input opts st = run_flow ex n name input opts st"
    and "list_all neutral_step steps" and "\<not> l_dry_run (x_local st)"
  shows "linear_loop_async ex rec' f trace input opts idx steps ctx recs st =
     linear_loop ex (run_flow ex n) f (f_name f) trace input opts idx steps ctx recs st"
  using assms(3,4)
proof (induction steps arbitrary: idx ctx recs st)
  case (Cons s steps)
  let ?x = "linear_step ex (run_flow ex n) f (f_name f) trace input opts idx s ctx recs st"
  have "evolves ex st (fst ?x)"
    using ev.linear_step_rel [where rec = "run_flow ex n", OF ev.nested] neutral_tenacity [OF neutral] by blast
  then have "\<not> l_dry_run (x_local (fst ?x))"
    using Cons.prems(2) by (simp add: evolves_def)
  with Cons show ?case
    by (auto simp: linear_step_async_eq [OF neutral rec] intro!: bind_st_cong split: sum.split)
qed simp

lemma execute_linear_async_eq:
  assumes neutral: "neutral ex"
    and rec: "\<And>name input opts st. \<not> l_dry_run (x_local st) \<Longrightarrow> rec' name input opts st = run_flow ex n name input opts st"
    and flow: "neutral_flow name (LinearFlow f)" and dry: "\<not> l_dry_run (x_local st)"
  shows "execute_linear_async ex rec' f input opts st =
     execute_linear ex (run_flow ex n) f name input opts (set_version (f_version f) st)"
proof -
  from flow have f: "f_name f = name" "f_context_schema_ref f = None" "list_all neutral_step (f_steps f)"
    by (simp_all add: neutral_flow_def)
  have fin: "finish_flow_async ex (LinearFlow f) = finish_flow ex (LinearFlow f)"
    by (intro ext) (simp add: finish_flow_async_def finish_flow_def f(2) af_simps validate_flow_schema_def [of _ None]
        split: sum.split option.split)
  show ?thesis
    unfolding execute_linear_async_def execute_linear_def Let_def f(1) fin
    using dry by (auto intro!: bind_st_cong simp: linear_loop_async_eq [OF neutral rec] f new_trace_id_def set_version_def
        fire_def dest!: check_input_None split: option.split)
qed

lemma supported: "list_all neutral_step (f_steps f) \<Longrightarrow> assert_async_lane_supported (LinearFlow f) = Inr ()"
proof -
  have "map_err step_unsupported (enumerate i ss) = Inr (map (\<lambda>_. []) ss)" if "list_all neutral_step ss" for i ss
    using that by (induction ss arbitrary: i)
      (auto simp: step_unsupported_def wants_decision_def neutral_step_def default_arg_def)
  then show "list_all neutral_step (f_steps f) \<Longrightarrow> assert_async_lane_supported (LinearFlow f) = Inr ()"
    by (simp add: assert_async_lane_supported_def)
qed

lemma execute_flow_async_eq:
  fixes st :: "('w, 'c, 'k) xstate"
  assumes neutral: "neutral ex"
    and rec: "\<And>name input opts st. \<not> l_dry_run (x_local st) \<Longrightarrow> rec' name input opts st = run_flow ex n name input opts st"
    and dry: "\<not> l_dry_run (x_local st)"
  shows "execute_flow_async ex rec' name input vers force opts dyn st =
     execute_flow ex (run_flow ex n) name input vers force opts False ''skip'' dyn st"
proof (cases "ex_get_flow ex name vers")
  case (Inl e)
  then show ?thesis
    by (simp add: execute_flow_async_def execute_flow_def execute_flow_impl_def run_scope_def)
next
  case (Inr g)
  with neutral have "neutral_flow name g"
    by (simp add: neutral_def)
  then obtain f where g: "g = LinearFlow f" and nf: "neutral_flow name (LinearFlow f)"
    by (cases g) (auto simp: neutral_flow_def)
  from nf have sup: "assert_async_lane_supported (LinearFlow f) = Inr ()"
    by (simp add: neutral_flow_def supported)
  have "\<not> l_dry_run (enter_run False ''skip'' dyn (copy_local (x_local st)))"
    using dry by (simp add: enter_run_dry copy_local_def)
  have enter: "(case dyn of None \<Rightarrow> st1
      | Some d \<Rightarrow> st1\<lparr>x_local := x_local st1\<lparr>l_dynamic_params := dict_update (l_dynamic_params (x_local st1)) d\<rparr>\<rparr>) =
      st1\<lparr>x_local := enter_run False ''skip'' dyn (x_local st1)\<rparr>" for st1 :: "('w, 'c, 'k) xstate"
    by (simp add: enter_run_def Let_def split: option.split)
  show ?thesis
    using dry by (simp add: execute_flow_async_def execute_flow_def execute_flow_impl_def Inr g sup
        run_scope_def enter Let_def execute_linear_async_eq [OF neutral rec nf] enter_run_dry copy_local_def af_simps
        set_version_def split: option.split)
qed

lemma run_flow_async_eq:
  "neutral ex \<Longrightarrow> \<not> l_dry_run (x_local st) \<Longrightarrow> run_flow_async ex n name input opts st = run_flow ex n name input opts st"
proof (induction n arbitrary: name input opts st)
  case (Suc n)
  then show ?case
    by (simp add: execute_flow_async_eq [of ex "run_flow_async ex n"])
qed simp

text \<open>
  C22: On an executor whose flows are linear, without context schemas, decision candidates and fallback
  tools, \<open>execute_flow_async\<close> and \<open>execute_flow\<close> are the same outside of dry runs: the same result,
  events, tool calls and approvals, cache entries, snapshots and observed traces, with all retries
  and nested sub-flows.
\<close>

theorem async_lane_agrees:
  assumes "neutral ex" and "\<not> l_dry_run (x_local st)"
  shows "start_flow_async ex name input vers force opts dyn st =
     start_flow ex name input vers force opts False ''skip'' dyn st"
  unfolding start_flow_async_def start_flow_def
  by (rule execute_flow_async_eq [OF assms(1) run_flow_async_eq [OF assms(1)] assms(2)])

lemma timeless_neutral: "t_timeout t = None \<Longrightarrow> \<not> t_is_async t \<Longrightarrow> neutral_tool pl t"
  by (simp add: neutral_tool_def call_fn_async_def call_fn_def split: prod.split)

lemma two_neutral: "neutral sample_ex"
proof -
  have "neutral_tool sample_platform writer"
    by (rule timeless_neutral) (simp_all add: writer_def sample_tool_def)
  moreover have "ex_retrying sample_ex n wait retryable f a =
      retry_loop (sleep_at sample_ex) False wait retryable f (n - 1) 1 a" for n wait retryable f a
    by (simp add: sample_ex_def sample_executor_def sample_retrying_def sleep_at_def [abs_def] sample_platform_def)
  ultimately show ?thesis
    by (auto simp: neutral_def sample_ex_simps neutral_flow_def write_flow_def mk_flow_def mk_step_def neutral_step_def
        sample_platform_def split: if_split_asm)
qed

theorem async_lane_agrees_witness:
  "\<exists>st' res. start_flow_async sample_ex ''f'' [(''k'', VInt 1)] None False no_opts None sample_state = (st', Inr res) \<and>
     er_success res \<and> x_world st' = 1"
proof -
  have "\<not> l_dry_run (x_local sample_state)"
    by (simp add: sample_state_def fresh_local_def)
  from async_lane_agrees [OF two_neutral this] show ?thesis
    by (simp add: run_eval)
qed

section \<open>Where the lanes differ\<close>

definition siblings :: dag_flow where
  "siblings = mk_flow ''b'' [plain_dag_step ''flaky'' ''A'' [], plain_dag_step ''write'' ''B'' []]"

definition siblings_ex :: "(nat, unit, unit) executor" where
  "siblings_ex = sample_executor [DagFlow siblings] [(''write'', writer), (''flaky'', flaky)]"

lemma siblings_fields:
  "f_name siblings = ''b''" "f_version siblings = ''0.1.0''" "f_status siblings = ACTIVE"
  "f_input_schema_ref siblings = None" "f_output_schema_ref siblings = None" "f_context_schema_ref siblings = None"
  "f_on_context_collision siblings = Warn"
  "f_steps siblings = [plain_dag_step ''flaky'' ''A'' [], plain_dag_step ''write'' ''B'' []]"
  by (simp_all add: siblings_def mk_flow_def)

lemma siblings_levels:
  "compute_dag_levels dedup_first siblings = Inr [[f_steps siblings ! 0, f_steps siblings ! 1]]"
  by code_simp

lemma siblings_ex_simps:
  "ex_platform siblings_ex = sample_platform" "pl_set_order sample_platform = dedup_first"
  "pl_in_loop sample_platform = False" "pl_trace_id sample_platform = nat_text"
  "pl_ref_policy sample_platform = None"
  "ex_tools siblings_ex = [(''write'', writer), (''flaky'', flaky)]"
  "ex_middleware siblings_ex = []" "ex_step_cache siblings_ex = None" "ex_checkpointer siblings_ex = None"
  "ex_delete_on_success siblings_ex = False" "ex_decision siblings_ex = None"
  "ex_approval siblings_ex = Some (\<lambda>w c s. (w, Inr Approve))" "ex_strict_safety siblings_ex = False"
  "ex_max_side_effect siblings_ex = Some SE_WRITE" "ex_guardrail siblings_ex = None" "ex_redact siblings_ex = None"
  "ex_recorder siblings_ex = False" "ex_cost_profile siblings_ex = None" "ex_max_depth siblings_ex = 2"
  "ex_get_flow siblings_ex name v = (if name = ''b'' then Inr (DagFlow siblings) else Inl (FlowNotFoundError name None))"
  by (simp_all add: siblings_ex_def sample_executor_def sample_platform_def siblings_def mk_flow_def af_simps)

definition wrote :: "nat call list \<Rightarrow> bool" where
  "wrote cs = list_ex (\<lambda>c. case c of RanTool t i tool inp \<Rightarrow> t_name tool = ''write'' | _ \<Rightarrow> False) cs"

lemmas async_eval =
  start_flow_async_def execute_flow_async_def assert_async_lane_supported_def dag_unsupported_def step_unsupported_def
  wants_decision_def default_arg_def run_scope_def execute_dag_async_def dag_body_async_def dag_level_async_def
  async_proxy_def execute_step_async_def execute_tool_step_async_def gated_call_async_def cache_key_async_def
  call_tool_async_def invoke_tool_async_def attempt_async_def run_logged_async_def run_async_def call_fn_async_def
  apply_on_error_async_def finish_flow_async_def execute_linear_async_def linear_step_async_def

text \<open>
  The asynchronous lane runs every step of a DAG level before it looks at the results: after a
  failed step its sibling still writes, and the write is missing from the log of the run, whereas
  the synchronous lane stops at the failed step.
\<close>

theorem async_dag_runs_past_failure:
  "\<exists>st1 r1 st2 r2.
     start_flow siblings_ex ''b'' [] None False no_opts False ''skip'' None sample_state = (st1, Inr r1) \<and>
     \<not> er_success r1 \<and> \<not> wrote (x_calls st1) \<and>
     start_flow_async siblings_ex ''b'' [] None False no_opts None sample_state = (st2, Inr r2) \<and>
     \<not> er_success r2 \<and> wrote (x_calls st2) \<and>
     list_all (\<lambda>r. sd_tool_name (sr_data r) = ''flaky'') (er_log r2)"
  by (simp add: dag_eval siblings_ex_simps siblings_fields siblings_levels wrote_def async_eval)

definition refusing :: schema where
  "refusing = (object_schema ''C'')\<lparr>sch_validate := \<lambda>_. Inl (ValidationError ''C'')\<rparr>"

definition checked_flow :: any_flow where
  "checked_flow = LinearFlow ((mk_flow ''f'' [mk_step\<lparr>s_tool_name := Some ''write''\<rparr>])\<lparr>f_context_schema_ref := Some ''m:C''\<rparr>)"

definition checked_ex :: "(nat, unit, unit) executor" where
  "checked_ex = (sample_executor [checked_flow] [(''write'', writer)])
     \<lparr>ex_platform := sample_platform\<lparr>pl_load_class := (\<lambda>_ _. Inr (SchemaClass refusing))\<rparr>\<rparr>"

text \<open>
  The asynchronous lane does not check the context schema of a flow: a run whose context it refuses
  fails in the synchronous lane and succeeds in the asynchronous one.
\<close>

theorem async_ignores_context_schema:
  "\<exists>st1 r1 st2 r2.
     start_flow checked_ex ''f'' [] None False no_opts False ''skip'' None sample_state = (st1, Inr r1) \<and>
     \<not> er_success r1 \<and>
     start_flow_async checked_ex ''f'' [] None False no_opts None sample_state = (st2, Inr r2) \<and> er_success r2"
  by (simp add: run_eval checked_ex_def sample_executor_def checked_flow_def refusing_def sample_platform_def
      resolve_schema_def resolve_class_ref_def async_eval)

end
