(* ===== verification/Float64.thy ===== *)
theory Float64
  imports Complex_Main
begin

text \<open>
  The floating-point arithmetic of Python, for the parts of the program that compute rates and
  scores.  A float is the rational number it stands for; an operation computes the exact result
  and rounds it to 53 significant bits, ties to even.  Overflow, underflow and the special values
  do not occur in these computations and are left out.
\<close>

section \<open>Rounding to an integer\<close>

text \<open>Python's \<open>round(x)\<close>: to the nearest integer, ties to the even one.\<close>

definition round_even :: "rat \<Rightarrow> int" where
  "round_even x =
     (let n = \<lfloor>x\<rfloor>; d = x - of_int n
      in if d < 1 / 2 then n else if 1 / 2 < d then n + 1 else if even n then n else n + 1)"

lemma round_even_of_int [simp]: "round_even (of_int n) = n"
  by (simp add: round_even_def)

lemma round_even_numeral [simp]: "round_even (numeral k) = numeral k"
  using round_even_of_int[of "numeral k"] by simp

lemma round_even_bounds: "\<lfloor>x\<rfloor> \<le> round_even x" "round_even x \<le> \<lfloor>x\<rfloor> + 1"
  by (auto simp: round_even_def Let_def)

lemma round_even_mono: "x \<le> y \<Longrightarrow> round_even x \<le> round_even y"
proof -
  assume le: "x \<le> y"
  then have fl: "\<lfloor>x\<rfloor> \<le> \<lfloor>y\<rfloor>" by (rule floor_mono)
  show ?thesis
  proof (cases "\<lfloor>x\<rfloor> = \<lfloor>y\<rfloor>")
    case True
    with le show ?thesis by (auto simp: round_even_def Let_def)
  next
    case False
    then have "\<lfloor>x\<rfloor> + 1 \<le> \<lfloor>y\<rfloor>" using fl by simp
    then show ?thesis using round_even_bounds(2)[of x] round_even_bounds(1)[of y] by linarith
  qed
qed

section \<open>Rounding to 53 bits\<close>

function bitlen :: "int \<Rightarrow> int" where
  "bitlen n = (if n \<le> 0 then 0 else 1 + bitlen (n div 2))"
  by pat_completeness auto

termination by (relation "measure nat") auto

declare bitlen.simps [simp del]

lemma bitlen_nonneg: "0 \<le> bitlen n"
  by (induction n rule: bitlen.induct) (subst bitlen.simps, simp)

lemma bitlen_pos: "0 < n \<Longrightarrow> 0 < bitlen n"
  using bitlen_nonneg[of "n div 2"] by (subst bitlen.simps) simp

lemma bitlen_bounds: "0 < n \<Longrightarrow> 2 ^ (nat (bitlen n) - 1) \<le> n \<and> n < 2 ^ nat (bitlen n)"
proof (induction n rule: bitlen.induct)
  case (1 n)
  have len: "nat (bitlen n) = Suc (nat (bitlen (n div 2)))"
    using 1(2) bitlen_nonneg[of "n div 2"] by (subst bitlen.simps) simp
  show ?case
  proof (cases "n div 2 = 0")
    case True
    with 1 have "n = 1" by simp
    then show ?thesis by (simp add: bitlen.simps)
  next
    case False
    with 1(2) have half: "0 < n div 2" by simp
    define k where "k = nat (bitlen (n div 2))"
    have ih: "2 ^ (k - 1) \<le> n div 2" "n div 2 < 2 ^ k"
      using 1(1)[OF _ half] 1(2) by (auto simp: k_def)
    have "0 < k" using bitlen_pos[OF half] by (simp add: k_def)
    then have twice: "(2::int) ^ k = 2 * 2 ^ (k - 1)" by (metis One_nat_def Suc_pred power_Suc)
    have "2 * (n div 2) \<le> n" "n < 2 * (n div 2) + 2" by auto
    with ih twice show ?thesis unfolding len k_def[symmetric] by simp
  qed
qed

text \<open>The exponent: \<open>2\<^sup>e \<le> x < 2\<^sup>e\<^sup>+\<^sup>1\<close>.\<close>

definition exponent :: "rat \<Rightarrow> int" where
  "exponent x =
     (let (a, b) = quotient_of x; d = bitlen a - bitlen b
      in if 2 powi d \<le> x then d else d - 1)"

lemma exponent_bounds:
  assumes "0 < x"
  shows "2 powi exponent x \<le> x" "x < 2 powi (exponent x + 1)"
proof -
  obtain a b where q: "quotient_of x = (a, b)" by fastforce
  have b: "0 < b" using quotient_of_denom_pos[OF q] .
  have x: "x = of_int a / of_int b" using quotient_of_div[OF q] .
  with assms b have a: "0 < a" by (simp add: zero_less_divide_iff)
  define m n where "m = nat (bitlen a)" and "n = nat (bitlen b)"
  have mn: "0 < m" "0 < n" "bitlen a = int m" "bitlen b = int n"
    using bitlen_pos[OF a] bitlen_pos[OF b] by (auto simp: m_def n_def)
  have A': "(2::rat) ^ (m - 1) \<le> of_int a" "(of_int a :: rat) < 2 ^ m"
    using bitlen_bounds[OF a] of_int_le_iff[of "2 ^ (m - 1)" a, where ?'a = rat]
      of_int_less_iff[of a "2 ^ m", where ?'a = rat] by (auto simp: m_def)
  have B': "(2::rat) ^ (n - 1) \<le> of_int b" "(of_int b :: rat) < 2 ^ n"
    using bitlen_bounds[OF b] of_int_le_iff[of "2 ^ (n - 1)" b, where ?'a = rat]
      of_int_less_iff[of b "2 ^ n", where ?'a = rat] by (auto simp: n_def)
  have up: "x < 2 powi (int m - int n + 1)"
  proof -
    have "x \<le> of_int a / 2 ^ (n - 1)" unfolding x using A' B' a b by (intro divide_left_mono mult_pos_pos) auto
    also have "\<dots> < 2 ^ m / 2 ^ (n - 1)" using A' by (intro divide_strict_right_mono) auto
    also have "\<dots> = 2 powi (int m - int n + 1)"
      using mn by (simp add: power_int_diff power_int_add power_diff flip: power_int_of_nat)
    finally show ?thesis .
  qed
  have lo: "2 powi (int m - int n - 1) \<le> x"
  proof -
    have "2 powi (int m - int n - 1) = (2::rat) ^ (m - 1) / 2 ^ n"
      using mn by (simp add: power_int_diff power_int_add power_diff flip: power_int_of_nat)
    also have "\<dots> \<le> of_int a / 2 ^ n" using A' by (intro divide_right_mono) auto
    also have "\<dots> \<le> x" unfolding x using B' b a by (intro divide_left_mono mult_pos_pos) auto
    finally show ?thesis .
  qed
  show "2 powi exponent x \<le> x" "x < 2 powi (exponent x + 1)"
    using up lo by (simp_all add: exponent_def q mn Let_def algebra_simps)
qed

lemma exponent_mono:
  assumes "0 < x" "x \<le> y"
  shows "exponent x \<le> exponent y"
proof (rule ccontr)
  assume "\<not> exponent x \<le> exponent y"
  then have "(2::rat) powi (exponent y + 1) \<le> 2 powi exponent x" by (intro power_int_increasing) auto
  then show False
    using exponent_bounds[of x] exponent_bounds[of y] assms by linarith
qed

text \<open>The float nearest to a positive rational, and to any.\<close>

definition ulp :: "rat \<Rightarrow> rat" where
  "ulp x = 2 powi (exponent x - 52)"

definition fl_pos :: "rat \<Rightarrow> rat" where
  "fl_pos x = of_int (round_even (x / ulp x)) * ulp x"

definition fl :: "rat \<Rightarrow> rat" where
  "fl x = (if x = 0 then 0 else if x < 0 then - fl_pos (- x) else fl_pos x)"

lemma ulp_pos [simp]: "0 < ulp x" by (simp add: ulp_def)

lemma fl_pos_bounds:
  assumes "0 < x"
  shows "2 powi exponent x \<le> fl_pos x" "fl_pos x \<le> 2 powi (exponent x + 1)"
proof -
  have e: "2 powi exponent x = of_int (2 ^ 52) * ulp x" "2 powi (exponent x + 1) = of_int (2 ^ 53) * ulp x"
    by (simp_all add: ulp_def power_int_add power_int_diff)
  have "of_int (2 ^ 52) \<le> x / ulp x" "x / ulp x \<le> of_int (2 ^ 53)"
    using exponent_bounds[OF assms] unfolding e
    by (auto simp: le_divide_eq divide_le_eq)
  then have "2 ^ 52 \<le> round_even (x / ulp x)" "round_even (x / ulp x) \<le> 2 ^ 53"
    using round_even_mono[of "of_int (2 ^ 52)" "x / ulp x"] round_even_mono[of "x / ulp x" "of_int (2 ^ 53)"]
    unfolding round_even_of_int by blast+
  then show "2 powi exponent x \<le> fl_pos x" "fl_pos x \<le> 2 powi (exponent x + 1)"
    unfolding e fl_pos_def
    by (simp_all only: mult_le_cancel_right_pos[OF ulp_pos] of_int_le_iff)
qed

lemma fl_pos_mono:
  assumes "0 < x" "x \<le> y"
  shows "fl_pos x \<le> fl_pos y"
proof (cases "exponent x = exponent y")
  case True
  then have "round_even (x / ulp x) \<le> round_even (y / ulp y)"
    using assms by (intro round_even_mono) (simp add: ulp_def divide_right_mono)
  then show ?thesis using True by (simp add: fl_pos_def ulp_def)
next
  case False
  then have "exponent x + 1 \<le> exponent y" using exponent_mono[OF assms] by simp
  then have "(2::rat) powi (exponent x + 1) \<le> 2 powi exponent y" by (intro power_int_increasing) auto
  then show ?thesis using fl_pos_bounds[of x] fl_pos_bounds[of y] assms by linarith
qed

lemma fl_pos_pos: "0 < x \<Longrightarrow> 0 < fl_pos x"
  using fl_pos_bounds(1)[of x] by (meson less_le_trans zero_less_numeral zero_less_power_int)

theorem fl_mono: "x \<le> y \<Longrightarrow> fl x \<le> fl y"
  using fl_pos_mono[of x y] fl_pos_mono[of "- y" "- x"] fl_pos_pos[of y] fl_pos_pos[of "- x"]
  by (auto simp: fl_def)

lemma fl_0 [simp]: "fl 0 = 0" by (simp add: fl_def)

lemma fl_1 [simp]: "fl 1 = 1"
  by (simp add: fl_def fl_pos_def ulp_def exponent_def bitlen.simps)

lemma fl_unit: "0 \<le> x \<Longrightarrow> x \<le> 1 \<Longrightarrow> 0 \<le> fl x \<and> fl x \<le> 1"
  using fl_mono[of 0 x] fl_mono[of x 1] by simp

section \<open>Operations\<close>

definition fadd :: "rat \<Rightarrow> rat \<Rightarrow> rat" where "fadd x y = fl (x + y)"
definition fmul :: "rat \<Rightarrow> rat \<Rightarrow> rat" where "fmul x y = fl (x * y)"
definition fdiv :: "rat \<Rightarrow> rat \<Rightarrow> rat" where "fdiv x y = fl (x / y)"

text \<open>\<open>round(x, n)\<close>: the exact value to \<open>n\<close> decimals, read back as a float.\<close>

definition round_places :: "nat \<Rightarrow> rat \<Rightarrow> rat" where
  "round_places n x = fl (of_int (round_even (x * 10 ^ n)) / 10 ^ n)"

lemma round_places_mono: "x \<le> y \<Longrightarrow> round_places n x \<le> round_places n y"
  unfolding round_places_def
  by (intro fl_mono divide_right_mono) (auto intro!: round_even_mono mult_right_mono)

lemma round_places_int [simp]: "round_places n 0 = 0" "round_places n 1 = 1"
  using round_even_of_int[of "10 ^ n"] round_even_of_int[of 0] by (simp_all add: round_places_def)

lemma round_places_unit: "0 \<le> x \<Longrightarrow> x \<le> 1 \<Longrightarrow> 0 \<le> round_places n x \<and> round_places n x \<le> 1"
  using round_places_mono[of 0 x n] round_places_mono[of x 1 n] by simp

lemma fdiv_unit: "0 \<le> x \<Longrightarrow> x \<le> y \<Longrightarrow> 0 < y \<Longrightarrow> 0 \<le> fdiv x y \<and> fdiv x y \<le> 1"
  unfolding fdiv_def by (intro fl_unit) (simp_all add: divide_le_eq)

end
