(* ===== verification/Observer.thy ===== *)
theory Observer
  imports Platform Float64 Stores
begin

text \<open>
  \<open>chainweaver/observation.py\<close> and \<open>chainweaver/observer.py\<close>: the recorder of tool calls, the observer
  that keeps completed traces, and the miner that counts repeated sequences of tools and turns
  them into suggested flows.  The readings of the two clocks and the fresh identifiers are
  arguments of the operations; the description of a suggested flow is text built by the argument
  \<open>describe\<close>.  The results: a suggestion is made for exactly the sequences that are frequent
  enough and not dominated, and every frequent sequence is part of a suggested one.
\<close>

section \<open>The recorder\<close>

record observed_step =
  os_tool :: string
  os_inputs :: "val dict"
  os_outputs :: "val dict option"
  os_recorded_at :: nat
  os_duration_ms :: rat

record observed_trace =
  ot_id :: string
  ot_source :: string
  ot_started_at :: nat
  ot_ended_at :: "nat option"
  ot_steps :: "observed_step list"

text \<open>One reading of \<open>perf_counter\<close> and of the wall clock.\<close>

record reading =
  rd_perf :: rat
  rd_utc :: nat

record recorder =
  rc_open :: "(string \<times> observed_trace) list"
  rc_open_perf :: "(string \<times> rat) list"
  rc_closed :: "observed_trace list"
  rc_step_perf :: "(string \<times> rat) list"

definition new_recorder :: recorder where
  "new_recorder = \<lparr>rc_open = [], rc_open_perf = [], rc_closed = [], rc_step_perf = []\<rparr>"

definition start_trace :: "string \<Rightarrow> reading \<Rightarrow> string \<Rightarrow> recorder \<Rightarrow> recorder" where
  "start_trace tid now source r =
     r\<lparr>rc_open := dict_set (rc_open r) tid
          \<lparr>ot_id = tid, ot_source = source, ot_started_at = rd_utc now, ot_ended_at = None, ot_steps = []\<rparr>,
       rc_open_perf := dict_set (rc_open_perf r) tid (rd_perf now)\<rparr>"

definition unknown_trace :: exn where
  "unknown_trace = PyException ''KeyError'' ''Unknown or closed trace_id''"

text \<open>The time since the previous step, or since the trace was opened.\<close>

definition elapsed_ms :: "string \<Rightarrow> reading \<Rightarrow> recorder \<Rightarrow> exn + rat" where
  "elapsed_ms tid now r =
     (case dict_get (rc_open_perf r) tid of
        None \<Rightarrow> Inl (PyException ''KeyError'' tid)
      | Some opened \<Rightarrow>
          (let previous = (case dict_get (rc_step_perf r) tid of None \<Rightarrow> opened | Some p \<Rightarrow> p)
           in Inr (fmul (fl (rd_perf now - previous)) 1000)))"

definition record_step ::
  "string \<Rightarrow> string \<Rightarrow> val dict \<Rightarrow> val dict option \<Rightarrow> rat option \<Rightarrow> reading \<Rightarrow> recorder \<Rightarrow> exn + recorder" where
  "record_step tid tool_name inputs outputs duration now r =
     (case dict_get (rc_open r) tid of
        None \<Rightarrow> Inl unknown_trace
      | Some trace \<Rightarrow>
          bind_err (case duration of Some d \<Rightarrow> Inr d | None \<Rightarrow> elapsed_ms tid now r) (\<lambda>d.
            Inr (r\<lparr>rc_step_perf := dict_set (rc_step_perf r) tid (rd_perf now),
                   rc_open := dict_set (rc_open r) tid
                     (trace\<lparr>ot_steps := ot_steps trace @
                        [\<lparr>os_tool = tool_name, os_inputs = inputs, os_outputs = outputs,
                          os_recorded_at = rd_utc now, os_duration_ms = d\<rparr>]\<rparr>)\<rparr>)))"

definition end_trace :: "string \<Rightarrow> reading \<Rightarrow> recorder \<Rightarrow> exn + recorder \<times> observed_trace" where
  "end_trace tid now r =
     (case dict_get (rc_open r) tid of
        None \<Rightarrow> Inl unknown_trace
      | Some trace \<Rightarrow>
          (let t = trace\<lparr>ot_ended_at := Some (rd_utc now)\<rparr>
           in Inr (r\<lparr>rc_open := dict_del (rc_open r) tid, rc_open_perf := dict_del (rc_open_perf r) tid,
                     rc_step_perf := dict_del (rc_step_perf r) tid, rc_closed := rc_closed r @ [t]\<rparr>, t)))"

definition list_traces :: "bool \<Rightarrow> recorder \<Rightarrow> observed_trace list" where
  "list_traces include_open r = rc_closed r @ (if include_open then map snd (rc_open r) else [])"

section \<open>The observer\<close>

record observer =
  ob_recorder :: recorder
  ob_current_id :: "string option"
  ob_completed :: "observed_trace list"
  ob_max_traces :: "int option"

definition new_observer :: "int option \<Rightarrow> exn + observer" where
  "new_observer max_traces =
     (if (case max_traces of None \<Rightarrow> False | Some m \<Rightarrow> m < 1)
      then Inl (ValueError ''max_traces must be >= 1 or None'')
      else Inr \<lparr>ob_recorder = new_recorder, ob_current_id = None, ob_completed = [],
                ob_max_traces = max_traces\<rparr>)"

text \<open>
  \<open>record\<close>: a trace is opened first when none is; \<open>fresh\<close> and \<open>opened\<close> are its identifier and
  the clocks at that moment.
\<close>

definition observe ::
  "string \<Rightarrow> reading \<Rightarrow> string \<Rightarrow> val dict \<Rightarrow> val dict option \<Rightarrow> rat option \<Rightarrow> reading \<Rightarrow> observer
     \<Rightarrow> observer \<times> exn option" where
  "observe fresh opened tool_name inputs outputs duration now ob =
     (let ob1 = (case ob_current_id ob of
                   Some _ \<Rightarrow> ob
                 | None \<Rightarrow> ob\<lparr>ob_current_id := Some fresh,
                              ob_recorder := start_trace fresh opened ''observer'' (ob_recorder ob)\<rparr>)
      in case record_step (the (ob_current_id ob1)) tool_name inputs outputs duration now (ob_recorder ob1) of
           Inl e \<Rightarrow> (ob1, Some e)
         | Inr r \<Rightarrow> (ob1\<lparr>ob_recorder := r\<rparr>, None))"

text \<open>The slice \<open>xs[-m:]\<close> for a positive \<open>m\<close>, taken when there are more.\<close>

definition keep_newest :: "int option \<Rightarrow> 'a list \<Rightarrow> 'a list" where
  "keep_newest limit xs =
     (case limit of
        None \<Rightarrow> xs
      | Some m \<Rightarrow> (if m < int (length xs) then drop (length xs - nat m) xs else xs))"

definition end_observation :: "reading \<Rightarrow> observer \<Rightarrow> exn + observer \<times> observed_trace" where
  "end_observation now ob =
     (case ob_current_id ob of
        None \<Rightarrow> Inl (ValueError ''No open trace to end; call record() before end_trace().'')
      | Some tid \<Rightarrow>
          bind_err (end_trace tid now (ob_recorder ob)) (\<lambda>(r, trace).
            (let ob1 = ob\<lparr>ob_recorder := r, ob_current_id := None\<rparr>
             in Inr (if ot_steps trace = [] then ob1
                     else ob1\<lparr>ob_completed :=
                       keep_newest (ob_max_traces ob) (ob_completed ob @ [trace])\<rparr>, trace))))"

definition from_traces :: "observed_trace list \<Rightarrow> int option \<Rightarrow> exn + observer" where
  "from_traces traces max_traces =
     bind_err (new_observer max_traces) (\<lambda>ob.
       Inr (ob\<lparr>ob_completed := keep_newest max_traces (filter (\<lambda>t. ot_steps t \<noteq> []) traces)\<rparr>))"

section \<open>Mining\<close>

text \<open>A \<open>Counter\<close>: \<open>c[k] += 1\<close>, and the reading of a missing key as zero.\<close>

definition counted :: "('k \<times> nat) list \<Rightarrow> 'k \<Rightarrow> nat" where
  "counted c k = (case dict_get c k of None \<Rightarrow> 0 | Some n \<Rightarrow> n)"

definition bump :: "('k \<times> nat) list \<Rightarrow> 'k \<Rightarrow> ('k \<times> nat) list" where
  "bump c k = dict_set c k (counted c k + 1)"

text \<open>The contiguous sub-sequences of one trace with their positions, in the order of the loops.\<close>

definition patterns :: "nat \<Rightarrow> int option \<Rightarrow> string list \<Rightarrow> (nat \<times> string list) list" where
  "patterns min_length max_length seq =
     (let n = length seq;
          bound = (case max_length of None \<Rightarrow> n | Some m \<Rightarrow> min (nat m) n)
      in concat (map (\<lambda>start. map (\<lambda>len. (start, take len (drop start seq)))
           [min_length ..< min bound (n - start) + 1]) [0 ..< n]))"

record miner =
  mn_occurrences :: "(string list \<times> nat) list"
  mn_traces_with_pattern :: "(string list \<times> nat) list"
  mn_traces_with_tool :: "(string \<times> nat) list"
  mn_representative :: "(string list \<times> nat \<times> nat) list"

definition count_pattern :: "nat \<Rightarrow> nat \<times> string list \<Rightarrow> miner \<Rightarrow> miner" where
  "count_pattern trace_index = (\<lambda>(start, pattern) mn.
     mn\<lparr>mn_occurrences := bump (mn_occurrences mn) pattern,
        mn_representative :=
          (if dict_has (mn_representative mn) pattern then mn_representative mn
           else dict_set (mn_representative mn) pattern (trace_index, start))\<rparr>)"

text \<open>
  One trace.  The two sets are iterated only to count, so the order of their elements does not
  matter; the order of first appearance is used.
\<close>

definition count_trace ::
  "nat \<Rightarrow> int option \<Rightarrow> miner \<Rightarrow> nat \<times> string list \<Rightarrow> miner" where
  "count_trace min_length max_length = (\<lambda>mn (trace_index, seq).
     (let ps = patterns min_length max_length seq;
          mn1 = mn\<lparr>mn_traces_with_tool := foldl bump (mn_traces_with_tool mn) (dedup_first seq)\<rparr>;
          mn2 = fold (count_pattern trace_index) ps mn1
      in mn2\<lparr>mn_traces_with_pattern :=
               foldl bump (mn_traces_with_pattern mn2) (dedup_first (map snd ps))\<rparr>))"

definition tool_sequence :: "observed_trace \<Rightarrow> string list" where
  "tool_sequence trace = map os_tool (ot_steps trace)"

definition mine :: "nat \<Rightarrow> int option \<Rightarrow> string list list \<Rightarrow> miner" where
  "mine min_length max_length seqs =
     foldl (count_trace min_length max_length)
       \<lparr>mn_occurrences = [], mn_traces_with_pattern = [], mn_traces_with_tool = [], mn_representative = []\<rparr>
       (enumerate 0 seqs)"

definition is_contiguous_subsequence :: "string list \<Rightarrow> string list \<Rightarrow> bool" where
  "is_contiguous_subsequence short long =
     (length short < length long \<and>
      list_ex (\<lambda>i. take (length short) (drop i long) = short) [0 ..< length long - length short + 1])"

definition collapse_subsumed :: "(string list \<times> nat) list \<Rightarrow> (string list \<times> nat) list" where
  "collapse_subsumed qualifying =
     filter (\<lambda>(pattern, count).
       \<not> list_ex (\<lambda>(other, c). other \<noteq> pattern \<and> c = count \<and> is_contiguous_subsequence pattern other)
           qualifying) qualifying"

text \<open>
  The flow built from one occurrence of a pattern: the first step reads every observed input,
  the later ones those that an earlier step produced.
\<close>

fun wire_steps :: "set_order \<Rightarrow> bool \<Rightarrow> string list \<Rightarrow> observed_step list \<Rightarrow> flow_step list" where
  "wire_steps ord first upstream [] = []"
| "wire_steps ord first upstream (ob # obs) =
     (let input_keys = ord (dict_keys (os_inputs ob));
          keys = (if first then input_keys else filter (\<lambda>k. k \<in> set upstream) input_keys)
      in mk_step\<lparr>s_tool_name := Some (os_tool ob), s_input_mapping := map (\<lambda>k. (k, VStr k)) keys\<rparr> #
         wire_steps ord False
           (upstream @ (case os_outputs ob of None \<Rightarrow> [] | Some out \<Rightarrow> dict_keys out)) obs)"

definition build_flow ::
  "set_order \<Rightarrow> (string list \<Rightarrow> nat \<Rightarrow> rat \<Rightarrow> string) \<Rightarrow> string list \<Rightarrow> observed_trace \<Rightarrow> nat \<Rightarrow> nat \<Rightarrow> rat \<Rightarrow> flow" where
  "build_flow ord describe pattern example start_pos occurrences confidence =
     (mk_flow (''suggested__'' @ join_str ''__'' pattern)
        (wire_steps ord True [] (take (length pattern) (drop start_pos (ot_steps example)))))
     \<lparr>f_version := ''0.0.0'', f_description := describe pattern occurrences confidence,
      f_governance := default_governance
        \<lparr>lifecycle := LC_SUGGESTED, replaces_tools := pattern,
         estimated_model_calls_removed := length pattern * occurrences\<rparr>\<rparr>"

record flow_suggestion =
  fg_flow :: flow
  fg_tools :: "string list"
  fg_occurrences :: nat
  fg_traces_with_pattern :: nat
  fg_confidence :: rat
  fg_example_trace :: observed_trace

definition estimated_llm_calls_avoided :: "flow_suggestion \<Rightarrow> nat" where
  "estimated_llm_calls_avoided s = length (fg_tools s) * fg_occurrences s"

definition confidence_of :: "miner \<Rightarrow> string list \<Rightarrow> rat" where
  "confidence_of mn pattern =
     (let start_total = counted (mn_traces_with_tool mn) (hd pattern)
      in if start_total = 0 then 0
         else round_places 6 (fdiv (of_nat (counted (mn_traces_with_pattern mn) pattern)) (of_nat start_total)))"

definition make_suggestion ::
  "set_order \<Rightarrow> (string list \<Rightarrow> nat \<Rightarrow> rat \<Rightarrow> string) \<Rightarrow> observed_trace list \<Rightarrow> miner \<Rightarrow> string list \<times> nat
     \<Rightarrow> flow_suggestion" where
  "make_suggestion ord describe completed mn = (\<lambda>(pattern, count).
     (let (trace_index, start_pos) = the (dict_get (mn_representative mn) pattern);
          example = completed ! trace_index;
          confidence = confidence_of mn pattern
      in \<lparr>fg_flow = build_flow ord describe pattern example start_pos count confidence, fg_tools = pattern,
          fg_occurrences = count,
          fg_traces_with_pattern = counted (mn_traces_with_pattern mn) pattern,
          fg_confidence = confidence, fg_example_trace = example\<rparr>))"

definition qualifying_patterns ::
  "nat \<Rightarrow> int option \<Rightarrow> int \<Rightarrow> bool \<Rightarrow> string list list \<Rightarrow> (string list \<times> nat) list" where
  "qualifying_patterns min_length max_length min_occurrences collapse seqs =
     (let qualifying = filter (\<lambda>(pattern, count). min_occurrences \<le> int count)
            (mn_occurrences (mine min_length max_length seqs))
      in if collapse then collapse_subsumed qualifying else qualifying)"

definition suggest_observed ::
  "set_order \<Rightarrow> (string list \<Rightarrow> nat \<Rightarrow> rat \<Rightarrow> string) \<Rightarrow> int \<Rightarrow> int \<Rightarrow> int option \<Rightarrow> bool \<Rightarrow> observer
     \<Rightarrow> exn + flow_suggestion list" where
  "suggest_observed ord describe min_occurrences min_length max_length collapse ob =
     (if min_occurrences < 1 then Inl (ValueError ''min_occurrences must be >= 1'')
      else if min_length < 1 then Inl (ValueError ''min_length must be >= 1'')
      else if (case max_length of None \<Rightarrow> False | Some m \<Rightarrow> m < min_length)
      then Inl (ValueError ''max_length must be >= min_length'')
      else
        (let seqs = map tool_sequence (ob_completed ob);
             mn = mine (nat min_length) max_length seqs;
             qualifying = qualifying_patterns (nat min_length) max_length min_occurrences collapse seqs
         in Inr (sort_key (\<lambda>s. (- int (fg_occurrences s), - int (length (fg_tools s)), f_name (fg_flow s)))
              (map (make_suggestion ord describe (ob_completed ob) mn) qualifying))))"

section \<open>What the counters hold\<close>

lemma counted_bump: "counted (bump c k) x = counted c x + (if x = k then 1 else 0)"
  by (simp add: counted_def bump_def dict_get_set)

lemma counted_foldl_bump: "counted (foldl bump c xs) x = counted c x + count_list xs x"
  by (induction xs arbitrary: c) (auto simp: counted_bump)

lemma keys_bump: "set (dict_keys (bump c k)) = insert k (set (dict_keys c))"
  unfolding bump_def by (rule dict_keys_set)

lemma keys_foldl_bump: "set (dict_keys (foldl bump c xs)) = set (dict_keys c) \<union> set xs"
proof (induction xs arbitrary: c)
  case (Cons x xs)
  show ?case by (simp only: foldl_Cons Cons.IH keys_bump) simp
qed simp

lemma dict_ok_foldl_bump: "dict_ok c \<Longrightarrow> dict_ok (foldl bump c xs)"
  by (induction xs arbitrary: c) (auto simp: bump_def dict_ok_set)

lemma counted_entry: "dict_get c x = Some n \<Longrightarrow> counted c x = n"
  by (simp add: counted_def)

lemma bump_entry_iff: "(x, n) \<in> set (foldl bump [] xs) \<longleftrightarrow> x \<in> set xs \<and> n = count_list xs x"
proof -
  have ok: "dict_ok (foldl bump [] xs)" by (simp add: dict_ok_foldl_bump)
  have keys: "x \<in> fst ` set (foldl bump [] xs) \<longleftrightarrow> x \<in> set xs"
    using keys_foldl_bump[of "[]" xs] by simp
  have entry: "m = count_list xs x" if "(x, m) \<in> set (foldl bump [] xs)" for m
    using counted_entry[OF map_of_is_SomeI[OF ok that]]
    by (simp add: counted_foldl_bump) (simp add: counted_def)
  show ?thesis
  proof
    assume "(x, n) \<in> set (foldl bump [] xs)"
    then show "x \<in> set xs \<and> n = count_list xs x" using entry keys by force
  next
    assume a: "x \<in> set xs \<and> n = count_list xs x"
    then obtain m where "(x, m) \<in> set (foldl bump [] xs)" using keys by force
    with a entry show "(x, n) \<in> set (foldl bump [] xs)" by metis
  qed
qed

text \<open>The passes over the traces, counter by counter.\<close>

lemma fold_count_pattern:
  "mn_occurrences (fold (count_pattern ti) ps mn) = foldl bump (mn_occurrences mn) (map snd ps)"
  "mn_traces_with_pattern (fold (count_pattern ti) ps mn) = mn_traces_with_pattern mn"
  "mn_traces_with_tool (fold (count_pattern ti) ps mn) = mn_traces_with_tool mn"
  by (induction ps arbitrary: mn) (auto simp: count_pattern_def)

lemma mine_occurrences:
  "mn_occurrences (mine lo hi seqs) = foldl bump [] (concat (map (\<lambda>seq. map snd (patterns lo hi seq)) seqs))"
proof -
  have "mn_occurrences (foldl (count_trace lo hi) mn (enumerate k seqs)) =
      foldl bump (mn_occurrences mn) (concat (map (\<lambda>seq. map snd (patterns lo hi seq)) seqs))" for mn k
    by (induction seqs arbitrary: mn k) (simp_all add: count_trace_def Let_def fold_count_pattern)
  then show ?thesis by (simp add: mine_def)
qed

lemma mine_traces:
  "mn_traces_with_pattern (mine lo hi seqs) =
     foldl bump [] (concat (map (\<lambda>seq. dedup_first (map snd (patterns lo hi seq))) seqs))"
  "mn_traces_with_tool (mine lo hi seqs) = foldl bump [] (concat (map dedup_first seqs))"
proof -
  have "mn_traces_with_pattern (foldl (count_trace lo hi) mn (enumerate k seqs)) =
      foldl bump (mn_traces_with_pattern mn) (concat (map (\<lambda>seq. dedup_first (map snd (patterns lo hi seq))) seqs))"
    "mn_traces_with_tool (foldl (count_trace lo hi) mn (enumerate k seqs)) =
      foldl bump (mn_traces_with_tool mn) (concat (map dedup_first seqs))" for mn k
    by (induction seqs arbitrary: mn k) (simp_all add: count_trace_def Let_def fold_count_pattern)
  then show "mn_traces_with_pattern (mine lo hi seqs) =
     foldl bump [] (concat (map (\<lambda>seq. dedup_first (map snd (patterns lo hi seq))) seqs))"
    "mn_traces_with_tool (mine lo hi seqs) = foldl bump [] (concat (map dedup_first seqs))"
    by (simp_all add: mine_def)
qed

text \<open>The number of positions at which a pattern stands in a sequence, whatever the bounds.\<close>

definition occurrences_in :: "string list \<Rightarrow> string list \<Rightarrow> nat" where
  "occurrences_in p seq = length (filter (\<lambda>i. take (length p) (drop i seq) = p) [0 ..< length seq])"

definition length_in_range :: "nat \<Rightarrow> int option \<Rightarrow> string list \<Rightarrow> bool" where
  "length_in_range lo hi p \<longleftrightarrow> lo \<le> length p \<and> (case hi of None \<Rightarrow> True | Some m \<Rightarrow> int (length p) \<le> m)"

lemma count_list_concat: "count_list (concat xss) x = sum_list (map (\<lambda>xs. count_list xs x) xss)"
  by (induction xss) auto

lemma count_takes:
  assumes "k \<le> length xs + 1"
  shows "count_list (map (\<lambda>len. take len xs) [lo ..< k]) p =
     (if lo \<le> length p \<and> length p < k \<and> take (length p) xs = p then 1 else 0)"
  using assms
proof (induction k)
  case (Suc k)
  then have ih: "count_list (map (\<lambda>len. take len xs) [lo ..< k]) p =
     (if lo \<le> length p \<and> length p < k \<and> take (length p) xs = p then 1 else 0)" by simp
  show ?case
  proof (cases "lo \<le> k")
    case True
    have e: "(take k xs = p) = (length p = k \<and> take (length p) xs = p)" using Suc.prems by auto
    from True have "count_list (map (\<lambda>len. take len xs) [lo ..< Suc k]) p =
        count_list (map (\<lambda>len. take len xs) [lo ..< k]) p + (if take k xs = p then 1 else 0)"
      by simp
    then show ?thesis unfolding ih e using True by auto
  next
    case False
    then show ?thesis by simp
  qed
qed simp

lemma filter_length_sum: "length (filter P xs) = sum_list (map (\<lambda>x. if P x then 1 else 0) xs)"
  by (induction xs) auto

lemma count_patterns:
  assumes "0 < lo"
  shows "count_list (map snd (patterns lo hi seq)) p =
     (if length_in_range lo hi p then occurrences_in p seq else 0)"
proof -
  define n where "n = length seq"
  define bound where "bound = (case hi of None \<Rightarrow> n | Some m \<Rightarrow> min (nat m) n)"
  have "map snd (patterns lo hi seq) =
      concat (map (\<lambda>start. map (\<lambda>len. take len (drop start seq)) [lo ..< min bound (n - start) + 1]) [0 ..< n])"
    by (simp add: patterns_def bound_def[symmetric] n_def[symmetric] Let_def map_concat comp_def del: upt_Suc)
  then have "count_list (map snd (patterns lo hi seq)) p =
      sum_list (map (\<lambda>start. count_list (map (\<lambda>len. take len (drop start seq)) [lo ..< min bound (n - start) + 1]) p) [0 ..< n])"
    by (simp add: count_list_concat comp_def)
  also have "\<dots> = sum_list (map (\<lambda>start. if lo \<le> length p \<and> length p < min bound (n - start) + 1 \<and>
      take (length p) (drop start seq) = p then 1 else 0) [0 ..< n])"
    by (intro arg_cong[where f = sum_list] map_cong refl count_takes) (simp add: n_def)
  also have "\<dots> = sum_list (map (\<lambda>start. if length_in_range lo hi p \<and>
      take (length p) (drop start seq) = p then 1 else 0) [0 ..< n])"
  proof (intro arg_cong[where f = sum_list] map_cong refl if_cong)
    fix start assume "start \<in> set [0 ..< n]"
    have "length p \<le> n - start" if "take (length p) (drop start seq) = p"
      using arg_cong[OF that, of length] by (simp add: n_def)
    then show "(lo \<le> length p \<and> length p < min bound (n - start) + 1 \<and> take (length p) (drop start seq) = p) =
        (length_in_range lo hi p \<and> take (length p) (drop start seq) = p)"
      using assms by (auto simp: length_in_range_def bound_def split: option.splits)
  qed
  also have "\<dots> = (if length_in_range lo hi p then occurrences_in p seq else 0)"
    by (cases "length_in_range lo hi p") (simp_all add: occurrences_in_def filter_length_sum n_def)
  finally show ?thesis .
qed

lemma patterns_mem:
  assumes "0 < lo"
  shows "p \<in> set (map snd (patterns lo hi seq)) \<longleftrightarrow> length_in_range lo hi p \<and> 0 < occurrences_in p seq"
  using count_patterns[OF assms, of hi seq p] count_list_0_iff[of "map snd (patterns lo hi seq)" p]
  by (auto split: if_splits)

section \<open>What is suggested\<close>

definition total_occurrences :: "string list list \<Rightarrow> string list \<Rightarrow> nat" where
  "total_occurrences seqs p = sum_list (map (occurrences_in p) seqs)"

definition frequent :: "nat \<Rightarrow> int option \<Rightarrow> int \<Rightarrow> string list list \<Rightarrow> string list \<Rightarrow> bool" where
  "frequent lo hi least seqs p \<longleftrightarrow>
     length_in_range lo hi p \<and> least \<le> int (total_occurrences seqs p)"

text \<open>A longer frequent sequence with the same number of occurrences that contains \<open>p\<close>.\<close>

definition dominates :: "nat \<Rightarrow> int option \<Rightarrow> int \<Rightarrow> string list list \<Rightarrow> string list \<Rightarrow> string list \<Rightarrow> bool" where
  "dominates lo hi least seqs p q \<longleftrightarrow>
     frequent lo hi least seqs q \<and> total_occurrences seqs q = total_occurrences seqs p \<and>
     length p < length q \<and> sublist p q"

lemma contiguous_sublist:
  "is_contiguous_subsequence p q \<longleftrightarrow> length p < length q \<and> sublist p q"
proof -
  have "sublist p q \<longleftrightarrow> (\<exists>i \<le> length q - length p. take (length p) (drop i q) = p)" if "length p < length q"
  proof
    assume "sublist p q"
    then obtain ps ss where "q = ps @ p @ ss" by (auto simp: sublist_def)
    then show "\<exists>i \<le> length q - length p. take (length p) (drop i q) = p"
      by (intro exI[of _ "length ps"]) simp
  next
    assume "\<exists>i \<le> length q - length p. take (length p) (drop i q) = p"
    then show "sublist p q" by (metis sublist_drop sublist_order.order.trans sublist_take)
  qed
  then show ?thesis
    by (auto simp: is_contiguous_subsequence_def list_ex_iff Bex_def less_Suc_eq_le simp del: upt_Suc)
qed

lemma counted_patterns:
  assumes "0 < lo"
  shows "count_list (concat (map (\<lambda>seq. map snd (patterns lo hi seq)) seqs)) p =
     (if length_in_range lo hi p then total_occurrences seqs p else 0)"
  using assms by (simp add: count_list_concat count_patterns total_occurrences_def comp_def)

lemma all_qualifying:
  assumes "0 < lo" "1 \<le> least"
  shows "(p, n) \<in> set (qualifying_patterns lo hi least False seqs) \<longleftrightarrow>
     frequent lo hi least seqs p \<and> n = total_occurrences seqs p"
proof -
  let ?c = "concat (map (\<lambda>seq. map snd (patterns lo hi seq)) seqs)"
  have "(p, n) \<in> set (qualifying_patterns lo hi least False seqs) \<longleftrightarrow>
      p \<in> set ?c \<and> n = count_list ?c p \<and> least \<le> int n"
    by (auto simp: qualifying_patterns_def mine_occurrences bump_entry_iff simp del: set_concat)
  also have "\<dots> \<longleftrightarrow> count_list ?c p \<noteq> 0 \<and> n = count_list ?c p \<and> least \<le> int n"
    by (simp only: count_list_0_iff not_not)
  also have "\<dots> \<longleftrightarrow> frequent lo hi least seqs p \<and> n = total_occurrences seqs p"
    using assms by (auto simp: counted_patterns frequent_def)
  finally show ?thesis .
qed

lemma qualifying_distinct: "distinct (map fst (qualifying_patterns lo hi least collapse seqs))"
  by (auto simp: qualifying_patterns_def collapse_subsumed_def mine_occurrences Let_def
      intro!: distinct_map_filter dict_ok_foldl_bump)

lemma qualifying_collapsed:
  "qualifying_patterns lo hi least True seqs = collapse_subsumed (qualifying_patterns lo hi least False seqs)"
  by (simp add: qualifying_patterns_def)

lemma qualifying_iff:
  assumes "0 < lo" "1 \<le> least"
  shows "(p, n) \<in> set (qualifying_patterns lo hi least collapse seqs) \<longleftrightarrow>
     frequent lo hi least seqs p \<and> n = total_occurrences seqs p \<and>
     (collapse \<longrightarrow> \<not> (\<exists>q. dominates lo hi least seqs p q))"
proof (cases collapse)
  case True
  let ?Q = "qualifying_patterns lo hi least False seqs"
  have "list_ex (\<lambda>(other, c). other \<noteq> p \<and> c = total_occurrences seqs p \<and> is_contiguous_subsequence p other) ?Q \<longleftrightarrow>
      (\<exists>q. (q, total_occurrences seqs p) \<in> set ?Q \<and> length p < length q \<and> sublist p q)"
    unfolding list_ex_iff contiguous_sublist Bex_def split_paired_Ex prod.case by (metis less_irrefl)
  also have "\<dots> \<longleftrightarrow> (\<exists>q. dominates lo hi least seqs p q)"
    unfolding all_qualifying[OF assms] dominates_def by metis
  finally have undominated:
    "list_ex (\<lambda>(other, c). other \<noteq> p \<and> c = total_occurrences seqs p \<and> is_contiguous_subsequence p other) ?Q \<longleftrightarrow>
      (\<exists>q. dominates lo hi least seqs p q)" .
  have "(p, n) \<in> set (collapse_subsumed ?Q) \<longleftrightarrow> (p, n) \<in> set ?Q \<and>
      \<not> list_ex (\<lambda>(other, c). other \<noteq> p \<and> c = n \<and> is_contiguous_subsequence p other) ?Q"
    by (simp only: collapse_subsumed_def set_filter mem_Collect_eq prod.case)
  moreover have "collapse = True" using True by simp
  ultimately show ?thesis
    by (simp only: qualifying_collapsed all_qualifying[OF assms]) (use undominated in blast)
qed (simp add: all_qualifying[OF assms])

lemma finite_frequent:
  assumes "0 < lo" "1 \<le> least"
  shows "finite {p. frequent lo hi least seqs p}"
proof -
  have "{p. frequent lo hi least seqs p} \<subseteq> fst ` set (qualifying_patterns lo hi least False seqs)"
    using all_qualifying[OF assms] by (force simp: image_iff)
  then show ?thesis by (rule finite_subset) simp
qed

text \<open>Domination ends: a frequent sequence is part of one that nothing dominates.\<close>

lemma undominated_cover:
  assumes "0 < lo" "1 \<le> least" "frequent lo hi least seqs p"
  obtains q where "frequent lo hi least seqs q" "sublist p q"
    "total_occurrences seqs q = total_occurrences seqs p" "\<not> (\<exists>r. dominates lo hi least seqs q r)"
proof -
  define S where "S = {q. frequent lo hi least seqs q \<and> sublist p q \<and> total_occurrences seqs q = total_occurrences seqs p}"
  have fin: "finite S" using finite_frequent[OF assms(1,2), of hi seqs] by (rule rev_finite_subset) (auto simp: S_def)
  have "p \<in> S" using assms(3) by (simp add: S_def)
  with fin have "Max (length ` S) \<in> length ` S" by (intro Max_in) auto
  then obtain q where q: "q \<in> S" "length q = Max (length ` S)" by auto
  then have "\<forall>r \<in> S. length r \<le> length q" using fin by auto
  note q = q(1) this
  have "r \<in> S" if "dominates lo hi least seqs q r" for r
    using q(1) that by (auto simp: S_def dominates_def intro: sublist_order.order.trans)
  then have "\<not> (\<exists>r. dominates lo hi least seqs q r)"
    using q(2) by (metis dominates_def not_less)
  with q(1) that show ?thesis by (auto simp: S_def)
qed

text \<open>The blueprint of a pattern is a place where it occurs.\<close>

definition stands_at :: "string list list \<Rightarrow> string list \<Rightarrow> nat \<times> nat \<Rightarrow> bool" where
  "stands_at seqs p = (\<lambda>(ti, start). ti < length seqs \<and> take (length p) (drop start (seqs ! ti)) = p)"

definition well_mined :: "string list list \<Rightarrow> miner \<Rightarrow> bool" where
  "well_mined seqs mn \<longleftrightarrow>
     (\<forall>p loc. dict_get (mn_representative mn) p = Some loc \<longrightarrow> stands_at seqs p loc) \<and>
     set (dict_keys (mn_occurrences mn)) \<subseteq> set (dict_keys (mn_representative mn))"

lemma count_pattern_well_mined:
  assumes "well_mined seqs mn" "stands_at seqs p (ti, start)"
  shows "well_mined seqs (count_pattern ti (start, p) mn)"
  using assms dict_has_iff[of "mn_representative mn" p]
  by (auto simp: well_mined_def count_pattern_def keys_bump dict_keys_set dict_get_set
      simp del: map_of_eq_Some_iff set_map split: if_splits)

lemma patterns_stand: "(start, p) \<in> set (patterns lo hi seq) \<Longrightarrow> take (length p) (drop start seq) = p"
  by (auto simp: patterns_def Let_def min_def)

lemma mine_well_mined: "well_mined seqs (mine lo hi seqs)"
proof -
  have pats: "well_mined seqs (fold (count_pattern ti) ps mn)"
    if "well_mined seqs mn" "\<forall>(start, p) \<in> set ps. stands_at seqs p (ti, start)" for ti ps mn
    using that by (induction ps arbitrary: mn) (auto intro: count_pattern_well_mined)
  have "well_mined seqs (foldl (count_trace lo hi) mn ts)"
    if "well_mined seqs mn" "\<forall>(ti, seq) \<in> set ts. ti < length seqs \<and> seqs ! ti = seq" for mn ts
    using that
  proof (induction ts arbitrary: mn)
    case (Cons t ts)
    obtain ti seq where t: "t = (ti, seq)" by fastforce
    have "well_mined seqs (fold (count_pattern ti) (patterns lo hi seq)
        (mn\<lparr>mn_traces_with_tool := foldl bump (mn_traces_with_tool mn) (dedup_first seq)\<rparr>))"
      using Cons.prems t by (intro pats) (auto simp: well_mined_def stands_at_def dest: patterns_stand)
    then have "well_mined seqs (count_trace lo hi mn t)"
      by (simp add: t count_trace_def Let_def well_mined_def)
    with Cons show ?case by simp
  qed simp
  then show ?thesis unfolding mine_def
    by (rule mp[OF impI]) (auto simp: well_mined_def in_set_enumerate_eq)
qed

lemma representative_stands:
  assumes "p \<in> set (dict_keys (mn_occurrences (mine lo hi seqs)))"
  shows "stands_at seqs p (the (dict_get (mn_representative (mine lo hi seqs)) p))"
proof -
  have "dict_get (mn_representative (mine lo hi seqs)) p \<noteq> None"
    using assms mine_well_mined[of seqs lo hi] unfolding well_mined_def dict_has_iff by blast
  then show ?thesis using mine_well_mined[of seqs lo hi] unfolding well_mined_def by auto
qed

lemma wire_steps_tools:
  "map s_tool_name (wire_steps ord first upstream obs) = map (\<lambda>ob. Some (os_tool ob)) obs"
  by (induction ord first upstream obs rule: wire_steps.induct) (simp_all add: Let_def)

lemma count_list_dedup: "count_list (dedup_first xs) x = (if x \<in> set xs then 1 else 0)"
proof (induction xs)
  case (Cons y xs)
  have "count_list (filter P ys) x = (if P x then count_list ys x else 0)" for P ys
    by (induction ys) auto
  with Cons show ?case by simp
qed simp

lemma pattern_traces_le:
  assumes "p \<noteq> []"
  shows "counted (mn_traces_with_pattern (mine lo hi seqs)) p \<le> counted (mn_traces_with_tool (mine lo hi seqs)) (hd p)"
proof -
  have "hd p \<in> set seq" if "p \<in> set (map snd (patterns lo hi seq))" for seq
    using that patterns_stand[of _ p lo hi seq] assms hd_in_set[OF assms]
    by (metis (no_types, lifting) in_set_dropD in_set_takeD imageE list.set_map prod.collapse)
  then show ?thesis
    unfolding mine_traces counted_foldl_bump count_list_concat
    by (simp add: counted_def comp_def count_list_dedup sum_list_mono)
qed

lemma confidence_unit:
  assumes "p \<noteq> []"
  shows "0 \<le> confidence_of (mine lo hi seqs) p \<and> confidence_of (mine lo hi seqs) p \<le> 1"
  using pattern_traces_le[OF assms, of lo hi seqs]
  by (simp add: confidence_of_def Let_def round_places_unit fdiv_unit)

section \<open>Properties\<close>

lemma suggest_observed_cases:
  assumes "suggest_observed ord describe least lo hi collapse ob = Inr ss"
  shows "1 \<le> least" "1 \<le> lo"
    "ss = sort_key (\<lambda>s. (- int (fg_occurrences s), - int (length (fg_tools s)), f_name (fg_flow s)))
            (map (make_suggestion ord describe (ob_completed ob) (mine (nat lo) hi (map tool_sequence (ob_completed ob))))
              (qualifying_patterns (nat lo) hi least collapse (map tool_sequence (ob_completed ob))))"
  using assms by (auto simp: suggest_observed_def Let_def split: if_splits)

lemma make_suggestion_tools:
  "fg_tools (make_suggestion ord describe ts mn pc) = fst pc"
  "fg_occurrences (make_suggestion ord describe ts mn pc) = snd pc"
  by (simp_all add: make_suggestion_def Let_def split: prod.splits)

lemma map_suggestion_tools: "map fg_tools (map (make_suggestion ord describe ts mn) ps) = map fst ps"
  by (simp add: make_suggestion_tools)

lemma distinct_map_sort: "distinct (map g (sort_key f xs)) \<longleftrightarrow> distinct (map g xs)"
  by (simp add: distinct_map)

lemma suggested_pairs:
  assumes "suggest_observed ord describe least lo hi collapse ob = Inr ss"
  shows "(\<lambda>s. (fg_tools s, fg_occurrences s)) ` set ss =
     set (qualifying_patterns (nat lo) hi least collapse (map tool_sequence (ob_completed ob)))"
  unfolding suggest_observed_cases(3)[OF assms] by (simp add: image_image make_suggestion_tools)

lemma suggested_frequent:
  assumes "suggest_observed ord describe least lo hi collapse ob = Inr ss" "s \<in> set ss"
  shows "frequent (nat lo) hi least (map tool_sequence (ob_completed ob)) (fg_tools s)" "fg_tools s \<noteq> []"
proof -
  have lo: "0 < nat lo" using suggest_observed_cases(2)[OF assms(1)] by simp
  have "(fg_tools s, fg_occurrences s) \<in> set (qualifying_patterns (nat lo) hi least collapse (map tool_sequence (ob_completed ob)))"
    using suggested_pairs[OF assms(1)] assms(2) by blast
  then show "frequent (nat lo) hi least (map tool_sequence (ob_completed ob)) (fg_tools s)"
    unfolding qualifying_iff[OF lo suggest_observed_cases(1)[OF assms(1)]] by blast
  then show "fg_tools s \<noteq> []" using lo by (auto simp: frequent_def length_in_range_def)
qed

lemma built_flow_tools:
  assumes "stands_at (map tool_sequence ts) p (ti, start)"
  shows "map s_tool_name (f_steps (build_flow ord describe p (ts ! ti) start n conf)) = map Some p"
proof -
  have ti: "ti < length ts" and at: "take (length p) (drop start (map tool_sequence ts ! ti)) = p"
    using assms unfolding stands_at_def by auto
  let ?window = "take (length p) (drop start (ot_steps (ts ! ti)))"
  have "map s_tool_name (f_steps (build_flow ord describe p (ts ! ti) start n conf)) = map Some (map os_tool ?window)"
    by (simp add: build_flow_def mk_flow_def wire_steps_tools)
  also have "map os_tool ?window = p"
    using at ti by (simp add: tool_sequence_def take_map drop_map)
  finally show ?thesis .
qed

lemma suggestion_shape:
  assumes "suggest_observed ord describe least lo hi collapse ob = Inr ss" "s \<in> set ss"
  shows "map s_tool_name (f_steps (fg_flow s)) = map Some (fg_tools s)" "0 \<le> fg_confidence s \<and> fg_confidence s \<le> 1"
proof -
  let ?seqs = "map tool_sequence (ob_completed ob)"
  let ?mn = "mine (nat lo) hi ?seqs"
  obtain p n where pn: "(p, n) \<in> set (qualifying_patterns (nat lo) hi least collapse ?seqs)"
    "s = make_suggestion ord describe (ob_completed ob) ?mn (p, n)"
    using assms(2) unfolding suggest_observed_cases(3)[OF assms(1)] by auto
  have key: "p \<in> set (dict_keys (mn_occurrences ?mn))"
    using pn(1) by (force simp: qualifying_patterns_def Let_def collapse_subsumed_def split: if_splits)
  have ne: "p \<noteq> []" using suggested_frequent(2)[OF assms] by (simp add: pn(2) make_suggestion_tools)
  obtain ti start where rep: "the (dict_get (mn_representative ?mn) p) = (ti, start)" by fastforce
  show "0 \<le> fg_confidence s \<and> fg_confidence s \<le> 1"
    using confidence_unit[OF ne, of "nat lo" hi ?seqs] by (simp add: pn(2) make_suggestion_def rep Let_def)
  show "map s_tool_name (f_steps (fg_flow s)) = map Some (fg_tools s)"
    using built_flow_tools[OF representative_stands[OF key, unfolded rep]]
    by (simp add: pn(2) make_suggestion_def rep Let_def)
qed

text \<open>
  C25: A suggestion is made for exactly the sequences of tools that are long enough, occur often
  enough and, when subsumed patterns are collapsed, are not part of a longer one with as many
  occurrences; each comes once, with its exact number of occurrences, a flow that calls its tools
  in order, and a confidence between zero and one.
\<close>

theorem suggestions_exact:
  assumes "suggest_observed ord describe least lo hi collapse ob = Inr ss"
  shows "(\<lambda>s. (fg_tools s, fg_occurrences s)) ` set ss =
      {(p, n). frequent (nat lo) hi least (map tool_sequence (ob_completed ob)) p \<and>
         n = total_occurrences (map tool_sequence (ob_completed ob)) p \<and>
         (collapse \<longrightarrow> \<not> (\<exists>q. dominates (nat lo) hi least (map tool_sequence (ob_completed ob)) p q))}
    \<and> distinct (map fg_tools ss)
    \<and> list_all (\<lambda>s. map s_tool_name (f_steps (fg_flow s)) = map Some (fg_tools s) \<and>
         0 \<le> fg_confidence s \<and> fg_confidence s \<le> 1) ss"
proof (intro conjI)
  have lo: "0 < nat lo" using suggest_observed_cases(2)[OF assms] by simp
  show "(\<lambda>s. (fg_tools s, fg_occurrences s)) ` set ss =
      {(p, n). frequent (nat lo) hi least (map tool_sequence (ob_completed ob)) p \<and>
         n = total_occurrences (map tool_sequence (ob_completed ob)) p \<and>
         (collapse \<longrightarrow> \<not> (\<exists>q. dominates (nat lo) hi least (map tool_sequence (ob_completed ob)) p q))}"
    unfolding suggested_pairs[OF assms]
    by (auto simp: qualifying_iff[OF lo suggest_observed_cases(1)[OF assms]])
  show "distinct (map fg_tools ss)"
    unfolding suggest_observed_cases(3)[OF assms] distinct_map_sort map_suggestion_tools
    by (rule qualifying_distinct)
  show "list_all (\<lambda>s. map s_tool_name (f_steps (fg_flow s)) = map Some (fg_tools s) \<and>
         0 \<le> fg_confidence s \<and> fg_confidence s \<le> 1) ss"
    using suggestion_shape[OF assms] by (simp add: list_all_iff)
qed

text \<open>Two sessions that walk through \<open>a\<close> and \<open>b\<close>.\<close>

definition sample_call :: "string \<Rightarrow> observed_step" where
  "sample_call t = \<lparr>os_tool = t, os_inputs = [(''x'', VInt 1)], os_outputs = Some [(''x'', VInt 2)],
     os_recorded_at = 0, os_duration_ms = 0\<rparr>"

definition sample_trace :: "string list \<Rightarrow> observed_trace" where
  "sample_trace ts = \<lparr>ot_id = ''t'', ot_source = ''observer'', ot_started_at = 0, ot_ended_at = Some 1,
     ot_steps = map sample_call ts\<rparr>"

definition sample_observer :: observer where
  "sample_observer = \<lparr>ob_recorder = new_recorder, ob_current_id = None,
     ob_completed = [sample_trace [''a'', ''b'', ''c''], sample_trace [''d'', ''a'', ''b'']], ob_max_traces = None\<rparr>"

lemma sample_sequences:
  "map tool_sequence (ob_completed sample_observer) = [[''a'', ''b'', ''c''], [''d'', ''a'', ''b'']]"
  by (simp add: sample_observer_def sample_trace_def tool_sequence_def sample_call_def)

lemma sample_frequent:
  "frequent 2 None 2 [[''a'', ''b'', ''c''], [''d'', ''a'', ''b'']] [''a'', ''b'']"
  "total_occurrences [[''a'', ''b'', ''c''], [''d'', ''a'', ''b'']] [''a'', ''b''] = 2"
  by code_simp+

lemma sample_suggests:
  "\<exists>ss. suggest_observed dedup_first (\<lambda>p n c. []) 2 2 None collapse sample_observer = Inr ss"
  by (simp add: suggest_observed_def Let_def)

theorem suggestions_exact_witness:
  "\<exists>ss. suggest_observed dedup_first (\<lambda>p n c. []) 2 2 None False sample_observer = Inr ss \<and>
     ([''a'', ''b''], 2) \<in> (\<lambda>s. (fg_tools s, fg_occurrences s)) ` set ss \<and> distinct (map fg_tools ss)"
proof -
  obtain ss where ss: "suggest_observed dedup_first (\<lambda>p n c. []) 2 2 None False sample_observer = Inr ss"
    using sample_suggests by blast
  show ?thesis
    using ss suggestions_exact[OF ss] sample_frequent by (simp add: sample_sequences)
qed

text \<open>
  Collapsing loses nothing: every sequence that occurs often enough is part of a suggested
  sequence with as many occurrences.
\<close>

theorem suggestions_cover:
  assumes "suggest_observed ord describe least lo hi collapse ob = Inr ss"
    and "frequent (nat lo) hi least (map tool_sequence (ob_completed ob)) p"
  shows "\<exists>s \<in> set ss. sublist p (fg_tools s) \<and>
     fg_occurrences s = total_occurrences (map tool_sequence (ob_completed ob)) p"
proof -
  let ?seqs = "map tool_sequence (ob_completed ob)"
  have lo: "0 < nat lo" using suggest_observed_cases(2)[OF assms(1)] by simp
  note least = suggest_observed_cases(1)[OF assms(1)]
  obtain q where q: "frequent (nat lo) hi least ?seqs q" "sublist p q"
    "total_occurrences ?seqs q = total_occurrences ?seqs p" "\<not> (\<exists>r. dominates (nat lo) hi least ?seqs q r)"
    using undominated_cover[OF lo least assms(2)] by blast
  then have "(q, total_occurrences ?seqs p) \<in> (\<lambda>s. (fg_tools s, fg_occurrences s)) ` set ss"
    unfolding suggested_pairs[OF assms(1)] qualifying_iff[OF lo least] by simp
  with q(2) show ?thesis by force
qed

theorem suggestions_cover_witness:
  "\<exists>ss. suggest_observed dedup_first (\<lambda>p n c. []) 2 2 None True sample_observer = Inr ss \<and>
     (\<exists>s \<in> set ss. sublist [''a'', ''b''] (fg_tools s) \<and> fg_occurrences s = 2)"
proof -
  obtain ss where ss: "suggest_observed dedup_first (\<lambda>p n c. []) 2 2 None True sample_observer = Inr ss"
    using sample_suggests by blast
  show ?thesis
    using ss suggestions_cover[OF ss, of "[''a'', ''b'']"] sample_frequent by (simp add: sample_sequences)
qed

section \<open>The state of the observer\<close>

definition recorder_ok :: "recorder \<Rightarrow> bool" where
  "recorder_ok r \<longleftrightarrow>
     (\<forall>tid. dict_has (rc_open_perf r) tid = dict_has (rc_open r) tid) \<and>
     (\<forall>tid. dict_has (rc_step_perf r) tid \<longrightarrow> dict_has (rc_open r) tid)"

definition observer_ok :: "observer \<Rightarrow> bool" where
  "observer_ok ob \<longleftrightarrow> recorder_ok (ob_recorder ob) \<and>
     (case ob_current_id ob of None \<Rightarrow> True | Some tid \<Rightarrow> dict_has (rc_open (ob_recorder ob)) tid) \<and>
     list_all (\<lambda>t. ot_steps t \<noteq> []) (ob_completed ob) \<and>
     (case ob_max_traces ob of None \<Rightarrow> True | Some m \<Rightarrow> 1 \<le> m \<and> int (length (ob_completed ob)) \<le> m)"

lemma start_trace_ok: "recorder_ok r \<Longrightarrow> recorder_ok (start_trace tid now source r)"
  by (auto simp: recorder_ok_def start_trace_def dict_get_set)

lemma start_trace_opens: "dict_has (rc_open (start_trace tid now source r)) tid"
  by (simp add: start_trace_def dict_get_set)

lemma record_step_ok:
  assumes "recorder_ok r" "dict_has (rc_open r) tid"
  shows "\<exists>r'. record_step tid tool_name inputs outputs duration now r = Inr r' \<and> recorder_ok r' \<and>
     dict_has (rc_open r') tid"
proof -
  obtain trace where trace: "dict_get (rc_open r) tid = Some trace" using assms(2) by fastforce
  obtain opened where opened: "dict_get (rc_open_perf r) tid = Some opened"
    using assms unfolding recorder_ok_def by fastforce
  show ?thesis
    using assms(1) trace opened
    by (cases duration) (auto simp: record_step_def elapsed_ms_def Let_def recorder_ok_def dict_get_set)
qed

lemma end_trace_ok:
  assumes "recorder_ok r" "dict_has (rc_open r) tid"
  shows "\<exists>r' trace. end_trace tid now r = Inr (r', trace) \<and> recorder_ok r'"
  using assms by (auto simp: end_trace_def Let_def recorder_ok_def dict_get_del)

lemma keep_newest_ok:
  "list_all P xs \<Longrightarrow> list_all P (keep_newest limit xs)"
  "1 \<le> m \<Longrightarrow> int (length (keep_newest (Some m) xs)) \<le> m"
  by (auto simp: keep_newest_def list_all_iff dest: in_set_dropD split: option.splits)

lemma keep_newest_mem: "t \<in> set (keep_newest limit xs) \<Longrightarrow> t \<in> set xs"
  by (auto simp: keep_newest_def dest: in_set_dropD split: option.splits if_splits)

lemma new_observer_ok: "new_observer m = Inr ob \<Longrightarrow> observer_ok ob"
  by (auto simp: new_observer_def observer_ok_def recorder_ok_def new_recorder_def split: if_splits option.splits)

lemma from_traces_ok: "from_traces ts m = Inr ob \<Longrightarrow> observer_ok ob"
proof -
  assume a: "from_traces ts m = Inr ob"
  then obtain ob0 where ob0: "new_observer m = Inr ob0"
    and ob: "ob = ob0\<lparr>ob_completed := keep_newest m (filter (\<lambda>t. ot_steps t \<noteq> []) ts)\<rparr>"
    by (auto simp: from_traces_def bind_err_Inr_iff)
  have m: "ob_max_traces ob0 = m" using ob0 by (auto simp: new_observer_def split: if_splits)
  show "observer_ok ob"
    using new_observer_ok[OF ob0] unfolding ob observer_ok_def
    by (auto simp: m keep_newest_ok list_all_iff dest: keep_newest_mem split: option.splits)
qed

lemma observe_ok:
  assumes "observer_ok ob"
  shows "\<exists>ob'. observe fresh opened tool_name inputs outputs duration now ob = (ob', None) \<and> observer_ok ob' \<and>
     ob_completed ob' = ob_completed ob"
proof -
  define ob1 where "ob1 = (case ob_current_id ob of Some _ \<Rightarrow> ob
    | None \<Rightarrow> ob\<lparr>ob_current_id := Some fresh, ob_recorder := start_trace fresh opened ''observer'' (ob_recorder ob)\<rparr>)"
  have one: "observer_ok ob1" "ob_current_id ob1 \<noteq> None" "ob_completed ob1 = ob_completed ob"
    using assms start_trace_ok start_trace_opens
    by (auto simp: ob1_def observer_ok_def split: option.splits)
  then obtain tid where tid: "ob_current_id ob1 = Some tid" "dict_has (rc_open (ob_recorder ob1)) tid"
    "recorder_ok (ob_recorder ob1)"
    by (auto simp: observer_ok_def split: option.splits)
  obtain r' where r': "record_step tid tool_name inputs outputs duration now (ob_recorder ob1) = Inr r'"
    "recorder_ok r'" "dict_has (rc_open r') tid"
    using record_step_ok[OF tid(3,2)] by blast
  have "observe fresh opened tool_name inputs outputs duration now ob = (ob1\<lparr>ob_recorder := r'\<rparr>, None)"
    unfolding observe_def ob1_def[symmetric] Let_def by (simp add: tid(1) r'(1))
  moreover have "observer_ok (ob1\<lparr>ob_recorder := r'\<rparr>)"
    using one r' tid(1) by (auto simp: observer_ok_def split: option.splits)
  ultimately show ?thesis using one(3) by auto
qed

lemma end_observation_ok:
  assumes "observer_ok ob"
  shows "case end_observation now ob of
      Inl e \<Rightarrow> ob_current_id ob = None
    | Inr (ob', trace) \<Rightarrow> observer_ok ob' \<and> ob_current_id ob' = None"
proof (cases "ob_current_id ob")
  case (Some tid)
  then obtain r trace where r: "end_trace tid now (ob_recorder ob) = Inr (r, trace)" "recorder_ok r"
    using end_trace_ok[of "ob_recorder ob" tid now] assms by (auto simp: observer_ok_def)
  have e: "end_observation now ob = Inr
      (let ob1 = ob\<lparr>ob_recorder := r, ob_current_id := None\<rparr>
       in if ot_steps trace = [] then ob1
          else ob1\<lparr>ob_completed := keep_newest (ob_max_traces ob) (ob_completed ob @ [trace])\<rparr>, trace)"
    by (simp add: end_observation_def Some r Let_def)
  have "list_all (\<lambda>t. ot_steps t \<noteq> []) (ob_completed ob)" using assms by (simp add: observer_ok_def)
  then have "list_all (\<lambda>t. ot_steps t \<noteq> []) (keep_newest (ob_max_traces ob) (ob_completed ob @ [trace]))"
    if "ot_steps trace \<noteq> []" using that by (intro keep_newest_ok) simp
  then show ?thesis
    using assms r(2) unfolding e
    by (auto simp: observer_ok_def Let_def keep_newest_ok split: option.splits)
qed (simp add: end_observation_def)

text \<open>
  C26: Every operation of the observer keeps its state well formed: the open trace is known to
  the recorder, retained traces are non-empty and within the limit.  Recording a call never
  raises, and ending a trace raises only when none is open.
\<close>

theorem observer_operations_keep_state:
  assumes "observer_ok ob"
  shows "(\<exists>ob'. observe fresh opened tool_name inputs outputs duration now ob = (ob', None) \<and> observer_ok ob' \<and>
      ob_completed ob' = ob_completed ob)
    \<and> (case end_observation now ob of
         Inl e \<Rightarrow> ob_current_id ob = None
       | Inr (ob', trace) \<Rightarrow> observer_ok ob' \<and> ob_current_id ob' = None)
    \<and> (case from_traces traces limit of Inl e \<Rightarrow> \<exists>m. limit = Some m \<and> m < 1 | Inr ob' \<Rightarrow> observer_ok ob')"
proof (intro conjI)
  show "case from_traces traces limit of Inl e \<Rightarrow> \<exists>m. limit = Some m \<and> m < 1 | Inr ob' \<Rightarrow> observer_ok ob'"
  proof (cases "from_traces traces limit")
    case (Inl e)
    then show ?thesis by (auto simp: from_traces_def bind_err_def new_observer_def split: if_splits option.splits)
  qed (simp add: from_traces_ok)
qed (rule observe_ok[OF assms], rule end_observation_ok[OF assms])

theorem observer_operations_keep_state_witness:
  "\<exists>ob'. observe ''t1'' \<lparr>rd_perf = 0, rd_utc = 0\<rparr> ''a'' [] None None \<lparr>rd_perf = 1, rd_utc = 1\<rparr>
       (sample_observer\<lparr>ob_max_traces := Some 2\<rparr>) = (ob', None) \<and> observer_ok ob'"
proof -
  have ok: "observer_ok (sample_observer\<lparr>ob_max_traces := Some 2\<rparr>)"
    by (simp add: observer_ok_def sample_observer_def recorder_ok_def new_recorder_def sample_trace_def)
  show ?thesis using conjunct1[OF observer_operations_keep_state[OF ok]] by blast
qed

end
