(* ===== verification/PyText.thy ===== *)
theory PyText
  imports Redaction Resume
begin

text \<open>
  Operations of Python's strings that the importers of JSON-lines text share: \<open>str.splitlines\<close>
  and \<open>str(v)\<close> of a decoded value.
\<close>

section \<open>Lines\<close>

text \<open>The line boundaries of \<open>splitlines\<close> among the first 256 code points.\<close>

definition line_break :: "char \<Rightarrow> bool" where
  "line_break c = (of_char c \<in> {10, 11, 12, 13, 28, 29, 30, (133 :: nat)})"

fun lines_from :: "string \<Rightarrow> string \<Rightarrow> string list" where
  "lines_from acc [] = (if acc = [] then [] else [acc])"
| "lines_from acc (c # cs) =
     (if line_break c
      then acc # lines_from [] (if c = CHR 0x0D \<and> cs \<noteq> [] \<and> hd cs = CHR 0x0A then tl cs else cs)
      else lines_from (acc @ [c]) cs)"

definition splitlines :: "string \<Rightarrow> string list" where
  "splitlines s = lines_from [] s"

lemma lines_from_plain:
  "list_all (\<lambda>c. \<not> line_break c) s \<Longrightarrow> lines_from acc (s @ rest) = lines_from (acc @ s) rest"
  by (induction s arbitrary: acc) auto

lemma newline_breaks: "line_break (CHR 0x0A)" by (simp add: line_break_def)

text \<open>Lines that hold no boundary, each closed by a newline, are read back as they are.\<close>

lemma splitlines_joined:
  assumes "list_all (list_all (\<lambda>c. \<not> line_break c)) ls"
  shows "splitlines (concat (map (\<lambda>l. l @ [CHR 0x0A]) ls)) = ls"
  using assms
  by (induction ls) (simp_all add: splitlines_def lines_from_plain newline_breaks)

section \<open>Text of a value\<close>

definition repr_char :: "char \<Rightarrow> char \<Rightarrow> string" where
  "repr_char quote c =
     (let n = of_char c :: nat in
      if c = quote \<or> c = CHR 0x5C then [CHR 0x5C, c]
      else if n = 9 then [CHR 0x5C, CHR ''t'']
      else if n = 10 then [CHR 0x5C, CHR ''n'']
      else if n = 13 then [CHR 0x5C, CHR ''r'']
      else if n < 32 \<or> 127 \<le> n \<and> n \<le> 160 \<or> n = 173
      then CHR 0x5C # CHR ''x'' # [hex_digit (n div 16), hex_digit (n mod 16)]
      else [c])"

definition repr_str :: "string \<Rightarrow> string" where
  "repr_str s =
     (let quote = (if CHR 0x27 \<in> set s \<and> CHR 0x22 \<notin> set s then CHR 0x22 else CHR 0x27)
      in quote # concat (map (repr_char quote) s) @ [quote])"

text \<open>\<open>repr(v)\<close>; the text of a set is an argument.\<close>

primrec py_repr :: "(val list \<Rightarrow> string) \<Rightarrow> val \<Rightarrow> string" where
  "py_repr set_text VNone = ''None''"
| "py_repr set_text (VBool b) = (if b then ''True'' else ''False'')"
| "py_repr set_text (VInt i) = int_text i"
| "py_repr set_text (VStr s) = repr_str s"
| "py_repr set_text (VList xs) = ''['' @ join_str '', '' (map (py_repr set_text) xs) @ '']''"
| "py_repr set_text (VDict d) =
     ''{'' @ join_str '', '' (map (\<lambda>(k, t). repr_str k @ '': '' @ t)
        (map (map_prod id (py_repr set_text)) d)) @ ''}''"
| "py_repr set_text (VSet xs) = set_text xs"

definition py_str :: "(val list \<Rightarrow> string) \<Rightarrow> val \<Rightarrow> string" where
  "py_str set_text v = (case v of VStr s \<Rightarrow> s | _ \<Rightarrow> py_repr set_text v)"

end
