(* ===== verification/TraceStore.thy ===== *)
theory TraceStore
  imports PyText
begin

text \<open>
  \<open>chainweaver/trace_store.py\<close>: the store of execution traces in memory and the one in a file of
  JSON lines.  The JSON text of a result is pydantic's and an argument, \<open>enc\<close> and \<open>dec\<close>; the
  replacement of the file is atomic, so the file is its text.  Both stores implement the
  interface \<open>trace_store\<close>, and both refine one list of results, oldest first.
\<close>

section \<open>The stores\<close>

definition trace_id :: "execution_result \<Rightarrow> string" where
  "trace_id r = rd_trace_id (er_data r)"

definition apply_policy :: "redaction_policy option \<Rightarrow> execution_result \<Rightarrow> execution_result" where
  "apply_policy policy r = (case policy of None \<Rightarrow> r | Some p \<Rightarrow> redact_execution_result p r)"

type_synonym memory_traces = "(string \<times> execution_result) list"

definition mem_save :: "redaction_policy option \<Rightarrow> execution_result \<Rightarrow> memory_traces \<Rightarrow> memory_traces" where
  "mem_save policy r ts =
     (let r = apply_policy policy r in dict_set (dict_del ts (trace_id r)) (trace_id r) r)"

definition mem_load :: "memory_traces \<Rightarrow> string \<Rightarrow> execution_result option" where
  "mem_load ts tid = dict_get ts tid"

definition mem_ids :: "memory_traces \<Rightarrow> string list" where
  "mem_ids ts = dict_keys ts"

definition mem_delete :: "string \<Rightarrow> memory_traces \<Rightarrow> memory_traces" where
  "mem_delete tid ts = dict_del ts tid"

text \<open>The file: absent, or its text.\<close>

record trace_file =
  tf_enc :: "execution_result \<Rightarrow> string"
  tf_dec :: "string \<Rightarrow> execution_result option"
  tf_policy :: "redaction_policy option"
  tf_max :: "int option"
  tf_text :: "string option"

definition file_store ::
  "(execution_result \<Rightarrow> string) \<Rightarrow> (string \<Rightarrow> execution_result option) \<Rightarrow> redaction_policy option \<Rightarrow> int option \<Rightarrow>
     string option \<Rightarrow> exn + trace_file" where
  "file_store enc dec policy max_traces txt =
     (if (case max_traces of None \<Rightarrow> False | Some m \<Rightarrow> m \<le> 0)
      then Inl (ValueError ''max_traces must be positive when set.'')
      else Inr \<lparr>tf_enc = enc, tf_dec = dec, tf_policy = policy, tf_max = max_traces, tf_text = txt\<rparr>)"

definition read_all :: "trace_file \<Rightarrow> execution_result list" where
  "read_all f =
     (case tf_text f of
        None \<Rightarrow> []
      | Some t \<Rightarrow> List.map_filter (tf_dec f) (filter (\<lambda>l. l \<noteq> []) (map py_strip (splitlines t))))"

definition write_all :: "execution_result list \<Rightarrow> trace_file \<Rightarrow> trace_file" where
  "write_all rs f = f\<lparr>tf_text := Some (concat (map (\<lambda>r. tf_enc f r @ [CHR 0x0A]) rs))\<rparr>"

definition newest :: "int option \<Rightarrow> 'a list \<Rightarrow> 'a list" where
  "newest limit xs =
     (case limit of
        None \<Rightarrow> xs
      | Some m \<Rightarrow> (if m < int (length xs) then drop (length xs - nat m) xs else xs))"

definition file_save :: "execution_result \<Rightarrow> trace_file \<Rightarrow> trace_file" where
  "file_save r f =
     (let r = apply_policy (tf_policy f) r;
          results = filter (\<lambda>x. trace_id x \<noteq> trace_id r) (read_all f) @ [r]
      in write_all (newest (tf_max f) results) f)"

definition file_load :: "trace_file \<Rightarrow> string \<Rightarrow> execution_result option" where
  "file_load f tid = find (\<lambda>r. trace_id r = tid) (read_all f)"

definition file_ids :: "trace_file \<Rightarrow> string list" where
  "file_ids f = map trace_id (read_all f)"

definition file_delete :: "string \<Rightarrow> trace_file \<Rightarrow> trace_file" where
  "file_delete tid f = write_all (filter (\<lambda>r. trace_id r \<noteq> tid) (read_all f)) f"

section \<open>The interface\<close>

text \<open>
  What a client may rely on: a state behaves as a list of results with distinct ids.  \<open>storable\<close>
  are the results the representation can hold, \<open>policy\<close> what is applied before storing.
\<close>

definition put_trace :: "redaction_policy option \<Rightarrow> int option \<Rightarrow> execution_result \<Rightarrow> execution_result list \<Rightarrow> execution_result list" where
  "put_trace policy limit r rs =
     (let r = apply_policy policy r in newest limit (filter (\<lambda>x. trace_id x \<noteq> trace_id r) rs @ [r]))"

definition drop_trace :: "string \<Rightarrow> execution_result list \<Rightarrow> execution_result list" where
  "drop_trace tid rs = filter (\<lambda>r. trace_id r \<noteq> tid) rs"

datatype trace_op = SaveTrace execution_result | DeleteTrace string

text \<open>A sequence of operations on a store, and on the list it stands for.\<close>

fun perform :: "(execution_result \<Rightarrow> 's \<Rightarrow> 's) \<Rightarrow> (string \<Rightarrow> 's \<Rightarrow> 's) \<Rightarrow> 's \<Rightarrow> trace_op list \<Rightarrow> 's" where
  "perform save delete s [] = s"
| "perform save delete s (SaveTrace r # ops) = perform save delete (save r s) ops"
| "perform save delete s (DeleteTrace tid # ops) = perform save delete (delete tid s) ops"

fun stored_after ::
  "redaction_policy option \<Rightarrow> int option \<Rightarrow> execution_result list \<Rightarrow> trace_op list \<Rightarrow> execution_result list" where
  "stored_after p l rs [] = rs"
| "stored_after p l rs (SaveTrace r # ops) = stored_after p l (put_trace p l r rs) ops"
| "stored_after p l rs (DeleteTrace tid # ops) = stored_after p l (drop_trace tid rs) ops"

definition saved_results :: "trace_op list \<Rightarrow> execution_result list" where
  "saved_results ops = List.map_filter (\<lambda>ev. case ev of SaveTrace r \<Rightarrow> Some r | DeleteTrace _ \<Rightarrow> None) ops"

locale trace_store =
  fixes save :: "execution_result \<Rightarrow> 's \<Rightarrow> 's"
    and load :: "'s \<Rightarrow> string \<Rightarrow> execution_result option"
    and ids :: "'s \<Rightarrow> string list"
    and delete :: "string \<Rightarrow> 's \<Rightarrow> 's"
    and content :: "'s \<Rightarrow> execution_result list"
    and good :: "'s \<Rightarrow> bool"
    and storable :: "'s \<Rightarrow> execution_result \<Rightarrow> bool"
    and policy :: "'s \<Rightarrow> redaction_policy option"
    and limit :: "'s \<Rightarrow> int option"
  assumes load_content: "good s \<Longrightarrow> load s tid = find (\<lambda>r. trace_id r = tid) (content s)"
    and ids_content: "good s \<Longrightarrow> ids s = map trace_id (content s)"
    and distinct_ids: "good s \<Longrightarrow> distinct (ids s)"
    and save_content: "good s \<Longrightarrow> storable s r \<Longrightarrow> content (save r s) = put_trace (policy s) (limit s) r (content s)"
    and delete_content: "good s \<Longrightarrow> content (delete tid s) = drop_trace tid (content s)"
    and save_keeps: "good s \<Longrightarrow> storable s r \<Longrightarrow>
      good (save r s) \<and> storable (save r s) = storable s \<and> policy (save r s) = policy s \<and> limit (save r s) = limit s"
    and delete_keeps: "good s \<Longrightarrow>
      good (delete tid s) \<and> storable (delete tid s) = storable s \<and> policy (delete tid s) = policy s \<and>
      limit (delete tid s) = limit s"
begin

lemma perform_content:
  assumes "good s" "list_all (storable s) (saved_results ops)"
  shows "content (perform save delete s ops) = stored_after (policy s) (limit s) (content s) ops"
    and "good (perform save delete s ops)"
  using assms
proof (induction ops arbitrary: s)
  case (Cons ev ops)
  {
    case 1
    then show ?case
      using Cons.IH save_content save_keeps delete_content delete_keeps
      by (cases ev) (auto simp: saved_results_def map_filter_simps)
  next
    case 2
    then show ?case
      using Cons.IH save_keeps delete_keeps
      by (cases ev) (auto simp: saved_results_def map_filter_simps)
  }
qed simp_all

lemma perform_observations:
  assumes "good s" "list_all (storable s) (saved_results ops)"
  shows "ids (perform save delete s ops) = map trace_id (stored_after (policy s) (limit s) (content s) ops)"
    and "load (perform save delete s ops) tid =
      find (\<lambda>r. trace_id r = tid) (stored_after (policy s) (limit s) (content s) ops)"
  using perform_content[OF assms] load_content ids_content by auto

end

section \<open>The store in memory\<close>

definition mem_good :: "memory_traces \<Rightarrow> bool" where
  "mem_good ts \<longleftrightarrow> dict_ok ts \<and> list_all (\<lambda>(k, r). k = trace_id r) ts"

lemma mem_find: "mem_good ts \<Longrightarrow> dict_get ts tid = find (\<lambda>r. trace_id r = tid) (map snd ts)"
  by (induction ts) (auto simp: mem_good_def)

lemma mem_keys: "mem_good ts \<Longrightarrow> map fst ts = map (\<lambda>p. trace_id (snd p)) ts"
  by (induction ts) (auto simp: mem_good_def)

lemma mem_save_append:
  "mem_save p r ts = filter (\<lambda>kv. fst kv \<noteq> trace_id (apply_policy p r)) ts @ [(trace_id (apply_policy p r), apply_policy p r)]"
  unfolding mem_save_def Let_def dict_del_def by (rule dict_set_fresh) auto

lemma mem_filter:
  "mem_good ts \<Longrightarrow> map snd (filter (\<lambda>kv. fst kv \<noteq> tid) ts) = filter (\<lambda>r. trace_id r \<noteq> tid) (map snd ts)"
  by (induction ts) (auto simp: mem_good_def)

lemma mem_good_filter: "mem_good ts \<Longrightarrow> mem_good (filter P ts)"
  by (auto simp: mem_good_def list_all_iff distinct_map_filter)

interpretation memory: trace_store "mem_save p" mem_load mem_ids mem_delete "map snd" mem_good
    "\<lambda>_ _. True" "\<lambda>_. p" "\<lambda>_. None" for p
proof unfold_locales
  show "mem_load s tid = find (\<lambda>r. trace_id r = tid) (map snd s)" if "mem_good s" for s tid
    using mem_find[OF that] by (simp add: mem_load_def)
  show "mem_ids s = map trace_id (map snd s)" if "mem_good s" for s
    using mem_keys[OF that] by (simp add: mem_ids_def comp_def)
  show "distinct (mem_ids s)" if "mem_good s" for s
    using that by (simp add: mem_ids_def mem_good_def)
  show "map snd (mem_save p r s) = put_trace p None r (map snd s)" if "mem_good s" for s r
    using mem_filter[OF that] by (simp add: mem_save_append put_trace_def newest_def Let_def)
  show "map snd (mem_delete tid s) = drop_trace tid (map snd s)" if "mem_good s" for s tid
    using mem_filter[OF that] by (simp add: mem_delete_def dict_del_def drop_trace_def)
  show "mem_good (mem_save p r s) \<and> (\<lambda>_. True) = (\<lambda>_. True) \<and> p = p \<and> None = None" if "mem_good s" for s r
    using mem_good_filter[OF that] by (auto simp: mem_save_append mem_good_def)
  show "mem_good (mem_delete tid s) \<and> (\<lambda>_. True) = (\<lambda>_. True) \<and> p = p \<and> None = None" if "mem_good s" for s tid
    using mem_good_filter[OF that] by (simp add: mem_delete_def dict_del_def)
qed

section \<open>The store in a file\<close>

text \<open>
  A result survives the file when its JSON text is one line, without surrounding blanks, and is
  decoded to the same result.
\<close>

definition survives :: "trace_file \<Rightarrow> execution_result \<Rightarrow> bool" where
  "survives f r \<longleftrightarrow>
     (let t = tf_enc f r in
      t \<noteq> [] \<and> py_strip t = t \<and> list_all (\<lambda>c. \<not> line_break c) t \<and> tf_dec f t = Some r)"

definition file_good :: "trace_file \<Rightarrow> bool" where
  "file_good f \<longleftrightarrow>
     (tf_text f = None \<or>
      (\<exists>rs. list_all (survives f) rs \<and> distinct (map trace_id rs) \<and> tf_text f = tf_text (write_all rs f))) \<and>
     (case tf_max f of None \<Rightarrow> True | Some m \<Rightarrow> 1 \<le> m)"

lemma read_written:
  assumes "list_all (survives f) rs" "tf_text f = tf_text (write_all rs f)"
  shows "read_all f = rs"
proof -
  let ?ls = "map (tf_enc f) rs"
  have t: "tf_text f = Some (concat (map (\<lambda>l. l @ [CHR 0x0A]) ?ls))"
    unfolding assms(2) by (simp add: write_all_def comp_def)
  have "splitlines (concat (map (\<lambda>l. l @ [CHR 0x0A]) ?ls)) = ?ls"
    using assms(1) by (intro splitlines_joined) (simp add: list_all_iff survives_def Let_def)
  moreover have "filter (\<lambda>l. l \<noteq> []) (map py_strip ?ls) = ?ls"
    using assms(1) by (induction rs) (auto simp: survives_def Let_def)
  moreover have "List.map_filter (tf_dec f) ?ls = rs"
    using assms(1) by (induction rs) (auto simp: survives_def Let_def map_filter_simps)
  ultimately show ?thesis by (simp add: read_all_def t)
qed

lemma file_good_content: "file_good f \<Longrightarrow> list_all (survives f) (read_all f) \<and> distinct (map trace_id (read_all f))"
  using read_written[of f] by (auto simp: file_good_def read_all_def)

lemma write_fields [simp]:
  "tf_policy (write_all rs f) = tf_policy f" "tf_max (write_all rs f) = tf_max f"
  "tf_enc (write_all rs f) = tf_enc f" "tf_dec (write_all rs f) = tf_dec f"
  "tf_text (write_all rs f) = Some (concat (map (\<lambda>r. tf_enc f r @ [CHR 0x0A]) rs))"
  by (simp_all add: write_all_def)

lemma survives_write [simp]: "survives (write_all rs f) = survives f"
  by (simp add: fun_eq_iff survives_def)

lemma read_write: "list_all (survives f) rs \<Longrightarrow> read_all (write_all rs f) = rs"
  by (rule read_written) simp_all

lemma written_good:
  "list_all (survives f) rs \<Longrightarrow> distinct (map trace_id rs) \<Longrightarrow> file_good f \<Longrightarrow> file_good (write_all rs f)"
  unfolding file_good_def by (intro conjI disjI2 exI[of _ rs]) simp_all

lemma newest_drop: "\<exists>n. newest l xs = drop n xs"
  by (cases l) (auto simp: newest_def intro: exI[of _ 0])

lemma newest_keeps:
  "list_all P xs \<Longrightarrow> list_all P (newest l xs)" "distinct (map g xs) \<Longrightarrow> distinct (map g (newest l xs))"
  using newest_drop[of l xs] set_drop_subset by (fastforce simp: list_all_iff drop_map[symmetric])+

lemma put_content:
  assumes "file_good f" "survives f (apply_policy (tf_policy f) r)"
  shows "list_all (survives f) (put_trace (tf_policy f) (tf_max f) r (read_all f))"
    "distinct (map trace_id (put_trace (tf_policy f) (tf_max f) r (read_all f)))"
proof -
  let ?r = "apply_policy (tf_policy f) r"
  let ?rs = "filter (\<lambda>x. trace_id x \<noteq> trace_id ?r) (read_all f) @ [?r]"
  have "list_all (survives f) ?rs" "distinct (map trace_id ?rs)"
    using file_good_content[OF assms(1)] assms(2) by (auto simp: list_all_iff distinct_map_filter)
  then show "list_all (survives f) (put_trace (tf_policy f) (tf_max f) r (read_all f))"
    "distinct (map trace_id (put_trace (tf_policy f) (tf_max f) r (read_all f)))"
    unfolding put_trace_def Let_def using newest_keeps by blast+
qed

lemma file_save_put: "file_save r f = write_all (put_trace (tf_policy f) (tf_max f) r (read_all f)) f"
  by (simp add: file_save_def put_trace_def Let_def)

lemma drop_content:
  "file_good f \<Longrightarrow> list_all (survives f) (drop_trace tid (read_all f)) \<and> distinct (map trace_id (drop_trace tid (read_all f)))"
  using file_good_content by (auto simp: drop_trace_def list_all_iff distinct_map_filter)

interpretation jsonl: trace_store file_save file_load file_ids file_delete read_all file_good
    "\<lambda>f r. survives f (apply_policy (tf_policy f) r)" tf_policy tf_max
proof unfold_locales
  show "file_load s tid = find (\<lambda>r. trace_id r = tid) (read_all s)" for s tid by (simp add: file_load_def)
  show "file_ids s = map trace_id (read_all s)" for s by (simp add: file_ids_def)
  show "distinct (file_ids s)" if "file_good s" for s
    using file_good_content[OF that] by (simp add: file_ids_def)
  show "read_all (file_save r s) = put_trace (tf_policy s) (tf_max s) r (read_all s)"
    if "file_good s" "survives s (apply_policy (tf_policy s) r)" for s r
    unfolding file_save_put using put_content[OF that] by (simp add: read_write)
  show "read_all (file_delete tid s) = drop_trace tid (read_all s)" if "file_good s" for s tid
    using drop_content[OF that, of tid] by (simp add: file_delete_def drop_trace_def read_write)
  show "file_good (file_save r s) \<and> (\<lambda>ra. survives (file_save r s) (apply_policy (tf_policy (file_save r s)) ra)) =
      (\<lambda>ra. survives s (apply_policy (tf_policy s) ra)) \<and> tf_policy (file_save r s) = tf_policy s \<and>
      tf_max (file_save r s) = tf_max s"
    if "file_good s" "survives s (apply_policy (tf_policy s) r)" for s r
    unfolding file_save_put using written_good[OF put_content[OF that] that(1)] by simp
  show "file_good (file_delete tid s) \<and> (\<lambda>r. survives (file_delete tid s) (apply_policy (tf_policy (file_delete tid s)) r)) =
      (\<lambda>r. survives s (apply_policy (tf_policy s) r)) \<and> tf_policy (file_delete tid s) = tf_policy s \<and>
      tf_max (file_delete tid s) = tf_max s"
    if "file_good s" for s tid
    using written_good[OF _ _ that] drop_content[OF that, of tid] by (simp add: file_delete_def drop_trace_def)
qed

section \<open>Properties\<close>

lemma file_store_observations:
  assumes "file_store enc dec p limit None = Inr f"
    and "list_all (\<lambda>r. survives f (apply_policy p r)) (saved_results ops)"
  shows "file_ids (perform file_save file_delete f ops) = map trace_id (stored_after p limit [] ops)"
    and "file_load (perform file_save file_delete f ops) tid = find (\<lambda>r. trace_id r = tid) (stored_after p limit [] ops)"
    and "mem_ids (perform (mem_save p) mem_delete [] ops) = map trace_id (stored_after p None [] ops)"
    and "mem_load (perform (mem_save p) mem_delete [] ops) tid = find (\<lambda>r. trace_id r = tid) (stored_after p None [] ops)"
proof -
  have f: "file_good f" "tf_policy f = p" "tf_max f = limit" "read_all f = []"
    using assms(1) by (auto simp: file_store_def file_good_def read_all_def split: if_splits option.splits)
  have s: "list_all (\<lambda>r. survives f (apply_policy (tf_policy f) r)) (saved_results ops)"
    using assms(2) by (simp add: f)
  show "file_ids (perform file_save file_delete f ops) = map trace_id (stored_after p limit [] ops)"
    "file_load (perform file_save file_delete f ops) tid = find (\<lambda>r. trace_id r = tid) (stored_after p limit [] ops)"
    using jsonl.perform_observations[OF f(1) s] by (simp_all add: f)
  have m: "mem_good []" "list_all (\<lambda>_. True) (saved_results ops)" by (simp_all add: mem_good_def list_all_iff)
  show "mem_ids (perform (mem_save p) mem_delete [] ops) = map trace_id (stored_after p None [] ops)"
    "mem_load (perform (mem_save p) mem_delete [] ops) tid = find (\<lambda>r. trace_id r = tid) (stored_after p None [] ops)"
    using memory.perform_observations[OF m] by simp_all
qed

text \<open>
  C27: After any sequence of saves and deletions a file store holds what the store in memory holds,
  under the same ids in the same order, when the JSON text of every saved result survives the
  file; with a retention limit it holds the newest of them at every step.
\<close>

theorem file_store_refines_memory:
  assumes "file_store enc dec p limit None = Inr f"
    and "list_all (\<lambda>r. survives f (apply_policy p r)) (saved_results ops)"
  shows "file_ids (perform file_save file_delete f ops) = map trace_id (stored_after p limit [] ops) \<and>
    file_load (perform file_save file_delete f ops) tid = find (\<lambda>r. trace_id r = tid) (stored_after p limit [] ops) \<and>
    mem_ids (perform (mem_save p) mem_delete [] ops) = map trace_id (stored_after p None [] ops) \<and>
    mem_load (perform (mem_save p) mem_delete [] ops) tid = find (\<lambda>r. trace_id r = tid) (stored_after p None [] ops)"
  using file_store_observations[OF assms] by simp

text \<open>Two results and a text for each; a second save of the first moves it to the end.\<close>

definition sample_result :: "string \<Rightarrow> execution_result" where
  "sample_result tid =
     ExecutionResult \<lparr>rd_flow_name = ''f'', rd_flow_version = ''1'', rd_success = True, rd_final_output = None,
       rd_trace_id = tid, rd_cost_report = None, rd_initial_input = [], rd_dry_run = False\<rparr> []"

definition sample_dec :: "string \<Rightarrow> execution_result option" where
  "sample_dec t = (if t = ''a'' \<or> t = ''b'' then Some (sample_result t) else None)"

definition sample_ops :: "trace_op list" where
  "sample_ops = [SaveTrace (sample_result ''a''), SaveTrace (sample_result ''b''), SaveTrace (sample_result ''a'')]"

theorem file_store_refines_memory_witness:
  "\<exists>f. file_store trace_id sample_dec None (Some 1) None = Inr f \<and>
     file_ids (perform file_save file_delete f sample_ops) = [''a''] \<and>
     mem_ids (perform (mem_save None) mem_delete [] sample_ops) = [''b'', ''a'']"
proof -
  define f where "f = \<lparr>tf_enc = trace_id, tf_dec = sample_dec, tf_policy = None, tf_max = Some 1, tf_text = None\<rparr>"
  have f: "file_store trace_id sample_dec None (Some 1) None = Inr f" by (simp add: file_store_def f_def)
  have s: "list_all (\<lambda>r. survives f (apply_policy None r)) (saved_results sample_ops)"
    by (simp add: survives_def f_def sample_ops_def saved_results_def map_filter_simps apply_policy_def
        sample_dec_def trace_id_def sample_result_def py_strip_def py_space_def line_break_def)
  have ids: "trace_id (sample_result t) = t" for t by (simp add: trace_id_def sample_result_def)
  have limited: "map trace_id (stored_after None (Some 1) [] sample_ops) = [''a'']"
    "map trace_id (stored_after None None [] sample_ops) = [''b'', ''a'']"
    by (simp_all add: sample_ops_def put_trace_def apply_policy_def newest_def ids)
  show ?thesis
    using file_store_refines_memory[OF f s] limited f by auto
qed

text \<open>
  A text with the character U+0085, which JSON leaves as it is, is cut in two when the file is
  read: the saved result is lost, and the next save removes it from the file.
\<close>

definition next_line_enc :: "execution_result \<Rightarrow> string" where
  "next_line_enc r = ''{'' @ trace_id r @ [CHR 0x85] @ ''}''"

definition next_line_dec :: "string \<Rightarrow> execution_result option" where
  "next_line_dec t = (if t = ''{a'' @ [CHR 0x85] @ ''}'' then Some (sample_result ''a'') else None)"

lemma next_line_roundtrip: "next_line_dec (next_line_enc (sample_result ''a'')) = Some (sample_result ''a'')"
  by (simp add: next_line_dec_def next_line_enc_def trace_id_def sample_result_def)

theorem file_store_loses_next_line:
  "\<exists>f. file_store next_line_enc next_line_dec None None None = Inr f \<and>
     file_ids (file_save (sample_result ''a'') f) = [] \<and>
     file_load (file_save (sample_result ''a'') f) ''a'' = None"
  by (simp add: file_store_def file_save_def file_ids_def file_load_def read_all_def write_all_def newest_def
      apply_policy_def next_line_enc_def next_line_dec_def trace_id_def sample_result_def splitlines_def
      line_break_def py_strip_def py_space_def map_filter_simps)

end
