(* ===== verification/Traces.thy ===== *)
theory Traces
  imports Observer PyText
begin

text \<open>
  \<open>chainweaver/traces.py\<close>: the import of coding-agent logs, the scoring of candidate sequences, the
  draft flow and its backtest.  Decoding a line of JSON and an ISO timestamp are arguments
  (\<open>im_loads\<close>, \<open>im_iso\<close>); numbers in a log are integers, as in the universe of values.  Rates are
  floats of \<open>Float64\<close>; a sum of floats is taken from left to right.  Warnings are values; the text
  of reports is left out.
\<close>

section \<open>Events\<close>

datatype event_kind = ToolCall | ModelCall

datatype safety_level = ReadOnly | SideEffecting | UnknownSafety

datatype recommendation = SafeToDraft | ReviewNeeded | DoNotCompile

record trace_event =
  te_session :: string
  te_turn :: "string option"
  te_kind :: event_kind
  te_tool :: "string option"
  te_args :: "val dict"
  te_status :: "string option"
  te_output_keys :: "string list"
  te_input_tokens :: "int option"
  te_output_tokens :: "int option"
  te_latency_ms :: "rat option"
  te_source :: "string option"
  te_timestamp :: "nat option"
  te_metadata :: "val dict"

definition READ_ONLY_VERBS :: "string list" where
  "READ_ONLY_VERBS =
     [''search'', ''read'', ''get'', ''list'', ''inspect'', ''fetch'', ''show'', ''find'', ''summarize'', ''diff'']"

definition SIDE_EFFECT_VERBS :: "string list" where
  "SIDE_EFFECT_VERBS =
     [''write'', ''edit'', ''delete'', ''create'', ''comment'', ''run'', ''post'', ''apply'', ''update'', ''push'']"

definition KNOWN_EVENT_KEYS :: "string list" where
  "KNOWN_EVENT_KEYS =
     [''session_id'', ''turn_id'', ''event'', ''tool'', ''tool_name'', ''args'', ''inputs'', ''result_status'',
      ''status'', ''output_keys'', ''outputs'', ''input_tokens'', ''output_tokens'', ''latency_ms'',
      ''tool_source'', ''timestamp'']"

section \<open>Import\<close>

record importer =
  im_loads :: "string \<Rightarrow> val option"
  im_iso :: "string \<Rightarrow> nat option"
  im_set_text :: "val list \<Rightarrow> string"
  im_redactor :: "redactor option"

text \<open>\<open>obj.get(k, d)\<close>.\<close>

definition get_or :: "val dict \<Rightarrow> string \<Rightarrow> val \<Rightarrow> val" where
  "get_or d k v = (case dict_get d k of None \<Rightarrow> v | Some w \<Rightarrow> w)"

definition blank :: "val \<Rightarrow> bool" where
  "blank v = (v = VNone \<or> v = VStr [])"

definition opt_str :: "importer \<Rightarrow> val \<Rightarrow> string option" where
  "opt_str im v = (if blank v then None else Some (py_str (im_set_text im) v))"

definition opt_int :: "val \<Rightarrow> int option" where
  "opt_int v = (case v of VInt i \<Rightarrow> Some i | _ \<Rightarrow> None)"

definition opt_float :: "val \<Rightarrow> rat option" where
  "opt_float v = (case v of VInt i \<Rightarrow> Some (fl (of_int i)) | _ \<Rightarrow> None)"

definition opt_dt :: "importer \<Rightarrow> val \<Rightarrow> nat option" where
  "opt_dt im v =
     (case v of
        VStr s \<Rightarrow>
          (if s = [] then None
           else im_iso im (concat (map (\<lambda>c. if c = CHR ''Z'' then ''+00:00'' else [c]) s)))
      | _ \<Rightarrow> None)"

definition event_kind_of :: "val \<Rightarrow> event_kind option" where
  "event_kind_of v =
     (if v = VStr ''tool_call'' then Some ToolCall else if v = VStr ''model_call'' then Some ModelCall else None)"

definition named_tool :: "val \<Rightarrow> string option" where
  "named_tool v = (case v of VStr s \<Rightarrow> if s = [] then None else Some s | _ \<Rightarrow> None)"

definition output_keys_of :: "importer \<Rightarrow> val dict \<Rightarrow> string list" where
  "output_keys_of im d =
     (let keys = get_or d ''output_keys'' VNone
      in case (if keys = VNone
               then (case get_or d ''outputs'' VNone of VDict out \<Rightarrow> VList (map VStr (dict_keys out)) | _ \<Rightarrow> VNone)
               else keys) of
           VList xs \<Rightarrow> map (py_str (im_set_text im)) xs
         | _ \<Rightarrow> [])"

definition redact_mapping :: "redactor option \<Rightarrow> val dict \<Rightarrow> placeholders \<Rightarrow> placeholders \<times> val dict" where
  "redact_mapping rd d ph =
     (case rd of
        None \<Rightarrow> (ph, d)
      | Some ld \<Rightarrow> (case redact_payload ld (VDict d) ph of (ph', VDict e) \<Rightarrow> (ph', e) | (ph', _) \<Rightarrow> (ph', d)))"

definition coerce_event ::
  "importer \<Rightarrow> nat option \<Rightarrow> string option \<Rightarrow> val \<Rightarrow> placeholders \<Rightarrow> exn + placeholders \<times> trace_event" where
  "coerce_event im line source obj ph =
     (case obj of
        VDict d \<Rightarrow>
          (case event_kind_of (get_or d ''event'' (VStr ''tool_call'')) of
             None \<Rightarrow> Inl (AgentTraceImportError ''unknown event kind'' source line)
           | Some kind \<Rightarrow>
               (let session = get_or d ''session_id'' VNone;
                    turn = get_or d ''turn_id'' VNone;
                    tool = get_or d ''tool'' (get_or d ''tool_name'' VNone)
                in if kind = ToolCall \<and> named_tool tool = None
                   then Inl (AgentTraceImportError ''tool_call is missing a tool name'' source line)
                   else
                     (case get_or d ''args'' (get_or d ''inputs'' (VDict [])) of
                        VDict args \<Rightarrow>
                          (let metadata = filter (\<lambda>(k, _). k \<notin> set KNOWN_EVENT_KEYS) d;
                               (ph1, safe_args) = redact_mapping (im_redactor im) args ph;
                               (ph2, safe_metadata) = redact_mapping (im_redactor im) metadata ph1
                           in Inr (ph2,
                             \<lparr>te_session = (case opt_str im session of None \<Rightarrow> ''__default__'' | Some s \<Rightarrow> s),
                              te_turn = opt_str im turn, te_kind = kind, te_tool = named_tool tool,
                              te_args = safe_args,
                              te_status = opt_str im (get_or d ''result_status'' (get_or d ''status'' VNone)),
                              te_output_keys = output_keys_of im d,
                              te_input_tokens = opt_int (get_or d ''input_tokens'' VNone),
                              te_output_tokens = opt_int (get_or d ''output_tokens'' VNone),
                              te_latency_ms = opt_float (get_or d ''latency_ms'' VNone),
                              te_source = opt_str im (get_or d ''tool_source'' VNone),
                              te_timestamp = opt_dt im (get_or d ''timestamp'' VNone),
                              te_metadata = safe_metadata\<rparr>))
                      | _ \<Rightarrow> Inl (AgentTraceImportError ''args must be a JSON object'' source line))))
      | _ \<Rightarrow> Inl (AgentTraceImportError ''expected a JSON object'' source line))"

fun parse_lines ::
  "importer \<Rightarrow> string option \<Rightarrow> (nat \<times> string) list \<Rightarrow> placeholders \<Rightarrow> exn + trace_event list" where
  "parse_lines im source [] ph = Inr []"
| "parse_lines im source ((lineno, raw) # rest) ph =
     (let line = py_strip raw in
      if line = [] then parse_lines im source rest ph
      else
        (case im_loads im line of
           None \<Rightarrow> Inl (AgentTraceImportError ''invalid JSON'' source (Some lineno))
         | Some obj \<Rightarrow>
             bind_err (coerce_event im (Some lineno) source obj ph) (\<lambda>(ph', ev).
               bind_err (parse_lines im source rest ph') (\<lambda>evs. Inr (ev # evs)))))"

definition parse_agent_trace :: "importer \<Rightarrow> string option \<Rightarrow> string \<Rightarrow> exn + trace_event list" where
  "parse_agent_trace im source txt = parse_lines im source (enumerate 1 (splitlines txt)) []"

text \<open>The file: its text, or the message of the \<open>OSError\<close>.\<close>

definition load_agent_trace :: "importer \<Rightarrow> string \<Rightarrow> string + string \<Rightarrow> exn + trace_event list" where
  "load_agent_trace im path file =
     (case file of
        Inl message \<Rightarrow> Inl (AgentTraceImportError message (Some path) None)
      | Inr txt \<Rightarrow> parse_agent_trace im (Some path) txt)"

section \<open>Grouping\<close>

definition setdefault_append :: "(string \<times> 'a list) list \<Rightarrow> string \<Rightarrow> 'a \<Rightarrow> (string \<times> 'a list) list" where
  "setdefault_append d k x = dict_set d k ((case dict_get d k of None \<Rightarrow> [] | Some xs \<Rightarrow> xs) @ [x])"

definition group_events :: "trace_event list \<Rightarrow> (string \<times> trace_event list) list" where
  "group_events events = foldl (\<lambda>d ev. setdefault_append d (te_session ev) ev) [] events"

text \<open>\<open>agent_trace_to_traces\<close>; \<open>now\<close> is the clock of the conversion.\<close>

definition observed_of :: "nat \<Rightarrow> trace_event \<Rightarrow> string \<Rightarrow> observed_step" where
  "observed_of now ev tool =
     \<lparr>os_tool = tool, os_inputs = te_args ev,
      os_outputs = (if te_output_keys ev = [] then None
                    else Some (map (\<lambda>k. (k, VNone)) (dedup_first (te_output_keys ev)))),
      os_recorded_at = (case te_timestamp ev of None \<Rightarrow> now | Some t \<Rightarrow> t),
      os_duration_ms = (case te_latency_ms ev of None \<Rightarrow> 0 | Some l \<Rightarrow> l)\<rparr>"

definition add_observed ::
  "nat \<Rightarrow> (string \<times> observed_step list) list \<Rightarrow> trace_event \<Rightarrow> (string \<times> observed_step list) list" where
  "add_observed now d ev =
     (case te_tool ev of
        Some tool \<Rightarrow>
          (if te_kind ev = ToolCall then setdefault_append d (te_session ev) (observed_of now ev tool) else d)
      | None \<Rightarrow> d)"

definition agent_trace_to_traces :: "nat \<Rightarrow> trace_event list \<Rightarrow> observed_trace list" where
  "agent_trace_to_traces now events =
     map (\<lambda>(session, steps).
       \<lparr>ot_id = session, ot_source = ''agent-trace'',
        ot_started_at = (case steps of [] \<Rightarrow> now | s # _ \<Rightarrow> os_recorded_at s),
        ot_ended_at = (if steps = [] then None else Some (os_recorded_at (last steps))), ot_steps = steps\<rparr>)
       (foldl (add_observed now) [] events)"

section \<open>Scoring\<close>

definition leaf_verb :: "string \<Rightarrow> string" where
  "leaf_verb name =
     lower (hd (split_on (CHR ''_'')
       (last (split_on (CHR ''.'') (map (\<lambda>c. if c = CHR ''-'' then CHR ''_'' else c) name)))))"

definition classify_safety :: "string list \<Rightarrow> safety_level" where
  "classify_safety sequence =
     (let leaves = map leaf_verb sequence
      in if list_ex (\<lambda>v. v \<in> set SIDE_EFFECT_VERBS) leaves then SideEffecting
         else if leaves \<noteq> [] \<and> list_all (\<lambda>v. v \<in> set READ_ONLY_VERBS) leaves then ReadOnly
         else UnknownSafety)"

definition find_windows :: "string list list \<Rightarrow> string list \<Rightarrow> nat list" where
  "find_windows sequences sequence =
     map (\<lambda>seq. length (filter (\<lambda>start. take (length sequence) (drop start seq) = sequence)
            [0 ..< length seq + 1 - length sequence])) sequences"

definition has_tool :: "trace_event \<Rightarrow> bool" where
  "has_tool ev = (case te_tool ev of None \<Rightarrow> False | Some t \<Rightarrow> t \<noteq> [])"

definition tool_events :: "trace_event list \<Rightarrow> trace_event list" where
  "tool_events evs = filter (\<lambda>ev. te_kind ev = ToolCall \<and> has_tool ev) evs"

definition iter_windows :: "trace_event list \<Rightarrow> string list \<Rightarrow> trace_event list list" where
  "iter_windows session_events sequence =
     (let tes = tool_events session_events; width = length sequence
      in filter (\<lambda>window. map te_tool window = map Some sequence)
           (map (\<lambda>start. take width (drop start tes)) [0 ..< length tes + 1 - width]))"

definition all_windows :: "(string \<times> trace_event list) list \<Rightarrow> string list \<Rightarrow> trace_event list list" where
  "all_windows per_session sequence = concat (map (\<lambda>(_, evs). iter_windows evs sequence) per_session)"

definition success_rate :: "(string \<times> trace_event list) list \<Rightarrow> string list \<Rightarrow> rat" where
  "success_rate per_session sequence =
     (let windows = all_windows per_session sequence;
          ok = filter (list_all (\<lambda>ev. te_status ev \<noteq> Some ''error'')) windows
      in if windows = [] then 1 else fdiv (of_nat (length ok)) (of_nat (length windows)))"

text \<open>\<open>counter.most_common(1)[0][1]\<close> of a counter of key sets.\<close>

definition most_common :: "string list list \<Rightarrow> nat" where
  "most_common keysets =
     foldr max (map (\<lambda>ks. length (filter (\<lambda>ks'. set ks' = set ks) keysets)) keysets) 0"

definition schema_stability :: "(string \<times> trace_event list) list \<Rightarrow> string list \<Rightarrow> rat" where
  "schema_stability per_session sequence =
     (let windows = all_windows per_session sequence; total = length windows
      in if total \<le> 1 then 1
         else
           (let scores = map (\<lambda>position.
                  fdiv (of_nat (most_common (map (\<lambda>w. dict_keys (te_args (w ! position))) windows))) (of_nat total))
                  [0 ..< length sequence]
            in fdiv (foldl fadd 0 scores) (of_nat (length scores))))"

text \<open>The pairs of neighbours that start with the tool at each non-final position.\<close>

definition successor_pairs :: "string list list \<Rightarrow> string list \<Rightarrow> (string \<times> string) list" where
  "successor_pairs name_sequences sequence =
     concat (map (\<lambda>position. concat (map (\<lambda>seq.
       map (\<lambda>index. (sequence ! (position + 1), seq ! (index + 1)))
         (filter (\<lambda>index. seq ! index = sequence ! position) [0 ..< length seq - 1])) name_sequences))
       [0 ..< length sequence - 1])"

definition path_determinism :: "string list list \<Rightarrow> string list \<Rightarrow> rat" where
  "path_determinism name_sequences sequence =
     (if length sequence < 2 then 1
      else
        (let pairs = successor_pairs name_sequences sequence;
             hits = filter (\<lambda>(expected, actual). actual = expected) pairs
         in if pairs = [] then 1 else fdiv (of_nat (length hits)) (of_nat (length pairs))))"

text \<open>\<open>round(median(xs))\<close> of a non-empty list of integers.\<close>

definition round_median :: "int list \<Rightarrow> int" where
  "round_median xs =
     (let s = sort xs; n = length xs
      in if odd n then s ! (n div 2)
         else round_even (fdiv (of_int (s ! (n div 2 - 1) + s ! (n div 2))) 2))"

text \<open>The events between the first and the last call of each matched window.\<close>

definition matched_spans :: "trace_event list \<Rightarrow> string list \<Rightarrow> trace_event list list" where
  "matched_spans evs sequence =
     (let positions = filter (\<lambda>i. te_kind (evs ! i) = ToolCall \<and> has_tool (evs ! i)) [0 ..< length evs];
          names = map (\<lambda>i. te_tool (evs ! i)) positions; width = length sequence
      in map (\<lambda>start. take (positions ! (start + width - 1) + 1 - positions ! start) (drop (positions ! start) evs))
           (filter (\<lambda>start. take width (drop start names) = map Some sequence)
             [0 ..< length positions + 1 - width]))"

definition span_tokens :: "(trace_event \<Rightarrow> int option) \<Rightarrow> trace_event list \<Rightarrow> int" where
  "span_tokens tokens evs =
     sum_list (List.map_filter tokens (filter (\<lambda>ev. te_kind ev = ModelCall) evs))"

definition token_savings :: "(string \<times> trace_event list) list \<Rightarrow> string list \<Rightarrow> int \<times> int" where
  "token_savings per_session sequence =
     (let spans = concat (map (\<lambda>(_, evs). matched_spans evs sequence) per_session);
          median_of = (\<lambda>tokens. if spans = [] then 0 else round_median (map (span_tokens tokens) spans))
      in (median_of te_input_tokens, median_of te_output_tokens))"

datatype score_warning =
    LowSupport nat
  | LowSuccess rat
  | UnstableShapes rat
  | NotDeterministic rat
  | HasSideEffects
  | SafetyUnknown
  | NoProducer nat "string option" string

definition candidate_warnings :: "nat \<Rightarrow> rat \<Rightarrow> rat \<Rightarrow> rat \<Rightarrow> safety_level \<Rightarrow> score_warning list" where
  "candidate_warnings support success stability det safety =
     (if support < 3 then [LowSupport support] else []) @
     (if success < fl (9 / 10) then [LowSuccess success] else []) @
     (if stability < fl (8 / 10) then [UnstableShapes stability] else []) @
     (if det < fl (8 / 10) then [NotDeterministic det] else []) @
     (case safety of SideEffecting \<Rightarrow> [HasSideEffects] | UnknownSafety \<Rightarrow> [SafetyUnknown] | ReadOnly \<Rightarrow> [])"

definition combine_score :: "nat \<Rightarrow> rat \<Rightarrow> rat \<Rightarrow> rat \<Rightarrow> safety_level \<Rightarrow> rat" where
  "combine_score support success stability det safety =
     (let support_factor = fdiv (of_nat (min support 10)) 10;
          safety_factor = (case safety of ReadOnly \<Rightarrow> 1 | UnknownSafety \<Rightarrow> fl (6 / 10) | SideEffecting \<Rightarrow> fl (3 / 10));
          raw = fadd (fadd (fadd (fadd (fmul (fl (1 / 4)) support_factor) (fmul (fl (1 / 4)) success))
                  (fmul (fl (2 / 10)) stability)) (fmul (fl (2 / 10)) det)) (fmul (fl (1 / 10)) safety_factor)
      in max 0 (min 1 raw))"

definition recommend :: "rat \<Rightarrow> safety_level \<Rightarrow> score_warning list \<Rightarrow> recommendation" where
  "recommend score safety warnings =
     (if safety = SideEffecting then DoNotCompile
      else if fl (3 / 4) \<le> score \<and> warnings = [] then SafeToDraft
      else ReviewNeeded)"

record candidate_score =
  cs_sequence :: "string list"
  cs_support :: nat
  cs_sessions :: nat
  cs_success_rate :: rat
  cs_model_calls_removed :: nat
  cs_input_tokens_saved :: int
  cs_output_tokens_saved :: int
  cs_schema_stability :: rat
  cs_determinism :: rat
  cs_safety_level :: safety_level
  cs_recommendation :: recommendation
  cs_score :: rat
  cs_warnings :: "score_warning list"

text \<open>The name sequence of a session: every event with a tool name, whatever its kind.\<close>

definition name_sequence :: "trace_event list \<Rightarrow> string list" where
  "name_sequence evs = map (\<lambda>ev. the (te_tool ev)) (filter has_tool evs)"

definition score_candidate :: "trace_event list \<Rightarrow> string list \<Rightarrow> exn + candidate_score" where
  "score_candidate events sequence =
     (if sequence = [] then Inl (ValueError ''sequence must contain at least one tool.'')
      else
        (let per_session = group_events events;
             name_sequences = map (\<lambda>(_, evs). name_sequence evs) per_session;
             match_counts = find_windows name_sequences sequence;
             support = sum_list match_counts;
             success = success_rate per_session sequence;
             stability = schema_stability per_session sequence;
             det = path_determinism name_sequences sequence;
             (in_tokens, out_tokens) = token_savings per_session sequence;
             safety = classify_safety sequence;
             warnings = candidate_warnings support success stability det safety;
             score = combine_score support success stability det safety
         in Inr \<lparr>cs_sequence = sequence, cs_support = support,
                 cs_sessions = length (filter (\<lambda>c. c > 0) match_counts),
                 cs_success_rate = round_places 4 success, cs_model_calls_removed = length sequence,
                 cs_input_tokens_saved = in_tokens, cs_output_tokens_saved = out_tokens,
                 cs_schema_stability = round_places 4 stability, cs_determinism = round_places 4 det,
                 cs_safety_level = safety, cs_recommendation = recommend score safety warnings,
                 cs_score = round_places 4 score, cs_warnings = warnings\<rparr>))"

section \<open>Draft flows\<close>

definition candidate_flow_name :: "string list \<Rightarrow> string" where
  "candidate_flow_name sequence =
     ''draft__'' @ join_str ''__''
       (map (map (\<lambda>c. if c = CHR ''.'' \<or> c = CHR ''-'' then CHR ''_'' else c)) sequence)"

definition synthetic_event :: "string \<Rightarrow> trace_event" where
  "synthetic_event tool =
     \<lparr>te_session = ''__synthetic__'', te_turn = None, te_kind = ToolCall, te_tool = Some tool, te_args = [],
      te_status = None, te_output_keys = [], te_input_tokens = None, te_output_tokens = None,
      te_latency_ms = None, te_source = None, te_timestamp = None, te_metadata = []\<rparr>"

definition representative_window :: "trace_event list \<Rightarrow> string list \<Rightarrow> trace_event list" where
  "representative_window events sequence =
     (case all_windows (group_events events) sequence of
        w # _ \<Rightarrow> w | [] \<Rightarrow> map synthetic_event sequence)"

text \<open>The steps with their mappings, and the arguments no earlier step produces.\<close>

fun draft_steps :: "nat \<Rightarrow> string list \<Rightarrow> trace_event list \<Rightarrow> flow_step list \<times> score_warning list" where
  "draft_steps position upstream [] = ([], [])"
| "draft_steps position upstream (ev # evs) =
     (let input_keys = sort (dedup_first (dict_keys (te_args ev)));
          keys = (if position = 0 then input_keys else filter (\<lambda>k. k \<in> set upstream) input_keys);
          missing = (if position = 0 then [] else filter (\<lambda>k. k \<notin> set upstream) input_keys);
          stp = mk_step\<lparr>s_tool_name := Some (case te_tool ev of None \<Rightarrow> [] | Some t \<Rightarrow> t),
                        s_input_mapping := map (\<lambda>k. (k, VStr k)) keys\<rparr>;
          (steps, warnings) = draft_steps (position + 1) (upstream @ te_output_keys ev) evs
      in (stp # steps, map (NoProducer position (te_tool ev)) missing @ warnings))"

definition recommendation_text :: "recommendation \<Rightarrow> string" where
  "recommendation_text r =
     (case r of SafeToDraft \<Rightarrow> ''safe_to_draft'' | ReviewNeeded \<Rightarrow> ''review_needed''
      | DoNotCompile \<Rightarrow> ''do_not_compile'')"

record draft_flow =
  df_flow :: flow
  df_score :: candidate_score
  df_warnings :: "score_warning list"

text \<open>A negative saving, from a log with negative token counts, is refused by the governance model.\<close>

definition draft_flow_from_candidate ::
  "(candidate_score \<Rightarrow> string) \<Rightarrow> trace_event list \<Rightarrow> candidate_score \<Rightarrow> string option \<Rightarrow> exn + draft_flow" where
  "draft_flow_from_candidate describe events sc name =
     (let sequence = cs_sequence sc;
          (steps, missing) = draft_steps 0 [] (representative_window events sequence);
          savings = (cs_input_tokens_saved sc + cs_output_tokens_saved sc) * int (cs_support sc)
      in if savings < 0 then Inl (ValidationError ''estimated_token_savings'')
         else
           Inr \<lparr>df_flow =
                  (mk_flow (case name of None \<Rightarrow> candidate_flow_name sequence
                            | Some n \<Rightarrow> if n = [] then candidate_flow_name sequence else n) steps)
                  \<lparr>f_version := ''0.0.0'', f_description := describe sc,
                   f_governance := default_governance
                     \<lparr>lifecycle := LC_DRAFT, replaces_tools := sequence,
                      estimated_model_calls_removed := cs_model_calls_removed sc * cs_support sc,
                      estimated_token_savings := Some (nat savings),
                      review_notes := Some (''recommendation='' @ recommendation_text (cs_recommendation sc))\<rparr>\<rparr>,
                df_score = sc, df_warnings = cs_warnings sc @ missing\<rparr>)"

section \<open>Backtesting\<close>

datatype mismatch_reason = MissingFields "string list" | ErrorStatus

record backtest_mismatch =
  bm_session :: string
  bm_step_index :: nat
  bm_tool_name :: string
  bm_reason :: mismatch_reason

record backtest_report =
  bt_flow_name :: string
  bt_examples_tested :: nat
  bt_passed_input_shape :: nat
  bt_produced_expected_output :: nat
  bt_mismatches :: "backtest_mismatch list"

definition step_label :: "flow_step \<Rightarrow> string" where
  "step_label s = (case py_or (s_tool_name s) (s_flow_name s) of None \<Rightarrow> [] | Some n \<Rightarrow> n)"

definition missing_fields :: "flow_step \<Rightarrow> trace_event \<Rightarrow> string list" where
  "missing_fields s ev = filter (\<lambda>k. k \<notin> set (dict_keys (te_args ev))) (sort (dedup_first (dict_keys (s_input_mapping s))))"

definition step_mismatches :: "string \<Rightarrow> nat \<Rightarrow> flow_step \<Rightarrow> trace_event \<Rightarrow> backtest_mismatch list" where
  "step_mismatches session i s ev =
     (let m = (\<lambda>r. \<lparr>bm_session = session, bm_step_index = i, bm_tool_name = step_label s, bm_reason = r\<rparr>)
      in (if missing_fields s ev \<noteq> [] then [m (MissingFields (missing_fields s ev))] else []) @
         (if te_status ev = Some ''error'' then [m ErrorStatus] else []))"

definition shape_ok :: "flow_step list \<Rightarrow> trace_event list \<Rightarrow> bool" where
  "shape_ok steps window = list_all (\<lambda>(s, ev). missing_fields s ev = []) (zip steps window)"

definition status_ok :: "flow_step list \<Rightarrow> trace_event list \<Rightarrow> bool" where
  "status_ok steps window = list_all (\<lambda>(s, ev). te_status ev \<noteq> Some ''error'') (zip steps window)"

definition backtest_window ::
  "string \<Rightarrow> flow_step list \<Rightarrow> backtest_report \<Rightarrow> trace_event list \<Rightarrow> backtest_report" where
  "backtest_window session steps rep window =
     rep\<lparr>bt_examples_tested := bt_examples_tested rep + 1,
         bt_passed_input_shape := bt_passed_input_shape rep + (if shape_ok steps window then 1 else 0),
         bt_produced_expected_output :=
           bt_produced_expected_output rep + (if shape_ok steps window \<and> status_ok steps window then 1 else 0),
         bt_mismatches := bt_mismatches rep @
           concat (map (\<lambda>(i, s, ev). step_mismatches session i s ev) (enumerate 0 (zip steps window)))\<rparr>"

definition backtest_flow :: "flow \<Rightarrow> trace_event list \<Rightarrow> backtest_report" where
  "backtest_flow f events =
     (let sequence = map step_label (f_steps f)
      in foldl (\<lambda>rep (session, evs). foldl (backtest_window session (f_steps f)) rep (iter_windows evs sequence))
           \<lparr>bt_flow_name = f_name f, bt_examples_tested = 0, bt_passed_input_shape = 0,
            bt_produced_expected_output = 0, bt_mismatches = []\<rparr>
           (group_events events))"

section \<open>What the recommendation rests on\<close>

lemma success_rate_unit: "0 \<le> success_rate p s \<and> success_rate p s \<le> 1"
proof (cases "all_windows p s = []")
  case False
  then show ?thesis
    using length_filter_le[of "list_all (\<lambda>ev. te_status ev \<noteq> Some ''error'')" "all_windows p s"]
    by (simp add: success_rate_def Let_def fdiv_unit)
qed (simp add: success_rate_def)

lemma determinism_unit: "0 \<le> path_determinism n s \<and> path_determinism n s \<le> 1"
proof (cases "length s < 2 \<or> successor_pairs n s = []")
  case False
  then show ?thesis
    using length_filter_le[of "\<lambda>(expected, actual). actual = expected" "successor_pairs n s"]
    by (simp add: path_determinism_def Let_def fdiv_unit)
qed (auto simp: path_determinism_def)

lemma combine_unit: "0 \<le> combine_score n a b c s \<and> combine_score n a b c s \<le> 1"
  by (simp add: combine_score_def Let_def)

lemma classify_safety_cases:
  "classify_safety s = SideEffecting \<longleftrightarrow> list_ex (\<lambda>t. leaf_verb t \<in> set SIDE_EFFECT_VERBS) s"
  "classify_safety s = ReadOnly \<Longrightarrow> list_all (\<lambda>t. leaf_verb t \<in> set READ_ONLY_VERBS) s"
  by (auto simp: classify_safety_def Let_def list_all_iff list_ex_iff split: if_splits)

lemma no_warnings:
  "candidate_warnings n a b c s = [] \<longleftrightarrow>
     3 \<le> n \<and> fl (9 / 10) \<le> a \<and> fl (8 / 10) \<le> b \<and> fl (8 / 10) \<le> c \<and> s = ReadOnly"
  by (cases s) (auto simp: candidate_warnings_def)

lemma score_candidate_fields:
  assumes "score_candidate events sequence = Inr sc"
  shows "sequence \<noteq> []"
    "cs_support sc = sum_list (find_windows (map (\<lambda>(_, evs). name_sequence evs) (group_events events)) sequence)"
    "cs_success_rate sc = round_places 4 (success_rate (group_events events) sequence)"
    "cs_determinism sc =
       round_places 4 (path_determinism (map (\<lambda>(_, evs). name_sequence evs) (group_events events)) sequence)"
    "\<exists>score warnings. cs_score sc = round_places 4 score \<and> 0 \<le> score \<and> score \<le> 1 \<and>
       cs_recommendation sc = recommend score (classify_safety sequence) warnings \<and>
       warnings = candidate_warnings (cs_support sc) (success_rate (group_events events) sequence)
         (schema_stability (group_events events) sequence)
         (path_determinism (map (\<lambda>(_, evs). name_sequence evs) (group_events events)) sequence)
         (classify_safety sequence)"
  using assms combine_unit by (auto simp: score_candidate_def Let_def split: if_splits prod.splits)

lemma recommendation_facts:
  assumes "score_candidate events sequence = Inr sc"
  shows "0 \<le> cs_score sc \<and> cs_score sc \<le> 1 \<and> 0 \<le> cs_success_rate sc \<and> cs_success_rate sc \<le> 1 \<and>
      0 \<le> cs_determinism sc \<and> cs_determinism sc \<le> 1"
    and "cs_recommendation sc = SafeToDraft \<Longrightarrow>
      list_all (\<lambda>t. leaf_verb t \<in> set READ_ONLY_VERBS) sequence \<and> 3 \<le> cs_support sc \<and>
      fl (9 / 10) \<le> success_rate (group_events events) sequence"
    and "cs_recommendation sc = DoNotCompile \<longleftrightarrow> list_ex (\<lambda>t. leaf_verb t \<in> set SIDE_EFFECT_VERBS) sequence"
proof -
  obtain score warnings where score: "cs_score sc = round_places 4 score" "0 \<le> score \<and> score \<le> 1"
    "cs_recommendation sc = recommend score (classify_safety sequence) warnings"
    and warnings: "warnings = candidate_warnings (cs_support sc) (success_rate (group_events events) sequence)
         (schema_stability (group_events events) sequence)
         (path_determinism (map (\<lambda>(_, evs). name_sequence evs) (group_events events)) sequence)
         (classify_safety sequence)"
    using score_candidate_fields(5)[OF assms] by blast
  show "0 \<le> cs_score sc \<and> cs_score sc \<le> 1 \<and> 0 \<le> cs_success_rate sc \<and> cs_success_rate sc \<le> 1 \<and>
      0 \<le> cs_determinism sc \<and> cs_determinism sc \<le> 1"
    using score success_rate_unit determinism_unit round_places_unit
    by (simp add: score_candidate_fields(3,4)[OF assms])
  show "list_all (\<lambda>t. leaf_verb t \<in> set READ_ONLY_VERBS) sequence \<and> 3 \<le> cs_support sc \<and>
      fl (9 / 10) \<le> success_rate (group_events events) sequence" if "cs_recommendation sc = SafeToDraft"
    using that classify_safety_cases(2)[of sequence]
    unfolding score(3) recommend_def warnings no_warnings by (auto split: if_splits)
  show "cs_recommendation sc = DoNotCompile \<longleftrightarrow> list_ex (\<lambda>t. leaf_verb t \<in> set SIDE_EFFECT_VERBS) sequence"
    unfolding score(3) recommend_def classify_safety_cases(1)[symmetric] by auto
qed


text \<open>An agent that reads and searches in one turn after the other.\<close>

definition sample_event :: "string \<Rightarrow> trace_event" where
  "sample_event tool = (synthetic_event tool)\<lparr>te_session := ''s''\<rparr>"

definition sample_log :: "trace_event list" where
  "sample_log = replicate 3 (sample_event ''fs.read_file'')"

lemma score_candidate_returns: "sequence \<noteq> [] \<Longrightarrow> \<exists>sc. score_candidate events sequence = Inr sc"
  by (simp add: score_candidate_def Let_def case_prod_unfold)

lemma sample_recommendation:
  "map_sum (\<lambda>_. ()) cs_recommendation (score_candidate sample_log [''fs.read_file'']) = Inr SafeToDraft"
  by code_simp


section \<open>Backtests\<close>

lemma step_mismatches_none:
  "step_mismatches session i s ev = [] \<longleftrightarrow> missing_fields s ev = [] \<and> te_status ev \<noteq> Some ''error''"
  by (simp add: step_mismatches_def Let_def)

lemma window_mismatches_none:
  "concat (map (\<lambda>(i, s, ev). step_mismatches session i s ev) (enumerate 0 (zip steps window))) = [] \<longleftrightarrow>
     shape_ok steps window \<and> status_ok steps window"
proof -
  have "concat (map (\<lambda>(i, s, ev). step_mismatches session i s ev) (enumerate n ps)) = [] \<longleftrightarrow>
      list_all (\<lambda>(s, ev). missing_fields s ev = []) ps \<and> list_all (\<lambda>(s, ev). te_status ev \<noteq> Some ''error'') ps" for n ps
    by (induction ps arbitrary: n) (auto simp: step_mismatches_none)
  then show ?thesis by (simp add: shape_ok_def status_ok_def)
qed

definition counts_of :: "backtest_report \<Rightarrow> flow_step list \<Rightarrow> trace_event list list \<Rightarrow> backtest_report \<Rightarrow> bool" where
  "counts_of rep steps windows rep' \<longleftrightarrow>
     bt_examples_tested rep' = bt_examples_tested rep + length windows \<and>
     bt_passed_input_shape rep' = bt_passed_input_shape rep + length (filter (shape_ok steps) windows) \<and>
     bt_produced_expected_output rep' =
       bt_produced_expected_output rep + length (filter (\<lambda>w. shape_ok steps w \<and> status_ok steps w) windows) \<and>
     (bt_mismatches rep' = [] \<longleftrightarrow>
       bt_mismatches rep = [] \<and> list_all (\<lambda>w. shape_ok steps w \<and> status_ok steps w) windows) \<and>
     bt_flow_name rep' = bt_flow_name rep"

lemma counts_of_session: "counts_of rep steps windows (foldl (backtest_window session steps) rep windows)"
proof (induction windows arbitrary: rep)
  case (Cons w windows)
  then show ?case
    using Cons.IH[of "backtest_window session steps rep w"] window_mismatches_none[of session steps w]
    by (auto simp: counts_of_def backtest_window_def simp del: concat_eq_Nil_conv)
qed (simp add: counts_of_def)

lemma counts_of_trans: "counts_of a steps xs b \<Longrightarrow> counts_of b steps ys c \<Longrightarrow> counts_of a steps (xs @ ys) c"
  by (auto simp: counts_of_def)

lemma counts_of_sessions:
  "counts_of rep steps (all_windows per_session sequence)
     (foldl (\<lambda>rep (session, evs). foldl (backtest_window session steps) rep (iter_windows evs sequence)) rep per_session)"
proof (induction per_session arbitrary: rep)
  case Nil
  then show ?case by (simp add: counts_of_def all_windows_def)
next
  case (Cons p per_session)
  obtain session evs where p: "p = (session, evs)" by fastforce
  show ?case
    using counts_of_trans[OF counts_of_session Cons.IH] by (simp add: p all_windows_def)
qed

text \<open>
  A backtest examines every window of the traces that matches the flow's steps; the counts
  are the windows that supply every mapped input, and those that also report no error.  It
  reports no mismatch exactly when every window reproduces the flow.
\<close>

theorem backtest_counts:
  "bt_examples_tested (backtest_flow f events) = length (all_windows (group_events events) (map step_label (f_steps f)))"
  "bt_passed_input_shape (backtest_flow f events) =
     length (filter (shape_ok (f_steps f)) (all_windows (group_events events) (map step_label (f_steps f))))"
  "bt_produced_expected_output (backtest_flow f events) =
     length (filter (\<lambda>w. shape_ok (f_steps f) w \<and> status_ok (f_steps f) w)
       (all_windows (group_events events) (map step_label (f_steps f))))"
  "bt_mismatches (backtest_flow f events) = [] \<longleftrightarrow>
     bt_produced_expected_output (backtest_flow f events) = bt_examples_tested (backtest_flow f events)"
proof -
  let ?w = "all_windows (group_events events) (map step_label (f_steps f))"
  let ?r0 = "\<lparr>bt_flow_name = f_name f, bt_examples_tested = 0, bt_passed_input_shape = 0,
              bt_produced_expected_output = 0, bt_mismatches = []\<rparr>"
  have c: "counts_of ?r0 (f_steps f) ?w (backtest_flow f events)"
    unfolding backtest_flow_def Let_def by (rule counts_of_sessions)
  then show "bt_examples_tested (backtest_flow f events) = length ?w"
    "bt_passed_input_shape (backtest_flow f events) = length (filter (shape_ok (f_steps f)) ?w)"
    "bt_produced_expected_output (backtest_flow f events) =
       length (filter (\<lambda>w. shape_ok (f_steps f) w \<and> status_ok (f_steps f) w) ?w)"
    by (simp_all add: counts_of_def)
  have "(length (filter P xs) = length xs) = list_all P xs" for P :: "trace_event list \<Rightarrow> bool" and xs
  proof (induction xs)
    case (Cons x xs)
    have "length (filter P xs) \<noteq> Suc (length xs)" using length_filter_le[of P xs] by linarith
    then show ?case using Cons.IH by simp
  qed simp
  then show "bt_mismatches (backtest_flow f events) = [] \<longleftrightarrow>
     bt_produced_expected_output (backtest_flow f events) = bt_examples_tested (backtest_flow f events)"
    using c by (simp add: counts_of_def)
qed

section \<open>Redaction at import\<close>

text \<open>What mining, scoring and backtesting read of an event: everything but the redacted values.\<close>

definition skeleton :: "trace_event \<Rightarrow> trace_event" where
  "skeleton ev = ev\<lparr>te_args := map (\<lambda>k. (k, VNone)) (dict_keys (te_args ev)), te_metadata := []\<rparr>"

lemma skeleton_simps [simp]:
  "te_session (skeleton ev) = te_session ev" "te_turn (skeleton ev) = te_turn ev"
  "te_kind (skeleton ev) = te_kind ev" "te_tool (skeleton ev) = te_tool ev"
  "te_status (skeleton ev) = te_status ev" "te_output_keys (skeleton ev) = te_output_keys ev"
  "te_input_tokens (skeleton ev) = te_input_tokens ev" "te_output_tokens (skeleton ev) = te_output_tokens ev"
  "has_tool (skeleton ev) = has_tool ev"
  by (simp_all add: skeleton_def has_tool_def)

lemma skeleton_keys [simp]: "dict_keys (te_args (skeleton ev)) = dict_keys (te_args ev)"
  by (simp add: skeleton_def comp_def)

lemma run_all_keys:
  assumes "list_all2 (\<lambda>f k. \<forall>ph. fst (snd (f ph)) = k) fs ks"
  shows "map fst (snd (run_all fs ph)) = ks"
  using assms
proof (induction fs ks arbitrary: ph rule: list_all2_induct)
  case (Cons f fs k ks)
  obtain ph1 x where f: "f ph = (ph1, x)" by (cases "f ph")
  obtain ph2 xs where r: "run_all fs ph1 = (ph2, xs)" by (cases "run_all fs ph1")
  have "fst x = k" using Cons(1)[rule_format, of ph] f by simp
  then show ?case using Cons.IH[of ph1] f r by simp
qed simp

lemma redact_mapping_keys: "dict_keys (snd (redact_mapping rd d ph)) = dict_keys d"
proof (cases rd)
  case (Some ld)
  let ?fs = "map (load_entry ld) (zip d (map (map_prod id (load_value ld)) d))"
  have "list_all2 (\<lambda>f k. \<forall>ph. fst (snd (f ph)) = k) ?fs (dict_keys d)"
    by (auto simp: list_all2_conv_all_nth load_entry_def Let_def case_prod_beta)
  from run_all_keys[OF this, of ph] show ?thesis
    by (auto simp: redact_mapping_def Some redact_payload_def case_prod_beta)
qed (simp add: redact_mapping_def)

lemma importer_redactor [simp]:
  "opt_str (im\<lparr>im_redactor := a\<rparr>) = opt_str im" "opt_dt (im\<lparr>im_redactor := a\<rparr>) = opt_dt im"
  "output_keys_of (im\<lparr>im_redactor := a\<rparr>) = output_keys_of im"
  by (simp_all add: fun_eq_iff opt_str_def opt_dt_def output_keys_of_def split: val.splits)

lemma coerce_skeleton:
  "map_sum id (skeleton \<circ> snd) (coerce_event (im\<lparr>im_redactor := a\<rparr>) line source obj ph) =
   map_sum id (skeleton \<circ> snd) (coerce_event (im\<lparr>im_redactor := b\<rparr>) line source obj ph')"
proof (cases obj)
  case (VDict d)
  show ?thesis
    by (simp add: VDict coerce_event_def Let_def case_prod_beta skeleton_def redact_mapping_keys split: option.split val.split)
qed (simp_all add: coerce_event_def)

lemma parse_skeleton:
  "map_sum id (map skeleton) (parse_lines (im\<lparr>im_redactor := a\<rparr>) source ls ph) =
   map_sum id (map skeleton) (parse_lines (im\<lparr>im_redactor := b\<rparr>) source ls ph')"
proof (induction ls arbitrary: ph ph')
  case (Cons l ls)
  obtain n raw where l: "l = (n, raw)" by fastforce
  show ?case
  proof (cases "py_strip raw = [] \<or> im_loads im (py_strip raw) = None")
    case True
    then show ?thesis using Cons.IH[of ph ph'] by (auto simp: l Let_def)
  next
    case False
    then obtain obj where obj: "py_strip raw \<noteq> []" "im_loads im (py_strip raw) = Some obj" by auto
    let ?x = "coerce_event (im\<lparr>im_redactor := a\<rparr>) (Some n) source obj ph"
    let ?y = "coerce_event (im\<lparr>im_redactor := b\<rparr>) (Some n) source obj ph'"
    have xy: "map_sum id (skeleton \<circ> snd) ?x = map_sum id (skeleton \<circ> snd) ?y" by (rule coerce_skeleton)
    show ?thesis
    proof (cases ?x)
      case (Inl e)
      with xy have "?y = Inl e" by (cases ?y) auto
      with Inl show ?thesis by (simp add: l obj Let_def)
    next
      case (Inr pe)
      with xy obtain qe where "?y = Inr qe" "skeleton (snd pe) = skeleton (snd qe)" by (cases ?y) auto
      with Inr show ?thesis
        using Cons.IH[of "fst pe" "fst qe"]
        by (cases "parse_lines (im\<lparr>im_redactor := a\<rparr>) source ls (fst pe)";
            cases "parse_lines (im\<lparr>im_redactor := b\<rparr>) source ls (fst qe)")
          (simp_all add: l obj Let_def case_prod_beta)
    qed
  qed
qed simp

text \<open>Every consumer sees the skeleton only.\<close>

lemma group_skeleton: "group_events (map skeleton evs) = map (apsnd (map skeleton)) (group_events evs)"
proof -
  have upd: "dict_set (map (apsnd g) d) k (g v) = map (apsnd g) (dict_set d k v)"
    for d :: "(string \<times> trace_event list) list" and k v and g :: "trace_event list \<Rightarrow> trace_event list"
    by (induction d) auto
  have get: "dict_get (map (apsnd g) d) k = map_option g (dict_get d k)"
    for d :: "(string \<times> trace_event list) list" and k and g :: "trace_event list \<Rightarrow> trace_event list"
    by (induction d) auto
  have "setdefault_append (map (apsnd (map skeleton)) d) k (skeleton ev) =
      map (apsnd (map skeleton)) (setdefault_append d k ev)" for d k ev
    by (auto simp: setdefault_append_def get simp flip: upd split: option.splits)
  then have "foldl (\<lambda>d ev. setdefault_append d (te_session ev) ev) (map (apsnd (map skeleton)) d) (map skeleton evs) =
      map (apsnd (map skeleton)) (foldl (\<lambda>d ev. setdefault_append d (te_session ev) ev) d evs)" for d
    by (induction evs arbitrary: d) simp_all
  from this[of "[]"] show ?thesis by (simp add: group_events_def)
qed

lemma windows_skeleton: "iter_windows (map skeleton evs) sequence = map (map skeleton) (iter_windows evs sequence)"
  by (simp add: iter_windows_def tool_events_def Let_def filter_map comp_def take_map drop_map)

lemma all_windows_skeleton:
  "all_windows (map (apsnd (map skeleton)) g) sequence = map (map skeleton) (all_windows g sequence)"
  by (induction g) (auto simp: all_windows_def windows_skeleton)

lemma success_skeleton: "success_rate (map (apsnd (map skeleton)) g) sequence = success_rate g sequence"
  by (simp add: success_rate_def all_windows_skeleton Let_def filter_map comp_def list.pred_map)

lemma window_length: "w \<in> set (all_windows g sequence) \<Longrightarrow> length w = length sequence"
  by (auto simp: all_windows_def iter_windows_def Let_def dest: map_eq_imp_length_eq)

lemma stability_skeleton: "schema_stability (map (apsnd (map skeleton)) g) sequence = schema_stability g sequence"
proof -
  have "map (\<lambda>w. dict_keys (te_args (map skeleton w ! i))) (all_windows g sequence) =
      map (\<lambda>w. dict_keys (te_args (w ! i))) (all_windows g sequence)" if "i < length sequence" for i
  proof (rule map_cong[OF refl])
    fix w assume "w \<in> set (all_windows g sequence)"
    then show "dict_keys (te_args (map skeleton w ! i)) = dict_keys (te_args (w ! i))"
      using that window_length[of w g sequence] by simp
  qed
  then have "map (\<lambda>i. f (map (\<lambda>w. dict_keys (te_args (map skeleton w ! i))) (all_windows g sequence))) [0 ..< length sequence] =
      map (\<lambda>i. f (map (\<lambda>w. dict_keys (te_args (w ! i))) (all_windows g sequence))) [0 ..< length sequence]"
    for f :: "string list list \<Rightarrow> rat"
    by (intro map_cong refl) (metis atLeastLessThan_iff set_upt)
  note eq = this[of "\<lambda>ks. fdiv (of_nat (most_common ks)) (of_nat (length (all_windows g sequence)))"]
  show ?thesis
    by (simp only: schema_stability_def all_windows_skeleton Let_def length_map list.map_comp comp_def eq)
qed

lemma spans_skeleton: "matched_spans (map skeleton evs) sequence = map (map skeleton) (matched_spans evs sequence)"
proof -
  have pos: "filter (\<lambda>i. te_kind (map skeleton evs ! i) = ToolCall \<and> has_tool (map skeleton evs ! i)) [0 ..< length evs] =
      filter (\<lambda>i. te_kind (evs ! i) = ToolCall \<and> has_tool (evs ! i)) [0 ..< length evs]"
    by (intro filter_cong refl) auto
  have names: "map (\<lambda>i. te_tool (map skeleton evs ! i)) (filter P [0 ..< length evs]) =
      map (\<lambda>i. te_tool (evs ! i)) (filter P [0 ..< length evs])" for P
    by (intro map_cong refl) auto
  show ?thesis
    unfolding matched_spans_def Let_def length_map pos names by (simp add: take_map drop_map comp_def)
qed

lemma tokens_skeleton: "token_savings (map (apsnd (map skeleton)) g) sequence = token_savings g sequence"
proof -
  have s: "span_tokens te_input_tokens (map skeleton evs) = span_tokens te_input_tokens evs"
    "span_tokens te_output_tokens (map skeleton evs) = span_tokens te_output_tokens evs" for evs
    by (induction evs) (simp_all add: span_tokens_def map_filter_simps split: option.split)
  have "concat (map (\<lambda>(_, evs). matched_spans evs sequence) (map (apsnd (map skeleton)) g)) =
      map (map skeleton) (concat (map (\<lambda>(_, evs). matched_spans evs sequence) g))"
    by (induction g) (auto simp: spans_skeleton)
  then show ?thesis by (simp add: token_savings_def Let_def s comp_def)
qed

lemma names_skeleton:
  "map (\<lambda>(_, evs). name_sequence evs) (map (apsnd (map skeleton)) g) = map (\<lambda>(_, evs). name_sequence evs) g"
  by (induction g) (auto simp: name_sequence_def filter_map comp_def)

lemma score_skeleton: "score_candidate (map skeleton events) sequence = score_candidate events sequence"
  by (simp only: score_candidate_def Let_def group_skeleton names_skeleton success_skeleton stability_skeleton tokens_skeleton)

lemma backtest_skeleton: "backtest_flow f (map skeleton events) = backtest_flow f events"
proof -
  have miss: "missing_fields s (skeleton ev) = missing_fields s ev" for s ev by (simp add: missing_fields_def)
  have step: "step_mismatches session i s (skeleton ev) = step_mismatches session i s ev" for session i s ev
    by (simp add: step_mismatches_def miss)
  have zip: "zip steps (map skeleton w) = map (apsnd skeleton) (zip steps w)" for steps :: "flow_step list" and w
    by (simp add: zip_map2 apsnd_def map_prod_def)
  have enum: "enumerate n (map g xs) = map (apsnd g) (enumerate n xs)" for n and xs :: "(flow_step \<times> trace_event) list" and g :: "flow_step \<times> trace_event \<Rightarrow> flow_step \<times> trace_event"
    by (induction xs arbitrary: n) auto
  have win: "backtest_window session steps rep (map skeleton w) = backtest_window session steps rep w" for session steps rep w
    by (simp add: backtest_window_def shape_ok_def status_ok_def zip enum miss step list_all_iff comp_def case_prod_unfold)
  have sess: "foldl (backtest_window session steps) rep (map (map skeleton) ws) = foldl (backtest_window session steps) rep ws"
    for session steps rep ws by (induction ws arbitrary: rep) (simp_all add: win)
  have "foldl (\<lambda>rep (session, evs). foldl (backtest_window session steps) rep (iter_windows evs sequence)) rep
        (map (apsnd (map skeleton)) g) =
      foldl (\<lambda>rep (session, evs). foldl (backtest_window session steps) rep (iter_windows evs sequence)) rep g"
    for rep g steps sequence
    by (induction g arbitrary: rep) (auto simp: windows_skeleton sess)
  then show ?thesis by (simp add: backtest_flow_def group_skeleton Let_def)
qed

text \<open>
  Redacting at import changes no result of the mining: a log parsed with a redaction policy
  fails where the plain log fails, with the same error, and otherwise yields the same score for
  every sequence and the same backtest for every flow.
\<close>

theorem redacted_import_same_results:
  "map_sum id (\<lambda>evs. score_candidate evs sequence) (parse_agent_trace (im\<lparr>im_redactor := Some ld\<rparr>) source txt) =
     map_sum id (\<lambda>evs. score_candidate evs sequence) (parse_agent_trace (im\<lparr>im_redactor := None\<rparr>) source txt) \<and>
   map_sum id (backtest_flow f) (parse_agent_trace (im\<lparr>im_redactor := Some ld\<rparr>) source txt) =
     map_sum id (backtest_flow f) (parse_agent_trace (im\<lparr>im_redactor := None\<rparr>) source txt)"
proof -
  have lift: "map_sum id h (parse_agent_trace (im\<lparr>im_redactor := Some ld\<rparr>) source txt) =
      map_sum id h (parse_agent_trace (im\<lparr>im_redactor := None\<rparr>) source txt)"
    if "\<And>evs. h (map skeleton evs) = h evs" for h :: "trace_event list \<Rightarrow> 'b"
  proof -
    have h: "map_sum id h p = map_sum id h (map_sum id (map skeleton) p)" for p :: "exn + trace_event list"
      by (cases p) (simp_all add: that)
    show ?thesis
      using parse_skeleton[where a = "Some ld" and b = None and im = im and source = source and ls = "enumerate 1 (splitlines txt)"]
      unfolding parse_agent_trace_def by (metis h)
  qed
  show ?thesis
    using lift[of "\<lambda>evs. score_candidate evs sequence"] lift[of "backtest_flow f"] score_skeleton backtest_skeleton
    by blast
qed

section \<open>Support and windows\<close>

lemma set_setdefault:
  "\<Union> (set ` snd ` set (setdefault_append d k x)) \<subseteq> insert x (\<Union> (set ` snd ` set d))"
proof -
  have "(k', xs) \<in> set (dict_set d k v) \<Longrightarrow> (k', xs) \<in> set d \<or> xs = v" for k' xs v
    by (induction d) (auto split: if_splits)
  moreover have "set xs \<subseteq> \<Union> (set ` snd ` set d)" if "dict_get d k = Some xs" for xs
    using map_of_SomeD[OF that] by force
  ultimately show ?thesis
    by (fastforce simp: setdefault_append_def split: option.splits)
qed

lemma group_events_mem: "(s, evs) \<in> set (group_events events) \<Longrightarrow> set evs \<subseteq> set events"
proof -
  have "\<Union> (set ` snd ` set (foldl (\<lambda>d ev. setdefault_append d (te_session ev) ev) d events)) \<subseteq>
      \<Union> (set ` snd ` set d) \<union> set events" for d
  proof (induction events arbitrary: d)
    case (Cons ev events)
    show ?case using Cons.IH[of "setdefault_append d (te_session ev) ev"] set_setdefault[of d "te_session ev" ev]
      by fastforce
  qed simp
  from this[of "[]"] show "(s, evs) \<in> set (group_events events) \<Longrightarrow> set evs \<subseteq> set events"
    by (fastforce simp: group_events_def)
qed

lemma named_tools:
  assumes "list_all has_tool ws"
  shows "map te_tool ws = map Some s \<longleftrightarrow> map (\<lambda>ev. the (te_tool ev)) ws = s"
proof -
  have "map te_tool ws = map Some (map (\<lambda>ev. the (te_tool ev)) ws)"
    using assms by (auto simp: list_all_iff has_tool_def split: option.splits)
  then show ?thesis by (simp only: inj_map_eq_map[OF inj_Some])
qed

lemma windows_counted:
  assumes "list_all (\<lambda>ev. te_kind ev = ToolCall \<or> \<not> has_tool ev) evs"
  shows "find_windows [name_sequence evs] sequence = [length (iter_windows evs sequence)]"
proof -
  have same: "filter has_tool evs = tool_events evs"
    unfolding tool_events_def using assms by (intro filter_cong refl) (auto simp: list_all_iff)
  have "take (length sequence) (drop start (name_sequence evs)) = sequence \<longleftrightarrow>
      map te_tool (take (length sequence) (drop start (tool_events evs))) = map Some sequence" for start
  proof -
    have "list_all has_tool (take (length sequence) (drop start (tool_events evs)))"
      by (auto simp: list_all_iff tool_events_def dest!: in_set_takeD in_set_dropD)
    from named_tools[OF this] show ?thesis by (simp add: name_sequence_def same take_map drop_map)
  qed
  then show ?thesis
    by (simp add: find_windows_def iter_windows_def Let_def filter_map comp_def name_sequence_def same)
qed

text \<open>The support is the number of matched windows, as long as no model call names a tool.\<close>

lemma support_counts_windows:
  assumes "score_candidate events sequence = Inr sc"
    and "list_all (\<lambda>ev. te_kind ev = ToolCall \<or> \<not> has_tool ev) events"
  shows "cs_support sc = length (all_windows (group_events events) sequence)"
proof -
  have "sum_list (find_windows (map (\<lambda>(_, evs). name_sequence evs) g) sequence) = length (all_windows g sequence)"
    if "\<forall>(s, evs) \<in> set g. list_all (\<lambda>ev. te_kind ev = ToolCall \<or> \<not> has_tool ev) evs" for g
    using that
  proof (induction g)
    case (Cons p g)
    obtain s evs where p: "p = (s, evs)" by fastforce
    have "find_windows [name_sequence evs] sequence = [length (iter_windows evs sequence)]"
      using Cons.prems by (intro windows_counted) (simp add: p)
    with Cons show ?case by (simp add: p find_windows_def all_windows_def)
  qed (simp add: find_windows_def all_windows_def)
  then show ?thesis
    using assms(2) group_events_mem unfolding score_candidate_fields(2)[OF assms(1)]
    by (fastforce simp: list_all_iff)
qed

text \<open>
  A model call that names a tool stands in the name sequence, but not between the tool calls of
  a window: the sequence is matched once, with support zero.
\<close>

definition model_call_log :: "trace_event list" where
  "model_call_log =
     [synthetic_event ''get'', (synthetic_event ''model'')\<lparr>te_kind := ModelCall\<rparr>, synthetic_event ''read'']"

lemma support_misses_window:
  "\<exists>sc. score_candidate model_call_log [''get'', ''read''] = Inr sc \<and> cs_support sc = 0 \<and>
     length (all_windows (group_events model_call_log) [''get'', ''read'']) = 1"
proof -
  obtain sc where sc: "score_candidate model_call_log [''get'', ''read''] = Inr sc"
    using score_candidate_returns by blast
  have g: "group_events model_call_log = [(''__synthetic__'', model_call_log)]"
    by (simp add: group_events_def setdefault_append_def model_call_log_def synthetic_event_def)
  have "cs_support sc = 0"
    unfolding score_candidate_fields(2)[OF sc] g
    by (simp add: find_windows_def name_sequence_def has_tool_def model_call_log_def synthetic_event_def)
  moreover have "length (all_windows (group_events model_call_log) [''get'', ''read'']) = 1"
    unfolding g
    by (simp add: all_windows_def iter_windows_def tool_events_def has_tool_def model_call_log_def synthetic_event_def)
  ultimately show ?thesis using sc by blast
qed

end
