(* ===== verification/OfflineLLM.thy ===== *)
theory OfflineLLM
  imports Traces
begin

text \<open>
  The offline proposers: \<open>chainweaver/_offline_llm.py\<close> (the catalogue shown to the model and the
  decoding of its completion), \<open>chainweaver/proposals.py\<close> (repair, prompt budget, provenance) and
  \<open>chainweaver/compiler_llm.py\<close> (proposed flows).  The language model, the decoders of JSON and
  YAML and the loading of a flow from a mapping are arguments; so is the text of a prompt around
  the catalogue.  The results: the catalogue keeps its line structure whatever a tool's
  description holds, every prompt is within its budget, the model is called a bounded number of
  times, and what the check of proposed flows does and does not see.
\<close>

section \<open>The catalogue\<close>

definition control_char :: "char \<Rightarrow> bool" where
  "control_char c = (let n = of_char c :: nat in n < 32 \<or> 127 \<le> n \<and> n \<le> 159)"

text \<open>Each run of control characters becomes one blank.\<close>

fun collapse_controls :: "bool \<Rightarrow> string \<Rightarrow> string" where
  "collapse_controls inside [] = []"
| "collapse_controls inside (c # cs) =
     (if control_char c then (if inside then [] else '' '') @ collapse_controls True cs
      else c # collapse_controls False cs)"

definition rstrip :: "string \<Rightarrow> string" where
  "rstrip s = rev (dropWhile py_space (rev s))"

text \<open>\<open>ellipsis\<close> is the character that marks a cut, which is outside the alphabet of the model.\<close>

definition sanitize_inline :: "string \<Rightarrow> int option \<Rightarrow> string \<Rightarrow> string" where
  "sanitize_inline ellipsis max_chars txt =
     (let flattened = py_strip (collapse_controls False txt)
      in case max_chars of
           None \<Rightarrow> flattened
         | Some m \<Rightarrow>
             (if m < int (length flattened) then rstrip (take (nat (max 0 (m - 1))) flattened) @ ellipsis
              else flattened))"

definition field_summary :: "string \<Rightarrow> (annotation \<Rightarrow> string) \<Rightarrow> schema \<Rightarrow> string" where
  "field_summary ellipsis type_text s =
     (let parts = map (\<lambda>(name, f).
            sanitize_inline ellipsis None name @ (if fs_required f then [] else ''?'') @ '': '' @
            sanitize_inline ellipsis None (type_text (fs_annotation f))) (sch_fields s)
      in if parts = [] then ''(none)'' else join_str '', '' parts)"

definition DEFAULT_MAX_DESCRIPTION_CHARS :: int where
  "DEFAULT_MAX_DESCRIPTION_CHARS = 600"

definition catalogue_entry :: "string \<Rightarrow> (annotation \<Rightarrow> string) \<Rightarrow> int \<Rightarrow> 'w tool \<Rightarrow> string list" where
  "catalogue_entry ellipsis type_text limit tool =
     [''- '' @ sanitize_inline ellipsis None (t_name tool) @ '': '' @
        sanitize_inline ellipsis (Some limit) (t_description tool),
      ''    input:  '' @ field_summary ellipsis type_text (t_input_schema tool),
      ''    output: '' @ field_summary ellipsis type_text (t_output_schema tool)]"

definition render_tool_catalogue ::
  "string \<Rightarrow> (annotation \<Rightarrow> string) \<Rightarrow> int option \<Rightarrow> 'w tool list \<Rightarrow> string" where
  "render_tool_catalogue ellipsis type_text max_chars tools =
     join_with (CHR 0x0A) (concat (map (catalogue_entry ellipsis type_text
       (case max_chars of None \<Rightarrow> DEFAULT_MAX_DESCRIPTION_CHARS | Some m \<Rightarrow> m)) tools))"

section \<open>Completions\<close>

definition starts_with :: "string \<Rightarrow> string \<Rightarrow> bool" where
  "starts_with p s = (take (length p) s = p)"

definition strip_code_fence :: "string \<Rightarrow> string" where
  "strip_code_fence raw =
     (let stripped = py_strip raw in
      if \<not> starts_with ''```'' stripped then raw
      else
        (let ls = tl (splitlines stripped);
             ls = (if ls \<noteq> [] \<and> py_strip (last ls) = ''```'' then butlast ls else ls)
         in join_with (CHR 0x0A) ls))"

text \<open>
  \<open>ld_json\<close> and \<open>ld_yaml\<close> are the decoders; the second is \<open>Inl\<close> with a message when the text is
  not YAML or the library is missing.
\<close>

record decoders =
  dc_json :: "string \<Rightarrow> val option"
  dc_yaml :: "string \<Rightarrow> string + val"

definition parse_llm_yaml :: "decoders \<Rightarrow> string \<Rightarrow> exn + val" where
  "parse_llm_yaml dc raw =
     (let txt = strip_code_fence raw in
      if py_strip txt = [] then Inl (OfflineLLMError ''LLM returned an empty completion; expected YAML.'')
      else (case dc_yaml dc txt of Inl m \<Rightarrow> Inl (OfflineLLMError m) | Inr v \<Rightarrow> Inr v))"

definition parse_llm_payload :: "decoders \<Rightarrow> string \<Rightarrow> exn + val" where
  "parse_llm_payload dc raw =
     (let txt = strip_code_fence raw in
      if py_strip txt = [] then Inl (OfflineLLMError ''LLM returned an empty completion; expected JSON or YAML.'')
      else (case dc_json dc txt of Some v \<Rightarrow> Inr v | None \<Rightarrow> parse_llm_yaml dc raw))"

definition as_mapping :: "val \<Rightarrow> exn + val dict" where
  "as_mapping v = (case v of VDict d \<Rightarrow> Inr d | _ \<Rightarrow> Inl (OfflineLLMError ''Each proposal must be a mapping''))"

definition coerce_proposal_list :: "val \<Rightarrow> exn + val dict list" where
  "coerce_proposal_list parsed =
     (case (case parsed of VDict d \<Rightarrow> get_or d ''proposals'' (VList []) | _ \<Rightarrow> parsed) of
        VList items \<Rightarrow> map_err as_mapping items
      | _ \<Rightarrow> Inl (OfflineLLMError ''Expected a YAML list of proposals''))"

section \<open>Repair\<close>

definition is_offline_error :: "exn \<Rightarrow> bool" where
  "is_offline_error e = (case e of OfflineLLMError _ \<Rightarrow> True | PromptBudgetExceededError _ _ \<Rightarrow> True | _ \<Rightarrow> False)"

definition error_detail :: "exn \<Rightarrow> string" where
  "error_detail e = (case e of OfflineLLMError m \<Rightarrow> m | _ \<Rightarrow> [])"

definition repair_prompt :: "string \<Rightarrow> string \<Rightarrow> string \<Rightarrow> string" where
  "repair_prompt base detail previous =
     base @ [CHR 0x0A, CHR 0x0A] @ ''The previous response failed validation:'' @ [CHR 0x0A] @ ''  '' @ detail @
     [CHR 0x0A, CHR 0x0A] @ ''Previous response:'' @ [CHR 0x0A] @ previous @ [CHR 0x0A, CHR 0x0A] @
     ''Return a corrected response that conforms to the JSON Schema provided. Output only the structured '' @
     ''result, no commentary.''"

text \<open>The loop; the model acts on a state of its own.\<close>

primrec repair_loop ::
  "(string \<Rightarrow> 's \<Rightarrow> 's \<times> string) \<Rightarrow> (string \<Rightarrow> exn + 'a) \<Rightarrow> string \<Rightarrow> nat \<Rightarrow> nat \<Rightarrow> string \<Rightarrow> 's
     \<Rightarrow> 's \<times> (exn + 'a \<times> nat)" where
  "repair_loop llm parse prompt 0 repairs raw st =
     (st, case parse raw of Inl e \<Rightarrow> Inl e | Inr x \<Rightarrow> Inr (x, repairs))"
| "repair_loop llm parse prompt (Suc left) repairs raw st =
     (case parse raw of
        Inr x \<Rightarrow> (st, Inr (x, repairs))
      | Inl e \<Rightarrow>
          (if is_offline_error e
           then (case llm (repair_prompt prompt (error_detail e) raw) st of
                   (st', raw') \<Rightarrow> repair_loop llm parse prompt left (repairs + 1) raw' st')
           else (st, Inl e)))"

definition run_with_repair ::
  "(string \<Rightarrow> 's \<Rightarrow> 's \<times> string) \<Rightarrow> (string \<Rightarrow> exn + 'a) \<Rightarrow> string \<Rightarrow> int \<Rightarrow> 's \<Rightarrow> 's \<times> (exn + 'a \<times> nat)" where
  "run_with_repair llm parse prompt max_repairs st =
     (if max_repairs < 0 then (st, Inl (ValueError ''max_repair_attempts must be >= 0''))
      else (case llm prompt st of (st', raw) \<Rightarrow> repair_loop llm parse prompt (nat max_repairs) 0 raw st'))"

section \<open>Budgets\<close>

record 'w prompt_budget =
  pb_max_tokens :: int
  pb_overflow :: string
  pb_max_description_chars :: "int option"
  pb_selector :: "('w tool list \<Rightarrow> 'w tool list) option"

definition estimate_tokens :: "string \<Rightarrow> int" where
  "estimate_tokens txt = (int (length txt) + 3) div 4"

record catalogue_stats =
  st_tools_total :: nat
  st_tools_rendered :: nat
  st_estimated_tokens :: int

record 'w budget_plan =
  bp_batches :: "'w tool list list"
  bp_description_chars :: "int option"
  bp_stats :: catalogue_stats

definition plan_of :: "'w tool list \<Rightarrow> 'w tool list list \<Rightarrow> int option \<Rightarrow> int \<Rightarrow> 'w budget_plan" where
  "plan_of tools batches chars estimate =
     \<lparr>bp_batches = batches, bp_description_chars = chars,
      bp_stats = \<lparr>st_tools_total = length tools, st_tools_rendered = length (concat batches),
                  st_estimated_tokens = estimate\<rparr>\<rparr>"

definition one_batch :: "'a list \<Rightarrow> 'a list list" where
  "one_batch xs = (if xs = [] then [] else [xs])"

text \<open>Trailing tools are dropped until the prompt fits or one is left.\<close>

function drop_trailing :: "('a list \<Rightarrow> bool) \<Rightarrow> 'a list \<Rightarrow> 'a list" where
  "drop_trailing fits kept =
     (if kept \<noteq> [] \<and> \<not> fits kept \<and> 1 < length kept then drop_trailing fits (butlast kept) else kept)"
  by pat_completeness auto

termination by (relation "measure (\<lambda>(_, kept). length kept)") auto

declare drop_trailing.simps [simp del]

text \<open>Tools are packed greedily; a tool that does not fit opens the next batch.\<close>

definition pack_tool :: "('a list \<Rightarrow> bool) \<Rightarrow> 'a list list \<times> 'a list \<Rightarrow> 'a \<Rightarrow> 'a list list \<times> 'a list" where
  "pack_tool fits acc tool =
     (case acc of (batches, current) \<Rightarrow>
        (if current \<noteq> [] \<and> \<not> fits (current @ [tool]) then (batches @ [current], [tool])
         else (batches, current @ [tool])))"

definition pack_batches :: "('a list \<Rightarrow> bool) \<Rightarrow> 'a list \<Rightarrow> 'a list list" where
  "pack_batches fits tools =
     (case foldl (pack_tool fits) ([], []) tools of (batches, current) \<Rightarrow> batches @ one_batch current)"

text \<open>\<open>est\<close> is the estimate of the prompt for a list of tools and a cap on descriptions.\<close>

definition apply_budget ::
  "('w tool list \<Rightarrow> int option \<Rightarrow> int) \<Rightarrow> 'w prompt_budget option \<Rightarrow> 'w tool list \<Rightarrow> exn + 'w budget_plan" where
  "apply_budget est pb tools =
     (case pb of
        None \<Rightarrow> Inr (plan_of tools (one_batch tools) None (est tools None))
      | Some b \<Rightarrow>
          (if pb_overflow b \<notin> {''error'', ''truncate'', ''batch'', ''select''}
           then Inl (ValueError ''PromptBudget.overflow must be one of batch, error, select, truncate'')
           else if pb_overflow b = ''select'' \<and> pb_selector b = None
           then Inl (ValueError ''overflow select requires a selector.'')
           else
             (let selected = (if pb_overflow b = ''select'' then the (pb_selector b) tools else tools);
                  fits = (\<lambda>limit ts. est ts limit \<le> pb_max_tokens b);
                  over = (\<lambda>n. PromptBudgetExceededError (nat n) (nat (pb_max_tokens b)))
              in if pb_overflow b = ''error'' \<or> pb_overflow b = ''select''
                 then (if fits None selected then Inr (plan_of tools (one_batch selected) None (est selected None))
                       else Inl (over (est selected None)))
                 else if pb_overflow b = ''truncate''
                 then
                   (let limit = Some (case pb_max_description_chars b of None \<Rightarrow> 160 | Some m \<Rightarrow> m);
                        kept = drop_trailing (fits limit) selected;
                        n = (if kept = [] then 0 else est kept limit)
                    in if n > pb_max_tokens b then Inl (over n)
                       else Inr (plan_of tools (one_batch kept) limit n))
                 else
                   (let batches = pack_batches (fits None) selected;
                        n = (case map (\<lambda>ts. est ts None) batches of [] \<Rightarrow> 0 | x # xs \<Rightarrow> foldl max x xs)
                    in if n > pb_max_tokens b then Inl (over n) else Inr (plan_of tools batches None n)))))"

section \<open>Provenance\<close>

record provenance =
  pv_prompt_name :: string
  pv_prompt_version :: string
  pv_prompt_sha256 :: string
  pv_model :: "(string option \<times> string option) option"
  pv_parameters :: "val dict option"
  pv_generated_at :: string
  pv_repair_attempts_used :: nat
  pv_chainweaver_version :: string
  pv_tools_total :: "nat option"
  pv_tools_rendered :: "nat option"
  pv_estimated_tokens :: "int option"

text \<open>What the proposer is told by its caller and reads from its surroundings.\<close>

record proposer =
  pr_decoders :: decoders
  pr_sha256 :: "string \<Rightarrow> string"
  pr_now :: string
  pr_version :: string
  pr_template :: string
  pr_model :: "(string option \<times> string option) option"
  pr_parameters :: "val dict option"

definition build_provenance ::
  "proposer \<Rightarrow> string \<Rightarrow> string \<Rightarrow> nat \<Rightarrow> catalogue_stats option \<Rightarrow> provenance" where
  "build_provenance pr name version repairs stats =
     \<lparr>pv_prompt_name = name, pv_prompt_version = version, pv_prompt_sha256 = pr_sha256 pr (pr_template pr),
      pv_model = pr_model pr, pv_parameters = pr_parameters pr, pv_generated_at = pr_now pr,
      pv_repair_attempts_used = repairs, pv_chainweaver_version = pr_version pr,
      pv_tools_total = map_option st_tools_total stats, pv_tools_rendered = map_option st_tools_rendered stats,
      pv_estimated_tokens = map_option st_estimated_tokens stats\<rparr>"

section \<open>Proposed flows\<close>

record llm_proposal =
  lp_flow :: flow
  lp_rationale :: string
  lp_confidence :: rat
  lp_provenance :: "provenance option"

definition unknown_tools :: "string list \<Rightarrow> flow \<Rightarrow> string list" where
  "unknown_tools known f =
     filter (\<lambda>t. t \<notin> set known) (List.map_filter s_tool_name (f_steps f))"

text \<open>
  \<open>_build_proposal\<close>; \<open>from_dict\<close> is \<open>flow_from_dict\<close>, whose failure carries a message.  The
  discriminator is put in front, so a \<open>type\<close> of the proposal wins.
\<close>

definition build_proposal ::
  "(val dict \<Rightarrow> string + any_flow) \<Rightarrow> string list \<Rightarrow> val dict \<Rightarrow> exn + llm_proposal" where
  "build_proposal from_dict known entry =
     (case get_or entry ''flow'' VNone of
        VDict flow_data \<Rightarrow>
          (case from_dict (dict_update [(''type'', VStr ''Flow'')] flow_data) of
             Inl m \<Rightarrow> Inl (OfflineLLMError (''Proposed flow is invalid: '' @ m))
           | Inr (DagFlow d) \<Rightarrow> Inl (OfflineLLMError ''Proposed flow is not a linear Flow'')
           | Inr (LinearFlow f) \<Rightarrow>
               (if unknown_tools known f \<noteq> [] then Inl (OfflineLLMError ''Proposed flow references unknown tools'')
                else
                  (case get_or entry ''rationale'' (VStr []) of
                     VStr rationale \<Rightarrow>
                       (case opt_float (get_or entry ''confidence'' VNone) of
                          None \<Rightarrow> Inl (OfflineLLMError ''Proposal confidence must be a number in [0, 1].'')
                        | Some c \<Rightarrow>
                            Inr \<lparr>lp_flow = f, lp_rationale = rationale, lp_confidence = max 0 (min 1 c),
                                 lp_provenance = None\<rparr>)
                   | _ \<Rightarrow> Inl (OfflineLLMError ''Proposal rationale must be a string.''))))
      | _ \<Rightarrow> Inl (OfflineLLMError ''Proposal is missing a flow mapping.''))"

definition parse_proposals ::
  "decoders \<Rightarrow> (val dict \<Rightarrow> string + any_flow) \<Rightarrow> string list \<Rightarrow> string \<Rightarrow> exn + llm_proposal list" where
  "parse_proposals dc from_dict known raw =
     bind_err (parse_llm_payload dc raw) (\<lambda>v.
       bind_err (coerce_proposal_list v) (map_err (build_proposal from_dict known)))"

text \<open>The first occurrence of each key is kept, in order, after those kept before.\<close>

definition keep_new :: "('a \<Rightarrow> string) \<Rightarrow> 'a list \<Rightarrow> 'a list \<Rightarrow> 'a list" where
  "keep_new key kept xs =
     foldl (\<lambda>acc x. if key x \<in> set (map key acc) then acc else acc @ [x]) kept xs"

text \<open>One batch after the other; \<open>parse\<close> is given the names of the tools the batch shows.\<close>

fun run_batches ::
  "(string \<Rightarrow> 's \<Rightarrow> 's \<times> string) \<Rightarrow> ('w tool list \<Rightarrow> string) \<Rightarrow> (string list \<Rightarrow> string \<Rightarrow> exn + 'a list) \<Rightarrow> ('a \<Rightarrow> string) \<Rightarrow>
     int \<Rightarrow> 'w tool list list \<Rightarrow> 'a list \<Rightarrow> nat \<Rightarrow> 's \<Rightarrow> 's \<times> (exn + 'a list \<times> nat)" where
  "run_batches llm prompt parse key max_repairs [] kept repairs st = (st, Inr (kept, repairs))"
| "run_batches llm prompt parse key max_repairs (b # bs) kept repairs st =
     bind_st (run_with_repair llm (parse (map t_name b)) (prompt b) max_repairs st) (\<lambda>st (found, used).
       run_batches llm prompt parse key max_repairs bs (keep_new key kept found) (repairs + used) st)"

definition llm_propose_flows ::
  "proposer \<Rightarrow> (string \<Rightarrow> 's \<Rightarrow> 's \<times> string) \<Rightarrow> ('w tool list \<Rightarrow> int option \<Rightarrow> string) \<Rightarrow> (string \<Rightarrow> int) \<Rightarrow>
     (val dict \<Rightarrow> string + any_flow) \<Rightarrow> int \<Rightarrow> int \<Rightarrow> 'w prompt_budget option \<Rightarrow> 'w tool list \<Rightarrow> 's
     \<Rightarrow> 's \<times> (exn + llm_proposal list)" where
  "llm_propose_flows pr llm build_prompt count_tokens from_dict max_proposals max_repairs pb tools st =
     (if max_proposals < 1 then (st, Inl (ValueError ''max_proposals must be >= 1''))
      else if tools = [] then (st, Inr [])
      else
        (case apply_budget (\<lambda>ts limit. count_tokens (build_prompt ts limit)) pb tools of
           Inl e \<Rightarrow> (st, Inl e)
         | Inr plan \<Rightarrow>
             bind_st (run_batches llm (\<lambda>b. build_prompt b (bp_description_chars plan))
                        (parse_proposals (pr_decoders pr) from_dict) (\<lambda>p. f_name (lp_flow p)) max_repairs
                        (bp_batches plan) [] 0 st) (\<lambda>st (proposals, repairs).
               (let pv = build_provenance pr ''compiler_llm.propose_flows'' ''2026.06.0'' repairs (Some (bp_stats plan))
                in (st, Inr (take (nat max_proposals) (map (\<lambda>p. p\<lparr>lp_provenance := Some pv\<rparr>) proposals)))))))"

text \<open>File names of written proposals.\<close>

definition safe_name_char :: "char \<Rightarrow> bool" where
  "safe_name_char c =
     (let n = of_char c :: nat in
      48 \<le> n \<and> n \<le> 57 \<or> 65 \<le> n \<and> n \<le> 90 \<or> 97 \<le> n \<and> n \<le> 122 \<or> c = CHR ''.'' \<or> c = CHR ''_'' \<or> c = CHR ''-'')"

definition safe_flow_filename :: "string \<Rightarrow> exn + string" where
  "safe_flow_filename name =
     (if name = [] \<or> \<not> list_all safe_name_char name \<or> name = ''.'' \<or> name = ''..''
      then Inl (OfflineLLMError ''Proposed flow name is not safe for a filename'')
      else Inr (name @ ''.flow.yaml''))"

section \<open>The structure of the catalogue\<close>

lemma breaks_are_controls: "line_break c \<Longrightarrow> control_char c"
  by (auto simp: line_break_def control_char_def Let_def)

lemma collapse_no_control: "list_all (\<lambda>c. \<not> control_char c) (collapse_controls inside s)"
  by (induction inside s rule: collapse_controls.induct) (auto simp: control_char_def)

lemma set_py_strip: "set (py_strip s) \<subseteq> set s"
  by (auto simp: py_strip_def dest!: set_dropWhileD)

lemma set_rstrip: "set (rstrip s) \<subseteq> set s"
  unfolding rstrip_def by (metis set_dropWhileD set_rev subsetI)

definition one_line :: "string \<Rightarrow> bool" where
  "one_line s \<longleftrightarrow> list_all (\<lambda>c. \<not> line_break c) s"

lemma one_line_append [simp]: "one_line (s @ t) \<longleftrightarrow> one_line s \<and> one_line t"
  by (simp add: one_line_def)

lemma one_line_Cons: "one_line (c # s) \<longleftrightarrow> \<not> line_break c \<and> one_line s"
  by (simp add: one_line_def)

lemma one_line_subset: "one_line s \<Longrightarrow> set t \<subseteq> set s \<Longrightarrow> one_line t"
  by (auto simp: one_line_def list_all_iff)

lemma sanitize_one_line:
  assumes "one_line ellipsis"
  shows "one_line (sanitize_inline ellipsis m s)"
proof -
  have "one_line (collapse_controls False s)"
    using collapse_no_control[of False s] breaks_are_controls by (auto simp: one_line_def list_all_iff)
  then have flat: "one_line (py_strip (collapse_controls False s))" using set_py_strip one_line_subset by blast
  have "one_line (rstrip (take n (py_strip (collapse_controls False s))))" for n
    by (rule one_line_subset[OF flat]) (meson set_rstrip set_take_subset subset_trans)
  with flat assms show ?thesis by (simp add: sanitize_inline_def Let_def split: option.split)
qed

lemma join_one_line: "one_line sep \<Longrightarrow> list_all one_line ws \<Longrightarrow> one_line (join_str sep ws)"
  by (induction sep ws rule: join_str.induct) (auto simp: one_line_def)

lemma literal_one_line:
  "one_line []" "one_line ''?''" "one_line '': ''" "one_line '', ''" "one_line ''(none)''" "one_line ''- ''"
  "one_line ''    input:  ''" "one_line ''    output: ''"
  by (simp_all add: one_line_def line_break_def)

lemma field_summary_one_line: "one_line ellipsis \<Longrightarrow> one_line (field_summary ellipsis type_text s)"
  unfolding field_summary_def Let_def
  by (auto simp: list_all_iff sanitize_one_line literal_one_line one_line_Cons line_break_def intro!: join_one_line)

lemma catalogue_entry_lines:
  assumes "one_line ellipsis"
  shows "list_all (\<lambda>l. one_line l \<and> l \<noteq> []) (catalogue_entry ellipsis type_text limit tool)"
  using assms by (simp add: catalogue_entry_def sanitize_one_line field_summary_one_line literal_one_line del: append_Cons)

lemma splitlines_join:
  assumes "list_all (\<lambda>l. one_line l \<and> l \<noteq> []) ls"
  shows "splitlines (join_with (CHR 0x0A) ls) = ls"
  using assms
proof (induction "CHR 0x0A" ls rule: join_with.induct)
  case (2 w)
  then show ?case using lines_from_plain[of w "[]" "[]"] by (simp add: splitlines_def one_line_def)
next
  case (3 w v ws)
  then show ?case
    using lines_from_plain[of w "[]" "CHR 0x0A # join_with (CHR 0x0A) (v # ws)"]
    by (simp add: splitlines_def one_line_def newline_breaks)
qed (simp add: splitlines_def)

text \<open>
  Whatever its tools are called and described, the catalogue shown to the model holds exactly
  three lines per tool, in order: a description with line breaks cannot add an entry or absorb one.
\<close>

theorem catalogue_structure:
  assumes "list_all (\<lambda>c. \<not> line_break c) ellipsis"
  shows "splitlines (render_tool_catalogue ellipsis type_text max_chars tools) =
     concat (map (catalogue_entry ellipsis type_text
       (case max_chars of None \<Rightarrow> DEFAULT_MAX_DESCRIPTION_CHARS | Some m \<Rightarrow> m)) tools)"
proof -
  have "list_all (\<lambda>l. one_line l \<and> l \<noteq> []) (concat (map (catalogue_entry ellipsis type_text limit) tools))" for limit
    by (induction tools) (simp_all add: catalogue_entry_lines assms[folded one_line_def])
  then show ?thesis unfolding render_tool_catalogue_def by (rule splitlines_join)
qed

definition noisy_tool :: "unit tool" where
  "noisy_tool =
     \<lparr>t_name = ''t'', t_description = ''x'' @ [CHR 0x0A] @ ''- admin: y'',
      t_input_schema = \<lparr>sch_name = ''I'', sch_fields = [], sch_validate = (\<lambda>v. Inr []), sch_hash = []\<rparr>,
      t_output_schema = \<lparr>sch_name = ''O'', sch_fields = [], sch_validate = (\<lambda>v. Inr []), sch_hash = []\<rparr>,
      t_fn = (\<lambda>w d. (w, 0, Inr (VDict []))), t_timeout = None, t_max_output_size = None,
      t_schema_version = ''1'', t_cacheable = True, t_safety = default_safety, t_safety_declared = False,
      t_dry_run_fn = None, t_is_async = False\<rparr>"

theorem catalogue_structure_witness:
  "splitlines (render_tool_catalogue ''...'' (\<lambda>a. ''str'') (Some 9) [noisy_tool]) =
     [''- t: x - admi...'', ''    input:  (none)'', ''    output: (none)'']"
proof -
  have "splitlines (render_tool_catalogue ''...'' (\<lambda>a. ''str'') (Some 9) [noisy_tool]) =
      concat (map (catalogue_entry ''...'' (\<lambda>a. ''str'') 9) [noisy_tool])"
    by (subst catalogue_structure) (simp_all add: line_break_def)
  then show ?thesis
    by (simp add: catalogue_entry_def noisy_tool_def sanitize_inline_def field_summary_def py_strip_def rstrip_def
        control_char_def py_space_def)
qed

section \<open>Repair\<close>

text \<open>\<open>calls\<close> counts the calls of the model in its state.\<close>

lemma repair_loop_bound:
  assumes "\<And>p s. calls (fst (llm p s)) = Suc (calls s)"
  shows "calls (fst (repair_loop llm parse prompt n r raw st)) \<le> calls st + n"
proof (induction n arbitrary: r raw st)
  case (Suc n)
  show ?case
  proof (cases "parse raw")
    case (Inl e)
    obtain st' raw' where next_call: "llm (repair_prompt prompt (error_detail e) raw) st = (st', raw')"
      by (metis surj_pair)
    have "calls st' = Suc (calls st)" using assms[of "repair_prompt prompt (error_detail e) raw" st] by (simp add: next_call)
    then show ?thesis
      using Suc.IH[of "r + 1" raw' st'] Inl by (auto simp: next_call)
  qed auto
qed simp

lemma repair_loop_parsed:
  "snd (repair_loop llm parse prompt n r raw st) = Inr (x, used) \<Longrightarrow> used \<le> r + n \<and> (\<exists>txt. parse txt = Inr x)"
proof (induction n arbitrary: r raw st)
  case (Suc n)
  show ?case
  proof (cases "parse raw")
    case (Inl e)
    obtain st' raw' where next_call: "llm (repair_prompt prompt (error_detail e) raw) st = (st', raw')"
      by (metis surj_pair)
    then show ?thesis
      using Suc.IH[of "r + 1" raw' st'] Suc.prems Inl by (auto simp: next_call split: if_splits)
  qed (use Suc.prems in auto)
qed (auto split: sum.splits)

lemma run_with_repair_bound:
  assumes "\<And>p s. calls (fst (llm p s)) = Suc (calls s)"
  shows "calls (fst (run_with_repair llm parse prompt m st)) \<le> calls st + nat (m + 1)"
  using repair_loop_bound[of calls llm parse prompt "nat m" 0 "snd (llm prompt st)" "fst (llm prompt st)"] assms
  by (auto simp: run_with_repair_def split: prod.split)

lemma run_with_repair_parsed:
  "snd (run_with_repair llm parse prompt m st) = Inr (x, used) \<Longrightarrow> int used \<le> m \<and> (\<exists>txt. parse txt = Inr x)"
  using repair_loop_parsed[of llm parse prompt "nat m" 0 "snd (llm prompt st)" "fst (llm prompt st)"]
  by (auto simp: run_with_repair_def split: prod.splits if_splits)

section \<open>What fits the budget\<close>

lemma drop_trailing_prefix: "\<exists>n. drop_trailing fits kept = take n kept"
proof (induction fits kept rule: drop_trailing.induct)
  case (1 fits kept)
  show ?case
  proof (cases "kept \<noteq> [] \<and> \<not> fits kept \<and> 1 < length kept")
    case True
    then obtain n where "drop_trailing fits (butlast kept) = take n (butlast kept)" using 1 by blast
    then show ?thesis using True
      by (subst drop_trailing.simps) (auto simp: butlast_conv_take intro: exI[of _ "min n (length kept - 1)"])
  next
    case False
    then show ?thesis by (subst drop_trailing.simps) (auto intro: exI[of _ "length kept"])
  qed
qed

lemma concat_one_batch [simp]: "concat (one_batch xs) = xs"
  by (simp add: one_batch_def)

lemma set_one_batch: "set (one_batch xs) = (if xs = [] then {} else {xs})"
  by (simp add: one_batch_def)

lemma pack_tool_concat:
  "concat (fst (foldl (pack_tool fits) acc tools)) @ snd (foldl (pack_tool fits) acc tools)
     = concat (fst acc) @ snd acc @ tools"
  by (induction tools arbitrary: acc) (auto simp: pack_tool_def split: prod.split)

lemma concat_pack_batches: "concat (pack_batches fits tools) = tools"
  using pack_tool_concat[of fits "([], [])" tools] by (simp add: pack_batches_def case_prod_unfold)

lemma pack_tool_nonempty:
  "[] \<notin> set (fst acc) \<Longrightarrow> [] \<notin> set (fst (foldl (pack_tool fits) acc tools))"
  by (induction tools arbitrary: acc) (auto simp: pack_tool_def split: prod.split if_splits)

lemma pack_batches_nonempty: "[] \<notin> set (pack_batches fits tools)"
  using pack_tool_nonempty[of "([], [])" fits tools] by (auto simp: pack_batches_def one_batch_def case_prod_unfold)

lemma foldl_max_ge: "y \<in> insert x (set xs) \<Longrightarrow> y \<le> foldl max (x::int) xs"
proof (induction xs arbitrary: x y)
  case (Cons z xs)
  have "w = max x z \<or> w \<in> set xs \<Longrightarrow> w \<le> foldl max (max x z) xs" for w
    using Cons.IH[where x = "max x z" and y = w] by blast
  from this[of "max x z"] this[of y] Cons.prems show ?case by auto
qed simp

lemma max_default_ge: "y \<in> set xs \<Longrightarrow> y \<le> (case xs of [] \<Rightarrow> 0 | x # xs \<Rightarrow> foldl max (x::int) xs)"
  by (cases xs) (auto intro: foldl_max_ge)

text \<open>
  C29: A plan keeps the budget it was made for: the prompt the proposer sends for a batch is
  estimated at no more than the budget, no batch is empty, and the batches together hold the tools
  in order, all of them when the strategy is to split or to fail, a first part of them when it is to
  truncate, and what the selector chose when it is to select.
\<close>

theorem budget_kept:
  assumes "apply_budget est (Some b) tools = Inr plan"
  shows "list_all (\<lambda>ts. ts \<noteq> [] \<and> est ts (bp_description_chars plan) \<le> pb_max_tokens b) (bp_batches plan) \<and>
    concat (bp_batches plan) =
      (if pb_overflow b = ''select'' then the (pb_selector b) tools
       else if pb_overflow b = ''truncate'' then take (st_tools_rendered (bp_stats plan)) tools else tools)"
proof -
  consider "pb_overflow b = ''error''" | "pb_overflow b = ''select''" | "pb_overflow b = ''truncate''" | "pb_overflow b = ''batch''"
    using assms by (auto simp: apply_budget_def split: if_splits)
  then show ?thesis
  proof cases
    case 3
    define limit where "limit = Some (case pb_max_description_chars b of None \<Rightarrow> 160 | Some m \<Rightarrow> m)"
    define kept where "kept = drop_trailing (\<lambda>ts. est ts limit \<le> pb_max_tokens b) tools"
    have plan: "plan = plan_of tools (one_batch kept) limit (if kept = [] then 0 else est kept limit)"
      and fits: "(if kept = [] then 0 else est kept limit) \<le> pb_max_tokens b"
      using assms 3 by (auto simp: apply_budget_def Let_def limit_def kept_def split: if_splits)
    obtain n where "kept = take n tools" unfolding kept_def using drop_trailing_prefix by blast
    then have "kept = take (length kept) tools" by (simp add: min_def)
    with plan fits 3 show ?thesis by (simp add: plan_of_def one_batch_def split: if_splits)
  next
    case 4
    define batches where "batches = pack_batches (\<lambda>ts. est ts None \<le> pb_max_tokens b) tools"
    have plan: "bp_batches plan = batches" "bp_description_chars plan = None"
      and fits: "(case map (\<lambda>ts. est ts None) batches of [] \<Rightarrow> 0 | x # xs \<Rightarrow> foldl max x xs) \<le> pb_max_tokens b"
      using assms 4 by (auto simp: apply_budget_def Let_def batches_def plan_of_def split: if_splits)
    have "est ts None \<le> pb_max_tokens b" if "ts \<in> set batches" for ts
      using max_default_ge[of "est ts None" "map (\<lambda>ts. est ts None) batches"] fits that by simp
    moreover have "[] \<notin> set batches" by (simp add: batches_def pack_batches_nonempty)
    ultimately have "list_all (\<lambda>ts. ts \<noteq> [] \<and> est ts None \<le> pb_max_tokens b) batches"
      by (auto simp: list_all_iff)
    moreover have "concat batches = tools" by (simp add: batches_def concat_pack_batches)
    ultimately show ?thesis using plan 4 by simp
  qed (use assms in \<open>auto simp: apply_budget_def plan_of_def set_one_batch one_batch_def Let_def split: if_splits\<close>)
qed

definition letters_budget :: "unit prompt_budget" where
  "letters_budget =
     \<lparr>pb_max_tokens = 2, pb_overflow = ''batch'', pb_max_description_chars = None, pb_selector = None\<rparr>"

theorem budget_kept_witness:
  "list_all (\<lambda>ts. ts \<noteq> [] \<and> int (length ts) \<le> 2) [[noisy_tool, noisy_tool], [noisy_tool]]"
proof -
  have "apply_budget (\<lambda>ts limit. int (length ts)) (Some letters_budget) [noisy_tool, noisy_tool, noisy_tool]
      = Inr (plan_of [noisy_tool, noisy_tool, noisy_tool] [[noisy_tool, noisy_tool], [noisy_tool]] None 2)"
    by (simp add: apply_budget_def letters_budget_def pack_batches_def pack_tool_def one_batch_def)
  from budget_kept[OF this] show ?thesis by (simp add: plan_of_def letters_budget_def)
qed

section \<open>Proposed flows\<close>

definition proposal_ok :: "string set \<Rightarrow> llm_proposal \<Rightarrow> bool" where
  "proposal_ok known p \<longleftrightarrow>
     0 \<le> lp_confidence p \<and> lp_confidence p \<le> 1 \<and>
     set (List.map_filter s_tool_name (f_steps (lp_flow p))) \<subseteq> known"

lemma proposal_ok_provenance: "proposal_ok K (p\<lparr>lp_provenance := x\<rparr>) = proposal_ok K p"
  by (simp add: proposal_ok_def)

lemma build_proposal_ok: "build_proposal from_dict known entry = Inr p \<Longrightarrow> proposal_ok (set known) p"
  by (auto simp: build_proposal_def proposal_ok_def unknown_tools_def filter_empty_conv
      split: val.splits sum.splits any_flow.splits if_splits option.splits)

lemma map_err_elem: "map_err f xs = Inr ys \<Longrightarrow> (\<And>x y. f x = Inr y \<Longrightarrow> Q y) \<Longrightarrow> y \<in> set ys \<Longrightarrow> Q y"
  by (induction xs arbitrary: ys) (auto split: sum.splits simp: bind_err_def)

lemma parse_proposals_ok:
  assumes "parse_proposals dc from_dict known raw = Inr ps" "p \<in> set ps"
  shows "proposal_ok (set known) p"
proof -
  obtain v entries where "coerce_proposal_list v = Inr entries" "map_err (build_proposal from_dict known) entries = Inr ps"
    using assms(1) by (auto simp: parse_proposals_def bind_err_def split: sum.splits)
  with map_err_elem[of "build_proposal from_dict known" entries ps "proposal_ok (set known)" p] assms(2)
  show ?thesis using build_proposal_ok by blast
qed

lemma keep_new_Nil [simp]: "keep_new key kept [] = kept"
  by (simp add: keep_new_def)

lemma keep_new_Cons [simp]:
  "keep_new key kept (x # xs) = keep_new key (if key x \<in> set (map key kept) then kept else kept @ [x]) xs"
  by (simp add: keep_new_def)

lemma keep_new_distinct: "distinct (map key kept) \<Longrightarrow> distinct (map key (keep_new key kept xs))"
  by (induction xs arbitrary: kept) auto

lemma set_keep_new: "set (keep_new key kept xs) \<subseteq> set kept \<union> set xs"
proof (induction xs arbitrary: kept)
  case (Cons x xs)
  show ?case using Cons[of kept] Cons[of "kept @ [x]"] by auto
qed simp

lemma run_batches_calls:
  assumes call: "\<And>p s. calls (fst (llm p s)) = Suc (calls s)"
  shows "calls (fst (run_batches llm prompt parse key m bs kept r st)) \<le> calls st + length bs * nat (m + 1)"
proof (induction bs arbitrary: kept r st)
  case (Cons b bs)
  define outcome where "outcome = run_with_repair llm (parse (map t_name b)) (prompt b) m st"
  have bound: "calls (fst outcome) \<le> calls st + nat (m + 1)"
    unfolding outcome_def by (rule run_with_repair_bound) (rule call)
  show ?case
  proof (cases "snd outcome")
    case (Inl e)
    with bound show ?thesis by (simp add: outcome_def[symmetric] bind_st_def)
  next
    case (Inr res)
    obtain found used where res: "res = (found, used)" by force
    have "run_batches llm prompt parse key m (b # bs) kept r st =
        run_batches llm prompt parse key m bs (keep_new key kept found) (r + used) (fst outcome)"
      using Inr res by (simp add: outcome_def bind_st_def)
    with Cons.IH[of "keep_new key kept found" "r + used" "fst outcome"] bound show ?thesis by simp
  qed
qed simp

lemma run_batches_kept:
  assumes "snd (run_batches llm prompt parse key m bs kept r st) = Inr (ps, used)"
    and "\<And>b raw qs q. b \<in> set bs \<Longrightarrow> parse (map t_name b) raw = Inr qs \<Longrightarrow> q \<in> set qs \<Longrightarrow> Q q"
    and "distinct (map key kept)" "\<And>p. p \<in> set kept \<Longrightarrow> Q p"
  shows "distinct (map key ps) \<and> (\<forall>p\<in>set ps. Q p)"
  using assms
proof (induction bs arbitrary: kept r st)
  case (Cons b bs)
  obtain found once where ran: "snd (run_with_repair llm (parse (map t_name b)) (prompt b) m st) = Inr (found, once)"
    using Cons.prems(1) by (auto simp: bind_st_def split: sum.splits)
  obtain raw where parsed: "parse (map t_name b) raw = Inr found"
    using run_with_repair_parsed[OF ran] by blast
  have new: "Q p" if "p \<in> set (keep_new key kept found)" for p
    using that set_keep_new[of key kept found] Cons.prems(2)[OF _ parsed, of p] Cons.prems(4)[of p] by auto
  have shown: "Q q" if "c \<in> set bs" "parse (map t_name c) raw = Inr qs" "q \<in> set qs" for c raw qs q
    by (rule Cons.prems(2)[OF _ that(2,3)]) (simp add: that(1))
  have rest: "snd (run_batches llm prompt parse key m bs (keep_new key kept found) (r + once)
      (fst (run_with_repair llm (parse (map t_name b)) (prompt b) m st))) = Inr (ps, used)"
    using Cons.prems(1) ran by (simp add: bind_st_def)
  show ?case
    by (rule Cons.IH[OF rest], erule (2) shown, rule keep_new_distinct[OF Cons.prems(3)], erule new)
qed simp


definition proposed_flow :: flow where
  "proposed_flow = mk_flow ''clean'' [mk_step\<lparr>s_tool_name := Some ''t'', s_on_error := ''fallback:wipe''\<rparr>]"

definition proposed_entry :: "val dict" where
  "proposed_entry = [(''flow'', VDict [(''name'', VStr ''clean'')]), (''confidence'', VInt 7)]"

definition sample_proposer :: proposer where
  "sample_proposer =
     \<lparr>pr_decoders = \<lparr>dc_json = (\<lambda>s. Some (VList [VDict proposed_entry])), dc_yaml = (\<lambda>s. Inl [])\<rparr>,
      pr_sha256 = (\<lambda>s. s), pr_now = ''now'', pr_version = ''0'', pr_template = ''T'', pr_model = None,
      pr_parameters = None\<rparr>"

lemma seven [simp]: "fl 7 = 7"
  by code_simp

lemma proposed_build:
  "build_proposal (\<lambda>d. Inr (LinearFlow proposed_flow)) [''t''] proposed_entry =
     Inr \<lparr>lp_flow = proposed_flow, lp_rationale = [], lp_confidence = 1, lp_provenance = None\<rparr>"
  by (simp add: build_proposal_def proposed_entry_def proposed_flow_def mk_flow_def mk_step_def get_or_def
      unknown_tools_def map_filter_simps opt_float_def)

lemma proposed_run:
  "llm_propose_flows sample_proposer (\<lambda>p s. (Suc s, ''{}'')) (\<lambda>ts limit. ''P'') estimate_tokens
     (\<lambda>d. Inr (LinearFlow proposed_flow)) 2 1 None [noisy_tool] 0 =
   (1, Inr [\<lparr>lp_flow = proposed_flow, lp_rationale = [], lp_confidence = 1,
      lp_provenance = Some (build_provenance sample_proposer ''compiler_llm.propose_flows'' ''2026.06.0'' 0
        (Some \<lparr>st_tools_total = 1, st_tools_rendered = 1, st_estimated_tokens = 1\<rparr>))\<rparr>])"
proof -
  have payload: "parse_llm_payload (pr_decoders sample_proposer) ''{}'' = Inr (VList [VDict proposed_entry])"
    by (simp add: parse_llm_payload_def strip_code_fence_def starts_with_def py_strip_def py_space_def sample_proposer_def)
  then have "parse_proposals (pr_decoders sample_proposer) (\<lambda>d. Inr (LinearFlow proposed_flow)) [''t''] ''{}'' =
      Inr [\<lparr>lp_flow = proposed_flow, lp_rationale = [], lp_confidence = 1, lp_provenance = None\<rparr>]"
    by (simp add: parse_proposals_def coerce_proposal_list_def as_mapping_def proposed_build)
  then show ?thesis
    by (simp add: llm_propose_flows_def apply_budget_def plan_of_def one_batch_def run_with_repair_def estimate_tokens_def
        noisy_tool_def Let_def)
qed


text \<open>
  The check for unknown tools reads the steps' own tools only: a proposed step whose fallback
  is a tool the model was never shown is accepted.
\<close>

theorem unknown_fallback_accepted:
  "build_proposal (\<lambda>d. Inr (LinearFlow proposed_flow)) [''t''] proposed_entry =
     Inr \<lparr>lp_flow = proposed_flow, lp_rationale = [], lp_confidence = 1, lp_provenance = None\<rparr> \<and>
   map (\<lambda>s. error_policy_of (s_on_error s)) (f_steps proposed_flow) = [Fallback ''wipe'']"
  by (simp add: proposed_build) (simp add: proposed_flow_def mk_flow_def mk_step_def error_policy_of_def)

end
