(* ===== verification/Optimizer.thy ===== *)
theory Optimizer
  imports OfflineLLM
begin

text \<open>
  Tool descriptions: \<open>chainweaver/routing.py\<close> (routing cases, their extraction from agent traces,
  the accuracy of a selector) and \<open>chainweaver/optimizer.py\<close> (rewrites of descriptions proposed by
  a model, annotated with the accuracy before and after).  The selector is an argument that acts
  on the state it shares with the model.  The results: the counts of an evaluation are those of
  the choices made, extracted cases are distinct and ambiguous, and rewrites are well formed.
\<close>

section \<open>Routing\<close>

record routing_case =
  rc_task :: string
  rc_expected :: string
  rc_candidates :: "string list"
  rc_source :: string

record routing_eval =
  re_total :: nat
  re_correct :: nat
  re_accuracy :: rat
  re_per_tool :: "(string \<times> rat) list"
  re_confusions :: "(string \<times> nat) list"

type_synonym ('w, 's) selector = "string \<Rightarrow> 'w tool list \<Rightarrow> 's \<Rightarrow> 's \<times> string"

record tally =
  ta_correct :: nat
  ta_total_by :: "(string \<times> nat) list"
  ta_correct_by :: "(string \<times> nat) list"
  ta_confusions :: "(string \<times> nat) list"

definition no_tally :: tally where
  "no_tally = \<lparr>ta_correct = 0, ta_total_by = [], ta_correct_by = [], ta_confusions = []\<rparr>"

definition confusion_key :: "routing_case \<Rightarrow> string \<Rightarrow> string" where
  "confusion_key c chosen = rc_expected c @ ''->'' @ chosen"

definition count_choice :: "routing_case \<Rightarrow> string \<Rightarrow> tally \<Rightarrow> tally" where
  "count_choice c chosen t =
     (let t = t\<lparr>ta_total_by := bump (ta_total_by t) (rc_expected c)\<rparr> in
      if chosen = rc_expected c
      then t\<lparr>ta_correct := ta_correct t + 1, ta_correct_by := bump (ta_correct_by t) (rc_expected c)\<rparr>
      else t\<lparr>ta_confusions := bump (ta_confusions t) (confusion_key c chosen)\<rparr>)"

definition candidates_of :: "(string \<times> 'w tool) list \<Rightarrow> routing_case \<Rightarrow> 'w tool list" where
  "candidates_of tools c = List.map_filter (dict_get tools) (rc_candidates c)"

fun count_cases ::
  "('w, 's) selector \<Rightarrow> (string \<times> 'w tool) list \<Rightarrow> routing_case list \<Rightarrow> tally \<Rightarrow> 's \<Rightarrow> 's \<times> tally" where
  "count_cases selector tools [] t st = (st, t)"
| "count_cases selector tools (c # cs) t st =
     (case selector (rc_task c) (candidates_of tools c) st of
        (st', chosen) \<Rightarrow> count_cases selector tools cs (count_choice c chosen t) st')"

definition evaluate_routing ::
  "('w, 's) selector \<Rightarrow> (string \<times> 'w tool) list \<Rightarrow> routing_case list \<Rightarrow> 's \<Rightarrow> 's \<times> routing_eval" where
  "evaluate_routing selector tools cases st =
     (case count_cases selector tools cases no_tally st of
        (st', t) \<Rightarrow>
          (st', \<lparr>re_total = length cases, re_correct = ta_correct t,
                 re_accuracy = (if cases = [] then 0 else fdiv (of_nat (ta_correct t)) (of_nat (length cases))),
                 re_per_tool = map (\<lambda>(tool, n). (tool, fdiv (of_nat (counted (ta_correct_by t) tool)) (of_nat n))) (ta_total_by t),
                 re_confusions = ta_confusions t\<rparr>))"

section \<open>Cases from traces\<close>

definition model_task_text :: "trace_event \<Rightarrow> string option" where
  "model_task_text ev =
     find (\<lambda>s. s \<noteq> []) (map (\<lambda>key. case dict_get (te_metadata ev) key of
        Some (VStr s) \<Rightarrow> py_strip s | _ \<Rightarrow> []) [''content'', ''prompt'', ''text''])"

definition args_summary :: "(val list \<Rightarrow> string) \<Rightarrow> val dict \<Rightarrow> string" where
  "args_summary set_text args =
     (if args = [] then ''(no arguments)''
      else join_str '', '' (map (\<lambda>(k, v). k @ ''='' @ py_repr set_text v) (sort_key fst args)))"

definition case_key :: "routing_case \<Rightarrow> string \<times> string" where
  "case_key c = (rc_task c, rc_expected c)"

definition mine_event ::
  "(val list \<Rightarrow> string) \<Rightarrow> int \<Rightarrow> string list \<Rightarrow> trace_event \<Rightarrow> string option \<times> routing_case list
     \<Rightarrow> string option \<times> routing_case list" where
  "mine_event set_text max_task_chars candidates ev acc =
     (case acc of (latest, cases) \<Rightarrow>
        (if te_kind ev = ModelCall then (model_task_text ev, cases)
         else if \<not> has_tool ev then (latest, cases)
         else
           (let task = slice_to max_task_chars
                  (case latest of None \<Rightarrow> args_summary set_text (te_args ev) | Some t \<Rightarrow> t);
                c = \<lparr>rc_task = task, rc_expected = the (te_tool ev), rc_candidates = candidates,
                     rc_source = ''trace-derived''\<rparr>
            in if case_key c \<in> set (map case_key cases) then (latest, cases) else (latest, cases @ [c]))))"

definition session_tools :: "trace_event list \<Rightarrow> string list" where
  "session_tools evs = sort (remdups (map (\<lambda>ev. the (te_tool ev)) (tool_events evs)))"

definition mine_session ::
  "(val list \<Rightarrow> string) \<Rightarrow> int \<Rightarrow> trace_event list \<Rightarrow> routing_case list \<Rightarrow> routing_case list" where
  "mine_session set_text max_task_chars evs cases =
     (if length (session_tools evs) < 2 then cases
      else snd (fold (mine_event set_text max_task_chars (session_tools evs)) evs (None, cases)))"

definition mine_routing_cases ::
  "(val list \<Rightarrow> string) \<Rightarrow> int \<Rightarrow> trace_event list \<Rightarrow> routing_case list" where
  "mine_routing_cases set_text max_task_chars events =
     fold (\<lambda>(_, evs). mine_session set_text max_task_chars evs) (group_events events) []"

section \<open>Rewrites\<close>

record description_proposal =
  dp_tool :: string
  dp_original :: string
  dp_proposed :: string
  dp_rationale :: string
  dp_group :: "string list"
  dp_token_delta :: int
  dp_provenance :: "provenance option"
  dp_before :: "rat option"
  dp_after :: "rat option"

text \<open>\<open>len(text.split())\<close>.\<close>

fun word_count :: "bool \<Rightarrow> string \<Rightarrow> nat" where
  "word_count inside [] = 0"
| "word_count inside (c # cs) =
     (if py_space c then word_count False cs else (if inside then 0 else 1) + word_count True cs)"

definition estimate_description_tokens :: "string \<Rightarrow> int" where
  "estimate_description_tokens txt = round_even (fmul (of_nat (word_count False txt)) (fl (13 / 10)))"

definition string_list :: "val \<Rightarrow> exn + string list" where
  "string_list v =
     (let bad = Inl (OfflineLLMError ''Proposal has a non-string-list similarity_group.'') in
      case v of
        VNone \<Rightarrow> Inr []
      | VList xs \<Rightarrow> map_err (\<lambda>x. case x of VStr s \<Rightarrow> Inr s
          | _ \<Rightarrow> Inl (OfflineLLMError ''Proposal has a non-string-list similarity_group.'')) xs
      | _ \<Rightarrow> bad)"

definition parse_rewrite :: "(string \<times> string) list \<Rightarrow> string list \<Rightarrow> val dict \<Rightarrow> exn + description_proposal" where
  "parse_rewrite originals allowed item =
     (case get_or item ''tool_name'' VNone of
        VStr name \<Rightarrow>
          (if name \<notin> set allowed then Inl (OfflineLLMError ''Proposal names an unknown tool'')
           else
             (case get_or item ''proposed_description'' VNone of
                VStr proposed \<Rightarrow>
                  (case get_or item ''rationale'' (VStr []) of
                     VStr rationale \<Rightarrow>
                       bind_err (string_list (get_or item ''similarity_group'' VNone)) (\<lambda>grp.
                         case dict_get originals name of
                           None \<Rightarrow> Inl (PyException ''KeyError'' (repr_str name))
                         | Some original \<Rightarrow>
                             Inr \<lparr>dp_tool = name, dp_original = original, dp_proposed = proposed,
                                  dp_rationale = rationale, dp_group = grp,
                                  dp_token_delta = estimate_description_tokens proposed - estimate_description_tokens original,
                                  dp_provenance = None, dp_before = None, dp_after = None\<rparr>)
                   | _ \<Rightarrow> Inl (OfflineLLMError ''Proposal has a non-string rationale.''))
              | _ \<Rightarrow> Inl (OfflineLLMError ''Proposal is missing a string proposed_description.'')))
      | _ \<Rightarrow> Inl (OfflineLLMError ''Proposal names an unknown tool''))"

definition parse_rewrites ::
  "decoders \<Rightarrow> (string \<times> string) list \<Rightarrow> string list option \<Rightarrow> string \<Rightarrow> exn + description_proposal list" where
  "parse_rewrites dc originals allowed raw =
     bind_err (parse_llm_payload dc raw) (\<lambda>v.
       bind_err (coerce_proposal_list v)
         (map_err (parse_rewrite originals (case allowed of None \<Rightarrow> dict_keys originals | Some ns \<Rightarrow> ns))))"

definition originals_of :: "'w tool list \<Rightarrow> (string \<times> string) list" where
  "originals_of tools = dict_update [] (map (\<lambda>t. (t_name t, t_description t)) tools)"

definition by_name :: "'w tool list \<Rightarrow> (string \<times> 'w tool) list" where
  "by_name tools = dict_update [] (map (\<lambda>t. (t_name t, t)) tools)"

text \<open>The catalogue with the proposed descriptions in place; a later rewrite of a tool wins.\<close>

definition apply_rewrites ::
  "(string \<times> 'w tool) list \<Rightarrow> description_proposal list \<Rightarrow> (string \<times> 'w tool) list" where
  "apply_rewrites original proposals =
     dict_update original (List.map_filter (\<lambda>p. case dict_get original (dp_tool p) of
        None \<Rightarrow> None
      | Some base \<Rightarrow> Some (dp_tool p, base\<lparr>t_description := dp_proposed p\<rparr>)) proposals)"

definition annotate_routing ::
  "('w, 's) selector \<Rightarrow> routing_case list \<Rightarrow> 'w tool list \<Rightarrow> description_proposal list \<Rightarrow> 's
     \<Rightarrow> 's \<times> description_proposal list" where
  "annotate_routing selector cases tools proposals st =
     (let original = by_name tools in
      case evaluate_routing selector original cases st of
        (st, before) \<Rightarrow>
          (case evaluate_routing selector (apply_rewrites original proposals) cases st of
             (st, after) \<Rightarrow>
               (st, map (\<lambda>p. p\<lparr>dp_before := dict_get (re_per_tool before) (dp_tool p),
                               dp_after := dict_get (re_per_tool after) (dp_tool p)\<rparr>) proposals)))"

definition optimize_tool_descriptions ::
  "proposer \<Rightarrow> (string \<Rightarrow> 's \<Rightarrow> 's \<times> string) \<Rightarrow> ('w tool list \<Rightarrow> int option \<Rightarrow> string) \<Rightarrow> (string \<Rightarrow> int) \<Rightarrow> int \<Rightarrow>
     'w prompt_budget option \<Rightarrow> routing_case list option \<Rightarrow> ('w, 's) selector option \<Rightarrow> 'w tool list \<Rightarrow> 's
     \<Rightarrow> 's \<times> (exn + description_proposal list)" where
  "optimize_tool_descriptions pr llm build_prompt count_tokens max_repairs pb eval_cases selector tools st =
     (if tools = [] then (st, Inr [])
      else
        (case apply_budget (\<lambda>ts limit. count_tokens (build_prompt ts limit)) pb tools of
           Inl e \<Rightarrow> (st, Inl e)
         | Inr plan \<Rightarrow>
             bind_st (run_batches llm (\<lambda>b. build_prompt b (bp_description_chars plan))
                        (\<lambda>names. parse_rewrites (pr_decoders pr) (originals_of tools) (Some names)) dp_tool max_repairs
                        (bp_batches plan) [] 0 st) (\<lambda>st (proposals, repairs).
               (let pv = build_provenance pr ''optimizer.optimize_tool_descriptions'' ''2026.06.0'' repairs (Some (bp_stats plan));
                    proposals = map (\<lambda>p. p\<lparr>dp_provenance := Some pv\<rparr>) proposals
                in case (eval_cases, selector) of
                     (Some cases, Some f) \<Rightarrow>
                       (if proposals = [] then (st, Inr proposals)
                        else (case annotate_routing f cases tools proposals st of (st, ps) \<Rightarrow> (st, Inr ps)))
                   | _ \<Rightarrow> (st, Inr proposals)))))"

definition optimize_new_tool_description ::
  "proposer \<Rightarrow> (string \<Rightarrow> 's \<Rightarrow> 's \<times> string) \<Rightarrow> ('w tool list \<Rightarrow> string) \<Rightarrow> int \<Rightarrow> 'w tool \<Rightarrow> 'w tool list \<Rightarrow> 's
     \<Rightarrow> 's \<times> (exn + description_proposal list)" where
  "optimize_new_tool_description pr llm new_prompt max_repairs newcomer existing st =
     (let ecosystem = newcomer # existing in
      bind_st (run_with_repair llm (parse_rewrites (pr_decoders pr) (originals_of ecosystem) None)
                 (new_prompt ecosystem) max_repairs st) (\<lambda>st (proposals, repairs).
        (let pv = build_provenance pr ''optimizer.optimize_tool_descriptions'' ''2026.06.0'' repairs None
         in (st, Inr (map (\<lambda>p. p\<lparr>dp_provenance := Some pv\<rparr>) proposals)))))"

section \<open>The counts of an evaluation\<close>

text \<open>The choices the selector makes, one per case, in order.\<close>

fun choices_of ::
  "('w, 's) selector \<Rightarrow> (string \<times> 'w tool) list \<Rightarrow> routing_case list \<Rightarrow> 's \<Rightarrow> 's \<times> (routing_case \<times> string) list" where
  "choices_of selector tools [] st = (st, [])"
| "choices_of selector tools (c # cs) st =
     (case selector (rc_task c) (candidates_of tools c) st of
        (st', chosen) \<Rightarrow> apsnd ((#) (c, chosen)) (choices_of selector tools cs st'))"

definition hit :: "routing_case \<times> string \<Rightarrow> bool" where
  "hit x = (snd x = rc_expected (fst x))"

lemma count_cases_choices:
  "count_cases selector tools cases t st =
     (fst (choices_of selector tools cases st),
      foldl (\<lambda>t x. count_choice (fst x) (snd x) t) t (snd (choices_of selector tools cases st)))"
  by (induction cases arbitrary: t st) (auto split: prod.split)

lemma map_fst_choices: "map fst (snd (choices_of selector tools cases st)) = cases"
  by (induction cases arbitrary: st) (auto split: prod.split)

lemma counted_choices:
  "ta_correct (foldl (\<lambda>t x. count_choice (fst x) (snd x) t) t xs) = ta_correct t + length (filter hit xs)"
  "counted (ta_correct_by (foldl (\<lambda>t x. count_choice (fst x) (snd x) t) t xs)) k
     = counted (ta_correct_by t) k + length (filter (\<lambda>x. hit x \<and> rc_expected (fst x) = k) xs)"
  "counted (ta_confusions (foldl (\<lambda>t x. count_choice (fst x) (snd x) t) t xs)) k
     = counted (ta_confusions t) k + length (filter (\<lambda>x. \<not> hit x \<and> confusion_key (fst x) (snd x) = k) xs)"
  "ta_total_by (foldl (\<lambda>t x. count_choice (fst x) (snd x) t) t xs) = foldl bump (ta_total_by t) (map (\<lambda>x. rc_expected (fst x)) xs)"
  by (induction xs arbitrary: t) (auto simp: count_choice_def hit_def Let_def counted_bump)

lemma bump_ok: "dict_ok c \<Longrightarrow> dict_ok (foldl bump c ks)"
  by (induction ks arbitrary: c) (auto simp: bump_def dict_ok_set)

lemma bump_get: "dict_get (foldl bump [] ks) k = (if k \<in> set ks then Some (count_list ks k) else None)"
proof -
  have "dict_has (foldl bump c ks) k \<longleftrightarrow> dict_has c k \<or> k \<in> set ks" for c
    by (induction ks arbitrary: c) (auto simp: bump_def dict_get_set)
  from this[of "[]"] counted_foldl_bump[of "[]" ks k] show ?thesis
    by (auto simp: counted_def split: option.splits)
qed

lemma dict_get_mapped: "dict_get (map (\<lambda>(x, n). (x, f x n)) d) k = map_option (f k) (dict_get d k)"
  by (induction d) auto

lemma count_list_filter: "count_list (map f xs) k = length (filter (\<lambda>x. f x = k) xs)"
  by (induction xs) auto

text \<open>
  The evaluation of a selector reports exactly the choices it made: the correct ones, for every
  expected tool the share of its cases that were answered right, and for every pair the number of
  wrong answers; every accuracy lies between zero and one.
\<close>

theorem evaluate_routing_counts:
  "case choices_of selector tools cases st of (st', made) \<Rightarrow>
     case evaluate_routing selector tools cases st of (st'', r) \<Rightarrow>
       st'' = st' \<and> re_total r = length cases \<and> re_correct r = length (filter hit made) \<and>
       0 \<le> re_accuracy r \<and> re_accuracy r \<le> 1 \<and>
       dict_get (re_per_tool r) k =
         (let n = length (filter (\<lambda>x. rc_expected (fst x) = k) made) in
          if n = 0 then None
          else Some (fdiv (of_nat (length (filter (\<lambda>x. hit x \<and> rc_expected (fst x) = k) made))) (of_nat n))) \<and>
       counted (re_confusions r) k = length (filter (\<lambda>x. \<not> hit x \<and> confusion_key (fst x) (snd x) = k) made)"
proof -
  obtain st' made where made: "choices_of selector tools cases st = (st', made)" by force
  define t where "t = foldl (\<lambda>t x. count_choice (fst x) (snd x) t) no_tally made"
  have run: "count_cases selector tools cases no_tally st = (st', t)"
    by (simp add: count_cases_choices made t_def)
  have size: "length made = length cases"
    using map_fst_choices[of selector tools cases st] made by (metis length_map snd_conv)
  have total: "dict_get (ta_total_by t) k =
      (if k \<in> set (map (\<lambda>x. rc_expected (fst x)) made) then Some (count_list (map (\<lambda>x. rc_expected (fst x)) made) k) else None)"
    unfolding t_def counted_choices by (simp add: no_tally_def bump_get)
  have tallies: "ta_correct t = length (filter hit made)"
    "counted (ta_correct_by t) k = length (filter (\<lambda>x. hit x \<and> rc_expected (fst x) = k) made)"
    "counted (ta_confusions t) k = length (filter (\<lambda>x. \<not> hit x \<and> confusion_key (fst x) (snd x) = k) made)"
    unfolding t_def counted_choices by (simp_all add: no_tally_def counted_def)
  have acc: "0 \<le> fdiv (of_nat (length (filter hit made))) (of_nat (length cases)) \<and>
      fdiv (of_nat (length (filter hit made))) (of_nat (length cases)) \<le> 1" if "cases \<noteq> []"
    using that size length_filter_le[of hit made] by (intro fdiv_unit) (auto simp: of_nat_le_iff)
  have "(length (filter (\<lambda>x. rc_expected (fst x) = k) made) = 0) = (k \<notin> set (map (\<lambda>x. rc_expected (fst x)) made))"
    by (auto simp: filter_empty_conv)
  moreover have "dict_get (map (\<lambda>(tool, n). (tool, fdiv (of_nat (counted (ta_correct_by t) tool)) (of_nat n))) (ta_total_by t)) k
      = map_option (\<lambda>n. fdiv (of_nat (counted (ta_correct_by t) k)) (of_nat n)) (dict_get (ta_total_by t) k)"
    by (rule dict_get_mapped)
  ultimately show ?thesis
    using acc by (simp add: made evaluate_routing_def run total tallies count_list_filter Let_def)
qed

section \<open>Extracted cases\<close>

definition good_case :: "trace_event list \<Rightarrow> routing_case \<Rightarrow> bool" where
  "good_case evs c \<longleftrightarrow>
     rc_expected c \<in> set (rc_candidates c) \<and> rc_candidates c = session_tools evs \<and> 2 \<le> length (rc_candidates c)"

lemma tool_event_session: "ev \<in> set evs \<Longrightarrow> te_kind ev = ToolCall \<Longrightarrow> has_tool ev \<Longrightarrow> the (te_tool ev) \<in> set (session_tools evs)"
  by (auto simp: session_tools_def tool_events_def)

lemma mine_event_step:
  assumes "mine_event set_text m (session_tools evs) ev (latest, cases) = (latest', cases')"
    "ev \<in> set evs" "2 \<le> length (session_tools evs)"
  shows "cases' = cases \<or> (\<exists>c. cases' = cases @ [c] \<and> case_key c \<notin> set (map case_key cases) \<and> good_case evs c)"
    and "te_kind ev = ToolCall \<Longrightarrow> has_tool ev \<Longrightarrow> \<exists>c\<in>set cases'. rc_expected c = the (te_tool ev)"
proof -
  have kind: "te_kind ev \<noteq> ModelCall \<Longrightarrow> te_kind ev = ToolCall" by (cases "te_kind ev") auto
  show "cases' = cases \<or> (\<exists>c. cases' = cases @ [c] \<and> case_key c \<notin> set (map case_key cases) \<and> good_case evs c)"
    using assms kind tool_event_session[OF assms(2)]
    by (auto simp: mine_event_def Let_def good_case_def split: if_splits)
  show "\<exists>c\<in>set cases'. rc_expected c = the (te_tool ev)" if "te_kind ev = ToolCall" "has_tool ev"
    using assms that by (auto simp: mine_event_def Let_def case_key_def image_iff split: if_splits)
qed

lemma mine_events_ok:
  assumes "set part \<subseteq> set evs" "2 \<le> length (session_tools evs)"
    "fold (mine_event set_text m (session_tools evs)) part (latest, cases) = (latest', cases')"
    "distinct (map case_key cases)"
  shows "distinct (map case_key cases') \<and> set cases \<subseteq> set cases' \<and> (\<forall>c\<in>set cases' - set cases. good_case evs c) \<and>
    (\<forall>ev\<in>set part. te_kind ev = ToolCall \<longrightarrow> has_tool ev \<longrightarrow> (\<exists>c\<in>set cases'. rc_expected c = the (te_tool ev)))"
  using assms(1,3,4)
proof (induction part arbitrary: latest cases)
  case (Cons ev part)
  obtain l c where once: "mine_event set_text m (session_tools evs) ev (latest, cases) = (l, c)" by force
  have mem: "ev \<in> set evs" "set part \<subseteq> set evs" using Cons.prems by auto
  note here = mine_event_step[OF once mem(1) assms(2)]
  have "distinct (map case_key c)" using here(1) Cons.prems(3) by auto
  from Cons.IH[OF mem(2) _ this, of l] Cons.prems(2) once
  have rest: "distinct (map case_key cases') \<and> set c \<subseteq> set cases' \<and> (\<forall>d\<in>set cases' - set c. good_case evs d) \<and>
      (\<forall>ev\<in>set part. te_kind ev = ToolCall \<longrightarrow> has_tool ev \<longrightarrow> (\<exists>d\<in>set cases'. rc_expected d = the (te_tool ev)))"
    by simp
  have "set cases \<subseteq> set c" "\<And>d. d \<in> set c \<Longrightarrow> d \<notin> set cases \<Longrightarrow> good_case evs d" using here(1) by auto
  with rest here(2) show ?case by (simp add: subset_iff) blast
qed auto

lemma mine_sessions_ok:
  assumes "distinct (map case_key cases)"
  shows "distinct (map case_key (fold (\<lambda>(_, evs). mine_session set_text m evs) sessions cases)) \<and>
    set cases \<subseteq> set (fold (\<lambda>(_, evs). mine_session set_text m evs) sessions cases) \<and>
    (\<forall>c\<in>set (fold (\<lambda>(_, evs). mine_session set_text m evs) sessions cases) - set cases. \<exists>(s, evs)\<in>set sessions. good_case evs c) \<and>
    (\<forall>(s, evs)\<in>set sessions. 2 \<le> length (session_tools evs) \<longrightarrow>
       (\<forall>t\<in>set (session_tools evs). \<exists>c\<in>set (fold (\<lambda>(_, evs). mine_session set_text m evs) sessions cases). rc_expected c = t))"
  using assms
proof (induction sessions arbitrary: cases)
  case (Cons x sessions)
  obtain s evs where x: "x = (s, evs)" by force
  define c where "c = mine_session set_text m evs cases"
  have here: "distinct (map case_key c) \<and> set cases \<subseteq> set c \<and> (\<forall>d\<in>set c - set cases. good_case evs d) \<and>
      (2 \<le> length (session_tools evs) \<longrightarrow> (\<forall>t\<in>set (session_tools evs). \<exists>d\<in>set c. rc_expected d = t))"
  proof (cases "2 \<le> length (session_tools evs)")
    case True
    obtain l c' where folded: "fold (mine_event set_text m (session_tools evs)) evs (None, cases) = (l, c')" by force
    then have "c = c'" using True by (simp add: c_def mine_session_def)
    with mine_events_ok[OF subset_refl True folded Cons.prems] show ?thesis
      by (auto simp: session_tools_def tool_events_def)
  next
    case False
    then show ?thesis using Cons.prems by (simp add: c_def mine_session_def)
  qed
  then have "distinct (map case_key c)" by simp
  from Cons.IH[OF this] here show ?case by (simp add: x c_def[symmetric]) blast
qed simp

text \<open>
  The routing cases extracted from a trace differ pairwise in task or expected tool; each comes
  from one session that called at least two tools, which are its candidates, in alphabetical order
  and with the expected tool among them; and every tool of such a session is expected by some case.
\<close>

theorem mined_cases_exact:
  "distinct (map case_key (mine_routing_cases set_text m events)) \<and>
   list_all (\<lambda>c. list_ex (\<lambda>(s, evs).
        rc_candidates c = session_tools evs \<and> sorted (rc_candidates c) \<and> distinct (rc_candidates c) \<and>
        2 \<le> length (rc_candidates c) \<and> rc_expected c \<in> set (rc_candidates c)) (group_events events))
     (mine_routing_cases set_text m events) \<and>
   list_all (\<lambda>(s, evs). length (session_tools evs) < 2 \<or>
        set (session_tools evs) \<subseteq> rc_expected ` set (mine_routing_cases set_text m events)) (group_events events)"
proof -
  note all = mine_sessions_ok[of "[]" set_text m "group_events events", folded mine_routing_cases_def, simplified]
  have "sorted (session_tools evs)" "distinct (session_tools evs)" for evs by (simp_all add: session_tools_def)
  with all show ?thesis
    unfolding good_case_def list_all_iff list_ex_iff by (fastforce simp: image_iff not_less)
qed

section \<open>Rewrites\<close>

definition rewrite_ok :: "'w tool list \<Rightarrow> string list \<Rightarrow> description_proposal \<Rightarrow> bool" where
  "rewrite_ok tools names p \<longleftrightarrow>
     dp_tool p \<in> set names \<and> dict_get (originals_of tools) (dp_tool p) = Some (dp_original p) \<and>
     dp_token_delta p = estimate_description_tokens (dp_proposed p) - estimate_description_tokens (dp_original p)"

definition unmeasured :: "description_proposal \<Rightarrow> bool" where
  "unmeasured p \<longleftrightarrow> dp_before p = None \<and> dp_after p = None"

lemma parse_rewrite_ok:
  "parse_rewrite (originals_of tools) names item = Inr p \<Longrightarrow> rewrite_ok tools names p \<and> unmeasured p"
  by (auto simp: parse_rewrite_def rewrite_ok_def unmeasured_def bind_err_def split: val.splits if_splits sum.splits option.splits)

lemma parse_rewrites_ok:
  assumes "parse_rewrites dc (originals_of tools) (Some names) raw = Inr ps" "p \<in> set ps"
  shows "rewrite_ok tools names p \<and> unmeasured p"
proof -
  obtain v entries where "coerce_proposal_list v = Inr entries" "map_err (parse_rewrite (originals_of tools) names) entries = Inr ps"
    using assms(1) by (auto simp: parse_rewrites_def bind_err_def split: sum.splits)
  with map_err_elem[of "parse_rewrite (originals_of tools) names" entries ps "\<lambda>p. rewrite_ok tools names p \<and> unmeasured p" p] assms(2)
  show ?thesis using parse_rewrite_ok by blast
qed

lemma rewrite_ok_fields:
  "dp_tool q = dp_tool p \<Longrightarrow> dp_proposed q = dp_proposed p \<Longrightarrow> dp_original q = dp_original p \<Longrightarrow>
    dp_token_delta q = dp_token_delta p \<Longrightarrow> rewrite_ok tools names q = rewrite_ok tools names p"
  by (simp add: rewrite_ok_def)

lemma apply_rewrites_map:
  assumes "\<And>p. dp_tool (u p) = dp_tool p" "\<And>p. dp_proposed (u p) = dp_proposed p"
  shows "apply_rewrites d (map u ps) = apply_rewrites d ps"
proof -
  have "List.map_filter (\<lambda>p. case dict_get d (dp_tool p) of None \<Rightarrow> None
        | Some base \<Rightarrow> Some (dp_tool p, base\<lparr>t_description := dp_proposed p\<rparr>)) (map u ps)
      = List.map_filter (\<lambda>p. case dict_get d (dp_tool p) of None \<Rightarrow> None
        | Some base \<Rightarrow> Some (dp_tool p, base\<lparr>t_description := dp_proposed p\<rparr>)) ps"
    by (induction ps) (simp_all add: map_filter_simps assms split: option.split)
  then show ?thesis by (simp add: apply_rewrites_def)
qed

lemma annotated:
  assumes "annotate_routing f cases tools ps st = (st', qs)"
  obtains s2 before after where "evaluate_routing f (by_name tools) cases st = (s2, before)"
    "evaluate_routing f (apply_rewrites (by_name tools) qs) cases s2 = (st', after)"
    "qs = map (\<lambda>p. p\<lparr>dp_before := dict_get (re_per_tool before) (dp_tool p),
                   dp_after := dict_get (re_per_tool after) (dp_tool p)\<rparr>) ps"
proof -
  obtain s2 before where before: "evaluate_routing f (by_name tools) cases st = (s2, before)" by force
  obtain s3 after where after: "evaluate_routing f (apply_rewrites (by_name tools) ps) cases s2 = (s3, after)" by force
  have qs: "qs = map (\<lambda>p. p\<lparr>dp_before := dict_get (re_per_tool before) (dp_tool p),
                   dp_after := dict_get (re_per_tool after) (dp_tool p)\<rparr>) ps" and "s3 = st'"
    using assms before after by (simp_all add: annotate_routing_def Let_def)
  then show thesis using that[OF before _ qs] after by (simp add: apply_rewrites_map)
qed

text \<open>
  The optimiser returns at most one rewrite per tool, each for a tool the plan shows, with the
  description the tool has today and the difference of the token estimates; with routing cases and
  a selector the accuracies it notes are those of the selector on the tools before and after all
  the rewrites.
\<close>

theorem rewrites_well_formed:
  assumes "apply_budget (\<lambda>ts limit. count_tokens (build_prompt ts limit)) pb tools = Inr plan"
    and "optimize_tool_descriptions pr llm build_prompt count_tokens max_repairs pb eval_cases selector tools st = (st', Inr ps)"
  shows "distinct (map dp_tool ps) \<and>
    list_all (rewrite_ok tools (map t_name (concat (bp_batches plan)))) ps \<and>
    (case (eval_cases, selector) of
       (Some cases, Some f) \<Rightarrow>
         ps = [] \<or> (\<exists>s1 s2 before after.
           evaluate_routing f (by_name tools) cases s1 = (s2, before) \<and>
           evaluate_routing f (apply_rewrites (by_name tools) ps) cases s2 = (st', after) \<and>
           list_all (\<lambda>p. dp_before p = dict_get (re_per_tool before) (dp_tool p) \<and>
                         dp_after p = dict_get (re_per_tool after) (dp_tool p)) ps)
     | _ \<Rightarrow> list_all (\<lambda>p. dp_before p = None \<and> dp_after p = None) ps)"
proof (cases "tools = []")
  case True
  with assms(2) show ?thesis by (auto simp: optimize_tool_descriptions_def split: option.split)
next
  case False
  define K where "K = map t_name (concat (bp_batches plan))"
  define outcome where "outcome = run_batches llm (\<lambda>b. build_prompt b (bp_description_chars plan))
      (\<lambda>names. parse_rewrites (pr_decoders pr) (originals_of tools) (Some names)) dp_tool max_repairs (bp_batches plan) [] 0 st"
  obtain found used where found: "snd outcome = Inr (found, used)"
    using assms False by (auto simp: optimize_tool_descriptions_def bind_st_def outcome_def split: sum.splits)
  have shown: "rewrite_ok tools K q \<and> unmeasured q"
    if "b \<in> set (bp_batches plan)" "parse_rewrites (pr_decoders pr) (originals_of tools) (Some (map t_name b)) raw = Inr qs"
      "q \<in> set qs" for b raw qs q
  proof -
    have "set (map t_name b) \<subseteq> set K" using that(1) by (auto simp: K_def)
    with parse_rewrites_ok[OF that(2,3)] show ?thesis unfolding rewrite_ok_def by blast
  qed
  define pv where "pv = build_provenance pr ''optimizer.optimize_tool_descriptions'' ''2026.06.0'' used (Some (bp_stats plan))"
  define signed where "signed = map (\<lambda>p. p\<lparr>dp_provenance := Some pv\<rparr>) found"
  have "distinct (map dp_tool found) \<and> (\<forall>p\<in>set found. rewrite_ok tools K p \<and> unmeasured p)"
    by (rule run_batches_kept[OF found[unfolded outcome_def]]) (use shown in auto)
  then have ok: "distinct (map dp_tool signed)" "list_all (rewrite_ok tools K) signed" "list_all unmeasured signed"
    by (auto simp: signed_def comp_def list_all_iff rewrite_ok_def unmeasured_def)
  have result: "(case (eval_cases, selector) of
       (Some cases, Some f) \<Rightarrow>
         (if signed = [] then (fst outcome, signed) else annotate_routing f cases tools signed (fst outcome))
     | _ \<Rightarrow> (fst outcome, signed)) = (st', ps)"
    using assms False found
    by (auto simp: optimize_tool_descriptions_def bind_st_def outcome_def[symmetric] Let_def pv_def[symmetric]
        signed_def[symmetric] split: option.splits if_splits prod.splits)
  show ?thesis
  proof (cases "\<exists>cases f. eval_cases = Some cases \<and> selector = Some f \<and> signed \<noteq> []")
    case True
    then obtain cs f where given: "eval_cases = Some cs" "selector = Some f" and some: "signed \<noteq> []" by blast
    then have "annotate_routing f cs tools signed (fst outcome) = (st', ps)" using result by simp
    then obtain s2 before after where
      before: "evaluate_routing f (by_name tools) cs (fst outcome) = (s2, before)" and
      after: "evaluate_routing f (apply_rewrites (by_name tools) ps) cs s2 = (st', after)" and
      ps: "ps = map (\<lambda>p. p\<lparr>dp_before := dict_get (re_per_tool before) (dp_tool p),
                   dp_after := dict_get (re_per_tool after) (dp_tool p)\<rparr>) signed"
      by (rule annotated)
    have "map dp_tool ps = map dp_tool signed" "list_all (rewrite_ok tools K) ps"
      using ok(2) by (auto simp: ps list_all_iff rewrite_ok_def)
    moreover have "list_all (\<lambda>p. dp_before p = dict_get (re_per_tool before) (dp_tool p) \<and>
        dp_after p = dict_get (re_per_tool after) (dp_tool p)) ps"
      by (simp add: ps list_all_iff)
    ultimately show ?thesis using before after ok(1) given by (simp add: K_def[symmetric]) blast
  next
    case False
    then have "ps = signed" using result by (auto split: option.splits)
    with ok False show ?thesis by (auto simp: K_def[symmetric] list_all_iff unmeasured_def split: option.split)
  qed
qed

definition rewriting_proposer :: proposer where
  "rewriting_proposer = sample_proposer\<lparr>pr_decoders :=
     \<lparr>dc_json = (\<lambda>s. Some (VList [VDict [(''tool_name'', VStr ''t''), (''proposed_description'', VStr ''a b'')]])),
      dc_yaml = (\<lambda>s. Inl [])\<rparr>\<rparr>"

definition one_case :: routing_case where
  "one_case = \<lparr>rc_task = ''q'', rc_expected = ''t'', rc_candidates = [''t'', ''u''], rc_source = ''hand-written''\<rparr>"

definition fixed_rewrite :: description_proposal where
  "fixed_rewrite =
     \<lparr>dp_tool = ''t'', dp_original = t_description noisy_tool, dp_proposed = ''a b'', dp_rationale = [], dp_group = [],
      dp_token_delta = -2,
      dp_provenance = Some (build_provenance rewriting_proposer ''optimizer.optimize_tool_descriptions'' ''2026.06.0'' 0
        (Some \<lparr>st_tools_total = 1, st_tools_rendered = 1, st_estimated_tokens = 1\<rparr>)),
      dp_before = Some 1, dp_after = Some 1\<rparr>"

lemma sample_estimates:
  "estimate_description_tokens ''a b'' = 3"
  "estimate_description_tokens (''x'' @ [CHR 0x0A] @ ''- admin: y'') = 5"
  "fdiv 1 1 = 1"
  by code_simp+

lemma rewriting_run:
  "optimize_tool_descriptions rewriting_proposer (\<lambda>p s. (Suc s, ''{}'')) (\<lambda>ts limit. ''P'') estimate_tokens 1 None
     (Some [one_case]) (Some (\<lambda>task ts s. (s, t_name (hd ts)))) [noisy_tool] 0 = (1, Inr [fixed_rewrite])"
proof -
  have "parse_llm_payload (pr_decoders rewriting_proposer) ''{}'' =
      Inr (VList [VDict [(''tool_name'', VStr ''t''), (''proposed_description'', VStr ''a b'')]])"
    by (simp add: parse_llm_payload_def strip_code_fence_def starts_with_def py_strip_def py_space_def rewriting_proposer_def)
  then have "parse_rewrites (pr_decoders rewriting_proposer) (originals_of [noisy_tool]) (Some [''t'']) ''{}'' =
      Inr [fixed_rewrite\<lparr>dp_provenance := None, dp_before := None, dp_after := None\<rparr>]"
    using sample_estimates(1,2)
    by (simp add: parse_rewrites_def coerce_proposal_list_def as_mapping_def parse_rewrite_def get_or_def string_list_def
        originals_of_def noisy_tool_def fixed_rewrite_def)
  then show ?thesis
    by (simp add: optimize_tool_descriptions_def apply_budget_def plan_of_def one_batch_def run_with_repair_def estimate_tokens_def
        Let_def annotate_routing_def evaluate_routing_def apply_rewrites_def by_name_def candidates_of_def map_filter_simps
        one_case_def count_choice_def no_tally_def bump_def counted_def sample_estimates(3) fixed_rewrite_def noisy_tool_def)
qed

theorem rewrites_well_formed_witness:
  "list_all (rewrite_ok [noisy_tool] [''t'']) [fixed_rewrite]"
proof -
  have plan: "apply_budget (\<lambda>ts limit. estimate_tokens ''P'') None [noisy_tool] = Inr (plan_of [noisy_tool] [[noisy_tool]] None 1)"
    by (simp add: apply_budget_def plan_of_def one_batch_def estimate_tokens_def)
  show ?thesis
    using rewrites_well_formed[OF plan rewriting_run] by (simp add: plan_of_def noisy_tool_def)
qed

end
