(* ===== verification/Contrib.thy ===== *)
theory Contrib
  imports Sample PyText
begin

text \<open>
  The tools shipped with the program (\<open>chainweaver/contrib/tools.py\<close>): reading and writing a
  document by pointer, the equality check, and the tools that run a sub-flow on every element of a
  list, composed with the executor of \<open>FlowExec\<close>.  The results: what is written at a pointer is
  read back there and nothing else changes, and the list tools return exactly what the runs of the
  sub-flow gave.
\<close>

section \<open>Pointers\<close>

definition contrib_pointer :: "string \<Rightarrow> (string \<times> pointer_miss) + 'a \<Rightarrow> exn + 'a" where
  "contrib_pointer tool r = (case r of Inl (path, m) \<Rightarrow> Inl (ContribError tool path) | Inr x \<Rightarrow> Inr x)"

definition pointer_get :: "string \<Rightarrow> val \<Rightarrow> string \<Rightarrow> exn + val" where
  "pointer_get tool data p = contrib_pointer tool (resolve_pointer data p)"

definition list_position :: "string \<Rightarrow> string \<Rightarrow> 'a list \<Rightarrow> exn + nat" where
  "list_position tool token xs =
     (case py_int_of token of
        None \<Rightarrow> Inl (ContribError tool (''List index '' @ token @ '' is not an integer''))
      | Some i \<Rightarrow>
          (if i < 0 \<or> int (length xs) \<le> i
           then Inl (ContribError tool (''List index '' @ int_text i @ '' out of range for length '' @ nat_text (length xs)))
           else Inr (nat i)))"

text \<open>The containers on the way are copied, missing ones are created.\<close>

definition child_container :: "val option \<Rightarrow> val" where
  "child_container held = (case held of Some (VDict d) \<Rightarrow> VDict d | Some (VList xs) \<Rightarrow> VList xs | _ \<Rightarrow> VDict [])"

fun set_at :: "string \<Rightarrow> val \<Rightarrow> string list \<Rightarrow> val \<Rightarrow> exn + val" where
  "set_at tool content [] cur = Inr content"
| "set_at tool content [tok] cur =
     (case cur of
        VDict d \<Rightarrow> Inr (VDict (dict_set d tok content))
      | VList xs \<Rightarrow> bind_err (list_position tool tok xs) (\<lambda>i. Inr (VList (xs[i := content])))
      | _ \<Rightarrow> Inl (ContribError tool (''Cannot set final token '' @ tok)))"
| "set_at tool content (tok # tok' # toks) cur =
     (case cur of
        VDict d \<Rightarrow>
          bind_err (set_at tool content (tok' # toks) (child_container (dict_get d tok))) (\<lambda>c. Inr (VDict (dict_set d tok c)))
      | VList xs \<Rightarrow>
          bind_err (list_position tool tok xs) (\<lambda>i.
            bind_err (set_at tool content (tok' # toks) (xs ! i)) (\<lambda>c. Inr (VList (xs[i := c]))))
      | _ \<Rightarrow> Inl (ContribError tool (''Cannot descend while setting '' @ tok)))"

definition pointer_set :: "string \<Rightarrow> val dict \<Rightarrow> string \<Rightarrow> val \<Rightarrow> exn + val" where
  "pointer_set tool data p content =
     bind_err (contrib_pointer tool (parse_pointer p)) (\<lambda>toks.
       if toks = [] then Inl (ContribError tool ''JSON pointer (root) cannot be set; use a top-level key'')
       else set_at tool content toks (VDict data))"

section \<open>Tools\<close>

definition passthrough :: "val dict \<Rightarrow> val dict" where
  "passthrough data = [(''data'', VDict data)]"

definition json_pluck :: "val dict \<Rightarrow> string \<Rightarrow> exn + val dict" where
  "json_pluck data p = bind_err (pointer_get ''json_pluck'' (VDict data) p) (\<lambda>v. Inr [(''value'', v)])"

definition json_set :: "val dict \<Rightarrow> string \<Rightarrow> val \<Rightarrow> exn + val dict" where
  "json_set data p content = bind_err (pointer_set ''json_set'' data p content) (\<lambda>d. Inr [(''data'', d)])"

definition short_repr :: "(val list \<Rightarrow> string) \<Rightarrow> val \<Rightarrow> string" where
  "short_repr set_text v = (let r = py_repr set_text v in if 80 < length r then take 77 r @ ''...'' else r)"

definition assert_equal :: "(val list \<Rightarrow> string) \<Rightarrow> val \<Rightarrow> val \<Rightarrow> exn + val dict" where
  "assert_equal set_text a b =
     (if py_eq a b then Inr [(''equal'', VBool True)]
      else Inl (ContribError ''assert_equal''
        (''values differ: left='' @ short_repr set_text a @ '' right='' @ short_repr set_text b)))"

text \<open>One run of the sub-flow on an element.\<close>

definition run_item ::
  "('w, 'c, 'k) executor \<Rightarrow> string \<Rightarrow> string \<Rightarrow> string \<Rightarrow> val \<Rightarrow> ('w, 'c, 'k) xstate
     \<Rightarrow> ('w, 'c, 'k) xstate \<times> (raised + val dict)" where
  "run_item ex tool subflow item_key item st =
     bind_st (start_flow ex subflow [(item_key, item)] None False no_opts False ''skip'' None st) (\<lambda>st res.
       case (er_success res, rd_final_output (er_data res)) of
         (True, Some out) \<Rightarrow> (st, Inr out)
       | _ \<Rightarrow> (st, Inl (RExn (ContribError tool (''sub-flow '' @ subflow @ '' failed'')))))"

fun map_items ::
  "('w, 'c, 'k) executor \<Rightarrow> string \<Rightarrow> string \<Rightarrow> string \<Rightarrow> val list \<Rightarrow> ('w, 'c, 'k) xstate
     \<Rightarrow> ('w, 'c, 'k) xstate \<times> (raised + val list)" where
  "map_items ex tool subflow item_key [] st = (st, Inr [])"
| "map_items ex tool subflow item_key (x # xs) st =
     bind_st (run_item ex tool subflow item_key x st) (\<lambda>st out.
       bind_st (map_items ex tool subflow item_key xs st) (\<lambda>st outs. (st, Inr (VDict out # outs))))"

definition map_list ::
  "('w, 'c, 'k) executor \<Rightarrow> string \<Rightarrow> string \<Rightarrow> string option \<Rightarrow> val list \<Rightarrow> ('w, 'c, 'k) xstate
     \<Rightarrow> ('w, 'c, 'k) xstate \<times> (raised + val dict)" where
  "map_list ex subflow item_key name items st =
     bind_st (map_items ex (case name of None \<Rightarrow> ''map_list['' @ subflow @ '']'' | Some n \<Rightarrow> n) subflow item_key items st)
       (\<lambda>st outs. (st, Inr [(''items'', VList outs)]))"

fun filter_items ::
  "('w, 'c, 'k) executor \<Rightarrow> string \<Rightarrow> string \<Rightarrow> string \<Rightarrow> string \<Rightarrow> val list \<Rightarrow> ('w, 'c, 'k) xstate
     \<Rightarrow> ('w, 'c, 'k) xstate \<times> (raised + val list)" where
  "filter_items ex tool subflow item_key predicate_key [] st = (st, Inr [])"
| "filter_items ex tool subflow item_key predicate_key (x # xs) st =
     bind_st (run_item ex tool subflow item_key x st) (\<lambda>st out.
       case dict_get out predicate_key of
         None \<Rightarrow> (st, Inl (RExn (ContribError tool (''predicate sub-flow did not produce key '' @ predicate_key))))
       | Some v \<Rightarrow>
           bind_st (filter_items ex tool subflow item_key predicate_key xs st) (\<lambda>st kept.
             (st, Inr (if truthy v then x # kept else kept))))"

definition filter_list ::
  "('w, 'c, 'k) executor \<Rightarrow> string \<Rightarrow> string \<Rightarrow> string \<Rightarrow> string option \<Rightarrow> val list \<Rightarrow> ('w, 'c, 'k) xstate
     \<Rightarrow> ('w, 'c, 'k) xstate \<times> (raised + val dict)" where
  "filter_list ex subflow item_key predicate_key name items st =
     bind_st (filter_items ex (case name of None \<Rightarrow> ''filter_list['' @ subflow @ '']'' | Some n \<Rightarrow> n) subflow item_key
         predicate_key items st)
       (\<lambda>st kept. (st, Inr [(''items'', VList kept)]))"

section \<open>Writing and reading back\<close>

lemma list_position_Inr:
  "list_position tool tok xs = Inr i \<Longrightarrow> py_int_of tok = Some (int i) \<and> i < length xs"
  by (auto simp: list_position_def split: option.splits if_splits)

lemma walk_step_dict: "walk seen (VDict d) (tok # toks) =
    (case dict_get d tok of None \<Rightarrow> Inl (CHR ''/'' # join_with (CHR ''/'') (seen @ [tok]), KeyMiss)
     | Some v \<Rightarrow> walk (seen @ [tok]) v toks)"
  by (simp add: walk.simps Let_def)

lemma walk_step_list: "py_int_of tok = Some (int i) \<Longrightarrow> i < length xs \<Longrightarrow>
    walk seen (VList xs) (tok # toks) = walk (seen @ [tok]) (xs ! i) toks"
  by (simp add: walk.simps Let_def)

lemma set_at_read: "set_at tool content toks cur = Inr v \<Longrightarrow> walk seen v toks = Inr content"
proof (induction tool content toks cur arbitrary: v seen rule: set_at.induct)
  case (2 tool content tok cur)
  then show ?case
    by (auto simp: walk_step_dict walk_step_list dict_get_set bind_err_def dest!: list_position_Inr split: val.splits sum.splits)
next
  case (3 tool content tok tok' toks cur)
  show ?case
  proof (cases cur)
    case (VList xs)
    then obtain i c where i: "list_position tool tok xs = Inr i" and c: "set_at tool content (tok' # toks) (xs ! i) = Inr c"
      and v: "v = VList (xs[i := c])"
      using 3(3) by (auto simp: bind_err_def split: sum.splits)
    from 3(1)[OF VList i c] list_position_Inr[OF i] show ?thesis by (simp add: v walk_step_list)
  next
    case (VDict d)
    then obtain c where c: "set_at tool content (tok' # toks) (child_container (dict_get d tok)) = Inr c"
      and v: "v = VDict (dict_set d tok c)"
      using 3(3) by (auto simp: bind_err_def split: sum.splits)
    from 3(2)[OF VDict c] show ?thesis by (simp add: v walk_step_dict dict_get_set)
  qed (use 3(3) in auto)
qed simp

text \<open>
  Two tokens that name different members of every container: different keys, and not two spellings
  of one index.
\<close>

definition apart :: "string \<Rightarrow> string \<Rightarrow> bool" where
  "apart a b \<longleftrightarrow> a \<noteq> b \<and> (py_int_of a = None \<or> py_int_of a \<noteq> py_int_of b)"

fun diverges :: "string list \<Rightarrow> string list \<Rightarrow> bool" where
  "diverges (a # ts) (b # us) = (if a = b then diverges ts us else apart a b)"
| "diverges _ _ = False"

lemma walk_scalar: "us \<noteq> [] \<Longrightarrow> child_container (Some cur) \<noteq> cur \<Longrightarrow> walk seen cur us \<noteq> Inr w"
  by (cases us; cases cur) (auto simp: walk.simps Let_def child_container_def)

lemma walk_apart_list:
  "apart tok u \<Longrightarrow> py_int_of tok = Some (int i) \<Longrightarrow> walk seen (VList xs) (u # us) = Inr w \<Longrightarrow>
    walk seen (VList (xs[i := c])) (u # us) = Inr w"
  by (auto simp: walk.simps Let_def apart_def nth_list_update split: option.splits if_splits)

lemma walk_apart_dict:
  "tok \<noteq> u \<Longrightarrow> walk seen (VDict (dict_set d tok c)) (u # us) = walk seen (VDict d) (u # us)"
  by (simp add: walk_step_dict dict_get_set)

lemma set_at_other:
  "set_at tool content toks cur = Inr v \<Longrightarrow> diverges toks us \<Longrightarrow> walk seen cur us = Inr w \<Longrightarrow> walk seen v us = Inr w"
proof (induction tool content toks cur arbitrary: v seen us rule: set_at.induct)
  case (2 tool content tok cur)
  then obtain u us' where us: "us = u # us'" "apart tok u" by (cases us) (auto split: if_splits)
  then show ?case
    using 2 by (auto simp: bind_err_def walk_apart_dict apart_def intro!: walk_apart_list[of tok u]
        dest!: list_position_Inr split: val.splits sum.splits)
next
  case (3 tool content tok tok' toks cur)
  obtain u us' where us: "us = u # us'" using 3(4) by (cases us) auto
  show ?case
  proof (cases cur)
    case (VList xs)
    then obtain i c where i: "list_position tool tok xs = Inr i" and c: "set_at tool content (tok' # toks) (xs ! i) = Inr c"
      and v: "v = VList (xs[i := c])"
      using 3(3) by (auto simp: bind_err_def split: sum.splits)
    note at_i = list_position_Inr[OF i]
    show ?thesis
    proof (cases "tok = u")
      case True
      with 3(4,5) us VList at_i have "diverges (tok' # toks) us'" "walk (seen @ [u]) (xs ! i) us' = Inr w"
        by (auto simp: walk_step_list)
      from 3(1)[OF VList i c this] show ?thesis using at_i True by (simp add: v us walk_step_list)
    next
      case False
      with 3(4) us have "apart tok u" by simp
      with walk_apart_list at_i 3(5) show ?thesis by (simp add: v us VList)
    qed
  next
    case (VDict d)
    then obtain c where c: "set_at tool content (tok' # toks) (child_container (dict_get d tok)) = Inr c"
      and v: "v = VDict (dict_set d tok c)"
      using 3(3) by (auto simp: bind_err_def split: sum.splits)
    show ?thesis
    proof (cases "tok = u")
      case True
      with 3(4,5) us VDict obtain x where x: "dict_get d tok = Some x" "diverges (tok' # toks) us'"
        "walk (seen @ [u]) x us' = Inr w"
        by (auto simp: walk_step_dict split: option.splits)
      then have "us' \<noteq> []" by auto
      with x(3) walk_scalar have "child_container (dict_get d tok) = x" using x(1) by metis
      with 3(2)[OF VDict c x(2)] x(3) show ?thesis using True by (simp add: v us walk_step_dict dict_get_set)
    next
      case False
      with 3(5) show ?thesis by (simp add: v us VDict walk_apart_dict)
    qed
  qed (use 3(3) in auto)
qed simp

text \<open>
  C31: A value written at a pointer is the value read at that pointer, and a pointer that leads
  elsewhere, that is parts from the first one at a token that is another key and another index,
  still reads what it read before.
\<close>

theorem pointer_set_reads_back:
  assumes "pointer_set tool data p content = Inr written"
  shows "resolve_pointer written p = Inr content \<and>
    (case (parse_pointer p, parse_pointer q) of
       (Inr toks, Inr us) \<Rightarrow>
         \<not> diverges toks us \<or> (case resolve_pointer (VDict data) q of Inl e \<Rightarrow> True | Inr w \<Rightarrow> resolve_pointer written q = Inr w)
     | _ \<Rightarrow> True)"
proof -
  obtain toks where p: "parse_pointer p = Inr toks" and written: "set_at tool content toks (VDict data) = Inr written"
    using assms by (auto simp: pointer_set_def contrib_pointer_def bind_err_def split: sum.splits if_splits)
  show ?thesis
    using set_at_read[OF written] set_at_other[OF written]
    by (auto simp: resolve_pointer_def p split: sum.split)
qed

theorem pointer_set_reads_back_witness:
  "resolve_pointer (VDict [(''a'', VList [VInt 1, VInt 7])]) ''/a/1'' = Inr (VInt 7) \<and>
     resolve_pointer (VDict [(''a'', VList [VInt 1, VInt 7])]) ''/a/0'' = Inr (VInt 1)"
proof -
  have "pointer_set ''json_set'' [(''a'', VList [VInt 1, VInt 2])] ''/a/1'' (VInt 7) = Inr (VDict [(''a'', VList [VInt 1, VInt 7])])"
    "parse_pointer ''/a/1'' = Inr [''a'', ''1'']" "parse_pointer ''/a/0'' = Inr [''a'', ''0'']"
    "diverges [''a'', ''1''] [''a'', ''0'']" "resolve_pointer (VDict [(''a'', VList [VInt 1, VInt 2])]) ''/a/0'' = Inr (VInt 1)"
    by code_simp+
  from pointer_set_reads_back[OF this(1), of "''/a/0''"] this(2-) show ?thesis by simp
qed

text \<open>A scalar on the way is replaced by an empty container without a word.\<close>

theorem json_set_replaces_scalar:
  "json_set [(''a'', VInt 1)] ''/a/b'' (VInt 2) = Inr [(''data'', VDict [(''a'', VDict [(''b'', VInt 2)])])] \<and>
   map_sum exn_type id (json_pluck [(''a'', VInt 1)] ''/a/b'') = Inl ''ContribError''"
  by code_simp

section \<open>Lists\<close>

definition item_run ::
  "('w, 'c, 'k) executor \<Rightarrow> string \<Rightarrow> string \<Rightarrow> val \<Rightarrow> val dict \<Rightarrow> bool" where
  "item_run ex subflow item_key item out \<longleftrightarrow>
     (\<exists>s s' res. start_flow ex subflow [(item_key, item)] None False no_opts False ''skip'' None s = (s', Inr res) \<and>
        er_success res \<and> rd_final_output (er_data res) = Some out)"

lemma run_item_run:
  assumes "run_item ex tool subflow item_key item st = (st', Inr out)"
  shows "item_run ex subflow item_key item out"
proof -
  obtain s1 res where ran: "start_flow ex subflow [(item_key, item)] None False no_opts False ''skip'' None st = (s1, Inr res)"
    and out: "(case (er_success res, rd_final_output (er_data res)) of (True, Some out) \<Rightarrow> (s1, Inr out)
       | _ \<Rightarrow> (s1, Inl (RExn (ContribError tool (''sub-flow '' @ subflow @ '' failed''))))) = (st', Inr out)"
    using assms unfolding run_item_def bind_st_Inr_iff by blast
  have "er_success res \<and> rd_final_output (er_data res) = Some out"
    using out by (auto split: bool.splits option.splits)
  with ran show ?thesis unfolding item_run_def by blast
qed

lemma map_items_runs:
  "map_items ex tool subflow item_key items st = (st', Inr outs) \<Longrightarrow>
     list_all2 (\<lambda>item v. \<exists>out. v = VDict out \<and> item_run ex subflow item_key item out) items outs"
proof (induction items arbitrary: st st' outs)
  case (Cons x xs)
  obtain s1 out s2 outs' where "run_item ex tool subflow item_key x st = (s1, Inr out)"
    "map_items ex tool subflow item_key xs s1 = (s2, Inr outs')" "outs = VDict out # outs'"
    using Cons.prems by (auto simp: bind_st_Inr_iff)
  with Cons.IH[of s1 s2 outs'] run_item_run[of ex tool subflow item_key x st s1 out] show ?case by simp
qed simp

definition verdict :: "('w, 'c, 'k) executor \<Rightarrow> string \<Rightarrow> string \<Rightarrow> string \<Rightarrow> val \<Rightarrow> bool \<Rightarrow> bool" where
  "verdict ex subflow item_key predicate_key item v \<longleftrightarrow>
     (\<exists>out x. item_run ex subflow item_key item out \<and> dict_get out predicate_key = Some x \<and> v = truthy x)"

lemma filter_items_runs:
  "filter_items ex tool subflow item_key predicate_key items st = (st', Inr kept) \<Longrightarrow>
     \<exists>verdicts. list_all2 (verdict ex subflow item_key predicate_key) items verdicts \<and>
       kept = map fst (filter snd (zip items verdicts))"
proof (induction items arbitrary: st st' kept)
  case (Cons x xs)
  obtain s1 out v s2 kept' where ran: "run_item ex tool subflow item_key x st = (s1, Inr out)"
    and v: "dict_get out predicate_key = Some v"
    and rest: "filter_items ex tool subflow item_key predicate_key xs s1 = (s2, Inr kept')"
    and kept: "kept = (if truthy v then x # kept' else kept')"
    using Cons.prems by (auto simp: bind_st_Inr_iff split: option.splits)
  from Cons.IH[OF rest] obtain verdicts where
    all: "list_all2 (verdict ex subflow item_key predicate_key) xs verdicts"
    "kept' = map fst (filter snd (zip xs verdicts))" by blast
  have "verdict ex subflow item_key predicate_key x (truthy v)"
    using run_item_run[OF ran] v unfolding verdict_def by blast
  with all kept show ?case by (intro exI[of _ "truthy v # verdicts"]) simp
qed simp

text \<open>
  C39: A list tool that returns has run its sub-flow successfully on every element, in order:
  \<open>map_list\<close> returns the final outputs position by position, \<open>filter_list\<close> the elements whose run
  gave a true content under the predicate key, in their order.
\<close>

theorem list_tools_return_runs:
  "(case snd (map_list ex subflow item_key name items st) of
      Inl e \<Rightarrow> True
    | Inr out \<Rightarrow> \<exists>outs. out = [(''items'', VList outs)] \<and>
        list_all2 (\<lambda>item v. \<exists>d. v = VDict d \<and> item_run ex subflow item_key item d) items outs) \<and>
   (case snd (filter_list ex subflow item_key predicate_key name items st) of
      Inl e \<Rightarrow> True
    | Inr out \<Rightarrow> \<exists>verdicts. list_all2 (verdict ex subflow item_key predicate_key) items verdicts \<and>
        out = [(''items'', VList (map fst (filter snd (zip items verdicts))))])"
proof (intro conjI)
  define mapped where "mapped = map_items ex (case name of None \<Rightarrow> ''map_list['' @ subflow @ '']'' | Some n \<Rightarrow> n) subflow item_key items st"
  have "list_all2 (\<lambda>item v. \<exists>d. v = VDict d \<and> item_run ex subflow item_key item d) items outs"
    if ret: "snd mapped = Inr outs" for outs
  proof -
    obtain s where "mapped = (s, Inr outs)" using ret by (metis prod.collapse)
    then show ?thesis unfolding mapped_def by (rule map_items_runs)
  qed
  then show "case snd (map_list ex subflow item_key name items st) of
      Inl e \<Rightarrow> True
    | Inr out \<Rightarrow> \<exists>outs. out = [(''items'', VList outs)] \<and>
        list_all2 (\<lambda>item v. \<exists>d. v = VDict d \<and> item_run ex subflow item_key item d) items outs"
    unfolding map_list_def mapped_def[symmetric] by (simp add: bind_st_def split: sum.split)
next
  define kept where "kept = filter_items ex (case name of None \<Rightarrow> ''filter_list['' @ subflow @ '']'' | Some n \<Rightarrow> n) subflow item_key
    predicate_key items st"
  have "\<exists>verdicts. list_all2 (verdict ex subflow item_key predicate_key) items verdicts \<and>
      xs = map fst (filter snd (zip items verdicts))" if ret: "snd kept = Inr xs" for xs
  proof -
    obtain s where "kept = (s, Inr xs)" using ret by (metis prod.collapse)
    then show ?thesis unfolding kept_def by (rule filter_items_runs)
  qed
  then show "case snd (filter_list ex subflow item_key predicate_key name items st) of
      Inl e \<Rightarrow> True
    | Inr out \<Rightarrow> \<exists>verdicts. list_all2 (verdict ex subflow item_key predicate_key) items verdicts \<and>
        out = [(''items'', VList (map fst (filter snd (zip items verdicts))))]"
    unfolding filter_list_def kept_def[symmetric] by (simp add: bind_st_def split: sum.split)
qed

end
