(* ===== verification/Attest.thy ===== *)
theory Attest
  imports RunProps PyText
begin

text \<open>
  Attestation of determinism (\<open>chainweaver/attest.py\<close>) over the executor of \<open>FlowExec\<close>: the
  fingerprint of a flow, the runs of one input, the search for the diverging step and the report.
  The clock, the host and the generator of inputs are arguments.  The results: what a report says
  of an input is what its runs gave, and the step cache of the executor takes part in the runs.
\<close>

section \<open>Fingerprints\<close>

text \<open>Sets are written as the list of their elements in the order of their texts.\<close>

primrec stable_sets :: "(val list \<Rightarrow> string) \<Rightarrow> val \<Rightarrow> val" where
  "stable_sets set_text VNone = VNone"
| "stable_sets set_text (VBool b) = VBool b"
| "stable_sets set_text (VInt i) = VInt i"
| "stable_sets set_text (VStr s) = VStr s"
| "stable_sets set_text (VList xs) = VList (map (stable_sets set_text) xs)"
| "stable_sets set_text (VDict d) = VDict (map (map_prod id (stable_sets set_text)) d)"
| "stable_sets set_text (VSet xs) = VList (map snd (sort_key fst (map (\<lambda>(x, y). (py_str set_text x, y))
     (zip xs (map (stable_sets set_text) xs)))))"

definition canonical_json :: "'w platform \<Rightarrow> val \<Rightarrow> string" where
  "canonical_json pl v = json_dumps (pl_set_text pl) '','' '':'' (sort_keys (stable_sets (pl_set_text pl) v))"

definition hash_value :: "'w platform \<Rightarrow> val \<Rightarrow> string" where
  "hash_value pl v = pl_sha256 pl (canonical_json pl v)"

definition opt_text :: "string option \<Rightarrow> val" where
  "opt_text t = (case t of None \<Rightarrow> VNone | Some s \<Rightarrow> VStr s)"

definition flow_structural_fingerprint :: "'w platform \<Rightarrow> any_flow \<Rightarrow> string" where
  "flow_structural_fingerprint pl f =
     hash_value pl (case f of
       DagFlow d \<Rightarrow> VDict [(''kind'', VStr ''DAGFlow''), (''name'', VStr (f_name d)), (''version'', VStr (f_version d)),
         (''steps'', VList (map (\<lambda>s. VDict [(''step_id'', VStr (d_step_id s)), (''tool_name'', opt_text (s_tool_name s)),
            (''depends_on'', VList (map VStr (d_depends_on s))), (''input_mapping'', VDict (s_input_mapping s))]) (f_steps d)))]
     | LinearFlow l \<Rightarrow> VDict [(''kind'', VStr ''Flow''), (''name'', VStr (f_name l)), (''version'', VStr (f_version l)),
         (''steps'', VList (map (\<lambda>s. VDict [(''tool_name'', opt_text (s_tool_name s)),
            (''input_mapping'', VDict (s_input_mapping s))]) (f_steps l)))])"

section \<open>Runs of one input\<close>

datatype attest_error = StepFailed "exn option" | NoFailedStep | Disagreed

record input_result =
  ir_payload :: "val dict"
  ir_fingerprint :: "string option"
  ir_step :: "int option"
  ir_error :: "attest_error option"

definition run_once ::
  "('w, 'c, 'k) executor \<Rightarrow> string \<Rightarrow> val dict \<Rightarrow> ('w, 'c, 'k) xstate \<Rightarrow> ('w, 'c, 'k) xstate \<times> (raised + execution_result)" where
  "run_once ex name payload st = start_flow ex name payload None False no_opts False ''skip'' None st"

definition output_fingerprint :: "'w platform \<Rightarrow> execution_result \<Rightarrow> string" where
  "output_fingerprint pl r =
     hash_value pl (case rd_final_output (er_data r) of None \<Rightarrow> VNone | Some d \<Rightarrow> VDict d)"

definition failed_result :: "val dict \<Rightarrow> execution_result \<Rightarrow> input_result" where
  "failed_result payload r =
     (case find (\<lambda>rec. \<not> sr_success rec) (er_log r) of
        Some rec \<Rightarrow> \<lparr>ir_payload = payload, ir_fingerprint = None, ir_step = Some (sr_index rec),
                     ir_error = Some (StepFailed (sd_error (sr_data rec)))\<rparr>
      | None \<Rightarrow> \<lparr>ir_payload = payload, ir_fingerprint = None, ir_step = None, ir_error = Some NoFailedStep\<rparr>)"

text \<open>The loop over the repeats; it ends at the first failed run.\<close>

primrec repeat_runs ::
  "('w, 'c, 'k) executor \<Rightarrow> string \<Rightarrow> val dict \<Rightarrow> nat \<Rightarrow> string list \<Rightarrow> ('w, 'c, 'k) xstate
     \<Rightarrow> ('w, 'c, 'k) xstate \<times> (raised + (input_result + string list))" where
  "repeat_runs ex name payload 0 fps st = (st, Inr (Inr fps))"
| "repeat_runs ex name payload (Suc k) fps st =
     bind_st (run_once ex name payload st) (\<lambda>st r.
       if \<not> er_success r then (st, Inr (Inl (failed_result payload r)))
       else repeat_runs ex name payload k (fps @ [output_fingerprint (ex_platform ex) r]) st)"

definition outputs_value :: "step_record \<Rightarrow> val" where
  "outputs_value r = (case sr_outputs r of None \<Rightarrow> VNone | Some d \<Rightarrow> VDict d)"

definition find_diverging_step ::
  "('w, 'c, 'k) executor \<Rightarrow> string \<Rightarrow> val dict \<Rightarrow> ('w, 'c, 'k) xstate \<Rightarrow> ('w, 'c, 'k) xstate \<times> (raised + int option)" where
  "find_diverging_step ex name payload st =
     bind_st (run_once ex name payload st) (\<lambda>st a.
       bind_st (run_once ex name payload st) (\<lambda>st b.
         (st, Inr (map_option (\<lambda>p. sr_index (fst p))
            (find (\<lambda>(x, y). \<not> py_eq (outputs_value x) (outputs_value y)) (zip (er_log a) (er_log b)))))))"

definition attest_one_input ::
  "('w, 'c, 'k) executor \<Rightarrow> string \<Rightarrow> nat \<Rightarrow> val dict \<Rightarrow> ('w, 'c, 'k) xstate \<Rightarrow> ('w, 'c, 'k) xstate \<times> (raised + input_result)" where
  "attest_one_input ex name repeats payload st =
     bind_st (repeat_runs ex name payload repeats [] st) (\<lambda>st res.
       case res of
         Inl failed \<Rightarrow> (st, Inr failed)
       | Inr fps \<Rightarrow>
           (if 1 < length (remdups fps)
            then bind_st (find_diverging_step ex name payload st) (\<lambda>st step.
                   (st, Inr \<lparr>ir_payload = payload, ir_fingerprint = None, ir_step = step, ir_error = Some Disagreed\<rparr>))
            else (st, Inr \<lparr>ir_payload = payload, ir_fingerprint = Some (hd fps), ir_step = None, ir_error = None\<rparr>)))"

fun attest_inputs ::
  "('w, 'c, 'k) executor \<Rightarrow> string \<Rightarrow> nat \<Rightarrow> val dict list \<Rightarrow> ('w, 'c, 'k) xstate \<Rightarrow> ('w, 'c, 'k) xstate \<times> (raised + input_result list)" where
  "attest_inputs ex name repeats [] st = (st, Inr [])"
| "attest_inputs ex name repeats (p # ps) st =
     bind_st (attest_one_input ex name repeats p st) (\<lambda>st r.
       bind_st (attest_inputs ex name repeats ps st) (\<lambda>st rs. (st, Inr (r # rs))))"

section \<open>The report\<close>

record attestation =
  at_flow_name :: string
  at_flow_version :: string
  at_flow_fingerprint :: string
  at_tool_hashes :: "(string \<times> string) list"
  at_n :: nat
  at_repeats :: int
  at_seed :: int
  at_deterministic :: bool
  at_aggregate :: string
  at_divergences :: "(nat \<times> input_result) list"

definition attestation_of ::
  "('w, 'c, 'k) executor \<Rightarrow> any_flow \<Rightarrow> int \<Rightarrow> int \<Rightarrow> input_result list \<Rightarrow> attestation" where
  "attestation_of ex f repeats seed results =
     (let divergences = filter (\<lambda>(i, r). ir_fingerprint r = None) (enumerate 0 results);
          fps = List.map_filter ir_fingerprint results
      in \<lparr>at_flow_name = af_name f, at_flow_version = af_version f,
          at_flow_fingerprint = flow_structural_fingerprint (ex_platform ex) f,
          at_tool_hashes = map (\<lambda>(n, t). (n, schema_hash (ex_platform ex) t)) (ex_tools ex),
          at_n = length results, at_repeats = repeats, at_seed = seed,
          at_deterministic = (divergences = []),
          at_aggregate = pl_sha256 (ex_platform ex) (join_str ''|'' (sort fps)),
          at_divergences = divergences\<rparr>)"

text \<open>
  \<open>generate\<close> is the generator of validated inputs for an input schema; it fails with the message of
  \<open>AttestationInputError\<close>, also when the flow has no input schema.
\<close>

definition attest_flow ::
  "('w, 'c, 'k) executor \<Rightarrow> (any_flow \<Rightarrow> int \<Rightarrow> int \<Rightarrow> string + val dict list) \<Rightarrow> any_flow \<Rightarrow> int \<Rightarrow> int \<Rightarrow> int \<Rightarrow>
     val dict list option \<Rightarrow> ('w, 'c, 'k) xstate \<Rightarrow> ('w, 'c, 'k) xstate \<times> (raised + attestation)" where
  "attest_flow ex generate f n repeats seed seed_inputs st =
     (if repeats < 2 then (st, Inl (RExn (ValueError ''repeats must be >= 2'')))
      else if n < 1 \<and> seed_inputs = None then (st, Inl (RExn (ValueError ''n must be >= 1'')))
      else
        (case (case seed_inputs of Some ps \<Rightarrow> Inr ps | None \<Rightarrow> generate f n seed) of
           Inl m \<Rightarrow> (st, Inl (RExn (PyException ''AttestationInputError'' m)))
         | Inr inputs \<Rightarrow>
             bind_st (attest_inputs ex (af_name f) (nat repeats) inputs st) (\<lambda>st results.
               (st, Inr (attestation_of ex f repeats (if seed_inputs = None then seed else -1) results)))))"

section \<open>What a report says\<close>

text \<open>Consecutive runs on one input, from a state to a state.\<close>

fun run_chain ::
  "('w, 'c, 'k) executor \<Rightarrow> string \<Rightarrow> val dict \<Rightarrow> ('w, 'c, 'k) xstate \<Rightarrow> execution_result list \<Rightarrow> ('w, 'c, 'k) xstate \<Rightarrow> bool" where
  "run_chain ex name payload st [] st' = (st' = st)"
| "run_chain ex name payload st (r # rs) st' =
     (\<exists>s. run_once ex name payload st = (s, Inr r) \<and> run_chain ex name payload s rs st')"

lemma repeat_runs_chain:
  "repeat_runs ex name payload k fps st = (st', Inr res) \<Longrightarrow>
     \<exists>rs. run_chain ex name payload st rs st' \<and>
       (case res of
          Inr all \<Rightarrow> length rs = k \<and> list_all er_success rs \<and> all = fps @ map (output_fingerprint (ex_platform ex)) rs
        | Inl failed \<Rightarrow> rs \<noteq> [] \<and> length rs \<le> k \<and> list_all er_success (butlast rs) \<and> \<not> er_success (last rs) \<and>
            failed = failed_result payload (last rs))"
proof (induction k arbitrary: fps st)
  case 0
  then show ?case by (intro exI[of _ "[]"]) auto
next
  case (Suc k)
  obtain s r where ran: "run_once ex name payload st = (s, Inr r)"
    and rest: "(if \<not> er_success r then (s, Inr (Inl (failed_result payload r)))
       else repeat_runs ex name payload k (fps @ [output_fingerprint (ex_platform ex) r]) s) = (st', Inr res)"
    using Suc.prems by (auto simp: bind_st_Inr_iff)
  show ?case
  proof (cases "er_success r")
    case True
    with rest have "repeat_runs ex name payload k (fps @ [output_fingerprint (ex_platform ex) r]) s = (st', Inr res)" by simp
    from Suc.IH[OF this] obtain rs where "run_chain ex name payload s rs st'"
      "case res of
          Inr all \<Rightarrow> length rs = k \<and> list_all er_success rs \<and>
            all = (fps @ [output_fingerprint (ex_platform ex) r]) @ map (output_fingerprint (ex_platform ex)) rs
        | Inl failed \<Rightarrow> rs \<noteq> [] \<and> length rs \<le> k \<and> list_all er_success (butlast rs) \<and> \<not> er_success (last rs) \<and>
            failed = failed_result payload (last rs)" by blast
    with ran True show ?thesis by (intro exI[of _ "r # rs"]) (auto split: sum.splits)
  next
    case False
    with ran rest show ?thesis by (intro exI[of _ "[r]"]) auto
  qed
qed

definition agreeing :: "('w, 'c, 'k) executor \<Rightarrow> string \<Rightarrow> nat \<Rightarrow> val dict \<Rightarrow> string \<Rightarrow> bool" where
  "agreeing ex name repeats payload fp \<longleftrightarrow>
     (\<exists>s s' rs. run_chain ex name payload s rs s' \<and> length rs = repeats \<and>
        list_all (\<lambda>r. er_success r \<and> output_fingerprint (ex_platform ex) r = fp) rs)"

definition diverging :: "('w, 'c, 'k) executor \<Rightarrow> string \<Rightarrow> nat \<Rightarrow> val dict \<Rightarrow> bool" where
  "diverging ex name repeats payload \<longleftrightarrow>
     (\<exists>s s' rs. run_chain ex name payload s rs s' \<and> length rs \<le> repeats \<and>
        (list_ex (\<lambda>r. \<not> er_success r) rs \<or>
         (\<exists>a\<in>set rs. \<exists>b\<in>set rs. output_fingerprint (ex_platform ex) a \<noteq> output_fingerprint (ex_platform ex) b)))"

definition result_ok :: "('w, 'c, 'k) executor \<Rightarrow> string \<Rightarrow> nat \<Rightarrow> val dict \<Rightarrow> input_result \<Rightarrow> bool" where
  "result_ok ex name repeats payload r \<longleftrightarrow>
     ir_payload r = payload \<and>
     (case ir_fingerprint r of
        Some fp \<Rightarrow> ir_error r = None \<and> agreeing ex name repeats payload fp
      | None \<Rightarrow> ir_error r \<noteq> None \<and> diverging ex name repeats payload)"

lemma one_fingerprint: "\<not> 1 < length (remdups xs) \<Longrightarrow> x \<in> set xs \<Longrightarrow> x = hd xs"
proof -
  assume one: "\<not> 1 < length (remdups xs)" and x: "x \<in> set xs"
  then have "length (remdups xs) = 1" by (cases "remdups xs") auto
  then obtain y where "remdups xs = [y]" by (auto simp: length_Suc_conv)
  then have "set xs = {y}" by (metis empty_set list.simps(15) set_remdups)
  with x show "x = hd xs" by (metis hd_in_set empty_iff empty_set singletonD)
qed

lemma two_fingerprints: "1 < length (remdups xs) \<Longrightarrow> \<exists>x\<in>set xs. \<exists>y\<in>set xs. x \<noteq> y"
proof -
  assume many: "1 < length (remdups xs)"
  then obtain a b zs where "remdups xs = a # b # zs" by (cases "remdups xs"; cases "tl (remdups xs)") auto
  then have "a \<noteq> b" "a \<in> set xs" "b \<in> set xs"
    using distinct_remdups[of xs] set_remdups[of xs] by auto
  then show ?thesis by blast
qed

lemma attest_one_ok:
  assumes "attest_one_input ex name repeats payload st = (st', Inr r)" "2 \<le> repeats"
  shows "result_ok ex name repeats payload r"
proof -
  obtain s res where runs: "repeat_runs ex name payload repeats [] st = (s, Inr res)"
    and rest: "(case res of
         Inl failed \<Rightarrow> (s, Inr failed)
       | Inr fps \<Rightarrow>
           (if 1 < length (remdups fps)
            then bind_st (find_diverging_step ex name payload s) (\<lambda>st step.
                   (st, Inr \<lparr>ir_payload = payload, ir_fingerprint = None, ir_step = step, ir_error = Some Disagreed\<rparr>))
            else (s, Inr \<lparr>ir_payload = payload, ir_fingerprint = Some (hd fps), ir_step = None, ir_error = None\<rparr>)))
       = (st', Inr r)"
    using assms(1) unfolding attest_one_input_def bind_st_Inr_iff[of "repeat_runs _ _ _ _ _ _"] by blast
  from repeat_runs_chain[OF runs] obtain rs where chain: "run_chain ex name payload st rs s"
    and kind: "case res of
          Inr all \<Rightarrow> length rs = repeats \<and> list_all er_success rs \<and> all = [] @ map (output_fingerprint (ex_platform ex)) rs
        | Inl failed \<Rightarrow> rs \<noteq> [] \<and> length rs \<le> repeats \<and> list_all er_success (butlast rs) \<and> \<not> er_success (last rs) \<and>
            failed = failed_result payload (last rs)" by blast
  show ?thesis
  proof (cases res)
    case (Inl failed)
    with kind rest have r: "r = failed_result payload (last rs)" and "rs \<noteq> []" "\<not> er_success (last rs)" "length rs \<le> repeats"
      by auto
    then have "list_ex (\<lambda>r. \<not> er_success r) rs" by (auto simp: list_ex_iff)
    with chain \<open>length rs \<le> repeats\<close> have "diverging ex name repeats payload" unfolding diverging_def by blast
    then show ?thesis by (auto simp: r result_ok_def failed_result_def split: option.split)
  next
    case (Inr fps)
    with kind have fps: "fps = map (output_fingerprint (ex_platform ex)) rs" "length rs = repeats" "list_all er_success rs" by auto
    show ?thesis
    proof (cases "1 < length (remdups fps)")
      case True
      with rest Inr have r: "ir_payload r = payload \<and> ir_fingerprint r = None \<and> ir_error r = Some Disagreed"
        by (auto simp: bind_st_Inr_iff)
      from two_fingerprints[OF True] have "\<exists>a\<in>set rs. \<exists>b\<in>set rs. output_fingerprint (ex_platform ex) a \<noteq> output_fingerprint (ex_platform ex) b"
        by (auto simp: fps(1))
      with chain fps(2) have "diverging ex name repeats payload"
        unfolding diverging_def by blast
      with r show ?thesis by (simp add: result_ok_def)
    next
      case False
      with rest Inr have r: "r = \<lparr>ir_payload = payload, ir_fingerprint = Some (hd fps), ir_step = None, ir_error = None\<rparr>" by simp
      have "list_all (\<lambda>r. er_success r \<and> output_fingerprint (ex_platform ex) r = hd fps) rs"
        using one_fingerprint[OF False] fps by (auto simp: list_all_iff)
      with chain fps have "agreeing ex name repeats payload (hd fps)" unfolding agreeing_def by blast
      then show ?thesis by (simp add: r result_ok_def)
    qed
  qed
qed

lemma attest_inputs_ok:
  "attest_inputs ex name repeats ps st = (st', Inr rs) \<Longrightarrow> 2 \<le> repeats \<Longrightarrow> list_all2 (result_ok ex name repeats) ps rs"
proof (induction ps arbitrary: st st' rs)
  case (Cons p ps)
  obtain s r s' rs' where "attest_one_input ex name repeats p st = (s, Inr r)" "attest_inputs ex name repeats ps s = (s', Inr rs')"
    "rs = r # rs'"
    using Cons.prems(1) by (auto simp: bind_st_Inr_iff)
  with Cons.IH[of s s' rs'] attest_one_ok[of ex name repeats p st s r] Cons.prems(2) show ?case by simp
qed simp


text \<open>A tool that counts its calls, without and with a step cache.\<close>

definition counter :: "nat tool" where
  "counter = sample_tool ''count'' default_safety (\<lambda>w d. (w + 1, 0, Inr (VDict [(''n'', VInt (int w))])))"

definition count_flow :: any_flow where
  "count_flow = LinearFlow (mk_flow ''f'' [mk_step\<lparr>s_tool_name := Some ''count''\<rparr>])"

definition count_ex :: "(nat, mem_cache, unit) executor" where
  "count_ex = sample_executor [count_flow] [(''count'', counter)]"

definition count_state :: "(nat, mem_cache, unit) xstate" where
  "count_state =
     \<lparr>x_world = 0, x_cache = [], x_snaps = (), x_events = [], x_observed = [], x_next_trace = 0,
      x_local = fresh_local, x_calls = []\<rparr>"

lemmas count_eval =
  run_eval count_ex_def count_flow_def counter_def count_state_def sample_executor_def sample_platform_def
  attest_flow_def attest_inputs.simps attest_one_input_def repeat_runs.simps run_once_def find_diverging_step_def
  attestation_of_def in_memory_cache_def output_fingerprint_def hash_value_def canonical_json_def outputs_value_def
  stable_sets.simps sort_keys.simps

text \<open>
  The step cache of the executor answers the repeated runs, so a tool that gives another output at
  every call is attested as deterministic.
\<close>

theorem cache_hides_divergence:
  "map_sum (\<lambda>_. ()) at_deterministic
     (snd (attest_flow count_ex (\<lambda>_ _ _. Inl []) count_flow 1 2 0 (Some [[]]) count_state)) = Inr False \<and>
   map_sum (\<lambda>_. ()) at_deterministic
     (snd (attest_flow (count_ex\<lparr>ex_step_cache := Some in_memory_cache\<rparr>) (\<lambda>_ _ _. Inl []) count_flow 1 2 0 (Some [[]]) count_state))
     = Inr True"
proof -
  have "int_text 0 \<noteq> int_text 1" by code_simp
  then show ?thesis by (simp add: count_eval numeral_2_eq_2)
qed

lemma report_of:
  assumes "map_sum (\<lambda>_. ()) p (snd x) = Inr False"
  obtains s r where "x = (s, Inr r)" "\<not> p r"
  using assms by (cases x; cases "snd x") auto


end
