(* ===== verification/Adapter.thy ===== *)
theory Adapter
  imports OfflineLLM
begin

text \<open>
  The client of MCP servers: \<open>chainweaver/mcp/_schema.py\<close> (JSON schemas to models) and
  \<open>chainweaver/mcp/adapter.py\<close> (the policy for names and descriptions, safety contracts from
  annotations, pins against schema drift, the projection of call results, discovery).  The session
  with the server, pydantic's model construction, the regular expression of the policy and the JSON
  decoder are arguments.  The results: every discovered tool is named, guarded and pinned as the
  adapter's policies say, and the pins taken of a catalogue accept that catalogue again.
\<close>

section \<open>Schemas\<close>

definition any_ann :: annotation where
  "any_ann = OtherAnn ''typing.Any''"

definition none_ann :: annotation where
  "none_ann = ClassAnn ''NoneType''"

definition PRIMITIVE_TYPES :: "(string \<times> annotation) list" where
  "PRIMITIVE_TYPES =
     [(''string'', ClassAnn ''str''), (''integer'', ClassAnn ''int''), (''number'', ClassAnn ''float''),
      (''boolean'', ClassAnn ''bool''), (''null'', none_ann)]"

definition sanitise_char :: "char \<Rightarrow> char" where
  "sanitise_char c =
     (let n = of_char c :: nat in
      if 48 \<le> n \<and> n \<le> 57 \<or> 65 \<le> n \<and> n \<le> 90 \<or> 97 \<le> n \<and> n \<le> 122 \<or> c = CHR ''_'' then c else CHR ''_'')"

definition sanitise_model_name :: "string \<Rightarrow> string" where
  "sanitise_model_name raw =
     (let cleaned = map sanitise_char raw;
          cleaned = (if cleaned = [] then ''MCPModel'' else cleaned)
      in if digit_of (hd cleaned) \<noteq> None then CHR ''_'' # cleaned else cleaned)"

text \<open>\<open>a | b\<close> on types: nested unions are flattened, duplicates dropped.\<close>

definition union_members :: "annotation \<Rightarrow> annotation list" where
  "union_members a = (case a of UnionAnn ms \<Rightarrow> ms | _ \<Rightarrow> [a])"

definition union_of :: "annotation list \<Rightarrow> annotation" where
  "union_of ms = (case dedup_first ms of [m] \<Rightarrow> m | ms' \<Rightarrow> UnionAnn ms')"

definition ann_or_none :: "annotation \<Rightarrow> annotation" where
  "ann_or_none a = union_of (union_members a @ [none_ann])"

definition primitive_type :: "val \<Rightarrow> exn + annotation option" where
  "primitive_type v =
     (if \<not> hashable v then Inl (PyTypeError ''unhashable type'')
      else Inr (case v of VStr s \<Rightarrow> dict_get PRIMITIVE_TYPES s | _ \<Rightarrow> None))"

text \<open>The members of a union of types, \<open>None\<close> when one of them is not a primitive.\<close>

fun member_types :: "val list \<Rightarrow> exn + annotation list option" where
  "member_types [] = Inr (Some [])"
| "member_types (v # vs) =
     bind_err (primitive_type v) (\<lambda>t.
       case t of None \<Rightarrow> Inr None
       | Some a \<Rightarrow> bind_err (member_types vs) (\<lambda>ts. Inr (map_option ((#) a) ts)))"

text \<open>\<open>types\<close> holds the types of the entries, of which only \<open>items\<close> is asked for.\<close>

definition dict_field_type :: "val dict \<Rightarrow> (string \<times> (exn + annotation)) list \<Rightarrow> exn + annotation" where
  "dict_field_type d types =
     (case get_or d ''type'' VNone of
        VList members \<Rightarrow>
          bind_err (member_types members) (\<lambda>ms.
            Inr (case ms of None \<Rightarrow> any_ann | Some ms \<Rightarrow> (if ms = [] then any_ann else union_of ms)))
      | t \<Rightarrow>
          bind_err (primitive_type t) (\<lambda>p.
            case p of Some a \<Rightarrow> Inr a
            | None \<Rightarrow>
                (if t = VStr ''array''
                 then (case (dict_get d ''items'', dict_get types ''items'') of
                         (Some (VDict _), Some item) \<Rightarrow> bind_err item (\<lambda>a. Inr (GenericAnn ''list'' [a]))
                       | _ \<Rightarrow> Inr (GenericAnn ''list'' [any_ann]))
                 else if t = VStr ''object'' then Inr (GenericAnn ''dict'' [ClassAnn ''str'', any_ann])
                 else Inr any_ann)))"

primrec field_type_from_schema :: "val \<Rightarrow> exn + annotation" where
  "field_type_from_schema VNone = Inr any_ann"
| "field_type_from_schema (VBool b) = Inr any_ann"
| "field_type_from_schema (VInt i) = Inr any_ann"
| "field_type_from_schema (VStr s) = Inr any_ann"
| "field_type_from_schema (VList xs) = Inr any_ann"
| "field_type_from_schema (VSet xs) = Inr any_ann"
| "field_type_from_schema (VDict d) = dict_field_type d (map (map_prod id field_type_from_schema) d)"

text \<open>\<open>set(x or [])\<close> for the names of the required fields.\<close>

definition required_names :: "val \<Rightarrow> exn + string list" where
  "required_names v =
     (if \<not> truthy v then Inr []
      else
        (case v of
           VList xs \<Rightarrow>
             (if list_all hashable xs then Inr (List.map_filter (\<lambda>x. case x of VStr s \<Rightarrow> Some s | _ \<Rightarrow> None) xs)
              else Inl (PyTypeError ''unhashable type''))
         | VSet xs \<Rightarrow> Inr (List.map_filter (\<lambda>x. case x of VStr s \<Rightarrow> Some s | _ \<Rightarrow> None) xs)
         | VStr s \<Rightarrow> Inr (map (\<lambda>c. [c]) s)
         | VDict d \<Rightarrow> Inr (dict_keys d)
         | _ \<Rightarrow> Inl (PyTypeError ''object is not iterable'')))"

definition conversion_error :: "string \<Rightarrow> exn" where
  "conversion_error tool_name = PyException ''MCPSchemaConversionError'' tool_name"

text \<open>\<open>create_model\<close> makes the class from its name and fields; extra fields are allowed.\<close>

type_synonym model_maker = "string \<Rightarrow> (string \<times> field_spec) list \<Rightarrow> exn + schema"

definition field_of :: "string list \<Rightarrow> string \<times> val \<Rightarrow> exn + string \<times> field_spec" where
  "field_of required entry =
     bind_err (field_type_from_schema (snd entry)) (\<lambda>a.
       Inr (fst entry,
         if fst entry \<in> set required then \<lparr>fs_required = True, fs_annotation = a\<rparr>
         else \<lparr>fs_required = False, fs_annotation = ann_or_none a\<rparr>))"

definition jsonschema_to_pydantic :: "model_maker \<Rightarrow> val option \<Rightarrow> string \<Rightarrow> string \<Rightarrow> exn + schema" where
  "jsonschema_to_pydantic create_model schema name tool_name =
     (case schema of
        None \<Rightarrow> create_model (sanitise_model_name name) []
      | Some (VDict d) \<Rightarrow>
          (if get_or d ''type'' VNone \<noteq> VNone \<and> get_or d ''type'' VNone \<noteq> VStr ''object''
           then create_model (sanitise_model_name name) []
           else
             (let raw = get_or d ''properties'' VNone in
              case (if truthy raw then raw else VDict []) of
                VDict properties \<Rightarrow>
                  bind_err (required_names (get_or d ''required'' VNone)) (\<lambda>required.
                    bind_err (map_err (field_of required) properties) (\<lambda>flds.
                      create_model (sanitise_model_name name) flds))
              | _ \<Rightarrow> Inl (conversion_error tool_name)))
      | _ \<Rightarrow> Inl (conversion_error tool_name))"

section \<open>Names and descriptions\<close>

record metadata_policy =
  mp_max_description :: "int option"
  mp_strip_controls :: bool
  mp_normalize :: bool
  mp_placeholder :: bool
  mp_pattern :: "string \<Rightarrow> bool"
  mp_sanitize :: bool

definition default_pattern :: "string \<Rightarrow> bool" where
  "default_pattern name \<longleftrightarrow> name \<noteq> [] \<and> list_all safe_name_char name"

definition default_policy :: metadata_policy where
  "default_policy =
     \<lparr>mp_max_description = Some 2000, mp_strip_controls = True, mp_normalize = True, mp_placeholder = False,
      mp_pattern = default_pattern, mp_sanitize = False\<rparr>"

definition permissive_policy :: metadata_policy where
  "permissive_policy =
     \<lparr>mp_max_description = None, mp_strip_controls = False, mp_normalize = False, mp_placeholder = False,
      mp_pattern = (\<lambda>name. True), mp_sanitize = False\<rparr>"

definition apply_name :: "metadata_policy \<Rightarrow> string \<Rightarrow> exn + string" where
  "apply_name mp name =
     (if mp_pattern mp name then Inr name
      else if mp_sanitize mp
      then
        (let sanitised = map (\<lambda>c. if safe_name_char c then c else CHR ''_'') name;
             sanitised = (if sanitised = [] then ''mcp_tool'' else sanitised)
         in if \<not> mp_pattern mp sanitised then Inl (MCPMetadataError name ''sanitised name still does not match'')
            else Inr sanitised)
      else Inl (MCPMetadataError name ''name does not match required pattern''))"

text \<open>The categories that begin with C: control and format characters.\<close>

definition control_category :: "char \<Rightarrow> bool" where
  "control_category c = (let n = of_char c :: nat in n < 32 \<or> 127 \<le> n \<and> n \<le> 159 \<or> n = 173)"

text \<open>\<open>" ".join(text.split())\<close>: \<open>pending\<close> tells that a word came before.\<close>

fun collapse_spaces :: "bool \<Rightarrow> bool \<Rightarrow> string \<Rightarrow> string" where
  "collapse_spaces started gap [] = []"
| "collapse_spaces started gap (c # cs) =
     (if py_space c then collapse_spaces started True cs
      else (if started \<and> gap then '' '' else []) @ c # collapse_spaces True False cs)"

text \<open>\<open>mark\<close> is the text appended where a description is cut.\<close>

definition apply_description :: "string \<Rightarrow> metadata_policy \<Rightarrow> string option \<Rightarrow> string \<Rightarrow> string option \<Rightarrow> string" where
  "apply_description mark mp raw name server =
     (let fallback = ''MCP tool '' @ CHR 0x27 # name @ CHR 0x27 # ''.'' in
      if mp_placeholder mp
      then ''MCP tool '' @ CHR 0x27 # name @ CHR 0x27 #
             (case server of None \<Rightarrow> [] | Some s \<Rightarrow> (if s = [] then [] else '' from server '' @ CHR 0x27 # s @ [CHR 0x27])) @ ''.''
      else
        (let txt = (case raw of None \<Rightarrow> fallback | Some t \<Rightarrow> t);
             txt = (if mp_strip_controls mp
                    then filter (\<lambda>c. c = CHR 0x0A \<or> c = CHR 0x09 \<or> \<not> control_category c) txt else txt);
             txt = (if mp_normalize mp then collapse_spaces False False txt else txt);
             txt = (case mp_max_description mp of
                      None \<Rightarrow> txt
                    | Some m \<Rightarrow> (if m < int (length txt) then slice_to m txt @ mark else txt))
         in if txt = [] then fallback else txt))"

section \<open>Safety\<close>

datatype annotation_trust = Trust | Ignore | Cap

record tool_annotations =
  an_read_only :: "bool option"
  an_destructive :: "bool option"
  an_idempotent :: "bool option"

definition side_effect_value :: "side_effect \<Rightarrow> string" where
  "side_effect_value s =
     (case s of SE_NONE \<Rightarrow> ''none'' | SE_READ \<Rightarrow> ''read'' | SE_WRITE \<Rightarrow> ''write'' | SE_EXTERNAL \<Rightarrow> ''external''
      | SE_DESTRUCTIVE \<Rightarrow> ''destructive'')"

definition remote_contract :: "side_effect \<Rightarrow> bool \<Rightarrow> exn + safety_contract" where
  "remote_contract side idem =
     ToolSafetyContract (empty_payload\<lparr>p_side_effects := Some (side_effect_value side), p_stability := Some BEST_EFFORT,
       p_determinism := Some DET_NONE, p_idempotent := Some idem, p_cacheable := Some False, p_safe_to_retry := Some idem,
       p_supports_dry_run := Some False\<rparr>)"

definition safety_from_annotations :: "tool_annotations option \<Rightarrow> annotation_trust \<Rightarrow> exn + safety_contract option" where
  "safety_from_annotations annotations trust =
     (case (trust, annotations) of
        (Ignore, _) \<Rightarrow> Inr None
      | (Cap, None) \<Rightarrow> bind_err (remote_contract SE_EXTERNAL False) (\<lambda>c. Inr (Some c))
      | (Trust, None) \<Rightarrow> Inr None
      | (_, Some a) \<Rightarrow>
          (let side = (if an_destructive a = Some True then SE_DESTRUCTIVE
                       else if an_read_only a = Some True then SE_READ else SE_EXTERNAL);
               idem = (case an_idempotent a of Some b \<Rightarrow> b | None \<Rightarrow> side = SE_NONE \<or> side = SE_READ)
           in bind_err (remote_contract side idem) (\<lambda>c. Inr (Some c))))"

section \<open>Discovery\<close>

record remote_tool =
  mt_name :: string
  mt_description :: "string option"
  mt_input :: val
  mt_output :: "val option"
  mt_annotations :: "tool_annotations option"

text \<open>The blocks of a result that are text carry it.\<close>

record call_result =
  cl_is_error :: bool
  cl_content :: "string option list"
  cl_structured :: "val dict option"

record 'w session =
  ss_list :: "'w \<Rightarrow> 'w \<times> (exn + remote_tool list)"
  ss_call :: "string \<Rightarrow> val dict \<Rightarrow> 'w \<Rightarrow> 'w \<times> nat \<times> (exn + call_result)"

datatype drift_policy = DriftError | DriftWarn | DriftAccept

record adapter =
  ad_create_model :: model_maker
  ad_json :: "string \<Rightarrow> val option"
  ad_sha256 :: "string \<Rightarrow> string"
  ad_mark :: string
  ad_output_schema :: schema
  ad_timeout :: "nat option"
  ad_trust :: annotation_trust
  ad_policy :: metadata_policy
  ad_on_drift :: drift_policy
  ad_server :: "string option"

definition new_adapter ::
  "model_maker \<Rightarrow> (string \<Rightarrow> val option) \<Rightarrow> (string \<Rightarrow> string) \<Rightarrow> string \<Rightarrow> schema \<Rightarrow> nat option \<Rightarrow> string \<Rightarrow>
     metadata_policy option \<Rightarrow> string \<Rightarrow> string option \<Rightarrow> exn + adapter" where
  "new_adapter create_model loads sha mark output_schema timeout trust policy on_drift server =
     (if trust \<notin> {''trust'', ''ignore'', ''cap''} then Inl (ValueError ''annotation_trust must be trust, ignore, or cap'')
      else if on_drift \<notin> {''error'', ''warn'', ''accept''} then Inl (ValueError ''on_drift must be error, warn, or accept'')
      else Inr \<lparr>ad_create_model = create_model, ad_json = loads, ad_sha256 = sha, ad_mark = mark,
                ad_output_schema = output_schema, ad_timeout = timeout,
                ad_trust = (if trust = ''trust'' then Trust else if trust = ''ignore'' then Ignore else Cap),
                ad_policy = (case policy of None \<Rightarrow> default_policy | Some p \<Rightarrow> p),
                ad_on_drift = (if on_drift = ''error'' then DriftError else if on_drift = ''warn'' then DriftWarn else DriftAccept),
                ad_server = server\<rparr>)"

definition schema_dict_fingerprint :: "(string \<Rightarrow> string) \<Rightarrow> val \<Rightarrow> string" where
  "schema_dict_fingerprint sha raw = take 16 (sha (json_dumps (\<lambda>_. []) '','' '':'' (sort_keys raw)))"

definition remote_hash :: "adapter \<Rightarrow> remote_tool \<Rightarrow> string" where
  "remote_hash ad mt =
     schema_dict_fingerprint (ad_sha256 ad)
       (VDict [(''input'', mt_input mt), (''output'', case mt_output mt of None \<Rightarrow> VNone | Some v \<Rightarrow> v)])"

definition join_text_content :: "string option list \<Rightarrow> string" where
  "join_text_content content = join_with (CHR 0x0A) (List.map_filter id content)"

definition project_structured_output :: "(string \<Rightarrow> val option) \<Rightarrow> call_result \<Rightarrow> string \<Rightarrow> exn + val" where
  "project_structured_output loads r name =
     (if cl_is_error r then Inl (MCPToolInvocationError name (join_text_content (cl_content r)))
      else
        (case cl_structured r of
           Some d \<Rightarrow> Inr (VDict d)
         | None \<Rightarrow>
             (let txt = join_text_content (cl_content r) in
              if txt = [] then Inl (MCPToolInvocationError name ''no structuredContent and no text content returned'')
              else
                (case loads txt of
                   None \<Rightarrow> Inl (MCPToolInvocationError name ''declared outputSchema but content was not JSON-parsable'')
                 | Some (VDict d) \<Rightarrow> Inr (VDict d)
                 | Some _ \<Rightarrow> Inl (MCPToolInvocationError name ''declared outputSchema but content is not an object'')))))"

definition project_unstructured_output :: "call_result \<Rightarrow> string \<Rightarrow> exn + val" where
  "project_unstructured_output r name =
     (let txt = join_text_content (cl_content r) in
      if cl_is_error r
      then Inl (MCPToolInvocationError name (if txt = [] then ''MCP call reported isError=True'' else txt))
      else Inr (VDict [(''content'', VStr txt),
             (''structured'', case cl_structured r of None \<Rightarrow> VNone | Some d \<Rightarrow> VDict d), (''is_error'', VBool False)]))"

text \<open>The call of the server; an error of the transport becomes an error of the invocation.\<close>

definition dispatch ::
  "'w session \<Rightarrow> (call_result \<Rightarrow> exn + val) \<Rightarrow> string \<Rightarrow> string \<Rightarrow> 'w \<Rightarrow> val dict \<Rightarrow> 'w \<times> nat \<times> (exn + val)" where
  "dispatch session project name remote w payload =
     (case ss_call session remote payload w of
        (w', time, Inl (MCPToolInvocationError n m)) \<Rightarrow> (w', time, Inl (MCPToolInvocationError n m))
      | (w', time, Inl e) \<Rightarrow> (w', time, Inl (MCPToolInvocationError name (exn_type e)))
      | (w', time, Inr r) \<Rightarrow> (w', time, project r))"

record mcp_metadata =
  md_remote_name :: string
  md_schema_hash :: string
  md_annotated :: bool
  md_trust :: annotation_trust
  md_server :: "string option"
  md_raw_description :: "string option"

text \<open>The third component tells whether a drift was logged.\<close>

definition build_tool ::
  "adapter \<Rightarrow> 'w session \<Rightarrow> string \<Rightarrow> string \<Rightarrow> schema option \<Rightarrow> string option \<Rightarrow> remote_tool
     \<Rightarrow> exn + 'w tool \<times> mcp_metadata \<times> bool" where
  "build_tool ad session pre separator override pin mt =
     bind_err (apply_name (ad_policy ad) (if pre = [] then mt_name mt else pre @ separator @ mt_name mt)) (\<lambda>name.
     bind_err (case override of Some s \<Rightarrow> Inr s
               | None \<Rightarrow> jsonschema_to_pydantic (ad_create_model ad) (Some (mt_input mt)) (name @ ''_Input'') (mt_name mt)) (\<lambda>input.
     bind_err (case mt_output mt of None \<Rightarrow> Inr (ad_output_schema ad)
               | Some s \<Rightarrow> jsonschema_to_pydantic (ad_create_model ad) (Some s) (name @ ''_Output'') (mt_name mt)) (\<lambda>output.
     let h = remote_hash ad mt;
         drifted = (case pin of None \<Rightarrow> False | Some p \<Rightarrow> p \<noteq> h) in
     if drifted \<and> ad_on_drift ad = DriftError then Inl (MCPSchemaDriftError (mt_name mt) (the pin) h)
     else
       bind_err (safety_from_annotations (mt_annotations mt) (ad_trust ad)) (\<lambda>safety.
       bind_err (new_tool
         \<lparr>a_name = name,
          a_description = apply_description (ad_mark ad) (ad_policy ad) (mt_description mt) name (ad_server ad),
          a_input_schema = input, a_output_schema = output,
          a_fn = dispatch session
            (\<lambda>r. if mt_output mt = None then project_unstructured_output r name else project_structured_output (ad_json ad) r name)
            name (mt_name mt),
          a_timeout = ad_timeout ad, a_max_output_size = None, a_schema_version = ''0.0.0'',
          a_cacheable = (if safety = None then Some False else None), a_safety = safety,
          a_dry_run_fn = None, a_is_async = True\<rparr>) (\<lambda>tool.
       Inr (tool,
         \<lparr>md_remote_name = mt_name mt, md_schema_hash = h, md_annotated = (mt_annotations mt \<noteq> None), md_trust = ad_trust ad,
          md_server = ad_server ad, md_raw_description = mt_description mt\<rparr>,
         drifted \<and> ad_on_drift ad = DriftWarn))))))"

definition load_pins :: "val \<Rightarrow> exn + (string \<times> string) list" where
  "load_pins data =
     (case (case data of VDict d \<Rightarrow> get_or d ''tools'' (VDict []) | _ \<Rightarrow> VDict []) of
        VDict tools \<Rightarrow> Inr (map (\<lambda>(n, v). (n, py_str (\<lambda>_. []) v)) tools)
      | _ \<Rightarrow> Inl (PyException ''AttributeError'' ''items''))"

definition pinned_tools :: "('w tool \<times> mcp_metadata option) list \<Rightarrow> (string \<times> string) list" where
  "pinned_tools tools =
     dict_update [] (List.map_filter (\<lambda>(t, md). map_option (\<lambda>m. (md_remote_name m, md_schema_hash m)) md) tools)"

record discovery =
  dv_prefix :: string
  dv_separator :: string
  dv_include :: "string list option"
  dv_exclude :: "string list"
  dv_overrides :: "(string \<times> schema) list"
  dv_pins :: "(string \<times> string) list option"
  dv_pins_file :: "(exn + val) option"

definition is_wanted :: "discovery \<Rightarrow> remote_tool \<Rightarrow> bool" where
  "is_wanted dv mt =
     ((case dv_include dv of None \<Rightarrow> True | Some names \<Rightarrow> mt_name mt \<in> set names) \<and> mt_name mt \<notin> set (dv_exclude dv))"

definition resolved_pins :: "discovery \<Rightarrow> exn + (string \<times> string) list" where
  "resolved_pins dv =
     bind_err (case dv_pins_file dv of None \<Rightarrow> Inr [] | Some data \<Rightarrow> bind_err data load_pins) (\<lambda>from_file.
       Inr (dict_update (dict_update [] from_file) (case dv_pins dv of None \<Rightarrow> [] | Some ps \<Rightarrow> ps)))"

definition build_listed ::
  "adapter \<Rightarrow> 'w session \<Rightarrow> discovery \<Rightarrow> (string \<times> string) list \<Rightarrow> remote_tool \<Rightarrow> exn + 'w tool \<times> mcp_metadata \<times> bool" where
  "build_listed ad session dv pins mt =
     build_tool ad session (dv_prefix dv) (dv_separator dv) (dict_get (dv_overrides dv) (mt_name mt))
       (dict_get pins (mt_name mt)) mt"

definition discover_tools ::
  "adapter \<Rightarrow> 'w session \<Rightarrow> discovery \<Rightarrow> 'w \<Rightarrow> 'w \<times> (exn + ('w tool \<times> mcp_metadata \<times> bool) list)" where
  "discover_tools ad session dv w =
     bind_st (ss_list session w) (\<lambda>w catalogue.
       (w, bind_err (resolved_pins dv) (\<lambda>pins. map_err (build_listed ad session dv pins) (filter (is_wanted dv) catalogue))))"

section \<open>What discovery guarantees\<close>

definition hinted :: "remote_tool \<Rightarrow> (tool_annotations \<Rightarrow> bool option) \<Rightarrow> bool" where
  "hinted mt hint = (case mt_annotations mt of None \<Rightarrow> False | Some a \<Rightarrow> hint a = Some True)"

definition tool_checked ::
  "adapter \<Rightarrow> (string \<times> string) list \<Rightarrow> remote_tool \<Rightarrow> 'w tool \<times> mcp_metadata \<times> bool \<Rightarrow> bool" where
  "tool_checked ad pins mt found \<longleftrightarrow>
     (case found of (tool, md, warned) \<Rightarrow>
        mp_pattern (ad_policy ad) (t_name tool) \<and> \<not> t_cacheable tool \<and>
        md_remote_name md = mt_name mt \<and> md_schema_hash md = remote_hash ad mt \<and>
        (case dict_get pins (mt_name mt) of
           None \<Rightarrow> \<not> warned
         | Some p \<Rightarrow> p = remote_hash ad mt \<or> ad_on_drift ad = DriftAccept \<or> warned) \<and>
        (ad_trust ad \<noteq> Cap \<or>
          t_safety_declared tool \<and> determinism_level (t_safety tool) = DET_NONE \<and>
          side_effects (t_safety tool) =
            (if hinted mt an_destructive then SE_DESTRUCTIVE
             else if hinted mt an_read_only then SE_READ else SE_EXTERNAL)))"

lemma remote_contract_fields:
  "remote_contract side idem = Inr c \<Longrightarrow>
     side_effects c = side \<and> determinism_level c = DET_NONE \<and> \<not> cacheable c \<and> \<not> supports_dry_run c"
  by (cases side) (auto simp: remote_contract_def ToolSafetyContract_def normalise_input_def normalise_review_def
      empty_payload_def default_arg_def side_effect_value_def side_effect_of_def validate_read_only_def is_read_only_def
      bind_err_def split: if_splits)

lemma safety_fields:
  "safety_from_annotations (mt_annotations mt) trust = Inr (Some c) \<Longrightarrow>
     determinism_level c = DET_NONE \<and> \<not> cacheable c \<and> \<not> supports_dry_run c \<and>
     side_effects c = (if hinted mt an_destructive then SE_DESTRUCTIVE else if hinted mt an_read_only then SE_READ else SE_EXTERNAL)"
  by (auto simp: safety_from_annotations_def hinted_def Let_def bind_err_def
      split: annotation_trust.splits option.splits sum.splits if_splits dest!: remote_contract_fields)

lemma cap_derives: "safety_from_annotations a Cap = Inr s \<Longrightarrow> s \<noteq> None"
  by (auto simp: safety_from_annotations_def Let_def bind_err_def split: option.splits sum.splits)

lemma apply_name_ok: "apply_name mp name = Inr n \<Longrightarrow> mp_pattern mp n"
  by (auto simp: apply_name_def Let_def split: if_splits)

lemma plain_contract: "reconcile_cacheable (Some False) None = Inr s \<Longrightarrow> \<not> cacheable s"
  by (auto simp: reconcile_cacheable_def ToolSafetyContract_def normalise_input_def normalise_review_def
      empty_payload_def default_arg_def side_effect_of_def validate_read_only_def is_read_only_def bind_err_def)

lemma new_tool_fields:
  "new_tool a = Inr t \<Longrightarrow> t_name t = a_name a \<and> t_safety_declared t = (a_safety a \<noteq> None) \<and> t_cacheable t = cacheable (t_safety t) \<and>
     reconcile_cacheable (a_cacheable a) (a_safety a) = Inr (t_safety t)"
  by (auto simp: new_tool_def bind_err_def split: sum.splits if_splits)

lemma build_listed_checked:
  assumes "build_listed ad session dv pins mt = Inr found"
  shows "tool_checked ad pins mt found"
proof -
  obtain tool md warned where found: "found = (tool, md, warned)" by (cases found) auto
  let ?drifted = "case dict_get pins (mt_name mt) of None \<Rightarrow> False | Some p \<Rightarrow> p \<noteq> remote_hash ad mt"
  obtain raw args safety where name: "apply_name (ad_policy ad) raw = Inr (a_name args)"
    and safety: "safety_from_annotations (mt_annotations mt) (ad_trust ad) = Inr safety"
    and made: "new_tool args = Inr tool" "a_safety args = safety" "a_cacheable args = (if safety = None then Some False else None)"
    and md: "md_remote_name md = mt_name mt" "md_schema_hash md = remote_hash ad mt"
    and drift: "\<not> (?drifted \<and> ad_on_drift ad = DriftError)" "warned \<longleftrightarrow> ?drifted \<and> ad_on_drift ad = DriftWarn"
    using assms unfolding build_listed_def build_tool_def found Let_def
    by (force simp: bind_err_Inr_iff split: if_splits)
  note tool = new_tool_fields[OF made(1)]
  have "mp_pattern (ad_policy ad) (t_name tool)" using apply_name_ok[OF name] tool by simp
  moreover have "\<not> t_cacheable tool"
  proof (cases safety)
    case None
    with tool made plain_contract show ?thesis by auto
  next
    case (Some c)
    with safety_fields[of mt "ad_trust ad" c] safety tool made show ?thesis
      by (auto simp: reconcile_cacheable_def split: if_splits)
  qed
  moreover have "case dict_get pins (mt_name mt) of None \<Rightarrow> \<not> warned
       | Some p \<Rightarrow> p = remote_hash ad mt \<or> ad_on_drift ad = DriftAccept \<or> warned"
    using drift by (cases "ad_on_drift ad") (auto split: option.splits)
  moreover have "t_safety_declared tool \<and> determinism_level (t_safety tool) = DET_NONE \<and>
      side_effects (t_safety tool) = (if hinted mt an_destructive then SE_DESTRUCTIVE
        else if hinted mt an_read_only then SE_READ else SE_EXTERNAL)" if cap: "ad_trust ad = Cap"
  proof -
    obtain c where c: "safety = Some c" using cap_derives safety cap by fastforce
    then have "t_safety tool = c" using tool made by (auto simp: reconcile_cacheable_def split: if_splits)
    with c safety_fields[of mt "ad_trust ad" c] safety tool made show ?thesis by auto
  qed
  ultimately show ?thesis using md by (auto simp: tool_checked_def found)
qed

text \<open>
  C33: Every tool discovery returns stands for a wanted tool of the catalogue, in order; its name
  matches the policy's pattern, it is never cached, it carries the fingerprint of the raw schemas,
  and a pin for it agrees unless drift is accepted or was logged; under the default trust its
  contract claims no determinism and at least reads, destroys when the server says so and is
  external when the server says nothing.
\<close>

theorem discovered_tools_checked:
  assumes "discover_tools ad session dv w = (w', Inr tools)"
  shows "\<exists>catalogue pins. snd (ss_list session w) = Inr catalogue \<and> resolved_pins dv = Inr pins \<and>
    list_all2 (tool_checked ad pins) (filter (is_wanted dv) catalogue) tools"
proof -
  obtain catalogue pins where listed: "ss_list session w = (w', Inr catalogue)" and pins: "resolved_pins dv = Inr pins"
    and built: "map_err (build_listed ad session dv pins) (filter (is_wanted dv) catalogue) = Inr tools"
    using assms by (auto simp: discover_tools_def bind_st_Inr_iff bind_err_Inr_iff)
  have "list_all2 (tool_checked ad pins) (filter (is_wanted dv) catalogue) tools"
    using map_err_Inr[OF built] by (rule list_all2_mono) (rule build_listed_checked)
  with listed pins show ?thesis by auto
qed

text \<open>A server with one tool that reads.\<close>

definition plain_schema :: schema where
  "plain_schema = \<lparr>sch_name = ''S'', sch_fields = [], sch_validate = (\<lambda>v. case v of VDict d \<Rightarrow> Inr d | _ \<Rightarrow> Inl (ValidationError [])), sch_hash = []\<rparr>"

definition sample_adapter :: adapter where
  "sample_adapter =
     \<lparr>ad_create_model = (\<lambda>name flds. Inr plain_schema), ad_json = (\<lambda>s. None), ad_sha256 = (\<lambda>s. s), ad_mark = [],
      ad_output_schema = plain_schema, ad_timeout = None, ad_trust = Cap, ad_policy = default_policy,
      ad_on_drift = DriftError, ad_server = None\<rparr>"

definition reader :: remote_tool where
  "reader = \<lparr>mt_name = ''read'', mt_description = None, mt_input = VDict [], mt_output = None,
     mt_annotations = Some \<lparr>an_read_only = Some True, an_destructive = None, an_idempotent = None\<rparr>\<rparr>"

definition sample_session :: "unit session" where
  "sample_session = \<lparr>ss_list = (\<lambda>w. (w, Inr [reader])), ss_call = (\<lambda>n d w. (w, 0, Inl (PyRuntimeError [])))\<rparr>"

definition all_tools :: "(string \<times> string) list option \<Rightarrow> discovery" where
  "all_tools pins =
     \<lparr>dv_prefix = ''srv'', dv_separator = ''__'', dv_include = None, dv_exclude = [], dv_overrides = [], dv_pins = pins,
      dv_pins_file = None\<rparr>"

lemma sample_discovery:
  "\<exists>tool md. discover_tools sample_adapter sample_session (all_tools None) () = ((), Inr [(tool, md, False)]) \<and>
     t_name tool = ''srv__read'' \<and> md_remote_name md = ''read''"
  by (simp add: discover_tools_def sample_session_def resolved_pins_def all_tools_def is_wanted_def build_listed_def build_tool_def
      sample_adapter_def default_policy_def default_pattern_def safe_name_char_def reader_def apply_name_def
      jsonschema_to_pydantic_def get_or_def required_names_def safety_from_annotations_def remote_contract_def
      ToolSafetyContract_def normalise_input_def normalise_review_def empty_payload_def default_arg_def
      side_effect_value_def side_effect_of_def validate_read_only_def is_read_only_def new_tool_def reconcile_cacheable_def Let_def)

theorem discovered_tools_checked_witness:
  "\<exists>tool md. discover_tools sample_adapter sample_session (all_tools None) () = ((), Inr [(tool, md, False)]) \<and>
     \<not> t_cacheable tool \<and> side_effects (t_safety tool) = SE_READ"
proof -
  obtain tool md where found: "discover_tools sample_adapter sample_session (all_tools None) () = ((), Inr [(tool, md, False)])"
    using sample_discovery by blast
  from discovered_tools_checked[OF found] have "\<exists>pins. tool_checked sample_adapter pins reader (tool, md, False)"
    by (auto simp: sample_session_def is_wanted_def all_tools_def)
  then have "\<not> t_cacheable tool \<and> side_effects (t_safety tool) = SE_READ"
    by (auto simp: tool_checked_def sample_adapter_def reader_def hinted_def)
  with found show ?thesis by blast
qed

section \<open>Pins\<close>

lemma build_tool_matching_pin:
  "build_tool ad session pre separator override (Some (remote_hash ad mt)) mt = build_tool ad session pre separator override None mt"
  by (simp add: build_tool_def Let_def)

lemma build_listed_remote:
  "build_listed ad session dv pins mt = Inr (tool, md, warned) \<Longrightarrow> md_remote_name md = mt_name mt \<and> md_schema_hash md = remote_hash ad mt"
  using build_listed_checked[of ad session dv pins mt "(tool, md, warned)"] by (simp add: tool_checked_def)

lemma pins_of_built:
  "list_all2 (\<lambda>mt found. build_listed ad session dv [] mt = Inr found) mts tools \<Longrightarrow>
     List.map_filter (\<lambda>(t, md). map_option (\<lambda>m. (md_remote_name m, md_schema_hash m)) md)
       (map (\<lambda>(t, md, warned). (t, Some md)) tools) = map (\<lambda>mt. (mt_name mt, remote_hash ad mt)) mts"
  by (induction mts tools rule: list_all2_induct) (auto simp: map_filter_simps dest: build_listed_remote)

text \<open>
  Pins taken from a discovery accept the same catalogue: with them a later discovery, in
  whatever state of the world the server still lists it, returns the same tools and logs no drift,
  also when drift is an error.
\<close>

theorem pins_accept_catalogue:
  assumes "discover_tools ad session (dv\<lparr>dv_pins := None, dv_pins_file := None\<rparr>) w = (w', Inr tools)"
    and "distinct (map mt_name catalogue)"
    and "ss_list session w = (w', Inr catalogue)" and "ss_list session v = (v', Inr catalogue)"
  shows "discover_tools ad session
      (dv\<lparr>dv_pins := Some (pinned_tools (map (\<lambda>(t, md, warned). (t, Some md)) tools)), dv_pins_file := None\<rparr>) v = (v', Inr tools)"
proof -
  let ?unpinned = "dv\<lparr>dv_pins := None, dv_pins_file := None\<rparr>"
  define mts where "mts = filter (is_wanted dv) catalogue"
  have wanted: "is_wanted (dv\<lparr>dv_pins := p, dv_pins_file := None\<rparr>) = is_wanted dv" for p
    by (simp add: is_wanted_def fun_eq_iff)
  have built: "map_err (build_listed ad session ?unpinned []) mts = Inr tools"
    using assms(1,3) by (simp add: discover_tools_def resolved_pins_def mts_def wanted)
  have "distinct (map mt_name mts)" unfolding mts_def using assms(2) by (rule distinct_map_filter)
  then have ok: "dict_ok (map (\<lambda>mt. (mt_name mt, remote_hash ad mt)) mts)" by (simp add: comp_def)
  define pins where "pins = pinned_tools (map (\<lambda>(t, md, warned). (t, Some md)) tools)"
  have pins: "pins = map (\<lambda>mt. (mt_name mt, remote_hash ad mt)) mts"
    unfolding pins_def pinned_tools_def pins_of_built[OF map_err_Inr[OF built]]
    using dict_update_fresh[OF ok, of "[]"] by simp
  have hash: "dict_get pins (mt_name mt) = Some (remote_hash ad mt)" if "mt \<in> set mts" for mt
    using that ok unfolding pins by (intro map_of_is_SomeI) auto
  have same: "build_listed ad session (dv\<lparr>dv_pins := Some pins, dv_pins_file := None\<rparr>) pins mt = build_listed ad session ?unpinned [] mt"
    if "mt \<in> set mts" for mt
    by (simp add: build_listed_def hash[OF that] build_tool_matching_pin)
  have "map_err (build_listed ad session (dv\<lparr>dv_pins := Some pins, dv_pins_file := None\<rparr>) pins) mts =
      map_err (build_listed ad session ?unpinned []) mts"
    using same by (induction mts) simp_all
  moreover have "dict_update [] pins = pins" using dict_update_fresh[of pins "[]"] ok by (simp add: pins)
  ultimately show ?thesis
    using assms(4) built unfolding pins_def[symmetric]
    by (simp add: discover_tools_def resolved_pins_def wanted mts_def)
qed

theorem pins_accept_catalogue_witness:
  "\<exists>tool md. discover_tools sample_adapter sample_session
     (all_tools (Some (pinned_tools [(tool, Some md)]))) () = ((), Inr [(tool, md, False)])"
proof -
  obtain tool md where found: "discover_tools sample_adapter sample_session (all_tools None) () = ((), Inr [(tool, md, False)])"
    using sample_discovery by blast
  have "discover_tools sample_adapter sample_session ((all_tools None)\<lparr>dv_pins := None, dv_pins_file := None\<rparr>) () =
      ((), Inr [(tool, md, False)])"
    using found by (simp add: all_tools_def)
  from pins_accept_catalogue[OF this, of "[reader]" "()" "()"] show ?thesis
    by (auto simp: sample_session_def all_tools_def)
qed

section \<open>Limits\<close>

text \<open>
  Two remote tools can end under one name when names are sanitised, and a property whose \<open>type\<close> is
  an object makes the conversion fail with \<open>TypeError\<close>.
\<close>

theorem sanitised_names_collide:
  "apply_name (default_policy\<lparr>mp_sanitize := True\<rparr>) ''a b'' = Inr ''a_b'' \<and>
   apply_name (default_policy\<lparr>mp_sanitize := True\<rparr>) ''a_b'' = Inr ''a_b''"
  by (simp add: apply_name_def default_policy_def default_pattern_def safe_name_char_def Let_def)

theorem object_type_raises:
  "map_sum exn_type (\<lambda>_. ()) (jsonschema_to_pydantic (\<lambda>name flds. Inr plain_schema)
     (Some (VDict [(''properties'', VDict [(''p'', VDict [(''type'', VDict [])])])])) ''n'' ''t'') = Inl ''TypeError''"
  by code_simp

end
