(* ===== verification/Limiter.thy ===== *)
theory Limiter
  imports McpSecurity
begin

text \<open>
  Progress of the rate limiter of \<open>chainweaver/mcp/security.py\<close>: a call is refused only when the
  window before it has let \<open>max_calls\<close> calls of its key through, whatever other keys do and
  whatever is evicted; so no caller is kept out for longer than one window.
\<close>

text \<open>The window of a key counts no more calls than were let through since its start.\<close>

definition served_inv :: "string \<times> string \<Rightarrow> windows \<Rightarrow> rat list \<Rightarrow> rat \<Rightarrow> bool" where
  "served_inv key hits H T \<longleftrightarrow>
     dict_ok hits \<and> (\<forall>h\<in>set H. h \<le> T) \<and>
     (case dict_get hits key of
        None \<Rightarrow> True
      | Some (s, n) \<Rightarrow> s \<le> T \<and> n \<le> count_in (\<lambda>h. s \<le> h) H)"

lemma served_inv_later: "served_inv key hits H T \<Longrightarrow> T \<le> now \<Longrightarrow> served_inv key hits H now"
  by (cases "dict_get hits key") (auto simp: served_inv_def)

lemma served_inv_evict:
  assumes "served_inv key hits H T"
  shows "served_inv key (evict_expired c now hits) H T"
proof (cases "dict_get hits key")
  case None
  with assms show ?thesis by (simp add: served_inv_def evict_ok evict_get)
next
  case (Some p)
  with assms show ?thesis by (cases p) (simp add: served_inv_def evict_ok evict_get)
qed

lemma acquire_served_inv:
  assumes inv: "served_inv key hits H T" and T: "T \<le> now"
    and a: "acquire_key c now key' hits = (hits', ok)"
  shows "served_inv key hits' (if ok \<and> key' = key then H @ [now] else H) now"
    and "key' = key \<Longrightarrow> \<not> ok \<Longrightarrow> lc_max_calls c \<le> count_in (\<lambda>h. now - lc_window c < h) H"
proof -
  obtain s0 n0 where e0: "(case dict_get hits key' of None \<Rightarrow> (now, 0) | Some e \<Rightarrow> e) = (s0, n0)" by fastforce
  obtain s n where e: "(if now - s0 \<ge> lc_window c then (now, 0) else (s0, n0)) = (s, n)" by fastforce
  define hits1 where "hits1 = (if \<not> dict_has hits key' \<and> length hits \<ge> lc_max_tracked c
      then evict_expired c now hits else hits)"
  have ok: "ok \<longleftrightarrow> \<not> n \<ge> lc_max_calls c"
    and hits': "hits' = (if ok then dict_set hits1 key' (s, n + 1) else dict_set hits key' (s, n))"
    using a unfolding acquire_key_def Let_def e0 e prod.case hits1_def by (auto simp: e split: if_split_asm)
  have later: "served_inv key hits H now" by (rule served_inv_later[OF inv T])
  have inv1: "served_inv key hits1 H now" using later served_inv_evict by (simp add: hits1_def)
  have entry: "s \<le> now \<and> n \<le> count_in (\<lambda>h. s \<le> h) H" if "key' = key"
    using later e0 e that by (auto simp: served_inv_def split: option.splits if_splits)
  show "served_inv key hits' (if ok \<and> key' = key then H @ [now] else H) now"
    using inv1 later entry unfolding hits' served_inv_def by (auto simp: dict_simps)
  show "lc_max_calls c \<le> count_in (\<lambda>h. now - lc_window c < h) H" if "key' = key" "\<not> ok"
  proof (cases "lc_window c \<le> now - s0")
    case True
    then have "n = 0" using e by simp
    with ok that show ?thesis by simp
  next
    case False
    then have "count_in (\<lambda>h. s \<le> h) H \<le> count_in (\<lambda>h. now - lc_window c < h) H"
      using e by (intro count_in_mono) auto
    with ok that entry show ?thesis by simp
  qed
qed

lemma run_limiter_refuses:
  assumes "served_inv (limiter_key c who flow) hits H T" and "sorted (T # map fst calls)"
    and "\<forall>x\<in>set calls. fst x \<le> now" and "T \<le> now"
    and "\<not> last (run_limiter c (calls @ [(now, who, flow)]) hits)"
  shows "lc_max_calls c \<le> count_in (\<lambda>h. now - lc_window c < h)
     (H @ permitted c (limiter_key c who flow) calls (run_limiter c calls hits))"
  using assms
proof (induction calls arbitrary: hits H T)
  case Nil
  obtain hits' ok where a: "acquire c now who flow hits = (hits', ok)" by fastforce
  then have "\<not> ok" using Nil.prems(5) by simp
  with acquire_served_inv(2)[OF Nil.prems(1,4) a[unfolded acquire_def]] show ?case by (simp add: permitted_def)
next
  case (Cons call calls)
  obtain t w f where call: "call = (t, w, f)" by (cases call)
  obtain hits' ok where a: "acquire c t w f hits = (hits', ok)" by fastforce
  let ?H = "if ok \<and> limiter_key c w f = limiter_key c who flow then H @ [t] else H"
  have "served_inv (limiter_key c who flow) hits' ?H t"
    using acquire_served_inv(1)[OF Cons.prems(1) _ a[unfolded acquire_def]] Cons.prems(2) call by simp
  moreover have "sorted (t # map fst calls)" "\<forall>x\<in>set calls. fst x \<le> now" "t \<le> now"
    using Cons.prems(2,3) call by auto
  moreover have "run_limiter c (calls @ [(now, who, flow)]) hits' \<noteq> []"
    by (cases calls) (auto simp: case_prod_unfold)
  then have "\<not> last (run_limiter c (calls @ [(now, who, flow)]) hits')"
    using Cons.prems(5) a call by simp
  moreover have "?H @ permitted c (limiter_key c who flow) calls (run_limiter c calls hits') =
      H @ permitted c (limiter_key c who flow) (call # calls) (run_limiter c (call # calls) hits)"
    using a by (auto simp: permitted_def call)
  ultimately show ?case using Cons.IH[of hits' ?H t] by simp
qed

text \<open>
  C34: No caller is starved: in any history of calls at non-decreasing times, a call is let through
  when fewer than \<open>max_calls\<close> calls of its key were let through in the window that ends with it,
  whatever the other callers did.
\<close>

theorem caller_admitted:
  assumes "sorted (map fst (calls @ [(now, who, flow)]))"
    and "length (filter (\<lambda>x. now - lc_window c < x)
       (permitted c (limiter_key c who flow) calls (run_limiter c calls []))) < lc_max_calls c"
  shows "last (run_limiter c (calls @ [(now, who, flow)]) [])"
proof (rule ccontr)
  assume refused: "\<not> last (run_limiter c (calls @ [(now, who, flow)]) [])"
  define T where "T = (case calls of [] \<Rightarrow> now | x # xs \<Rightarrow> fst x)"
  have times: "sorted (T # map fst calls)" "\<forall>x\<in>set calls. fst x \<le> now" "T \<le> now"
    using assms(1) by (cases calls; auto simp: T_def sorted_append)+
  have "served_inv (limiter_key c who flow) [] [] T" by (simp add: served_inv_def)
  from run_limiter_refuses[OF this times refused] assms(2) show False by (simp add: count_in_def)
qed

theorem caller_admitted_witness:
  "let c = \<lparr>lc_max_calls = 1, lc_window = 2, lc_per_flow = False, lc_max_tracked = 5\<rparr> in
     run_limiter c [(0, None, ''f''), (1, None, ''f'')] [] = [True, False] \<and>
     last (run_limiter c ([(0, None, ''f''), (1, None, ''f'')] @ [(2, None, ''f'')]) [])"
proof -
  let ?c = "\<lparr>lc_max_calls = 1, lc_window = 2, lc_per_flow = False, lc_max_tracked = 5\<rparr>"
  let ?calls = "[(0, None, ''f''), (1, None, ''f'')] :: (rat \<times> caller option \<times> string) list"
  have run: "run_limiter ?c ?calls [] = [True, False]"
    by (simp add: acquire_def acquire_key_def limiter_key_def Let_def)
  have "last (run_limiter ?c (?calls @ [(2, None, ''f'')]) [])"
    by (rule caller_admitted) (simp_all add: permitted_def acquire_def acquire_key_def limiter_key_def Let_def)
  with run show ?thesis by (simp add: Let_def)
qed

end
