(* ===== verification/Service.thy ===== *)
theory Service
  imports Registry Observer Analyzer OfflineLLM
begin

text \<open>
  The continuous analysis service \<open>chainweaver/service.py\<close>: it watches tools and traces, proposes
  flows from the observer, the analyzer and an optional language model, and registers a flow when
  its proposal is approved.  The critical sections under the service's lock are the steps of a
  relation that covers every interleaving of threads; callbacks run between them and may call the
  service again.
\<close>

section \<open>State\<close>

datatype service_event =
  TOOL_REGISTERED | TRACE_RECORDED | ANALYSIS_COMPLETED | PROPOSAL_CREATED | FLOW_PROMOTED | PROPOSAL_REJECTED

datatype proposal_status = PENDING | APPROVED | REJECTED

record service_config =
  cf_analyze_on_tool_change :: bool
  cf_analyze_interval :: "rat option"
  cf_min_trace_occurrences :: int
  cf_min_pattern_length :: int
  cf_min_determinism_score :: rat
  cf_enable_llm :: bool
  cf_max_llm :: int
  cf_auto_approve :: bool
  cf_max_pending :: int

definition new_config :: "service_config \<Rightarrow> exn + service_config" where
  "new_config c =
     (if (case cf_analyze_interval c of None \<Rightarrow> True | Some x \<Rightarrow> 0 < x) \<and> 1 \<le> cf_min_trace_occurrences c \<and>
         1 \<le> cf_min_pattern_length c \<and> 0 \<le> cf_min_determinism_score c \<and> cf_min_determinism_score c \<le> 1 \<and>
         1 \<le> cf_max_llm c \<and> 1 \<le> cf_max_pending c
      then Inr c else Inl (ValidationError ''ServiceConfig''))"

record service_metrics =
  me_tools_monitored :: nat
  me_traces_recorded :: nat
  me_patterns_detected :: nat
  me_flows_proposed :: nat
  me_flows_promoted :: nat
  me_llm_calls_avoided :: nat

definition no_metrics :: service_metrics where
  "no_metrics = \<lparr>me_tools_monitored = 0, me_traces_recorded = 0, me_patterns_detected = 0, me_flows_proposed = 0,
     me_flows_promoted = 0, me_llm_calls_avoided = 0\<rparr>"

record service_proposal =
  sp_id :: string
  sp_flow :: flow
  sp_source :: string
  sp_occurrences :: nat
  sp_confidence :: rat
  sp_avoided :: nat
  sp_status :: proposal_status
  sp_created_at :: nat

text \<open>
  The proposals are objects that the dictionary and the callers share; an operation that returns one
  returns its identifier here.  A callback is a name \<open>'cb\<close>; \<open>sv_uuids\<close> counts the identifiers
  drawn, \<open>sv_llm\<close> is the state of the language model.
\<close>

record ('w, 's, 'l, 'cb) service =
  sv_registry :: "'s registry"
  sv_observer :: observer
  sv_tools :: "'w tools"
  sv_proposals :: "(string \<times> service_proposal) list"
  sv_callbacks :: "(service_event \<times> 'cb list) list"
  sv_metrics :: service_metrics
  sv_uuids :: nat
  sv_llm :: 'l

text \<open>The collaborators: versions, flow store, clocks, identifiers, the model, what a callback does.\<close>

record ('v, 'w, 's, 'l, 'cb) service_env =
  se_config :: service_config
  se_versions :: "'v version_parser"
  se_store :: "'s store_ops"
  se_set_order :: set_order
  se_describe :: "string list \<Rightarrow> nat \<Rightarrow> rat \<Rightarrow> string"
  se_uuid :: "nat \<Rightarrow> string"
  se_now :: "nat \<Rightarrow> nat"
  se_llm_fn :: "(string \<Rightarrow> 'l \<Rightarrow> 'l \<times> string) option"
  se_proposer :: proposer
  se_prompt :: "'w tool list \<Rightarrow> int option \<Rightarrow> string"
  se_count_tokens :: "string \<Rightarrow> int"
  se_from_dict :: "val dict \<Rightarrow> string + any_flow"
  se_call :: "'cb \<Rightarrow> val dict \<Rightarrow> ('w, 's, 'l, 'cb) service \<Rightarrow> ('w, 's, 'l, 'cb) service \<times> (exn + unit)"

definition new_service :: "'s registry \<Rightarrow> observer \<Rightarrow> 'l \<Rightarrow> ('w, 's, 'l, 'cb) service" where
  "new_service r ob l =
     \<lparr>sv_registry = r, sv_observer = ob, sv_tools = [], sv_proposals = [], sv_callbacks = [],
      sv_metrics = no_metrics, sv_uuids = 0, sv_llm = l\<rparr>"

section \<open>Events\<close>

definition on_event :: "service_event \<Rightarrow> 'cb \<Rightarrow> ('w, 's, 'l, 'cb) service \<Rightarrow> ('w, 's, 'l, 'cb) service" where
  "on_event ev cb sv =
     sv\<lparr>sv_callbacks := dict_set (sv_callbacks sv) ev
          ((case dict_get (sv_callbacks sv) ev of None \<Rightarrow> [] | Some cbs \<Rightarrow> cbs) @ [cb])\<rparr>"

fun run_callbacks ::
  "('v, 'w, 's, 'l, 'cb) service_env \<Rightarrow> val dict \<Rightarrow> 'cb list \<Rightarrow> ('w, 's, 'l, 'cb) service \<Rightarrow> ('w, 's, 'l, 'cb) service \<times> (exn + unit)" where
  "run_callbacks env data [] sv = (sv, Inr ())"
| "run_callbacks env data (cb # cbs) sv =
     bind_st (se_call env cb data sv) (\<lambda>sv _. run_callbacks env data cbs sv)"

definition emit ::
  "('v, 'w, 's, 'l, 'cb) service_env \<Rightarrow> service_event \<Rightarrow> val dict \<Rightarrow> ('w, 's, 'l, 'cb) service \<Rightarrow> ('w, 's, 'l, 'cb) service \<times> (exn + unit)" where
  "emit env ev data sv =
     run_callbacks env data (case dict_get (sv_callbacks sv) ev of None \<Rightarrow> [] | Some cbs \<Rightarrow> cbs) sv"

section \<open>Critical sections\<close>

definition put_tool :: "'w tool \<Rightarrow> ('w, 's, 'l, 'cb) service \<Rightarrow> ('w, 's, 'l, 'cb) service" where
  "put_tool tool sv =
     (let tools = dict_set (sv_tools sv) (t_name tool) tool
      in sv\<lparr>sv_tools := tools, sv_metrics := (sv_metrics sv)\<lparr>me_tools_monitored := length tools\<rparr>\<rparr>)"

definition record_call ::
  "string \<Rightarrow> reading \<Rightarrow> string \<Rightarrow> val dict \<Rightarrow> val dict option \<Rightarrow> reading \<Rightarrow> ('w, 's, 'l, 'cb) service
     \<Rightarrow> ('w, 's, 'l, 'cb) service \<times> (exn + unit)" where
  "record_call fresh opened tool_name inputs outputs now sv =
     (case observe fresh opened tool_name inputs outputs None now (sv_observer sv) of
        (ob, err) \<Rightarrow> (sv\<lparr>sv_observer := ob\<rparr>, case err of None \<Rightarrow> Inr () | Some e \<Rightarrow> Inl e))"

definition close_trace :: "reading \<Rightarrow> ('w, 's, 'l, 'cb) service \<Rightarrow> ('w, 's, 'l, 'cb) service \<times> (exn + nat)" where
  "close_trace now sv =
     (case end_observation now (sv_observer sv) of
        Inl e \<Rightarrow> (sv, Inl e)
      | Inr (ob, _) \<Rightarrow>
          (let n = me_traces_recorded (sv_metrics sv) + 1
           in (sv\<lparr>sv_observer := ob, sv_metrics := (sv_metrics sv)\<lparr>me_traces_recorded := n\<rparr>\<rparr>, Inr n)))"

text \<open>\<open>_is_known_locked\<close>.\<close>

definition live :: "service_proposal \<Rightarrow> bool" where
  "live p \<longleftrightarrow> sp_status p \<noteq> REJECTED"

definition is_known ::
  "('v, 'w, 's, 'l, 'cb) service_env \<Rightarrow> ('w, 's, 'l, 'cb) service \<Rightarrow> string \<Rightarrow> exn + bool" where
  "is_known env sv name =
     (if list_ex (\<lambda>p. f_name (sp_flow p) = name \<and> live p) (map snd (sv_proposals sv)) then Inr True
      else bind_err (list_flows (se_store env) (sv_registry sv) None None) (\<lambda>fs.
             Inr (list_ex (\<lambda>f. af_name f = name) fs)))"

record candidate =
  cd_flow :: flow
  cd_source :: string
  cd_occurrences :: nat
  cd_confidence :: rat
  cd_avoided :: nat

definition pending :: "('w, 's, 'l, 'cb) service \<Rightarrow> nat" where
  "pending sv = length (filter (\<lambda>p. sp_status p = PENDING) (map snd (sv_proposals sv)))"

text \<open>The locked part of \<open>_queue_proposal\<close>: the identifier and whether to approve, when queued.\<close>

definition queue_locked ::
  "('v, 'w, 's, 'l, 'cb) service_env \<Rightarrow> candidate \<Rightarrow> ('w, 's, 'l, 'cb) service
     \<Rightarrow> ('w, 's, 'l, 'cb) service \<times> (exn + (string \<times> bool) option)" where
  "queue_locked env c sv0 =
     (let sv = sv0\<lparr>sv_metrics := (sv_metrics sv0)\<lparr>me_patterns_detected := me_patterns_detected (sv_metrics sv0) + 1\<rparr>\<rparr>
      in if cd_confidence c < cf_min_determinism_score (se_config env) then (sv, Inr None)
         else
           (case is_known env sv (f_name (cd_flow c)) of
              Inl e \<Rightarrow> (sv, Inl e)
            | Inr True \<Rightarrow> (sv, Inr None)
            | Inr False \<Rightarrow>
                (if int (pending sv) \<ge> cf_max_pending (se_config env) then (sv, Inr None)
                 else
                   (let pid = se_uuid env (sv_uuids sv);
                        p = \<lparr>sp_id = pid, sp_flow = cd_flow c, sp_source = cd_source c, sp_occurrences = cd_occurrences c,
                             sp_confidence = cd_confidence c, sp_avoided = cd_avoided c, sp_status = PENDING,
                             sp_created_at = se_now env (sv_uuids sv)\<rparr>
                    in (sv\<lparr>sv_proposals := dict_set (sv_proposals sv) pid p, sv_uuids := sv_uuids sv + 1,
                           sv_metrics := (sv_metrics sv)\<lparr>me_flows_proposed := me_flows_proposed (sv_metrics sv) + 1\<rparr>\<rparr>,
                        Inr (Some (pid, cf_auto_approve (se_config env) \<and> cd_confidence c \<ge> 1)))))))"

text \<open>\<open>_require_proposal_locked\<close> and the test that the proposal is pending.\<close>

definition require_pending :: "string \<Rightarrow> ('w, 's, 'l, 'cb) service \<Rightarrow> exn + service_proposal" where
  "require_pending pid sv =
     (case dict_get (sv_proposals sv) pid of
        None \<Rightarrow> Inl (PyException ''KeyError'' (''Unknown proposal id '' @ pid))
      | Some p \<Rightarrow>
          (if sp_status p \<noteq> PENDING then Inl (ValueError (''Proposal '' @ pid @ '' is not pending.'')) else Inr p))"

definition is_already_exists :: "exn \<Rightarrow> bool" where
  "is_already_exists e = (case e of FlowAlreadyExistsError _ \<Rightarrow> True | _ \<Rightarrow> False)"

definition promote_locked ::
  "('v :: linorder, 'w, 's, 'l, 'cb) service_env \<Rightarrow> string \<Rightarrow> ('w, 's, 'l, 'cb) service
     \<Rightarrow> ('w, 's, 'l, 'cb) service \<times> (exn + string)" where
  "promote_locked env pid sv =
     (case require_pending pid sv of
        Inl e \<Rightarrow> (sv, Inl e)
      | Inr p \<Rightarrow>
          (case register_flow (se_versions env) (se_set_order env) (se_store env) (sv_registry sv) (LinearFlow (sp_flow p)) False of
             (r, res) \<Rightarrow>
               (let sv = sv\<lparr>sv_registry := r\<rparr>;
                    approved = sv\<lparr>sv_proposals := dict_set (sv_proposals sv) pid (p\<lparr>sp_status := APPROVED\<rparr>)\<rparr>
                in (case res of
                      Inr _ \<Rightarrow>
                        (approved\<lparr>sv_metrics := (sv_metrics sv)\<lparr>
                           me_flows_promoted := me_flows_promoted (sv_metrics sv) + 1,
                           me_llm_calls_avoided := me_llm_calls_avoided (sv_metrics sv) + sp_avoided p\<rparr>\<rparr>,
                         Inr (f_name (sp_flow p)))
                    | Inl e \<Rightarrow>
                        (if is_already_exists e then (approved, Inr (f_name (sp_flow p))) else (sv, Inl e))))))"

definition reject_locked :: "string \<Rightarrow> ('w, 's, 'l, 'cb) service \<Rightarrow> ('w, 's, 'l, 'cb) service \<times> (exn + unit)" where
  "reject_locked pid sv =
     (case require_pending pid sv of
        Inl e \<Rightarrow> (sv, Inl e)
      | Inr p \<Rightarrow> (sv\<lparr>sv_proposals := dict_set (sv_proposals sv) pid (p\<lparr>sp_status := REJECTED\<rparr>)\<rparr>, Inr ()))"

section \<open>Operations\<close>

definition approve ::
  "('v :: linorder, 'w, 's, 'l, 'cb) service_env \<Rightarrow> string \<Rightarrow> ('w, 's, 'l, 'cb) service
     \<Rightarrow> ('w, 's, 'l, 'cb) service \<times> (exn + string)" where
  "approve env pid sv =
     bind_st (promote_locked env pid sv) (\<lambda>sv name.
       bind_st (emit env FLOW_PROMOTED [(''proposal_id'', VStr pid), (''flow'', VStr name)] sv) (\<lambda>sv _. (sv, Inr pid)))"

definition reject ::
  "('v, 'w, 's, 'l, 'cb) service_env \<Rightarrow> string \<Rightarrow> ('w, 's, 'l, 'cb) service \<Rightarrow> ('w, 's, 'l, 'cb) service \<times> (exn + string)" where
  "reject env pid sv =
     bind_st (reject_locked pid sv) (\<lambda>sv _.
       bind_st (emit env PROPOSAL_REJECTED [(''proposal_id'', VStr pid)] sv) (\<lambda>sv _. (sv, Inr pid)))"

definition queue_proposal ::
  "('v :: linorder, 'w, 's, 'l, 'cb) service_env \<Rightarrow> candidate \<Rightarrow> ('w, 's, 'l, 'cb) service
     \<Rightarrow> ('w, 's, 'l, 'cb) service \<times> (exn + string option)" where
  "queue_proposal env c sv =
     bind_st (queue_locked env c sv) (\<lambda>sv res.
       case res of
         None \<Rightarrow> (sv, Inr None)
       | Some (pid, auto) \<Rightarrow>
           bind_st (emit env PROPOSAL_CREATED [(''proposal_id'', VStr pid), (''source'', VStr (cd_source c))] sv) (\<lambda>sv _.
             if auto then bind_st (approve env pid sv) (\<lambda>sv _. (sv, Inr (Some pid)))
             else (sv, Inr (Some pid))))"

fun queue_all ::
  "('v :: linorder, 'w, 's, 'l, 'cb) service_env \<Rightarrow> candidate list \<Rightarrow> ('w, 's, 'l, 'cb) service
     \<Rightarrow> ('w, 's, 'l, 'cb) service \<times> (exn + string list)" where
  "queue_all env [] sv = (sv, Inr [])"
| "queue_all env (c # cs) sv =
     bind_st (queue_proposal env c sv) (\<lambda>sv pid.
       bind_st (queue_all env cs sv) (\<lambda>sv pids. (sv, Inr ((case pid of None \<Rightarrow> [] | Some i \<Rightarrow> [i]) @ pids))))"

definition observer_candidates ::
  "('v, 'w, 's, 'l, 'cb) service_env \<Rightarrow> observer \<Rightarrow> exn + candidate list" where
  "observer_candidates env ob =
     bind_err (from_traces (ob_completed ob) None) (\<lambda>snapshot.
       bind_err (suggest_observed (se_set_order env) (se_describe env) (cf_min_trace_occurrences (se_config env))
                   (cf_min_pattern_length (se_config env)) None True snapshot) (\<lambda>suggestions.
         Inr (map (\<lambda>s. \<lparr>cd_flow = fg_flow s, cd_source = ''observer'', cd_occurrences = fg_occurrences s,
                        cd_confidence = fg_confidence s, cd_avoided = estimated_llm_calls_avoided s\<rparr>) suggestions)))"

text \<open>\<open>suggest_flows\<close> has the default \<open>max_depth\<close> of three.\<close>

definition analyzer_candidates ::
  "('v, 'w, 's, 'l, 'cb) service_env \<Rightarrow> 'w tools \<Rightarrow> exn + candidate list" where
  "analyzer_candidates env tools =
     (if int (length tools) < cf_min_pattern_length (se_config env) then Inr []
      else
        bind_err (analyzer (map snd tools)) (\<lambda>an.
          bind_err (suggest_flows an 3 None None (cf_min_pattern_length (se_config env))) (\<lambda>flows.
            Inr (map (\<lambda>f. \<lparr>cd_flow = f, cd_source = ''analyzer'', cd_occurrences = 0, cd_confidence = 1,
                           cd_avoided = length (f_steps f)\<rparr>) flows))))"

definition llm_candidates ::
  "('v, 'w, 's, 'l, 'cb) service_env \<Rightarrow> (string \<Rightarrow> 'l \<Rightarrow> 'l \<times> string) \<Rightarrow> ('w, 's, 'l, 'cb) service
     \<Rightarrow> ('w, 's, 'l, 'cb) service \<times> (exn + candidate list)" where
  "llm_candidates env llm sv =
     (if sv_tools sv = [] then (sv, Inr [])
      else
        (case llm_propose_flows (se_proposer env) llm (se_prompt env) (se_count_tokens env) (se_from_dict env)
                (cf_max_llm (se_config env)) 1 None (map snd (sv_tools sv)) (sv_llm sv) of
           (l, res) \<Rightarrow>
             (sv\<lparr>sv_llm := l\<rparr>,
              bind_err res (\<lambda>ps. Inr (map (\<lambda>p. \<lparr>cd_flow = lp_flow p, cd_source = ''llm-compiler'', cd_occurrences = 0,
                cd_confidence = lp_confidence p, cd_avoided = length (f_steps (lp_flow p))\<rparr>) ps)))))"

definition observer_pass ::
  "('v :: linorder, 'w, 's, 'l, 'cb) service_env \<Rightarrow> ('w, 's, 'l, 'cb) service \<Rightarrow> ('w, 's, 'l, 'cb) service \<times> (exn + string list)" where
  "observer_pass env sv = bind_st (sv, observer_candidates env (sv_observer sv)) (\<lambda>sv cs. queue_all env cs sv)"

definition analyzer_pass ::
  "('v :: linorder, 'w, 's, 'l, 'cb) service_env \<Rightarrow> ('w, 's, 'l, 'cb) service \<Rightarrow> ('w, 's, 'l, 'cb) service \<times> (exn + string list)" where
  "analyzer_pass env sv = bind_st (sv, analyzer_candidates env (sv_tools sv)) (\<lambda>sv cs. queue_all env cs sv)"

definition llm_pass ::
  "('v :: linorder, 'w, 's, 'l, 'cb) service_env \<Rightarrow> ('w, 's, 'l, 'cb) service \<Rightarrow> ('w, 's, 'l, 'cb) service \<times> (exn + string list)" where
  "llm_pass env sv =
     (case se_llm_fn env of
        None \<Rightarrow> (sv, Inr [])
      | Some llm \<Rightarrow> bind_st (llm_candidates env llm sv) (\<lambda>sv cs. queue_all env cs sv))"

definition trigger_analysis ::
  "('v :: linorder, 'w, 's, 'l, 'cb) service_env \<Rightarrow> ('w, 's, 'l, 'cb) service \<Rightarrow> ('w, 's, 'l, 'cb) service \<times> (exn + string list)" where
  "trigger_analysis env sv =
     bind_st (observer_pass env sv) (\<lambda>sv observed.
       bind_st (analyzer_pass env sv) (\<lambda>sv static.
         bind_st (if cf_enable_llm (se_config env) then llm_pass env sv else (sv, Inr [])) (\<lambda>sv proposed.
           (let created = observed @ static @ proposed
            in bind_st (emit env ANALYSIS_COMPLETED [(''proposal_count'', VInt (int (length created)))] sv) (\<lambda>sv _.
                 (sv, Inr created))))))"

definition monitor_tool ::
  "('v :: linorder, 'w, 's, 'l, 'cb) service_env \<Rightarrow> 'w tool \<Rightarrow> ('w, 's, 'l, 'cb) service \<Rightarrow> ('w, 's, 'l, 'cb) service \<times> (exn + unit)" where
  "monitor_tool env tool sv =
     bind_st (emit env TOOL_REGISTERED [(''tool_name'', VStr (t_name tool))] (put_tool tool sv)) (\<lambda>sv _.
       if cf_analyze_on_tool_change (se_config env) then bind_st (trigger_analysis env sv) (\<lambda>sv _. (sv, Inr ()))
       else (sv, Inr ()))"

definition finish_trace ::
  "('v, 'w, 's, 'l, 'cb) service_env \<Rightarrow> reading \<Rightarrow> ('w, 's, 'l, 'cb) service \<Rightarrow> ('w, 's, 'l, 'cb) service \<times> (exn + unit)" where
  "finish_trace env now sv =
     bind_st (close_trace now sv) (\<lambda>sv n. emit env TRACE_RECORDED [(''traces_recorded'', VInt (int n))] sv)"

definition list_proposals :: "proposal_status option \<Rightarrow> ('w, 's, 'l, 'cb) service \<Rightarrow> service_proposal list" where
  "list_proposals status sv =
     (case status of
        None \<Rightarrow> map snd (sv_proposals sv)
      | Some s \<Rightarrow> filter (\<lambda>p. sp_status p = s) (map snd (sv_proposals sv)))"

text \<open>One turn of the background loop; an exception of the analysis ends its thread.\<close>

definition loop_turn ::
  "('v :: linorder, 'w, 's, 'l, 'cb) service_env \<Rightarrow> ('w, 's, 'l, 'cb) service \<Rightarrow> ('w, 's, 'l, 'cb) service \<times> (exn + unit)" where
  "loop_turn env sv =
     (case cf_analyze_interval (se_config env) of
        None \<Rightarrow> (sv, Inr ())
      | Some _ \<Rightarrow> bind_st (trigger_analysis env sv) (\<lambda>sv _. (sv, Inr ())))"

fun loop_turns ::
  "('v :: linorder, 'w, 's, 'l, 'cb) service_env \<Rightarrow> nat \<Rightarrow> ('w, 's, 'l, 'cb) service \<Rightarrow> ('w, 's, 'l, 'cb) service \<times> (exn + unit)" where
  "loop_turns env 0 sv = (sv, Inr ())"
| "loop_turns env (Suc n) sv = bind_st (loop_turn env sv) (\<lambda>sv _. loop_turns env n sv)"

section \<open>Steps of the service\<close>

text \<open>
  A thread changes the service only in a critical section, and in between any other thread may run:
  the steps, in any order, cover every interleaving of the operations and callbacks.
\<close>

inductive service_step ::
  "('v :: linorder, 'w, 's, 'l, 'cb) service_env \<Rightarrow> ('w, 's, 'l, 'cb) service \<Rightarrow> ('w, 's, 'l, 'cb) service \<Rightarrow> bool"
  for env where
  Subscribe: "service_step env sv (on_event ev cb sv)"
| PutTool: "service_step env sv (put_tool tool sv)"
| RecordCall: "service_step env sv (fst (record_call fresh opened name inputs outputs now sv))"
| CloseTrace: "service_step env sv (fst (close_trace now sv))"
| Queue: "service_step env sv (fst (queue_locked env c sv))"
| Promote: "service_step env sv (fst (promote_locked env pid sv))"
| Reject: "service_step env sv (fst (reject_locked pid sv))"
| AskModel: "service_step env sv (sv\<lparr>sv_llm := l\<rparr>)"

abbreviation service_steps ::
  "('v :: linorder, 'w, 's, 'l, 'cb) service_env \<Rightarrow> ('w, 's, 'l, 'cb) service \<Rightarrow> ('w, 's, 'l, 'cb) service \<Rightarrow> bool" where
  "service_steps env \<equiv> (service_step env)\<^sup>*\<^sup>*"

text \<open>A callback acts on the service through its operations.\<close>

definition callbacks_step :: "('v :: linorder, 'w, 's, 'l, 'cb) service_env \<Rightarrow> bool" where
  "callbacks_step env \<longleftrightarrow> (\<forall>cb data sv. service_steps env sv (fst (se_call env cb data sv)))"

lemma steps_bind:
  assumes "service_steps env sv (fst x)" "\<And>sv' a. x = (sv', Inr a) \<Longrightarrow> service_steps env sv' (fst (f sv' a))"
  shows "service_steps env sv (fst (bind_st x f))"
proof (cases x)
  case (Pair sv' res)
  then show ?thesis using assms by (cases res) (auto intro: rtranclp_trans)
qed

lemma run_callbacks_steps: "callbacks_step env \<Longrightarrow> service_steps env sv (fst (run_callbacks env data cbs sv))"
proof (induction cbs arbitrary: sv)
  case (Cons cb cbs)
  then show ?case by (auto simp: callbacks_step_def intro!: steps_bind)
qed simp

lemma emit_steps: "callbacks_step env \<Longrightarrow> service_steps env sv (fst (emit env ev data sv))"
  unfolding emit_def by (rule run_callbacks_steps)

lemma approve_steps: "callbacks_step env \<Longrightarrow> service_steps env sv (fst (approve env pid sv))"
  unfolding approve_def by (intro steps_bind emit_steps) (auto intro: service_step.Promote)

lemma reject_steps: "callbacks_step env \<Longrightarrow> service_steps env sv (fst (reject env pid sv))"
  unfolding reject_def by (intro steps_bind emit_steps) (auto intro: service_step.Reject)

lemma queue_proposal_steps: "callbacks_step env \<Longrightarrow> service_steps env sv (fst (queue_proposal env c sv))"
  unfolding queue_proposal_def
  by (intro steps_bind) (auto intro!: steps_bind emit_steps approve_steps intro: service_step.Queue split: option.split)

lemma queue_all_steps: "callbacks_step env \<Longrightarrow> service_steps env sv (fst (queue_all env cs sv))"
proof (induction cs arbitrary: sv)
  case (Cons c cs)
  then show ?case by (auto intro!: steps_bind queue_proposal_steps)
qed simp

lemma pass_steps: "callbacks_step env \<Longrightarrow> service_steps env sv (fst (bind_st (sv, res) (\<lambda>sv cs. queue_all env cs sv)))"
  by (cases res) (simp_all add: queue_all_steps)

lemma ask_model_steps: "service_steps env sv (sv\<lparr>sv_llm := l\<rparr>)"
  by (rule r_into_rtranclp) (rule service_step.AskModel)

lemma llm_pass_steps: "callbacks_step env \<Longrightarrow> service_steps env sv (fst (llm_pass env sv))"
  unfolding llm_pass_def llm_candidates_def
  by (auto intro!: steps_bind queue_all_steps intro: ask_model_steps split: option.split prod.split)

lemma trigger_analysis_steps: "callbacks_step env \<Longrightarrow> service_steps env sv (fst (trigger_analysis env sv))"
  unfolding trigger_analysis_def observer_pass_def analyzer_pass_def Let_def
  by (intro steps_bind pass_steps emit_steps) (auto intro: llm_pass_steps)

lemma monitor_tool_steps: "callbacks_step env \<Longrightarrow> service_steps env sv (fst (monitor_tool env tool sv))"
proof -
  assume cb: "callbacks_step env"
  have "service_steps env (put_tool tool sv) (fst (monitor_tool env tool sv))"
    unfolding monitor_tool_def using cb by (intro steps_bind emit_steps) (auto intro!: steps_bind trigger_analysis_steps)
  with service_step.PutTool[of env sv tool] show ?thesis by (rule converse_rtranclp_into_rtranclp)
qed

lemma finish_trace_steps: "callbacks_step env \<Longrightarrow> service_steps env sv (fst (finish_trace env now sv))"
  unfolding finish_trace_def by (intro steps_bind emit_steps) (auto intro: service_step.CloseTrace)

lemma loop_turn_steps: "callbacks_step env \<Longrightarrow> service_steps env sv (fst (loop_turn env sv))"
  by (auto simp: loop_turn_def intro!: steps_bind trigger_analysis_steps split: option.split)

lemma loop_turns_steps: "callbacks_step env \<Longrightarrow> service_steps env sv (fst (loop_turns env n sv))"
proof (induction n arbitrary: sv)
  case (Suc n)
  then show ?case by (auto intro!: steps_bind loop_turn_steps)
qed simp

section \<open>The invariant\<close>

definition approved :: "('w, 's, 'l, 'cb) service \<Rightarrow> service_proposal list" where
  "approved sv = filter (\<lambda>p. sp_status p = APPROVED) (map snd (sv_proposals sv))"

definition live_names :: "(string \<times> service_proposal) list \<Rightarrow> string list" where
  "live_names ps = map (\<lambda>p. f_name (sp_flow p)) (filter live (map snd ps))"

definition service_ok :: "('v, 'w, 's, 'l, 'cb) service_env \<Rightarrow> ('w, 's, 'l, 'cb) service \<Rightarrow> bool" where
  "service_ok env sv \<longleftrightarrow>
     dict_ok (sv_proposals sv) \<and>
     list_all (\<lambda>(i, p). sp_id p = i \<and> i \<in> se_uuid env ` {..<sv_uuids sv} \<and>
        cf_min_determinism_score (se_config env) \<le> sp_confidence p) (sv_proposals sv) \<and>
     distinct (live_names (sv_proposals sv)) \<and>
     int (pending sv) \<le> max 0 (cf_max_pending (se_config env)) \<and>
     me_tools_monitored (sv_metrics sv) = length (sv_tools sv) \<and>
     me_flows_proposed (sv_metrics sv) = length (sv_proposals sv) \<and>
     me_flows_proposed (sv_metrics sv) \<le> me_patterns_detected (sv_metrics sv) \<and>
     me_flows_promoted (sv_metrics sv) \<le> length (approved sv) \<and>
     me_llm_calls_avoided (sv_metrics sv) \<le> sum_list (map sp_avoided (approved sv))"

lemma dict_set_split:
  "dict_get d k = Some v \<Longrightarrow> \<exists>xs ys. d = xs @ (k, v) # ys \<and> k \<notin> set (dict_keys xs) \<and> (\<forall>w. dict_set d k w = xs @ (k, w) # ys)"
proof (induction d)
  case (Cons kv d)
  show ?case
  proof (cases "fst kv = k")
    case True
    with Cons.prems show ?thesis by (intro exI[of _ "[]"] exI[of _ d]) (cases kv; auto)
  next
    case False
    with Cons obtain xs ys where "d = xs @ (k, v) # ys \<and> k \<notin> set (dict_keys xs) \<and> (\<forall>w. dict_set d k w = xs @ (k, w) # ys)"
      by auto
    with False show ?thesis by (intro exI[of _ "kv # xs"] exI[of _ ys]) (cases kv; auto)
  qed
qed simp

lemma require_pending_Inr:
  "require_pending pid sv = Inr p \<longleftrightarrow> dict_get (sv_proposals sv) pid = Some p \<and> sp_status p = PENDING"
  by (auto simp: require_pending_def split: option.splits)

text \<open>What a queued candidate leaves behind.\<close>

lemma queue_locked_cases:
  assumes "queue_locked env c sv = (sv', res)"
  obtains (same) "sv' = sv\<lparr>sv_metrics := (sv_metrics sv)\<lparr>me_patterns_detected := me_patterns_detected (sv_metrics sv) + 1\<rparr>\<rparr>"
      "\<not> (\<exists>x. res = Inr (Some x))"
  | (queued) p where "sp_id p = se_uuid env (sv_uuids sv)" "sp_flow p = cd_flow c" "sp_status p = PENDING"
      "sp_confidence p = cd_confidence c" "cf_min_determinism_score (se_config env) \<le> cd_confidence c"
      "int (pending sv) < cf_max_pending (se_config env)"
      "is_known env sv (f_name (cd_flow c)) = Inr False"
      "sv' = sv\<lparr>sv_proposals := dict_set (sv_proposals sv) (sp_id p) p, sv_uuids := sv_uuids sv + 1,
         sv_metrics := (sv_metrics sv)\<lparr>me_patterns_detected := me_patterns_detected (sv_metrics sv) + 1,
                                   me_flows_proposed := me_flows_proposed (sv_metrics sv) + 1\<rparr>\<rparr>"
      "res = Inr (Some (sp_id p, cf_auto_approve (se_config env) \<and> cd_confidence c \<ge> 1))"
proof -
  have known: "is_known env (sv\<lparr>sv_metrics := m\<rparr>) n = is_known env sv n" for m n by (simp add: is_known_def)
  have pend: "pending (sv\<lparr>sv_metrics := m\<rparr>) = pending sv" for m by (simp add: pending_def)
  note defs = queue_locked_def Let_def known pend
  show thesis
  proof (cases "cd_confidence c < cf_min_determinism_score (se_config env) \<or> is_known env sv (f_name (cd_flow c)) \<noteq> Inr False \<or>
      int (pending sv) \<ge> cf_max_pending (se_config env)")
    case True
    then show thesis using assms by (intro same) (auto simp: defs split: sum.splits bool.splits if_splits)
  next
    case False
    show thesis
      by (rule queued[of "\<lparr>sp_id = se_uuid env (sv_uuids sv), sp_flow = cd_flow c, sp_source = cd_source c,
            sp_occurrences = cd_occurrences c, sp_confidence = cd_confidence c, sp_avoided = cd_avoided c, sp_status = PENDING,
            sp_created_at = se_now env (sv_uuids sv)\<rparr>"])
        (use assms False in \<open>auto simp: defs\<close>)
  qed
qed

lemma promote_locked_cases:
  assumes "promote_locked env pid sv = (sv', res)"
  obtains (refused) e where "sv' = sv" "res = Inl e" "require_pending pid sv = Inl e"
  | (ran) p r out where "require_pending pid sv = Inr p"
      "register_flow (se_versions env) (se_set_order env) (se_store env) (sv_registry sv) (LinearFlow (sp_flow p)) False = (r, out)"
      "sv' = (if isl out \<and> \<not> is_already_exists (projl out) then sv\<lparr>sv_registry := r\<rparr>
              else sv\<lparr>sv_registry := r, sv_proposals := dict_set (sv_proposals sv) pid (p\<lparr>sp_status := APPROVED\<rparr>),
                      sv_metrics := (if isl out then sv_metrics sv else (sv_metrics sv)\<lparr>
                        me_flows_promoted := me_flows_promoted (sv_metrics sv) + 1,
                        me_llm_calls_avoided := me_llm_calls_avoided (sv_metrics sv) + sp_avoided p\<rparr>)\<rparr>)"
proof (cases "require_pending pid sv")
  case (Inl e)
  with assms show thesis by (intro refused) (auto simp: promote_locked_def)
next
  case (Inr p)
  obtain r out where o: "register_flow (se_versions env) (se_set_order env) (se_store env) (sv_registry sv) (LinearFlow (sp_flow p)) False = (r, out)"
    by fastforce
  show thesis
    by (rule ran[OF Inr o]) (use assms Inr o in \<open>auto simp: promote_locked_def Let_def split: sum.splits if_splits\<close>)
qed

lemma service_ok_metrics:
  "service_ok env sv \<Longrightarrow> me_tools_monitored m = me_tools_monitored (sv_metrics sv) \<Longrightarrow>
     me_flows_proposed m = me_flows_proposed (sv_metrics sv) \<Longrightarrow>
     me_patterns_detected (sv_metrics sv) \<le> me_patterns_detected m \<Longrightarrow>
     me_flows_promoted m = me_flows_promoted (sv_metrics sv) \<Longrightarrow>
     me_llm_calls_avoided m = me_llm_calls_avoided (sv_metrics sv) \<Longrightarrow> service_ok env (sv\<lparr>sv_metrics := m\<rparr>)"
  by (simp add: service_ok_def pending_def approved_def)

lemma service_ok_fields:
  "service_ok env sv \<Longrightarrow> service_ok env (sv\<lparr>sv_registry := r\<rparr>)"
  "service_ok env sv \<Longrightarrow> service_ok env (sv\<lparr>sv_observer := ob\<rparr>)"
  "service_ok env sv \<Longrightarrow> service_ok env (sv\<lparr>sv_callbacks := cbs\<rparr>)"
  "service_ok env sv \<Longrightarrow> service_ok env (sv\<lparr>sv_llm := l\<rparr>)"
  by (simp_all add: service_ok_def pending_def approved_def)

lemma service_ok_put_tool: "service_ok env sv \<Longrightarrow> service_ok env (put_tool tool sv)"
  by (simp add: service_ok_def put_tool_def Let_def pending_def approved_def)

text \<open>A fresh identifier is appended.\<close>

lemma fresh_uuid: "service_ok env sv \<Longrightarrow> inj (se_uuid env) \<Longrightarrow> se_uuid env (sv_uuids sv) \<notin> set (dict_keys (sv_proposals sv))"
  by (auto simp: service_ok_def list_all_iff inj_eq)

lemma known_names: "is_known env sv n = Inr False \<Longrightarrow> n \<notin> set (live_names (sv_proposals sv))"
  by (auto simp: is_known_def live_names_def list_ex_iff split: if_splits)

lemma service_ok_queue:
  assumes ok: "service_ok env sv" and inj: "inj (se_uuid env)"
  shows "service_ok env (fst (queue_locked env c sv))"
proof (cases "queue_locked env c sv")
  case (Pair sv' res)
  then show ?thesis
  proof (cases rule: queue_locked_cases)
    case same
    then show ?thesis using Pair ok by (simp add: service_ok_metrics)
  next
    case (queued p)
    let ?u = "se_uuid env (sv_uuids sv)"
    have set: "dict_set (sv_proposals sv) ?u p = sv_proposals sv @ [(?u, p)]"
      by (rule dict_set_fresh[OF fresh_uuid[OF ok inj]])
    have names: "live_names (sv_proposals sv @ [(?u, p)]) = live_names (sv_proposals sv) @ [f_name (cd_flow c)]"
      using queued(2,3) by (simp add: live_names_def live_def)
    note sv' = queued(8)[unfolded queued(1) set]
    have pend: "pending sv' = pending sv + 1" and appr: "approved sv' = approved sv"
      using queued(3) by (simp_all add: pending_def approved_def sv')
    have fields: "sv_proposals sv' = sv_proposals sv @ [(?u, p)]" "sv_uuids sv' = sv_uuids sv + 1" "sv_tools sv' = sv_tools sv"
      "sv_metrics sv' = (sv_metrics sv)\<lparr>me_patterns_detected := me_patterns_detected (sv_metrics sv) + 1,
         me_flows_proposed := me_flows_proposed (sv_metrics sv) + 1\<rparr>"
      by (simp_all add: sv')
    show ?thesis
      using ok queued(1,4,5,6) known_names[OF queued(7)] fresh_uuid[OF ok inj]
      unfolding service_ok_def Pair fst_conv fields names pend appr
      by (auto simp: list_all_iff less_Suc_eq)
  qed
qed

lemma service_ok_decide:
  assumes ok: "service_ok env sv" and req: "require_pending pid sv = Inr p" and st: "st = APPROVED \<or> st = REJECTED"
    and m: "me_tools_monitored m = me_tools_monitored (sv_metrics sv)" "me_flows_proposed m = me_flows_proposed (sv_metrics sv)"
      "me_patterns_detected m = me_patterns_detected (sv_metrics sv)"
      "me_flows_promoted m = me_flows_promoted (sv_metrics sv) + k" "me_llm_calls_avoided m = me_llm_calls_avoided (sv_metrics sv) + a"
      "k = 0 \<and> a = 0 \<or> st = APPROVED \<and> k = 1 \<and> a = sp_avoided p"
  shows "service_ok env (sv\<lparr>sv_proposals := dict_set (sv_proposals sv) pid (p\<lparr>sp_status := st\<rparr>), sv_metrics := m\<rparr>)"
proof -
  from req have get: "dict_get (sv_proposals sv) pid = Some p" and pend: "sp_status p = PENDING"
    by (auto simp: require_pending_Inr)
  from dict_set_split[OF get] obtain xs ys where d: "sv_proposals sv = xs @ (pid, p) # ys"
    and set: "dict_set (sv_proposals sv) pid w = xs @ (pid, w) # ys" for w by blast
  show ?thesis
    using ok st m pend unfolding service_ok_def set
    by (auto simp: d live_names_def live_def pending_def approved_def)
qed

lemma service_ok_step:
  assumes "service_step env sv sv'" "service_ok env sv" "inj (se_uuid env)"
  shows "service_ok env sv'"
  using assms
proof cases
  case Subscribe
  then show ?thesis using assms by (simp add: on_event_def service_ok_fields)
next
  case RecordCall
  then show ?thesis using assms by (simp add: record_call_def service_ok_fields split: prod.split)
next
  case CloseTrace
  then show ?thesis using assms
    by (auto simp: close_trace_def Let_def intro!: service_ok_metrics[of _ "_\<lparr>sv_observer := _\<rparr>", simplified] service_ok_fields
        split: sum.split prod.split)
next
  case (Promote pid)
  show ?thesis
  proof (cases "promote_locked env pid sv")
    case (Pair s res)
    then show ?thesis
    proof (cases rule: promote_locked_cases)
      case refused
      then show ?thesis using assms Promote Pair by simp
    next
      case (ran p r out)
      have ok: "service_ok env (sv\<lparr>sv_registry := r\<rparr>)" using assms(2) by (rule service_ok_fields)
      have req: "require_pending pid (sv\<lparr>sv_registry := r\<rparr>) = Inr p" using ran(1) by (simp add: require_pending_def)
      define m where "m = (if isl out then sv_metrics sv else (sv_metrics sv)\<lparr>
          me_flows_promoted := me_flows_promoted (sv_metrics sv) + 1,
          me_llm_calls_avoided := me_llm_calls_avoided (sv_metrics sv) + sp_avoided p\<rparr>)"
      have "service_ok env (sv\<lparr>sv_registry := r, sv_proposals := dict_set (sv_proposals sv) pid (p\<lparr>sp_status := APPROVED\<rparr>),
          sv_metrics := m\<rparr>)"
        using service_ok_decide[OF ok req, of APPROVED m "if isl out then 0 else 1" "if isl out then 0 else sp_avoided p"]
        by (simp add: m_def)
      then have "service_ok env s" unfolding ran(3) m_def[symmetric] using ok by simp
      then show ?thesis using Promote Pair by simp
    qed
  qed
next
  case (Reject pid)
  have "service_ok env (sv\<lparr>sv_proposals := dict_set (sv_proposals sv) pid (p\<lparr>sp_status := REJECTED\<rparr>), sv_metrics := sv_metrics sv\<rparr>)"
    if "require_pending pid sv = Inr p" for p
    by (rule service_ok_decide[OF assms(2) that]) simp_all
  then show ?thesis using Reject assms by (auto simp: reject_locked_def split: sum.split)
qed (use assms in \<open>simp_all add: service_ok_fields service_ok_put_tool service_ok_queue\<close>)

lemma service_ok_steps:
  "service_steps env sv sv' \<Longrightarrow> service_ok env sv \<Longrightarrow> inj (se_uuid env) \<Longrightarrow> service_ok env sv'"
  by (induction rule: rtranclp_induct) (auto intro: service_ok_step)

lemma new_service_ok: "service_ok env (new_service r ob l)"
  by (simp add: service_ok_def new_service_def live_names_def pending_def approved_def no_metrics_def)

section \<open>The governance gate\<close>

text \<open>
  Against the registry the service was created with: nothing of it was removed or replaced, what
  was added is the flow of an approved proposal, and the counter of promotions counts it.
\<close>

definition gate_kept ::
  "('s \<Rightarrow> flow_key \<rightharpoonup> any_flow) \<Rightarrow> 's registry \<Rightarrow> ('w, 's, 'l, 'cb) service \<Rightarrow> bool" where
  "gate_kept contents r sv \<longleftrightarrow>
     contents (r_store r) \<subseteq>\<^sub>m contents (r_store (sv_registry sv)) \<and>
     (\<forall>k f. contents (r_store (sv_registry sv)) k = Some f \<longrightarrow>
        contents (r_store r) k = Some f \<or> f \<in> LinearFlow ` sp_flow ` set (approved sv)) \<and>
     card (dom (contents (r_store (sv_registry sv))) - dom (contents (r_store r))) = me_flows_promoted (sv_metrics sv)"

lemma approved_queue:
  "service_ok env sv \<Longrightarrow> inj (se_uuid env) \<Longrightarrow> queue_locked env c sv = (sv', res) \<Longrightarrow> approved sv' = approved sv"
proof (erule queue_locked_cases)
  fix p
  assume ok: "service_ok env sv" "inj (se_uuid env)" and p: "sp_id p = se_uuid env (sv_uuids sv)" "sp_status p = PENDING"
    and sv': "sv' = sv\<lparr>sv_proposals := dict_set (sv_proposals sv) (sp_id p) p, sv_uuids := sv_uuids sv + 1,
         sv_metrics := (sv_metrics sv)\<lparr>me_patterns_detected := me_patterns_detected (sv_metrics sv) + 1,
                                   me_flows_proposed := me_flows_proposed (sv_metrics sv) + 1\<rparr>\<rparr>"
  have "dict_set (sv_proposals sv) (sp_id p) p = sv_proposals sv @ [(sp_id p, p)]"
    unfolding p(1) by (rule dict_set_fresh[OF fresh_uuid[OF ok]])
  then show "approved sv' = approved sv" using p(2) unfolding sv' by (simp add: approved_def)
qed (simp add: approved_def)

lemma approved_decide:
  assumes "require_pending pid sv = Inr p"
  shows "set (approved (sv\<lparr>sv_proposals := dict_set (sv_proposals sv) pid (p\<lparr>sp_status := st\<rparr>)\<rparr>)) =
    set (approved sv) \<union> (if st = APPROVED then {p\<lparr>sp_status := st\<rparr>} else {})"
proof -
  from assms have get: "dict_get (sv_proposals sv) pid = Some p" and pend: "sp_status p = PENDING"
    by (auto simp: require_pending_Inr)
  from dict_set_split[OF get] obtain xs ys where d: "sv_proposals sv = xs @ (pid, p) # ys"
    and set: "dict_set (sv_proposals sv) pid w = xs @ (pid, w) # ys" for w by blast
  have "set (filter (\<lambda>p. sp_status p = APPROVED) (map snd (xs @ (pid, p\<lparr>sp_status := st\<rparr>) # ys))) =
      set (filter (\<lambda>p. sp_status p = APPROVED) (map snd (sv_proposals sv))) \<union> (if st = APPROVED then {p\<lparr>sp_status := st\<rparr>} else {})"
    unfolding d using pend by auto
  then show ?thesis by (simp add: approved_def set)
qed

lemma gate_kept_same:
  assumes "gate_kept contents r sv" "sv_registry sv' = sv_registry sv" "set (approved sv) \<subseteq> set (approved sv')"
    "me_flows_promoted (sv_metrics sv') = me_flows_promoted (sv_metrics sv)"
  shows "gate_kept contents r sv'"
proof -
  have "LinearFlow ` sp_flow ` set (approved sv) \<subseteq> LinearFlow ` sp_flow ` set (approved sv')"
    using assms(3) by (intro image_mono)
  with assms(1,2,4) show ?thesis unfolding gate_kept_def by (simp only:) blast
qed

context registry_store
begin

lemma register_was_absent:
  assumes "registry_ok pv r" "register_flow pv ord ops r f False = (r', Inr ())"
  shows "contents (r_store r) (flow_key_of f) = None"
proof (rule ccontr)
  assume "contents (r_store r) (flow_key_of f) \<noteq> None"
  with assms(1) have "save_in ops r f False = (r, Inl (FlowAlreadyExistsError (af_name f)))"
    by (simp add: save_in_def registry_ok_def save_old)
  with assms(2) show False by (simp add: register_flow_def split: sum.splits option.splits)
qed

lemma gate_promote:
  fixes sv :: "('w, 's, 'l, 'cb) service"
  assumes env: "se_store env = ops" and ok: "registry_ok (se_versions env) (sv_registry sv)" and gate: "gate_kept contents r sv"
    and run: "promote_locked env pid sv = (sv', res)"
  shows "registry_ok (se_versions env) (sv_registry sv') \<and> gate_kept contents r sv'"
  using run
proof (cases rule: promote_locked_cases)
  case refused
  with ok gate show ?thesis by simp
next
  case (ran p r' out)
  have appr: "set (approved s) = insert (p\<lparr>sp_status := APPROVED\<rparr>) (set (approved sv))"
    if "sv_proposals s = dict_set (sv_proposals sv) pid (p\<lparr>sp_status := APPROVED\<rparr>)" for s :: "('w, 's, 'l, 'cb) service"
    using approved_decide[OF ran(1), of APPROVED] that by (simp add: approved_def)
  show ?thesis
  proof (cases out)
    case (Inl e)
    with register_flow_cases[OF ok, of "se_set_order env" "LinearFlow (sp_flow p)" False] ran(2) have "r' = sv_registry sv"
      by (auto simp: env)
    then have "sv_registry sv' = sv_registry sv" "me_flows_promoted (sv_metrics sv') = me_flows_promoted (sv_metrics sv)"
      "set (approved sv) \<subseteq> set (approved sv')"
      using Inl ran(3) appr[of sv'] by (auto split: if_splits)
    with ok gate_kept_same[OF gate, of sv'] show ?thesis by simp
  next
    case (Inr u)
    let ?f = "LinearFlow (sp_flow p)"
    have absent: "contents (r_store (sv_registry sv)) (flow_key_of ?f) = None"
      using register_was_absent[OF ok] ran(2) Inr by (simp add: env)
    have new: "registry_ok (se_versions env) r'" "contents (r_store r') = (contents (r_store (sv_registry sv)))(flow_key_of ?f \<mapsto> ?f)"
      using register_flow_cases[OF ok, of "se_set_order env" ?f False] ran(2) Inr by (auto simp: env)
    have sv': "sv_registry sv' = r'" "set (approved sv') = insert (p\<lparr>sp_status := APPROVED\<rparr>) (set (approved sv))"
      "me_flows_promoted (sv_metrics sv') = Suc (me_flows_promoted (sv_metrics sv))"
      using Inr ran(3) appr[of sv'] by simp_all
    have fin: "finite (dom (contents (r_store (sv_registry sv))))"
      using keys[of "r_store (sv_registry sv)"] ok by (metis List.finite_set registry_ok_def)
    have old: "flow_key_of ?f \<notin> dom (contents (r_store r))"
    proof
      assume "flow_key_of ?f \<in> dom (contents (r_store r))"
      moreover have "dom (contents (r_store r)) \<subseteq> dom (contents (r_store (sv_registry sv)))"
        using gate by (intro map_le_implies_dom_le) (simp add: gate_kept_def)
      ultimately show False using absent by (auto simp only: domIff)
    qed
    have "dom (contents (r_store r')) - dom (contents (r_store r)) =
        insert (flow_key_of ?f) (dom (contents (r_store (sv_registry sv))) - dom (contents (r_store r)))"
      using old by (auto simp: new(2))
    then have "card (dom (contents (r_store r')) - dom (contents (r_store r))) = me_flows_promoted (sv_metrics sv')"
      using gate absent fin by (simp add: gate_kept_def sv'(3) domIff)
    moreover have "contents (r_store r) \<subseteq>\<^sub>m contents (r_store r')"
      using gate old unfolding gate_kept_def new(2) by (simp add: map_le_def)
    ultimately show ?thesis
      using gate new by (auto simp: gate_kept_def sv' split: if_splits)
  qed
qed

lemma gate_step:
  assumes step: "service_step env sv sv'" and env: "se_store env = ops" "inj (se_uuid env)" and sok: "service_ok env sv"
    and ok: "registry_ok (se_versions env) (sv_registry sv)" and gate: "gate_kept contents r sv"
  shows "registry_ok (se_versions env) (sv_registry sv') \<and> gate_kept contents r sv'"
  using step
proof cases
  case (Queue c)
  obtain s res where q: "queue_locked env c sv = (s, res)" by fastforce
  have "sv_registry s = sv_registry sv" "me_flows_promoted (sv_metrics s) = me_flows_promoted (sv_metrics sv)"
    using q by (auto elim!: queue_locked_cases)
  with approved_queue[OF sok env(2) q] gate_kept_same[OF gate, of s] ok Queue q show ?thesis by simp
next
  case (Promote pid)
  then show ?thesis using gate_promote[OF env(1) ok gate, of pid] by (cases "promote_locked env pid sv") simp
next
  case (Reject pid)
  show ?thesis
  proof (cases "require_pending pid sv")
    case (Inl e)
    then show ?thesis using Reject ok gate by (simp add: reject_locked_def)
  next
    case (Inr p)
    then have "sv' = sv\<lparr>sv_proposals := dict_set (sv_proposals sv) pid (p\<lparr>sp_status := REJECTED\<rparr>)\<rparr>"
      using Reject by (simp add: reject_locked_def)
    with ok gate_kept_same[OF gate, of sv'] approved_decide[OF Inr, of REJECTED] show ?thesis by simp
  qed
qed (use ok gate in \<open>auto simp: on_event_def put_tool_def record_call_def close_trace_def Let_def approved_def
       intro!: gate_kept_same[OF gate] split: prod.split sum.split\<close>)

lemma gate_steps:
  assumes "service_steps env sv sv'" "se_store env = ops" "inj (se_uuid env)" "service_ok env sv"
    "registry_ok (se_versions env) (sv_registry sv)" "gate_kept contents r sv"
  shows "registry_ok (se_versions env) (sv_registry sv') \<and> gate_kept contents r sv'"
  using assms
proof (induction rule: rtranclp_induct)
  case (step sv1 sv2)
  then show ?case using gate_step[OF step.hyps(2)] service_ok_steps[OF step.hyps(1)] by blast
qed simp

lemma gate_new: "gate_kept contents r (new_service r ob l)"
  by (simp add: gate_kept_def new_service_def no_metrics_def)

end

text \<open>
  C35: Nothing reaches the registry but through an approval: whatever threads and callbacks do with
  the service, in any order, the flows of the registry it was created with stay as they are, every
  other flow there is the flow of an approved proposal, and the service counts exactly these as
  promoted.
\<close>

theorem registry_gate:
  assumes "service_steps env (new_service r ob l) sv" "se_store env = in_memory_store" "inj (se_uuid env)"
    and "registry_inv (se_versions env) r"
  shows "gate_kept map_of r sv"
  using mem_store.gate_steps[OF assms(1,2,3) new_service_ok _ mem_store.gate_new] assms(4)
  by (simp add: registry_inv_iff new_service_def)

section \<open>Operations keep the invariant\<close>


section \<open>An analysis repeated\<close>

text \<open>A candidate that another analysis would not queue.\<close>

definition settled :: "('v, 'w, 's, 'l, 'cb) service_env \<Rightarrow> ('w, 's, 'l, 'cb) service \<Rightarrow> candidate \<Rightarrow> bool" where
  "settled env sv c \<longleftrightarrow>
     cd_confidence c < cf_min_determinism_score (se_config env) \<or>
     is_known env sv (f_name (cd_flow c)) = Inr True \<or>
     is_known env sv (f_name (cd_flow c)) = Inr False \<and> int (pending sv) \<ge> cf_max_pending (se_config env)"

definition bumped :: "nat \<Rightarrow> ('w, 's, 'l, 'cb) service \<Rightarrow> ('w, 's, 'l, 'cb) service" where
  "bumped n sv = sv\<lparr>sv_metrics := (sv_metrics sv)\<lparr>me_patterns_detected := me_patterns_detected (sv_metrics sv) + n\<rparr>\<rparr>"

lemma settled_metrics: "settled env (sv\<lparr>sv_metrics := m\<rparr>) c = settled env sv c"
  by (simp add: settled_def is_known_def pending_def)

lemma settled_bumped [simp]: "settled env (bumped n sv) = settled env sv"
  by (rule ext) (simp add: bumped_def settled_metrics)

lemma queue_locked_settled: "settled env sv c \<Longrightarrow> queue_locked env c sv = (bumped 1 sv, Inr None)"
  by (auto simp: settled_def queue_locked_def Let_def bumped_def is_known_def pending_def)

lemma queue_locked_skips: "queue_locked env c sv = (sv', Inr None) \<Longrightarrow> settled env sv c"
  by (auto simp: settled_def queue_locked_def Let_def is_known_def pending_def split: if_splits sum.splits bool.splits)

text \<open>What one quiet queueing does: the candidate is settled, and what was settled stays so.\<close>

definition quiet :: "('v, 'w, 's, 'l, 'cb) service_env \<Rightarrow> ('w, 's, 'l, 'cb) service \<Rightarrow> ('w, 's, 'l, 'cb) service \<Rightarrow> bool" where
  "quiet env sv sv' \<longleftrightarrow>
     (\<forall>c. settled env sv c \<longrightarrow> settled env sv' c) \<and> service_ok env sv' \<and> sv_callbacks sv' = sv_callbacks sv \<and>
     sv_tools sv' = sv_tools sv \<and> sv_observer sv' = sv_observer sv"

lemma quiet_trans: "quiet env a b \<Longrightarrow> quiet env b c \<Longrightarrow> quiet env a c"
  by (simp add: quiet_def)

lemma quiet_queue_locked:
  assumes ok: "service_ok env sv" "inj (se_uuid env)" and run: "queue_locked env c sv = (sv', Inr res)"
  shows "quiet env sv sv' \<and> settled env sv' c"
  using run
proof (cases rule: queue_locked_cases)
  case same
  then have none: "res = None" by (cases res) auto
  have "service_ok env sv'" using service_ok_queue[OF ok, of c] run by simp
  moreover have "settled env sv c" using run queue_locked_skips none by blast
  ultimately show ?thesis using same(1) by (simp add: quiet_def settled_metrics)
next
  case (queued p)
  have ok': "service_ok env sv'" using service_ok_queue[OF ok, of c] run by simp
  have "dict_set (sv_proposals sv) (sp_id p) p = sv_proposals sv @ [(sp_id p, p)]"
    unfolding queued(1) by (rule dict_set_fresh[OF fresh_uuid[OF ok]])
  then have props: "sv_proposals sv' = sv_proposals sv @ [(sp_id p, p)]" and reg: "sv_registry sv' = sv_registry sv"
    and rest: "sv_callbacks sv' = sv_callbacks sv" "sv_tools sv' = sv_tools sv" "sv_observer sv' = sv_observer sv"
    unfolding queued(8) by simp_all
  have known: "is_known env sv n = Inr True \<Longrightarrow> is_known env sv' n = Inr True" for n
    by (auto simp: is_known_def props reg split: if_splits)
  have "is_known env sv' (f_name (cd_flow c)) = Inr True"
    using queued(2,3) by (simp add: is_known_def props live_def)
  moreover have "settled env sv c' \<Longrightarrow> settled env sv' c'" for c'
    using known queued(6) by (auto simp: settled_def)
  ultimately show ?thesis using ok' rest by (auto simp: quiet_def settled_def)
qed

text \<open>Without automatic approval and without a subscriber to new proposals.\<close>

definition manual :: "('v, 'w, 's, 'l, 'cb) service_env \<Rightarrow> ('w, 's, 'l, 'cb) service \<Rightarrow> bool" where
  "manual env sv \<longleftrightarrow> service_ok env sv \<and> inj (se_uuid env) \<and> \<not> cf_auto_approve (se_config env) \<and>
     dict_get (sv_callbacks sv) PROPOSAL_CREATED = None"

lemma quiet_manual: "quiet env sv sv' \<Longrightarrow> manual env sv \<Longrightarrow> manual env sv'"
  by (simp add: quiet_def manual_def)

lemma quiet_queue_proposal:
  assumes "manual env sv" "queue_proposal env c sv = (sv', Inr pid)"
  shows "quiet env sv sv' \<and> settled env sv' c"
proof -
  obtain s res where q: "queue_locked env c sv = (s, Inr res)"
    and rest: "(case res of
         None \<Rightarrow> (s, Inr None)
       | Some (pid, auto) \<Rightarrow>
           bind_st (emit env PROPOSAL_CREATED [(''proposal_id'', VStr pid), (''source'', VStr (cd_source c))] s) (\<lambda>sv _.
             if auto then bind_st (approve env pid sv) (\<lambda>sv _. (sv, Inr (Some pid)))
             else (sv, Inr (Some pid)))) = (sv', Inr pid)"
    using assms(2) unfolding queue_proposal_def bind_st_Inr_iff[of "queue_locked env c sv"] by blast
  have qs: "quiet env sv s \<and> settled env s c"
    using assms(1) by (intro quiet_queue_locked[OF _ _ q]) (simp_all add: manual_def)
  then have "dict_get (sv_callbacks s) PROPOSAL_CREATED = None" using assms(1) by (simp add: quiet_def manual_def)
  then have quiet_emit: "emit env PROPOSAL_CREATED data s = (s, Inr ())" for data by (simp add: emit_def)
  have no_auto: "res = Some (i, auto) \<Longrightarrow> \<not> auto" for i auto
    by (rule queue_locked_cases[OF q]) (use assms(1) in \<open>simp_all add: manual_def\<close>)
  have "sv' = s"
  proof (cases res)
    case (Some x)
    obtain i auto where x: "x = (i, auto)" by fastforce
    with no_auto Some have "\<not> auto" by blast
    with rest show ?thesis unfolding Some x by (simp add: quiet_emit)
  qed (use rest in simp)
  with qs show ?thesis by simp
qed

lemma quiet_queue_all:
  "manual env sv \<Longrightarrow> queue_all env cs sv = (sv', Inr pids) \<Longrightarrow> quiet env sv sv' \<and> list_all (settled env sv') cs"
proof (induction cs arbitrary: sv pids)
  case Nil
  then show ?case by (simp add: quiet_def manual_def)
next
  case (Cons c cs)
  obtain s pid rest where q: "queue_proposal env c sv = (s, Inr pid)" and r: "queue_all env cs s = (sv', Inr rest)"
    using Cons.prems(2) by (auto simp: bind_st_Inr_iff)
  note s = quiet_queue_proposal[OF Cons.prems(1) q]
  from Cons.IH[OF quiet_manual r] s Cons.prems(1) have "quiet env s sv' \<and> list_all (settled env sv') cs" by blast
  with s show ?case by (auto simp: quiet_def)
qed

lemma queue_all_settled:
  "list_all (settled env sv) cs \<Longrightarrow> queue_all env cs sv = (bumped (length cs) sv, Inr [])"
proof (induction cs arbitrary: sv)
  case (Cons c cs)
  have "list_all (settled env (bumped 1 sv)) cs" using Cons.prems by simp
  from Cons.IH[OF this] Cons.prems show ?case
    by (simp add: queue_proposal_def queue_locked_settled) (simp add: bumped_def)
qed (simp add: bumped_def)

text \<open>
  Analysing again without new observations or tools proposes nothing and changes nothing but the
  count of patterns seen: what was proposed is known, and what was skipped is skipped again.  No
  model is asked, nothing approved by itself, and nobody subscribed to the two events of an analysis.
\<close>

theorem analysis_is_quiet:
  assumes "trigger_analysis env sv = (sv1, Inr created)" "manual env sv" "\<not> cf_enable_llm (se_config env)"
    and "dict_get (sv_callbacks sv) ANALYSIS_COMPLETED = None"
  shows "\<exists>n. trigger_analysis env sv1 = (bumped n sv1, Inr [])"
proof -
  obtain s1 o1 s2 o2 where o: "observer_pass env sv = (s1, Inr o1)" and a: "analyzer_pass env s1 = (s2, Inr o2)"
    and e: "bind_st (emit env ANALYSIS_COMPLETED [(''proposal_count'', VInt (int (length (o1 @ o2 @ []))))] s2)
      (\<lambda>sv _. (sv, Inr (o1 @ o2 @ []))) = (sv1, Inr created)"
    using assms(1,3) by (auto simp: trigger_analysis_def Let_def bind_st_Inr_iff)
  obtain cs1 where cs1: "observer_candidates env (sv_observer sv) = Inr cs1" "queue_all env cs1 sv = (s1, Inr o1)"
    using o by (auto simp: observer_pass_def bind_st_Inr_iff)
  obtain cs2 where cs2: "analyzer_candidates env (sv_tools s1) = Inr cs2" "queue_all env cs2 s1 = (s2, Inr o2)"
    using a by (auto simp: analyzer_pass_def bind_st_Inr_iff)
  have q1: "quiet env sv s1" "list_all (settled env s1) cs1" using quiet_queue_all[OF assms(2) cs1(2)] by auto
  have q2: "quiet env s1 s2" "list_all (settled env s2) cs2"
    using quiet_queue_all[OF quiet_manual[OF q1(1) assms(2)] cs2(2)] by auto
  have all: "list_all (settled env s2) cs1" using q1(2) q2(1) by (auto simp: quiet_def list_all_iff)
  have same: "sv_callbacks s2 = sv_callbacks sv" "sv_observer s2 = sv_observer sv" "sv_tools s2 = sv_tools s1"
    using q1(1) q2(1) by (simp_all add: quiet_def)
  have s2: "sv1 = s2" using e assms(4) by (simp add: emit_def same)
  have all2: "list_all (settled env (bumped (length cs1) s2)) cs2"
    using q2(2) by simp
  have p1: "observer_pass env s2 = (bumped (length cs1) s2, Inr [])"
    by (simp add: observer_pass_def same cs1(1) queue_all_settled[OF all])
  have "sv_tools (bumped (length cs1) s2) = sv_tools s1" by (simp add: bumped_def same)
  then have p2: "analyzer_pass env (bumped (length cs1) s2) = (bumped (length cs2) (bumped (length cs1) s2), Inr [])"
    by (simp add: analyzer_pass_def cs2(1) queue_all_settled[OF all2])
  have "bumped (length cs2) (bumped (length cs1) s2) = bumped (length cs1 + length cs2) s2" by (simp add: bumped_def)
  with p1 p2 assms(3,4) have "trigger_analysis env s2 = (bumped (length cs1 + length cs2) s2, Inr [])"
    by (simp add: trigger_analysis_def Let_def emit_def) (simp add: bumped_def same)
  then show ?thesis unfolding s2 by blast
qed

section \<open>Edges\<close>

text \<open>
  A callback that decides a new proposal itself makes the analysis fail when approval is automatic:
  the service then approves a proposal that is no longer pending.
\<close>

lemma decided_in_callback:
  assumes "queue_locked env c sv = (sv1, Inr (Some (pid, True)))"
    and "emit env PROPOSAL_CREATED [(''proposal_id'', VStr pid), (''source'', VStr (cd_source c))] sv1 = (sv2, Inr ())"
    and "dict_get (sv_proposals sv2) pid = Some p" "sp_status p \<noteq> PENDING"
  shows "queue_proposal env c sv = (sv2, Inl (ValueError (''Proposal '' @ pid @ '' is not pending.'')))"
  by (simp add: queue_proposal_def assms approve_def promote_locked_def require_pending_def)

text \<open>A rejected flow is proposed again: its name is no longer known.\<close>

lemma rejected_is_proposed_again:
  assumes "service_ok env sv" "inj (se_uuid env)" "require_pending pid sv = Inr p" "fst (reject_locked pid sv) = sv'"
    and "is_known env (sv\<lparr>sv_proposals := []\<rparr>) (f_name (sp_flow p)) = Inr False"
  shows "is_known env sv' (f_name (sp_flow p)) = Inr False"
proof -
  from assms(3) have get: "dict_get (sv_proposals sv) pid = Some p" and pend: "sp_status p = PENDING"
    by (auto simp: require_pending_Inr)
  from dict_set_split[OF get] obtain xs ys where d: "sv_proposals sv = xs @ (pid, p) # ys"
    and set: "dict_set (sv_proposals sv) pid w = xs @ (pid, w) # ys" for w by blast
  have sv': "sv' = sv\<lparr>sv_proposals := xs @ (pid, p\<lparr>sp_status := REJECTED\<rparr>) # ys\<rparr>"
    using assms(3,4) set by (simp add: reject_locked_def)
  have "distinct (live_names (xs @ (pid, p) # ys))" using assms(1) d by (simp add: service_ok_def)
  then have "\<not> list_ex (\<lambda>q. f_name (sp_flow q) = f_name (sp_flow p) \<and> live q) (map snd (xs @ ys))"
    using pend by (auto simp: live_names_def live_def list_ex_iff image_iff)
  with assms(5) show ?thesis by (auto simp: is_known_def sv' live_def)
qed

section \<open>A concrete service\<close>

text \<open>One tool to propose alone, and a callback that rejects the proposal it is told of.\<close>

definition lone_tool :: "unit tool" where
  "lone_tool = sample_tool ''a'' default_safety (\<lambda>w d. (w, 0, Inr (VDict d)))"

definition demo_config :: service_config where
  "demo_config =
     \<lparr>cf_analyze_on_tool_change = True, cf_analyze_interval = None, cf_min_trace_occurrences = 3,
      cf_min_pattern_length = 1, cf_min_determinism_score = 4 / 5, cf_enable_llm = False, cf_max_llm = 5,
      cf_auto_approve = False, cf_max_pending = 50\<rparr>"

definition told_id :: "val dict \<Rightarrow> string" where
  "told_id data = (case dict_get data ''proposal_id'' of Some (VStr pid) \<Rightarrow> pid | _ \<Rightarrow> [])"

definition demo_env :: "(nat, unit, mem_store, unit, unit) service_env" where
  "demo_env =
     \<lparr>se_config = demo_config, se_versions = (\<lambda>_. Some 0), se_store = in_memory_store, se_set_order = dedup_first,
      se_describe = (\<lambda>_ _ _. []), se_uuid = (\<lambda>n. replicate (Suc n) (CHR ''i'')), se_now = id, se_llm_fn = None,
      se_proposer = sample_proposer, se_prompt = (\<lambda>_ _. []), se_count_tokens = (\<lambda>_. 0), se_from_dict = (\<lambda>_. Inl []),
      se_call = (\<lambda>_ data sv. reject_locked (told_id data) sv)\<rparr>"

definition demo_observer :: observer where
  "demo_observer = \<lparr>ob_recorder = new_recorder, ob_current_id = None, ob_completed = [], ob_max_traces = None\<rparr>"

definition demo_service :: "(unit, mem_store, unit, unit) service" where
  "demo_service = put_tool lone_tool (new_service empty_registry demo_observer ())"

lemma demo_inj: "inj (se_uuid demo_env)"
  by (auto simp: demo_env_def intro!: injI dest: arg_cong[of _ _ length])

lemma demo_callbacks: "callbacks_step demo_env"
  unfolding callbacks_step_def by (auto simp: demo_env_def intro!: r_into_rtranclp service_step.Reject)

lemma demo_ok: "service_ok demo_env demo_service"
  unfolding demo_service_def by (intro service_ok_put_tool new_service_ok)

lemma demo_candidates: "analyzer_candidates demo_env (sv_tools demo_service) =
    Inr [\<lparr>cd_flow = chain_flow [(''a'', lone_tool)] [''a''], cd_source = ''analyzer'', cd_occurrences = 0, cd_confidence = 1, cd_avoided = 1\<rparr>]"
proof -
  have tools: "sv_tools demo_service = [(''a'', lone_tool)]"
    by (simp add: demo_service_def put_tool_def new_service_def Let_def lone_tool_def sample_tool_def)
  have name: "t_name lone_tool = ''a''" by (simp add: lone_tool_def sample_tool_def)
  have an: "analyzer [lone_tool] = Inr [(''a'', lone_tool)]" by (simp add: analyzer_def name)
  have matrix: "compatibility_matrix [(''a'', lone_tool)] = [(''a'', [])]"
    by (simp add: compatibility_matrix_def successors_def)
  have "dfs [(''a'', [])] None 3 [''a''] = [[''a'']]"
    by (simp add: dfs.simps[of "[(''a'', [])]" None 3 "[''a'']"])
  then have "suggest_flows [(''a'', lone_tool)] 3 None None 1 = Inr [chain_flow [(''a'', lone_tool)] [''a'']]"
    by (simp add: suggest_flows_def find_chains_def matrix)
  moreover have "length (f_steps (chain_flow [(''a'', lone_tool)] [''a''])) = 1"
    by (simp add: chain_flow_def mk_flow_def Let_def)
  ultimately show ?thesis
    by (simp add: analyzer_candidates_def tools an demo_env_def demo_config_def)
qed

lemma demo_observed: "observer_candidates demo_env demo_observer = Inr []"
  by (simp add: observer_candidates_def from_traces_def new_observer_def keep_newest_def suggest_observed_def Let_def
      demo_env_def demo_config_def demo_observer_def qualifying_patterns_def mine_def collapse_subsumed_def)

lemma demo_analysis: "\<exists>sv1. trigger_analysis demo_env demo_service = (sv1, Inr [''i''])"
proof -
  let ?c = "\<lparr>cd_flow = chain_flow [(''a'', lone_tool)] [''a''], cd_source = ''analyzer'', cd_occurrences = 0,
    cd_confidence = 1, cd_avoided = 1\<rparr>"
  have fields: "sv_observer demo_service = demo_observer" "sv_callbacks demo_service = []"
    by (simp_all add: demo_service_def put_tool_def new_service_def Let_def)
  obtain s where q: "queue_locked demo_env ?c demo_service = (s, Inr (Some (''i'', False)))" "sv_callbacks s = []"
    by (simp add: queue_locked_def Let_def demo_env_def demo_config_def is_known_def demo_service_def put_tool_def
        new_service_def list_flows_def in_memory_store_def empty_registry_def pending_def no_metrics_def)
  have "queue_all demo_env [?c] demo_service = (s, Inr [''i''])"
    using q by (simp add: queue_proposal_def emit_def)
  moreover have "\<not> cf_enable_llm (se_config demo_env)" by (simp add: demo_env_def demo_config_def)
  ultimately show ?thesis
    using q(2) by (simp add: trigger_analysis_def observer_pass_def analyzer_pass_def fields demo_observed demo_candidates Let_def emit_def)
qed

theorem analysis_is_quiet_witness:
  "\<exists>sv1 n. trigger_analysis demo_env demo_service = (sv1, Inr [''i'']) \<and> trigger_analysis demo_env sv1 = (bumped n sv1, Inr [])"
proof -
  obtain sv1 where run: "trigger_analysis demo_env demo_service = (sv1, Inr [''i''])" using demo_analysis by blast
  have "\<exists>n. trigger_analysis demo_env sv1 = (bumped n sv1, Inr [])"
    by (rule analysis_is_quiet[OF run])
      (simp_all add: manual_def demo_ok demo_inj, simp_all add: demo_env_def demo_config_def demo_service_def put_tool_def new_service_def Let_def)
  with run show ?thesis by blast
qed


theorem registry_gate_witness:
  "let sv1 = fst (queue_locked demo_env \<lparr>cd_flow = mk_flow ''f'' [], cd_source = ''observer'', cd_occurrences = 3, cd_confidence = 1,
        cd_avoided = 6\<rparr> (new_service empty_registry demo_observer ()));
       sv2 = fst (promote_locked demo_env ''i'' sv1)
   in gate_kept map_of empty_registry sv2 \<and> me_flows_promoted (sv_metrics sv1) = 0 \<and> me_flows_promoted (sv_metrics sv2) = 1"
proof -
  let ?sv0 = "new_service empty_registry demo_observer () :: (unit, mem_store, unit, unit) service"
  let ?c = "\<lparr>cd_flow = mk_flow ''f'' [], cd_source = ''observer'', cd_occurrences = 3, cd_confidence = 1, cd_avoided = 6\<rparr>"
  let ?sv1 = "fst (queue_locked demo_env ?c ?sv0)"
  have "service_steps demo_env ?sv0 (fst (promote_locked demo_env ''i'' ?sv1))"
    by (rule rtranclp_trans[of _ _ ?sv1]; rule r_into_rtranclp; intro service_step.Queue service_step.Promote)
  then have gate: "gate_kept map_of empty_registry (fst (promote_locked demo_env ''i'' ?sv1))"
    by (rule registry_gate) (simp_all add: demo_inj empty_registry_inv, simp add: demo_env_def)
  have "me_flows_promoted (sv_metrics ?sv1) = 0 \<and> me_flows_promoted (sv_metrics (fst (promote_locked demo_env ''i'' ?sv1))) = 1"
    by (simp add: queue_locked_def Let_def demo_env_def demo_config_def is_known_def promote_locked_def require_pending_def
        new_service_def list_flows_def in_memory_store_def empty_registry_def pending_def no_metrics_def
        register_flow_def parse_version_def save_in_def lift_touch_def touch_latest_def mk_flow_def af_simps flow_key_of_def)
  with gate show ?thesis by (simp add: Let_def)
qed

end
