(* ===== verification/Fuzz.thy ===== *)
theory Fuzz
  imports Attest Drift Compiler "HOL-Library.Stream"
begin

text \<open>
  The fuzzing harness \<open>chainweaver/fuzz.py\<close>: mutation of payloads, injection of faults into tool
  outputs, the fuzzer over the executor of \<open>FlowExec\<close>, and the minimiser of failing inputs.
  A generator of random numbers is the sequence of its draws.  The results: a mutation touches one
  top-level key; the minimiser ends in a failing input of which no key and no value can be reduced
  on its own; and fault injection runs tools that the executor would have refused.
\<close>

section \<open>Random draws\<close>

text \<open>
  \<open>random.Random\<close>: the numbers it will draw, each reduced to the range asked for (\<open>choice\<close>,
  \<open>randrange\<close> and \<open>randint\<close>); \<open>random()\<close> is a multiple of \<open>1 / 2 ^ 53\<close> below one.
\<close>

type_synonym rng = "nat stream"

definition below :: "nat \<Rightarrow> rng \<Rightarrow> nat \<times> rng" where
  "below n g = (shd g mod n, stl g)"

definition draw_from :: "'a list \<Rightarrow> rng \<Rightarrow> 'a \<times> rng" where
  "draw_from xs g = (xs ! fst (below (length xs) g), stl g)"

definition unit_draw :: "rng \<Rightarrow> rat \<times> rng" where
  "unit_draw g = (rat_of_nat (fst (below (2 ^ 53) g)) / 2 ^ 53, stl g)"

text \<open>
  What the language supplies: seeding, \<open>str\<close> of a set, \<open>str.upper\<close>, \<open>dict\<close> of a sequence, and the
  one literal of \<open>_ADVERSARIAL_STRINGS\<close> outside the model's characters.  \<open>fz_generate\<close> is
  \<open>generate_value\<close>, which fails with the text of an unsupported annotation.
\<close>

record fuzz_env =
  fz_seeded :: "int \<Rightarrow> rng"
  fz_set_text :: "val list \<Rightarrow> string"
  fz_upper :: "string \<Rightarrow> string"
  fz_dict_of :: "val \<Rightarrow> exn + val dict"
  fz_symbol :: string
  fz_generate :: "annotation \<Rightarrow> rng \<Rightarrow> (string + val) \<times> rng"

section \<open>Mutations\<close>

definition ADVERSARIAL_STRINGS :: "fuzz_env \<Rightarrow> string list" where
  "ADVERSARIAL_STRINGS env =
     ['''', '' '', ''0'', ''-1'', ''null'', fz_symbol env, ''../../etc/passwd'', replicate 1024 (CHR ''A'')]"

definition is_scalar :: "val \<Rightarrow> bool" where
  "is_scalar v = (case v of VNone \<Rightarrow> True | VStr s \<Rightarrow> True | VInt i \<Rightarrow> True | VBool b \<Rightarrow> True | _ \<Rightarrow> False)"

definition corrupt_scalar :: "fuzz_env \<Rightarrow> val \<Rightarrow> rng \<Rightarrow> val \<times> rng" where
  "corrupt_scalar env v g =
     (case v of
        VBool b \<Rightarrow> draw_from [VBool (\<not> b), VStr ''yes'', VInt 0] g
      | VInt i \<Rightarrow> draw_from [VStr (py_str (fz_set_text env) v), VInt (- i), VInt (i * 1000 + 1), VNone] g
      | VStr s \<Rightarrow> draw_from (map VStr (ADVERSARIAL_STRINGS env) @ [VStr (s @ ''!''), VStr (fz_upper env s)]) g
      | _ \<Rightarrow> draw_from (map VStr (ADVERSARIAL_STRINGS env)) g)"

definition corrupt :: "fuzz_env \<Rightarrow> val \<Rightarrow> rng \<Rightarrow> val \<times> rng" where
  "corrupt env v g = (if is_scalar v then corrupt_scalar env v g else (VNone, g))"

datatype strategy = Drop | Corrupt | Extra | Deep

text \<open>The value under a key of the mapping.\<close>

definition entry :: "val dict \<Rightarrow> string \<Rightarrow> val" where
  "entry d key = (case dict_get d key of None \<Rightarrow> VNone | Some v \<Rightarrow> v)"

lemma entry_smaller: "entry d key = VDict e \<Longrightarrow> size (VDict e) < size (VDict d)"
proof -
  assume "entry d key = VDict e"
  then have "(key, VDict e) \<in> set d" by (auto simp: entry_def dest: map_of_SomeD split: option.splits)
  then have "size_prod (\<lambda>_. 0) size (key, VDict e) \<le> size_list (size_prod (\<lambda>_. 0) size) d"
    by (rule size_list_estimation'[OF _ order_refl])
  then show ?thesis by simp
qed

text \<open>
  \<open>_mutate_mapping\<close>: one key and one strategy are drawn; an extra key is named after its value is
  drawn.
\<close>

function mutate_mapping :: "fuzz_env \<Rightarrow> val dict \<Rightarrow> rng \<Rightarrow> val dict \<times> rng" where
  "mutate_mapping env d g =
     (if d = [] then (d, g)
      else
        (case draw_from (sort (dict_keys d)) g of (key, g) \<Rightarrow>
           (case draw_from [Drop, Corrupt, Extra, Deep] g of (strategy, g) \<Rightarrow>
              (case strategy of
                 Drop \<Rightarrow> (dict_del d key, g)
               | Extra \<Rightarrow>
                   (case draw_from (map VStr (ADVERSARIAL_STRINGS env)) g of (v, g) \<Rightarrow>
                      (case below 10000 g of (n, g) \<Rightarrow> (dict_set d (''__fuzz_'' @ nat_text n) v, g)))
               | Deep \<Rightarrow>
                   (case entry d key of
                      VDict e \<Rightarrow> map_prod (\<lambda>e'. dict_set d key (VDict e')) id (mutate_mapping env e g)
                    | VList (x # xs) \<Rightarrow>
                        (case below (length (x # xs)) g of (i, g) \<Rightarrow>
                           map_prod (\<lambda>y. dict_set d key (VList ((x # xs)[i := y]))) id (corrupt env ((x # xs) ! i) g))
                    | v \<Rightarrow> map_prod (dict_set d key) id (corrupt env v g))
               | Corrupt \<Rightarrow> map_prod (dict_set d key) id (corrupt env (entry d key) g)))))"
  by pat_completeness auto
termination
  by (relation "measure (\<lambda>(env, d, g). size (VDict d))") (auto dest!: entry_smaller)

declare mutate_mapping.simps [simp del]

section \<open>Faults in tool outputs\<close>

text \<open>A hook may raise.\<close>

type_synonym fault_hook = "string \<Rightarrow> val dict \<Rightarrow> rng \<Rightarrow> (exn + val dict) \<times> rng"

definition new_fault_config :: "rat \<Rightarrow> exn + rat" where
  "new_fault_config p =
     (if \<not> (0 \<le> p \<and> p \<le> 1) then Inl (PyException ''FuzzConfigError'' ''output_fault_probability must be in [0.0, 1.0]'')
      else Inr p)"

definition default_fault_hook :: "fuzz_env \<Rightarrow> rat \<Rightarrow> fault_hook" where
  "default_fault_hook env p name outputs g =
     (case unit_draw g of (x, g) \<Rightarrow>
        if x \<ge> p then (Inr outputs, g) else map_prod Inr id (mutate_mapping env outputs g))"

text \<open>\<open>dict(outputs)\<close>.\<close>

definition to_dict :: "fuzz_env \<Rightarrow> val \<Rightarrow> exn + val dict" where
  "to_dict env v =
     (case v of
        VDict d \<Rightarrow> Inr d
      | VNone \<Rightarrow> Inl (PyTypeError ''object is not iterable'')
      | VBool b \<Rightarrow> Inl (PyTypeError ''object is not iterable'')
      | VInt i \<Rightarrow> Inl (PyTypeError ''object is not iterable'')
      | _ \<Rightarrow> fz_dict_of env v)"

text \<open>The generator of a case is part of the world; the slot says where.\<close>

record 'w rng_slot =
  get_rng :: "'w \<Rightarrow> rng"
  put_rng :: "rng \<Rightarrow> 'w \<Rightarrow> 'w"

definition faulty_fn ::
  "fuzz_env \<Rightarrow> 'w rng_slot \<Rightarrow> fault_hook \<Rightarrow> 'w tool \<Rightarrow> 'w \<Rightarrow> val dict \<Rightarrow> 'w \<times> nat \<times> (exn + val)" where
  "faulty_fn env slot hook tool w inp =
     (case t_fn tool w inp of (w, duration, out) \<Rightarrow>
        (case bind_err out (to_dict env) of
           Inl e \<Rightarrow> (w, duration, Inl e)
         | Inr outputs \<Rightarrow>
             (case hook (t_name tool) outputs (get_rng slot w) of (res, g) \<Rightarrow>
                (put_rng slot g w, duration, bind_err res (\<lambda>d. Inr (VDict d))))))"

definition wrap_tool_with_fault ::
  "fuzz_env \<Rightarrow> 'w rng_slot \<Rightarrow> fault_hook \<Rightarrow> 'w tool \<Rightarrow> exn + 'w tool" where
  "wrap_tool_with_fault env slot hook tool =
     new_tool \<lparr>a_name = t_name tool, a_description = t_description tool, a_input_schema = t_input_schema tool,
       a_output_schema = t_output_schema tool, a_fn = faulty_fn env slot hook tool, a_timeout = t_timeout tool,
       a_max_output_size = t_max_output_size tool, a_schema_version = t_schema_version tool,
       a_cacheable = Some (t_cacheable tool), a_safety = None, a_dry_run_fn = None, a_is_async = t_is_async tool\<rparr>"

fun wrap_tools :: "fuzz_env \<Rightarrow> 'w rng_slot \<Rightarrow> fault_hook \<Rightarrow> 'w tool list \<Rightarrow> exn + 'w tool list" where
  "wrap_tools env slot hook [] = Inr []"
| "wrap_tools env slot hook (t # ts) =
     bind_err (wrap_tool_with_fault env slot hook t) (\<lambda>t'.
       bind_err (wrap_tools env slot hook ts) (\<lambda>ts'. Inr (t' # ts')))"

section \<open>The fuzzer\<close>

text \<open>A check returns a truth value or raises.\<close>

record flow_property =
  fp_name :: string
  fp_check :: "execution_result \<Rightarrow> exn + bool"

definition flow_succeeds :: flow_property where
  "flow_succeeds = \<lparr>fp_name = ''flow_succeeds'', fp_check = (\<lambda>r. Inr (er_success r))\<rparr>"

definition final_output_present :: flow_property where
  "final_output_present =
     \<lparr>fp_name = ''final_output_present'', fp_check = (\<lambda>r. Inr (rd_final_output (er_data r) \<noteq> None))\<rparr>"

text \<open>\<open>_evaluate\<close>: is the property violated, and what did its check raise.\<close>

definition evaluate :: "flow_property \<Rightarrow> execution_result \<Rightarrow> bool \<times> exn option" where
  "evaluate prop r = (case fp_check prop r of Inl e \<Rightarrow> (True, Some e) | Inr holds \<Rightarrow> (\<not> holds, None))"

record fuzz_failure =
  ff_property :: string
  ff_case_index :: nat
  ff_initial_input :: "val dict"
  ff_result :: execution_result
  ff_check_error :: "exn option"

record fuzz_report =
  fr_flow_name :: string
  fr_runs :: int
  fr_seed :: int
  fr_property_names :: "string list"
  fr_failures :: "fuzz_failure list"

definition passed :: "fuzz_report \<Rightarrow> bool" where
  "passed report \<longleftrightarrow> fr_failures report = []"

record ('w, 'c, 'k) fuzzer =
  fu_executor :: "('w, 'c, 'k) executor"
  fu_flow :: any_flow
  fu_properties :: "flow_property list"
  fu_probability :: rat
  fu_hook :: "fault_hook option"

definition new_fuzzer :: "('w, 'c, 'k) fuzzer \<Rightarrow> exn + ('w, 'c, 'k) fuzzer" where
  "new_fuzzer fu =
     (if fu_properties fu = [] then Inl (PyException ''FuzzConfigError'' ''at least one property is required'') else Inr fu)"

fun generate_from_schema ::
  "fuzz_env \<Rightarrow> (string \<times> field_spec) list \<Rightarrow> rng \<Rightarrow> (exn + val dict) \<times> rng" where
  "generate_from_schema env [] g = (Inr [], g)"
| "generate_from_schema env ((name, info) # rest) g =
     (case fz_generate env (fs_annotation info) g of
        (Inl detail, g) \<Rightarrow>
          (Inl (PyException ''FuzzConfigError''
             (''cannot generate inputs for field '' @ name @ '' ('' @ detail @ ''); supply base_input'')), g)
      | (Inr v, g) \<Rightarrow>
          (case generate_from_schema env rest g of
             (Inl e, g) \<Rightarrow> (Inl e, g)
           | (Inr d, g) \<Rightarrow> (Inr ((name, v) # d), g)))"

text \<open>The payload of case \<open>i\<close>; \<open>source\<close> is the base input or the schema to generate from.\<close>

definition case_payload :: "fuzz_env \<Rightarrow> val dict + schema \<Rightarrow> nat \<Rightarrow> rng \<Rightarrow> (exn + val dict) \<times> rng" where
  "case_payload env source i g =
     (case source of
        Inl base \<Rightarrow> (if i > 0 then map_prod Inr id (mutate_mapping env base g) else (Inr base, g))
      | Inr schema \<Rightarrow>
          (case generate_from_schema env (sch_fields schema) g of
             (Inl e, g) \<Rightarrow> (Inl e, g)
           | (Inr payload, g) \<Rightarrow>
               (if i > 0 then
                  (case unit_draw g of (x, g) \<Rightarrow>
                     if x < 1 / 2 then map_prod Inr id (mutate_mapping env payload g) else (Inr payload, g))
                else (Inr payload, g))))"

fun build_cases :: "fuzz_env \<Rightarrow> val dict + schema \<Rightarrow> nat list \<Rightarrow> rng \<Rightarrow> exn + (nat \<times> val dict) list" where
  "build_cases env source [] g = Inr []"
| "build_cases env source (i # is) g =
     (case case_payload env source i g of (res, g) \<Rightarrow>
        bind_err res (\<lambda>payload. bind_err (build_cases env source is g) (\<lambda>cases. Inr ((i, payload) # cases))))"

definition case_source :: "('w, 'c, 'k) executor \<Rightarrow> any_flow \<Rightarrow> val dict option \<Rightarrow> exn + (val dict + schema)" where
  "case_source ex f base =
     (case base of
        Some d \<Rightarrow> Inr (Inl d)
      | None \<Rightarrow>
          bind_err (opt_schema (ex_platform ex) (af_input_ref f)) (\<lambda>s.
            case s of
              None \<Rightarrow> Inl (PyException ''FuzzConfigError''
                (''flow '' @ af_name f @ '' has no input_schema; supply base_input to fuzz it''))
            | Some schema \<Rightarrow> Inr (Inr schema)))"

text \<open>
  \<open>_execute\<close>.  The registry is threaded, since registering the wrapped tools could mark flows.
\<close>

definition execute_case ::
  "fuzz_env \<Rightarrow> 'w rng_slot \<Rightarrow> ('v :: linorder) version_parser \<Rightarrow> 's store_ops \<Rightarrow> ('w, 'c, 'k) fuzzer \<Rightarrow> int \<Rightarrow> nat \<times> val dict \<Rightarrow>
     's registry \<times> ('w, 'c, 'k) xstate \<Rightarrow> ('s registry \<times> ('w, 'c, 'k) xstate) \<times> (raised + execution_result)" where
  "execute_case env slot pv ops fu seed c s =
     (case s of (r, st) \<Rightarrow>
        (if 0 < fu_probability fu \<or> fu_hook fu \<noteq> None then
           (let st = st\<lparr>x_world := put_rng slot (fz_seeded env (seed * 1000003 + int (fst c))) (x_world st)\<rparr>;
                hook = (case fu_hook fu of Some h \<Rightarrow> h | None \<Rightarrow> default_fault_hook env (fu_probability fu))
            in (case wrap_tools env slot hook (map snd (ex_tools (fu_executor fu))) of
                  Inl e \<Rightarrow> ((r, st), Inl (RExn e))
                | Inr tools \<Rightarrow>
                    (case with_replaced_tools pv ops (fu_executor fu) tools r of
                       (r, Inl e) \<Rightarrow> ((r, st), Inl (RExn e))
                     | (r, Inr clone) \<Rightarrow> map_prod (Pair r) id (run_once clone (af_name (fu_flow fu)) (snd c) st))))
         else map_prod (Pair r) id (run_once (fu_executor fu) (af_name (fu_flow fu)) (snd c) st)))"

definition case_failures :: "flow_property list \<Rightarrow> nat \<times> val dict \<Rightarrow> execution_result \<Rightarrow> fuzz_failure list" where
  "case_failures props c r =
     List.map_filter (\<lambda>prop. case evaluate prop r of (violated, err) \<Rightarrow>
       if violated then Some \<lparr>ff_property = fp_name prop, ff_case_index = fst c, ff_initial_input = snd c,
                              ff_result = r, ff_check_error = err\<rparr>
       else None) props"

fun fuzz_cases ::
  "fuzz_env \<Rightarrow> 'w rng_slot \<Rightarrow> ('v :: linorder) version_parser \<Rightarrow> 's store_ops \<Rightarrow> ('w, 'c, 'k) fuzzer \<Rightarrow> int \<Rightarrow> (nat \<times> val dict) list \<Rightarrow>
     's registry \<times> ('w, 'c, 'k) xstate \<Rightarrow> ('s registry \<times> ('w, 'c, 'k) xstate) \<times> (raised + fuzz_failure list)" where
  "fuzz_cases env slot pv ops fu seed [] s = (s, Inr [])"
| "fuzz_cases env slot pv ops fu seed (c # cs) s =
     bind_st (execute_case env slot pv ops fu seed c s) (\<lambda>s r.
       bind_st (fuzz_cases env slot pv ops fu seed cs s) (\<lambda>s fs. (s, Inr (case_failures (fu_properties fu) c r @ fs))))"

definition fuzz ::
  "fuzz_env \<Rightarrow> 'w rng_slot \<Rightarrow> ('v :: linorder) version_parser \<Rightarrow> 's store_ops \<Rightarrow> ('w, 'c, 'k) fuzzer \<Rightarrow> int \<Rightarrow> int \<Rightarrow>
     val dict option \<Rightarrow> 's registry \<times> ('w, 'c, 'k) xstate \<Rightarrow>
     ('s registry \<times> ('w, 'c, 'k) xstate) \<times> (raised + fuzz_report)" where
  "fuzz env slot pv ops fu runs seed base s =
     (if runs < 1 then (s, Inl (RExn (PyException ''FuzzConfigError'' ''runs must be >= 1'')))
      else
        (case bind_err (case_source (fu_executor fu) (fu_flow fu) base) (\<lambda>source.
                build_cases env source [0..<nat runs] (fz_seeded env seed)) of
           Inl e \<Rightarrow> (s, Inl (RExn e))
         | Inr cases \<Rightarrow>
             bind_st (fuzz_cases env slot pv ops fu seed cases s) (\<lambda>s failures.
               (s, Inr \<lparr>fr_flow_name = af_name (fu_flow fu), fr_runs = runs, fr_seed = seed,
                        fr_property_names = map fp_name (fu_properties fu), fr_failures = failures\<rparr>))))"

section \<open>Minimisation\<close>

definition simpler_values :: "val \<Rightarrow> val list" where
  "simpler_values v =
     (case v of
        VBool b \<Rightarrow> if b then [VBool False] else []
      | VInt i \<Rightarrow> if i = 0 then [] else [VInt 0]
      | VStr s \<Rightarrow> if s = [] then [] else [VStr []]
      | VList xs \<Rightarrow> if xs = [] then [] else [VList []]
      | VDict d \<Rightarrow> if d = [] then [] else [VDict []]
      | _ \<Rightarrow> [])"

definition violates ::
  "('w, 'c, 'k) executor \<Rightarrow> string \<Rightarrow> flow_property \<Rightarrow> val dict \<Rightarrow> ('w, 'c, 'k) xstate
     \<Rightarrow> ('w, 'c, 'k) xstate \<times> (raised + bool)" where
  "violates ex name prop candidate st =
     bind_st (run_once ex name candidate st) (\<lambda>st r.
       (st, Inr (case fp_check prop r of Inl _ \<Rightarrow> True | Inr holds \<Rightarrow> \<not> holds)))"

text \<open>The two passes of a round over the sorted keys; each also says whether it reduced anything.\<close>

fun drop_keys ::
  "(val dict \<Rightarrow> 's \<Rightarrow> 's \<times> (raised + bool)) \<Rightarrow> string list \<Rightarrow> val dict \<times> bool \<Rightarrow> 's \<Rightarrow> 's \<times> (raised + val dict \<times> bool)" where
  "drop_keys bad [] cur st = (st, Inr cur)"
| "drop_keys bad (k # ks) cur st =
     bind_st (bad (dict_del (fst cur) k) st) (\<lambda>st b.
       drop_keys bad ks (if b then (dict_del (fst cur) k, True) else cur) st)"

fun first_bad ::
  "(val dict \<Rightarrow> 's \<Rightarrow> 's \<times> (raised + bool)) \<Rightarrow> val dict list \<Rightarrow> 's \<Rightarrow> 's \<times> (raised + val dict option)" where
  "first_bad bad [] st = (st, Inr None)"
| "first_bad bad (c # cs) st =
     bind_st (bad c st) (\<lambda>st b. if b then (st, Inr (Some c)) else first_bad bad cs st)"

fun simplify_keys ::
  "(val dict \<Rightarrow> 's \<Rightarrow> 's \<times> (raised + bool)) \<Rightarrow> string list \<Rightarrow> val dict \<times> bool \<Rightarrow> 's \<Rightarrow> 's \<times> (raised + val dict \<times> bool)" where
  "simplify_keys bad [] cur st = (st, Inr cur)"
| "simplify_keys bad (k # ks) cur st =
     bind_st (first_bad bad (map (dict_set (fst cur) k) (simpler_values (entry (fst cur) k))) st) (\<lambda>st c.
       simplify_keys bad ks (case c of Some d \<Rightarrow> (d, True) | None \<Rightarrow> cur) st)"

primrec rounds ::
  "(val dict \<Rightarrow> 's \<Rightarrow> 's \<times> (raised + bool)) \<Rightarrow> nat \<Rightarrow> val dict \<Rightarrow> 's \<Rightarrow> 's \<times> (raised + val dict)" where
  "rounds bad 0 cur st = (st, Inr cur)"
| "rounds bad (Suc n) cur st =
     bind_st (drop_keys bad (sort (dict_keys cur)) (cur, False) st) (\<lambda>st p.
       bind_st (simplify_keys bad (sort (dict_keys (fst p))) p st) (\<lambda>st q.
         if \<not> snd q then (st, Inr (fst q)) else rounds bad n (fst q) st))"

definition minimize_failure ::
  "('w, 'c, 'k) executor \<Rightarrow> string \<Rightarrow> flow_property \<Rightarrow> val dict \<Rightarrow> int \<Rightarrow> ('w, 'c, 'k) xstate
     \<Rightarrow> ('w, 'c, 'k) xstate \<times> (raised + val dict)" where
  "minimize_failure ex name prop failing max_rounds st =
     bind_st (violates ex name prop failing st) (\<lambda>st b.
       if \<not> b then (st, Inl (RExn (PyException ''FuzzConfigError''
          (''failing_input does not violate property '' @ fp_name prop @ ''; nothing to minimize''))))
       else rounds (violates ex name prop) (nat max_rounds) failing st)"

section \<open>A mutation touches one key\<close>

lemma dict_del_del: "dict_del (dict_del d k) k = dict_del d k"
  by (simp add: dict_del_def)

lemma dict_del_set: "dict_del (dict_set d k v) k = dict_del d k"
  by (induction d) (auto simp: dict_del_def)

text \<open>
  One step of mutation touches at most one top-level key: without that key the mutated payload
  is the payload, entry for entry and in the same order, whatever the generator draws.
\<close>

theorem mutation_touches_one_key:
  "\<exists>k. dict_del (fst (mutate_mapping env d g)) k = dict_del d k"
proof (cases "d = []")
  case True
  then show ?thesis by (simp add: mutate_mapping.simps)
next
  case False
  obtain key g1 where key: "draw_from (sort (dict_keys d)) g = (key, g1)" by fastforce
  obtain st g2 where st: "draw_from [Drop, Corrupt, Extra, Deep] g1 = (st, g2)" by fastforce
  show ?thesis
  proof (cases st)
    case Extra
    obtain v g3 where v: "draw_from (map VStr (ADVERSARIAL_STRINGS env)) g2 = (v, g3)" by fastforce
    obtain n g4 where n: "below 10000 g3 = (n, g4)" by fastforce
    have "mutate_mapping env d g = (dict_set d (''__fuzz_'' @ nat_text n) v, g4)"
      unfolding mutate_mapping.simps[of env d g] using False key st Extra v n by simp
    then show ?thesis by (metis dict_del_set fst_conv)
  qed (use False key st in \<open>intro exI[of _ key]; auto simp: mutate_mapping.simps[of env d g] dict_del_del dict_del_set
         split: prod.splits val.splits list.splits\<close>)+
qed

section \<open>Minimisation\<close>

text \<open>The passes when the verdict on an input is the same in every state that \<open>ok\<close> admits.\<close>

definition drop_step :: "(val dict \<Rightarrow> bool) \<Rightarrow> val dict \<times> bool \<Rightarrow> string \<Rightarrow> val dict \<times> bool" where
  "drop_step V cur k = (if V (dict_del (fst cur) k) then (dict_del (fst cur) k, True) else cur)"

definition simplify_step :: "(val dict \<Rightarrow> bool) \<Rightarrow> val dict \<times> bool \<Rightarrow> string \<Rightarrow> val dict \<times> bool" where
  "simplify_step V cur k =
     (case find V (map (dict_set (fst cur) k) (simpler_values (entry (fst cur) k))) of
        Some d \<Rightarrow> (d, True) | None \<Rightarrow> cur)"

primrec pure_rounds :: "(val dict \<Rightarrow> bool) \<Rightarrow> nat \<Rightarrow> val dict \<Rightarrow> val dict" where
  "pure_rounds V 0 cur = cur"
| "pure_rounds V (Suc n) cur =
     (let p = foldl (drop_step V) (cur, False) (sort (dict_keys cur));
          q = foldl (simplify_step V) p (sort (dict_keys (fst p)))
      in if \<not> snd q then fst q else pure_rounds V n (fst q))"

definition decides :: "('s \<Rightarrow> bool) \<Rightarrow> (val dict \<Rightarrow> 's \<Rightarrow> 's \<times> (raised + bool)) \<Rightarrow> (val dict \<Rightarrow> bool) \<Rightarrow> bool" where
  "decides ok bad V \<longleftrightarrow> (\<forall>c s. ok s \<longrightarrow> (\<exists>s'. bad c s = (s', Inr (V c)) \<and> ok s'))"

lemma decidesE: "decides ok bad V \<Longrightarrow> ok s \<Longrightarrow> (\<And>s'. bad c s = (s', Inr (V c)) \<Longrightarrow> ok s' \<Longrightarrow> P) \<Longrightarrow> P"
  by (auto simp: decides_def)

lemma drop_keys_pure:
  "decides ok bad V \<Longrightarrow> ok s \<Longrightarrow> \<exists>s'. drop_keys bad ks cur s = (s', Inr (foldl (drop_step V) cur ks)) \<and> ok s'"
proof (induction ks arbitrary: cur s)
  case (Cons k ks)
  obtain s1 where "bad (dict_del (fst cur) k) s = (s1, Inr (V (dict_del (fst cur) k)))" "ok s1"
    using Cons.prems by (rule decidesE)
  with Cons.IH[OF Cons.prems(1), of s1] show ?case by (simp add: drop_step_def)
qed simp

lemma first_bad_pure: "decides ok bad V \<Longrightarrow> ok s \<Longrightarrow> \<exists>s'. first_bad bad cs s = (s', Inr (find V cs)) \<and> ok s'"
proof (induction cs arbitrary: s)
  case (Cons c cs)
  obtain s1 where "bad c s = (s1, Inr (V c))" "ok s1" using Cons.prems by (rule decidesE)
  with Cons.IH[OF Cons.prems(1), of s1] show ?case by simp
qed simp

lemma simplify_keys_pure:
  "decides ok bad V \<Longrightarrow> ok s \<Longrightarrow>
     \<exists>s'. simplify_keys bad ks cur s = (s', Inr (foldl (simplify_step V) cur ks)) \<and> ok s'"
proof (induction ks arbitrary: cur s)
  case (Cons k ks)
  obtain s1 where "first_bad bad (map (dict_set (fst cur) k) (simpler_values (entry (fst cur) k))) s =
      (s1, Inr (find V (map (dict_set (fst cur) k) (simpler_values (entry (fst cur) k)))))" "ok s1"
    using first_bad_pure[OF Cons.prems] by blast
  with Cons.IH[OF Cons.prems(1), of s1] show ?case by (simp add: simplify_step_def)
qed simp

lemma rounds_pure: "decides ok bad V \<Longrightarrow> ok s \<Longrightarrow> \<exists>s'. rounds bad n cur s = (s', Inr (pure_rounds V n cur))"
proof (induction n arbitrary: cur s)
  case (Suc n)
  let ?p = "foldl (drop_step V) (cur, False) (sort (dict_keys cur))"
  let ?q = "foldl (simplify_step V) ?p (sort (dict_keys (fst ?p)))"
  obtain s1 where 1: "drop_keys bad (sort (dict_keys cur)) (cur, False) s = (s1, Inr ?p)" "ok s1"
    using drop_keys_pure[OF Suc.prems] by blast
  obtain s2 where 2: "simplify_keys bad (sort (dict_keys (fst ?p))) ?p s1 = (s2, Inr ?q)" "ok s2"
    using simplify_keys_pure[OF Suc.prems(1) 1(2)] by blast
  show ?case using Suc.IH[OF Suc.prems(1) 2(2), of "fst ?q"] by (simp add: 1 2 Let_def)
qed simp

text \<open>How much of an input can still be reduced: its keys and the values that are not simplest.\<close>

definition weight :: "val dict \<Rightarrow> nat" where
  "weight d = sum_list (map (\<lambda>(k, v). if simpler_values v = [] then 1 else 2) d)"

lemma weight_bound: "weight d \<le> 2 * length d"
  by (induction d) (auto simp: weight_def)

lemma weight_del: "k \<in> set (dict_keys d) \<Longrightarrow> weight (dict_del d k) < weight d"
proof (induction d)
  case (Cons kv d)
  have le: "weight (dict_del d k) \<le> weight d" for d
    by (induction d) (auto simp: weight_def dict_del_def)
  show ?case
  proof (cases "fst kv = k")
    case True
    then have "weight (dict_del (kv # d) k) = weight (dict_del d k)" by (simp add: dict_del_def)
    with le[of d] show ?thesis by (simp add: weight_def split: prod.split)
  next
    case False
    with Cons show ?thesis by (auto simp: weight_def dict_del_def)
  qed
qed simp

lemma simpler_is_simplest: "s \<in> set (simpler_values v) \<Longrightarrow> simpler_values s = [] \<and> simpler_values v \<noteq> []"
  by (auto simp: simpler_values_def split: val.splits if_splits)

lemma entry_get: "dict_get d k = Some v \<Longrightarrow> entry d k = v"
  by (simp add: entry_def)

lemma weight_set: "dict_get d k = Some v \<Longrightarrow> s \<in> set (simpler_values v) \<Longrightarrow> weight (dict_set d k s) < weight d"
  by (induction d) (auto simp: weight_def dest: simpler_is_simplest)

text \<open>An input that only lost keys and whose values are the original ones or simplest.\<close>

definition shrunk_from :: "val dict \<Rightarrow> val dict \<Rightarrow> bool" where
  "shrunk_from original d \<longleftrightarrow>
     (\<forall>k v. dict_get d k = Some v \<longrightarrow>
        (case dict_get original k of None \<Rightarrow> False | Some u \<Rightarrow> v = u \<or> v \<in> set (simpler_values u)))"

lemma dict_keys_del: "set (dict_keys (dict_del d k)) = set (dict_keys d) - {k}"
  by (auto simp: dict_del_def)

lemma shrunk_refl: "shrunk_from d d"
  by (simp add: shrunk_from_def)

lemma shrunk_trans: "shrunk_from a b \<Longrightarrow> shrunk_from b c \<Longrightarrow> shrunk_from a c"
  unfolding shrunk_from_def
  by (fastforce split: option.splits dest: simpler_is_simplest)

lemma shrunk_del: "shrunk_from d (dict_del d k)"
  by (simp add: shrunk_from_def dict_get_del)

lemma shrunk_set: "dict_get d k = Some v \<Longrightarrow> s \<in> set (simpler_values v) \<Longrightarrow> shrunk_from d (dict_set d k s)"
  by (simp add: shrunk_from_def dict_get_set)

text \<open>An input of which no key can be dropped and no value simplified on its own.\<close>

definition irreducible :: "(val dict \<Rightarrow> bool) \<Rightarrow> val dict \<Rightarrow> bool" where
  "irreducible V d \<longleftrightarrow>
     (\<forall>k\<in>set (dict_keys d). \<not> V (dict_del d k) \<and> (\<forall>s\<in>set (simpler_values (entry d k)). \<not> V (dict_set d k s)))"

text \<open>What a pass does: it keeps the verdict, and either changes nothing or reduces the weight.\<close>

definition pass_ok :: "(val dict \<Rightarrow> bool) \<Rightarrow> (string \<Rightarrow> bool) \<Rightarrow> string list \<Rightarrow> val dict \<times> bool \<Rightarrow> val dict \<times> bool \<Rightarrow> bool" where
  "pass_ok V stuck ks cur cur' \<longleftrightarrow>
     dict_ok (fst cur') \<and> V (fst cur') \<and> shrunk_from (fst cur) (fst cur') \<and>
     (cur' = cur \<and> (\<forall>k\<in>set ks. stuck k) \<or> snd cur' \<and> weight (fst cur') < weight (fst cur))"

lemma pass_ok_step:
  assumes "pass_ok V stuck ks cur1 cur2" "snd cur1" "shrunk_from (fst cur) (fst cur1)" "weight (fst cur1) < weight (fst cur)"
  shows "pass_ok V stuck' ks' cur cur2"
  using assms unfolding pass_ok_def by (auto intro: shrunk_trans)

lemma drop_pass:
  assumes "dict_ok (fst cur)" "V (fst cur)" "distinct ks" "set ks \<subseteq> set (dict_keys (fst cur))"
  shows "pass_ok V (\<lambda>k. \<not> V (dict_del (fst cur) k)) ks cur (foldl (drop_step V) cur ks)"
  using assms
proof (induction ks arbitrary: cur)
  case Nil
  then show ?case by (simp add: pass_ok_def shrunk_refl)
next
  case (Cons k ks)
  let ?d = "dict_del (fst cur) k"
  show ?case
  proof (cases "V ?d")
    case True
    have "set ks \<subseteq> set (dict_keys ?d)" using Cons.prems(3,4) by (simp only: dict_keys_del) auto
    then have "pass_ok V (\<lambda>k. \<not> V (dict_del (fst (?d, True)) k)) ks (?d, True) (foldl (drop_step V) (?d, True) ks)"
      using Cons.prems True by (intro Cons.IH) (simp_all add: dict_ok_del)
    moreover have "foldl (drop_step V) cur (k # ks) = foldl (drop_step V) (?d, True) ks"
      using True by (simp add: drop_step_def)
    moreover have "shrunk_from (fst cur) ?d" "weight ?d < weight (fst cur)"
      using Cons.prems(4) by (simp_all add: shrunk_del weight_del)
    ultimately show ?thesis using pass_ok_step[of V _ ks "(?d, True)" _ cur] by simp
  next
    case False
    then have "foldl (drop_step V) cur (k # ks) = foldl (drop_step V) cur ks" by (simp add: drop_step_def)
    with Cons.IH[of cur] Cons.prems False show ?thesis by (auto simp: pass_ok_def)
  qed
qed

lemma simplify_pass:
  assumes "dict_ok (fst cur)" "V (fst cur)" "set ks \<subseteq> set (dict_keys (fst cur))"
  shows "pass_ok V (\<lambda>k. \<forall>s\<in>set (simpler_values (entry (fst cur) k)). \<not> V (dict_set (fst cur) k s)) ks cur
     (foldl (simplify_step V) cur ks)"
  using assms
proof (induction ks arbitrary: cur)
  case Nil
  then show ?case by (simp add: pass_ok_def shrunk_refl)
next
  case (Cons k ks)
  let ?cs = "map (dict_set (fst cur) k) (simpler_values (entry (fst cur) k))"
  show ?case
  proof (cases "find V ?cs")
    case None
    then have "foldl (simplify_step V) cur (k # ks) = foldl (simplify_step V) cur ks" by (simp add: simplify_step_def)
    moreover from None have "\<forall>s\<in>set (simpler_values (entry (fst cur) k)). \<not> V (dict_set (fst cur) k s)"
      by (auto simp: find_None_iff)
    ultimately show ?thesis using Cons.IH[of cur] Cons.prems by (auto simp: pass_ok_def)
  next
    case (Some d)
    then obtain s where s: "s \<in> set (simpler_values (entry (fst cur) k))" "d = dict_set (fst cur) k s" "V d"
      using nth_mem by (fastforce simp: find_Some_iff)
    obtain v where v: "dict_get (fst cur) k = Some v"
      using Cons.prems(3) dict_has_iff[of "fst cur" k] by auto
    note s' = s(1)[unfolded entry_get[OF v]]
    have keys: "set ks \<subseteq> set (dict_keys (fst (d, True)))"
      using Cons.prems(3) unfolding s(2) fst_conv by (simp only: dict_keys_set) auto
    have "pass_ok V (\<lambda>k. \<forall>s\<in>set (simpler_values (entry (fst (d, True)) k)). \<not> V (dict_set (fst (d, True)) k s)) ks (d, True)
        (foldl (simplify_step V) (d, True) ks)"
      using Cons.prems(1) s keys by (intro Cons.IH) (simp_all add: dict_ok_set)
    moreover have "foldl (simplify_step V) cur (k # ks) = foldl (simplify_step V) (d, True) ks"
      using Some by (simp add: simplify_step_def)
    moreover have "shrunk_from (fst cur) d" "weight d < weight (fst cur)"
      unfolding s(2) by (rule shrunk_set[OF v s'], rule weight_set[OF v s'])
    ultimately show ?thesis using pass_ok_step[of V _ ks "(d, True)" _ cur] by simp
  qed
qed

lemma pure_rounds_minimal:
  "dict_ok d \<Longrightarrow> V d \<Longrightarrow>
     V (pure_rounds V n d) \<and> shrunk_from d (pure_rounds V n d) \<and> (weight d < n \<longrightarrow> irreducible V (pure_rounds V n d))"
proof (induction n arbitrary: d)
  case 0
  then show ?case by (simp add: shrunk_refl)
next
  case (Suc n)
  let ?p = "foldl (drop_step V) (d, False) (sort (dict_keys d))"
  let ?q = "foldl (simplify_step V) ?p (sort (dict_keys (fst ?p)))"
  have p: "pass_ok V (\<lambda>k. \<not> V (dict_del d k)) (sort (dict_keys d)) (d, False) ?p"
    using drop_pass[of "(d, False)" V "sort (dict_keys d)"] Suc.prems by simp
  then have q: "pass_ok V (\<lambda>k. \<forall>s\<in>set (simpler_values (entry (fst ?p) k)). \<not> V (dict_set (fst ?p) k s))
      (sort (dict_keys (fst ?p))) ?p ?q"
    by (intro simplify_pass) (auto simp: pass_ok_def)
  have all: "dict_ok (fst ?q)" "V (fst ?q)" "shrunk_from d (fst ?q)"
    using p q by (auto simp: pass_ok_def intro: shrunk_trans)
  show ?case
  proof (cases "snd ?q")
    case True
    with p q have "weight (fst ?q) < weight d" by (auto simp: pass_ok_def)
    with Suc.IH[of "fst ?q"] all True show ?thesis by (auto simp: Let_def intro: shrunk_trans)
  next
    case False
    with p q have "?p = (d, False)" "?q = (d, False)" "irreducible V d"
      by (auto simp: pass_ok_def irreducible_def)
    with all show ?thesis by (simp add: Let_def)
  qed
qed

text \<open>
  C37: When the outcome of the property depends on the input alone (in the states the runs lead
  through), the minimiser of a failing input
  returns an input that still violates the property, has no other keys, and holds the original or
  the simplest value under each; and when the input has fewer than half as many keys as there are
  rounds, no key of the result can be dropped and no value simplified on its own.
\<close>

theorem minimal_reproducer:
  assumes "decides ok (violates ex name prop) V" "ok st" "V failing" "dict_ok failing"
  shows "\<exists>st' m. minimize_failure ex name prop failing max_rounds st = (st', Inr m) \<and> V m \<and> shrunk_from failing m \<and>
    (2 * length failing < nat max_rounds \<longrightarrow> irreducible V m)"
proof -
  let ?m = "pure_rounds V (nat max_rounds) failing"
  obtain s1 where 1: "violates ex name prop failing st = (s1, Inr (V failing))" "ok s1"
    using assms(1,2) by (rule decidesE)
  obtain s2 where "rounds (violates ex name prop) (nat max_rounds) failing s1 = (s2, Inr ?m)"
    using rounds_pure[OF assms(1) 1(2)] by blast
  then have "minimize_failure ex name prop failing max_rounds st = (s2, Inr ?m)"
    using 1 assms(3) by (simp add: minimize_failure_def)
  moreover from pure_rounds_minimal[of failing V "nat max_rounds"] assms(3,4) weight_bound[of failing]
  have "V ?m \<and> shrunk_from failing ?m \<and> (2 * length failing < nat max_rounds \<longrightarrow> irreducible V ?m)" by linarith
  ultimately show ?thesis by blast
qed

text \<open>An executor whose only tool has no output, so a run ends with the initial context.\<close>

definition silent :: "nat tool" where
  "silent = sample_tool ''noop'' default_safety (\<lambda>w d. (w, 0, Inr (VDict [])))"

definition silent_flow :: any_flow where
  "silent_flow = LinearFlow (mk_flow ''f'' [mk_step\<lparr>s_tool_name := Some ''noop''\<rparr>])"

definition silent_ex :: "(nat, unit, unit) executor" where
  "silent_ex = sample_executor [silent_flow] [(''noop'', silent)]"

lemma silent_run:
  "l_dynamic_params (x_local st) = [] \<Longrightarrow>
     \<exists>st' r. run_once silent_ex ''f'' c st = (st', Inr r) \<and> rd_final_output (er_data r) = Some (dict_update [] c) \<and>
       l_dynamic_params (x_local st') = []"
  by (simp add: run_eval run_once_def silent_ex_def silent_flow_def silent_def sample_executor_def sample_platform_def)

text \<open>A property that holds when exactly one of two keys is there.\<close>

definition one_of_two :: flow_property where
  "one_of_two = \<lparr>fp_name = ''one_of_two'', fp_check = (\<lambda>r.
     case rd_final_output (er_data r) of
       None \<Rightarrow> Inr True
     | Some d \<Rightarrow> Inr (dict_has d ''a'' \<noteq> dict_has d ''b''))\<rparr>"

definition both_or_none :: "val dict \<Rightarrow> bool" where
  "both_or_none d \<longleftrightarrow> dict_has d ''a'' = dict_has d ''b''"

lemma has_update: "dict_has (dict_update [] c) k = dict_has c k"
  by (simp only: dict_has_iff dict_keys_update) simp

lemma one_of_two_decided: "decides (\<lambda>s. l_dynamic_params (x_local s) = []) (violates silent_ex ''f'' one_of_two) both_or_none"
  unfolding decides_def
proof (intro allI impI)
  fix c and s :: "(nat, unit, unit) xstate"
  assume "l_dynamic_params (x_local s) = []"
  then obtain st' r where "run_once silent_ex ''f'' c s = (st', Inr r)" "rd_final_output (er_data r) = Some (dict_update [] c)"
    "l_dynamic_params (x_local st') = []"
    using silent_run by blast
  then show "\<exists>s'. violates silent_ex ''f'' one_of_two c s = (s', Inr (both_or_none c)) \<and> l_dynamic_params (x_local s') = []"
    using has_update[of c "''a''"] has_update[of c "''b''"] by (simp add: violates_def one_of_two_def both_or_none_def)
qed

lemma sample_local: "l_dynamic_params (x_local sample_state) = []"
  by (simp add: sample_state_def fresh_local_def)

theorem minimal_reproducer_witness:
  "\<exists>st' m. minimize_failure silent_ex ''f'' one_of_two [(''b'', VStr ''x''), (''a'', VInt 5)] 50 sample_state = (st', Inr m) \<and>
     both_or_none m \<and> irreducible both_or_none m"
  using minimal_reproducer[OF one_of_two_decided sample_local, of "[(''b'', VStr ''x''), (''a'', VInt 5)]" 50]
  by (auto simp: both_or_none_def)

text \<open>
  The result is not the smallest failing input, as the documentation of \<open>minimize_failure\<close> says:
  here the empty input fails too, but no single key leads to it.
\<close>

theorem minimum_missed:
  "\<exists>st'. minimize_failure silent_ex ''f'' one_of_two [(''b'', VStr ''x''), (''a'', VInt 5)] 50 sample_state =
     (st', Inr [(''b'', VStr []), (''a'', VInt 0)]) \<and>
   (\<exists>s. violates silent_ex ''f'' one_of_two [] sample_state = (s, Inr True))"
proof -
  let ?d = "[(''b'', VStr ''x''), (''a'', VInt 5)]"
  obtain s1 where 1: "violates silent_ex ''f'' one_of_two ?d sample_state = (s1, Inr (both_or_none ?d))"
    and ok: "l_dynamic_params (x_local s1) = []" using one_of_two_decided sample_local by (rule decidesE)
  obtain s2 where 2: "violates silent_ex ''f'' one_of_two [] sample_state = (s2, Inr (both_or_none []))"
    using one_of_two_decided sample_local by (rule decidesE)
  obtain s3 where 3: "rounds (violates silent_ex ''f'' one_of_two) (nat 50) ?d s1 = (s3, Inr (pure_rounds both_or_none (nat 50) ?d))"
    using rounds_pure[OF one_of_two_decided ok] by blast
  have "pure_rounds both_or_none (Suc (Suc n)) ?d = [(''b'', VStr []), (''a'', VInt 0)]" for n
    by (simp add: Let_def drop_step_def simplify_step_def both_or_none_def dict_del_def entry_def simpler_values_def)
  then have "pure_rounds both_or_none (nat 50) ?d = [(''b'', VStr []), (''a'', VInt 0)]" by (simp add: eval_nat_numeral)
  with 1 2 3 show ?thesis by (simp add: minimize_failure_def both_or_none_def)
qed

section \<open>Fault injection\<close>

text \<open>
  A wrapped tool always builds; its schema hash is the tool's, its safety contract is the default
  one.
\<close>

lemma default_contract: "reconcile_cacheable (Some c) None = Inr (default_safety\<lparr>cacheable := c\<rparr>)"
  by (simp add: reconcile_cacheable_def ToolSafetyContract_def normalise_input_def side_effect_of_def
      validate_read_only_def normalise_review_def is_read_only_def empty_payload_def default_safety_def default_arg_def)

definition wrapped :: "fuzz_env \<Rightarrow> 'w rng_slot \<Rightarrow> fault_hook \<Rightarrow> 'w tool \<Rightarrow> 'w tool" where
  "wrapped env slot hook tool =
     tool\<lparr>t_fn := faulty_fn env slot hook tool, t_safety := default_safety\<lparr>cacheable := t_cacheable tool\<rparr>,
          t_safety_declared := False, t_dry_run_fn := None\<rparr>"

lemma wrap_tool_with_fault_wrapped: "wrap_tool_with_fault env slot hook tool = Inr (wrapped env slot hook tool)"
  by (cases tool) (simp add: wrap_tool_with_fault_def new_tool_def default_contract wrapped_def default_safety_def)

lemma wrapped_schema_hash: "schema_hash pl (wrapped env slot hook tool) = schema_hash pl tool"
  by (simp add: schema_hash_def wrapped_def)

text \<open>
  So a run with fault injection is not gated: a strict executor with a read-only ceiling refuses to
  call the writing tool, and its fuzzer calls it, with a hook that changes nothing.
\<close>

definition capped_fuzzer :: "(nat, unit, unit) fuzzer" where
  "capped_fuzzer =
     \<lparr>fu_executor = capped_ex, fu_flow = write_flow, fu_properties = [flow_succeeds], fu_probability = 0,
      fu_hook = Some (\<lambda>name outputs g. (Inr outputs, g))\<rparr>"

theorem faults_drop_gates:
  "x_world (fst (run_once capped_ex ''f'' [] sample_state)) = 0 \<and>
   x_world (snd (fst (execute_case env \<lparr>get_rng = \<lambda>w. sconst 0, put_rng = \<lambda>g w. w\<rparr> plain_versions in_memory_store
     capped_fuzzer 0 (0, []) (empty_registry, sample_state)))) = 1"
proof
  show "x_world (fst (run_once capped_ex ''f'' [] sample_state)) = 0"
    by (simp add: run_once_def run_eval capped_ex_def)
  let ?slot = "\<lparr>get_rng = \<lambda>w. sconst 0, put_rng = \<lambda>g w. w\<rparr> :: nat rng_slot"
  let ?hook = "\<lambda>name outputs g. (Inr outputs, g) :: (exn + val dict) \<times> rng"
  let ?t = "wrapped env ?slot ?hook writer"
  have name: "t_name ?t = ''write''" by (simp add: wrapped_def writer_def sample_tool_def)
  let ?clone = "(replaced_base capped_ex)\<lparr>ex_tools := [(''write'', ?t)]\<rparr>"
  have clone: "with_replaced_tools plain_versions in_memory_store capped_ex [?t] empty_registry = (empty_registry, Inr ?clone)"
    using register_single [of sample_platform plain_versions in_memory_store ?t empty_registry]
    by (simp add: with_replaced_tools_def capped_ex_def sample_ex_simps name del: register_tools.simps)
  have tools: "ex_tools capped_ex = [(''write'', writer)]" by (simp add: capped_ex_def sample_ex_simps)
  have af: "af_name write_flow = ''f''" by (simp add: write_flow_def mk_flow_def af_simps)
  have ran: "x_world (fst (run_once ?clone ''f'' [] sample_state)) = 1"
    by (simp add: run_once_def run_eval capped_ex_def replaced_base_def wrapped_def faulty_fn_def to_dict_def)
  show "x_world (snd (fst (execute_case env ?slot plain_versions in_memory_store
     capped_fuzzer 0 (0, []) (empty_registry, sample_state)))) = 1"
    by (simp add: execute_case_def capped_fuzzer_def Let_def tools wrap_tool_with_fault_wrapped clone ran af)
qed

section \<open>Cases\<close>

text \<open>A longer run begins with the cases of a shorter one, and its first case is not mutated.\<close>

lemma build_cases_prefix:
  "build_cases env source (is @ js) g = Inr cs \<Longrightarrow> build_cases env source is g = Inr (take (length is) cs)"
proof (induction "is" arbitrary: g cs)
  case (Cons i "is")
  obtain res g1 where p: "case_payload env source i g = (res, g1)" by fastforce
  obtain d rest where "res = Inr d" "build_cases env source (is @ js) g1 = Inr rest" "cs = (i, d) # rest"
    using Cons.prems by (auto simp: p bind_err_Inr_iff)
  with Cons.IH[of g1 rest] show ?case by (simp add: p)
qed simp

lemma first_case_pristine:
  "build_cases env (Inl base) (0 # is) g = Inr cs \<Longrightarrow> hd cs = (0, base)"
  by (auto simp: case_payload_def bind_err_Inr_iff)

end
