(* ===== verification/Fixture.thy ===== *)
theory Fixture
  imports Redaction PyText Sample
begin

text \<open>
  Recorded tool calls (\<open>chainweaver/testing/replay.py\<close>): the session that records the calls of
  tools or serves recorded outputs, the fixture file and its validation, and the lookup.  The JSON
  library is an argument: \<open>loads\<close>, and \<open>dumps\<close> for the indented text with sorted keys.  The results:
  a replayed call gets the recording that its place among the calls of its key says, so a session
  replays what it recorded, unless redaction changed a recorded input.
\<close>

section \<open>Interactions\<close>

text \<open>\<open>json.loads(json.dumps(v, default=str))\<close>: a set becomes its text.\<close>

primrec json_safe :: "(val list \<Rightarrow> string) \<Rightarrow> val \<Rightarrow> val" where
  "json_safe set_text VNone = VNone"
| "json_safe set_text (VBool b) = VBool b"
| "json_safe set_text (VInt i) = VInt i"
| "json_safe set_text (VStr s) = VStr s"
| "json_safe set_text (VList xs) = VList (map (json_safe set_text) xs)"
| "json_safe set_text (VDict d) = VDict (map (map_prod id (json_safe set_text)) d)"
| "json_safe set_text (VSet xs) = VStr (set_text xs)"

definition json_safe_dict :: "(val list \<Rightarrow> string) \<Rightarrow> val dict \<Rightarrow> val dict" where
  "json_safe_dict set_text d = map (map_prod id (json_safe set_text)) d"

record interaction =
  in_tool :: string
  in_input :: "val dict"
  in_output :: "val dict"

section \<open>The fixture file\<close>

text \<open>Content is the text of the file, when there is one.\<close>

definition FIXTURE_FORMAT_VERSION :: int where
  "FIXTURE_FORMAT_VERSION = 1"

definition malformed :: "string \<Rightarrow> exn" where
  "malformed m = ValueError (''Replay fixture is malformed: '' @ m)"

definition validate_interaction :: "nat \<times> val \<Rightarrow> exn + interaction" where
  "validate_interaction = (\<lambda>(idx, item).
     case item of
       VDict d \<Rightarrow>
         (let missing = sort (filter (\<lambda>k. \<not> dict_has d k) [''tool_name'', ''input'', ''output''])
          in if missing \<noteq> [] then Inl (malformed (''interaction '' @ nat_text idx @ '' is missing key(s)''))
             else
               (case the (dict_get d ''tool_name'') of
                  VStr name \<Rightarrow>
                    (case (the (dict_get d ''input''), the (dict_get d ''output'')) of
                       (VDict inp, VDict out) \<Rightarrow> Inr \<lparr>in_tool = name, in_input = inp, in_output = out\<rparr>
                     | _ \<Rightarrow> Inl (malformed (''interaction '' @ nat_text idx @ '': input and output must be objects'')))
                | _ \<Rightarrow> Inl (malformed (''interaction '' @ nat_text idx @ '': tool_name must be a string''))))
     | _ \<Rightarrow> Inl (malformed (''interaction '' @ nat_text idx @ '' must be an object'')))"

definition load_fixture :: "(string \<Rightarrow> exn + val) \<Rightarrow> string option \<Rightarrow> exn + interaction list" where
  "load_fixture loads content =
     (case content of
        None \<Rightarrow> Inl (PyException ''FileNotFoundError'' ''Replay fixture does not exist.'')
      | Some t \<Rightarrow>
          bind_err (loads t) (\<lambda>payload.
            case payload of
              VDict d \<Rightarrow>
                (if \<not> py_eq (VInt FIXTURE_FORMAT_VERSION) (case dict_get d ''version'' of None \<Rightarrow> VNone | Some v \<Rightarrow> v)
                 then Inl (ValueError ''Replay fixture has unsupported version'')
                 else
                   (case (case dict_get d ''interactions'' of None \<Rightarrow> VList [] | Some v \<Rightarrow> v) of
                      VList items \<Rightarrow> map_err validate_interaction (enumerate 0 items)
                    | _ \<Rightarrow> Inl (malformed ''interactions must be a list'')))
            | _ \<Rightarrow> Inl (malformed ''expected an object'')))"

definition interaction_value :: "redaction_policy \<Rightarrow> interaction \<Rightarrow> val" where
  "interaction_value p x =
     VDict [(''tool_name'', VStr (in_tool x)), (''input'', VDict (redact p (in_input x))),
            (''output'', VDict (redact p (in_output x)))]"

definition save_fixture :: "(val \<Rightarrow> string) \<Rightarrow> redaction_policy \<Rightarrow> interaction list \<Rightarrow> string" where
  "save_fixture dumps p xs =
     dumps (VDict [(''version'', VInt FIXTURE_FORMAT_VERSION), (''interactions'', VList (map (interaction_value p) xs))])
       @ [CHR 0x0A]"

section \<open>Lookup\<close>

definition canonical_key :: "(val list \<Rightarrow> string) \<Rightarrow> string \<Rightarrow> val dict \<Rightarrow> string \<times> string" where
  "canonical_key set_text tool inp = (tool, json_dumps set_text '', '' '': '' (sort_keys (VDict inp)))"

record fixture =
  fx_interactions :: "interaction list"
  fx_cursors :: "((string \<times> string) \<times> nat) list"

definition same_call :: "string \<Rightarrow> val dict \<Rightarrow> interaction \<Rightarrow> bool" where
  "same_call tool inp x \<longleftrightarrow> in_tool x = tool \<and> py_eq (VDict (in_input x)) (VDict inp)"

definition fixture_stale :: "string \<Rightarrow> string \<Rightarrow> exn" where
  "fixture_stale tool detail = PyException ''FixtureStaleError'' (''Fixture is stale for tool '' @ tool @ '': '' @ detail)"

definition consume_recording ::
  "(val list \<Rightarrow> string) \<Rightarrow> string \<Rightarrow> val dict \<Rightarrow> fixture \<Rightarrow> fixture \<times> (exn + val dict)" where
  "consume_recording set_text tool inp fx =
     (let key = canonical_key set_text tool inp;
          cursor = (case dict_get (fx_cursors fx) key of None \<Rightarrow> 0 | Some n \<Rightarrow> n)
      in case find (\<lambda>(i, x). same_call tool inp x) (drop cursor (enumerate 0 (fx_interactions fx))) of
           Some (i, x) \<Rightarrow> (fx\<lparr>fx_cursors := dict_set (fx_cursors fx) key (i + 1)\<rparr>, Inr (in_output x))
         | None \<Rightarrow>
             (fx, Inl (fixture_stale tool
                (if list_ex (same_call tool inp) (fx_interactions fx)
                 then ''no more recordings for this (tool, input) pair.''
                 else ''this (tool, input) pair was not in the recording.''))))"

section \<open>Sessions\<close>

text \<open>
  The patched \<open>_call_fn\<close>: an asynchronous tool passes through it to the patched
  \<open>_call_fn_async\<close>, which records or replays the call; \<open>dict_of\<close> is \<open>dict\<close> of what is no mapping.
\<close>

datatype mode = RECORD | REPLAY

definition mode_of :: "string option \<Rightarrow> mode" where
  "mode_of env = (if env = Some ''1'' then RECORD else REPLAY)"

definition output_dict :: "(val \<Rightarrow> exn + val dict) \<Rightarrow> val \<Rightarrow> exn + val dict" where
  "output_dict dict_of out = (case out of VDict d \<Rightarrow> Inr d | _ \<Rightarrow> dict_of out)"

definition patched_call ::
  "'w platform \<Rightarrow> (val \<Rightarrow> exn + val dict) \<Rightarrow> mode \<Rightarrow> 'w tool \<Rightarrow> val dict \<Rightarrow> 'w \<times> fixture \<Rightarrow> ('w \<times> fixture) \<times> (exn + val)" where
  "patched_call pl dict_of m tool inp s =
     (if t_is_async tool \<and> pl_in_loop pl then (s, Inl (ToolDefinitionError (t_name tool)))
      else
        (let canonical = json_safe_dict (pl_set_text pl) inp
         in case m of
              REPLAY \<Rightarrow>
                (case consume_recording (pl_set_text pl) (t_name tool) canonical (snd s) of
                   (fx, res) \<Rightarrow> ((fst s, fx), bind_err res (\<lambda>d. Inr (VDict d))))
            | RECORD \<Rightarrow>
                (case call_fn pl tool (fst s) inp of
                   (w, Inl e) \<Rightarrow> ((w, snd s), Inl e)
                 | (w, Inr out) \<Rightarrow>
                     (case output_dict dict_of out of
                        Inl e \<Rightarrow> ((w, snd s), Inl e)
                      | Inr d \<Rightarrow>
                          ((w, (snd s)\<lparr>fx_interactions := fx_interactions (snd s) @
                              [\<lparr>in_tool = t_name tool, in_input = canonical, in_output = json_safe_dict (pl_set_text pl) d\<rparr>]\<rparr>),
                           Inr out)))))"

text \<open>The calls of a session in their order; the caller goes on after a failed one.\<close>

fun session_calls ::
  "'w platform \<Rightarrow> (val \<Rightarrow> exn + val dict) \<Rightarrow> mode \<Rightarrow> ('w tool \<times> val dict) list \<Rightarrow> 'w \<times> fixture \<Rightarrow> ('w \<times> fixture) \<times> (exn + val) list" where
  "session_calls pl dict_of m [] s = (s, [])"
| "session_calls pl dict_of m ((tool, inp) # calls) s =
     (case patched_call pl dict_of m tool inp s of
        (s, r) \<Rightarrow> (case session_calls pl dict_of m calls s of (s, rs) \<Rightarrow> (s, r # rs)))"

text \<open>
  \<open>_recording_session\<close>: what the fixture holds at first, and the file that is left; it is written
  after a recording whose body completed.
\<close>

definition open_session :: "(string \<Rightarrow> exn + val) \<Rightarrow> mode \<Rightarrow> string option \<Rightarrow> exn + fixture" where
  "open_session loads m content =
     (case m of
        REPLAY \<Rightarrow> bind_err (load_fixture loads content) (\<lambda>xs. Inr \<lparr>fx_interactions = xs, fx_cursors = []\<rparr>)
      | RECORD \<Rightarrow> Inr \<lparr>fx_interactions = [], fx_cursors = []\<rparr>)"

definition close_session ::
  "(val \<Rightarrow> string) \<Rightarrow> redaction_policy \<Rightarrow> mode \<Rightarrow> bool \<Rightarrow> fixture \<Rightarrow> string option \<Rightarrow> string option" where
  "close_session dumps p m completed fx content =
     (if m = RECORD \<and> completed then Some (save_fixture dumps p (fx_interactions fx)) else content)"

section \<open>Which recording a call gets\<close>

text \<open>The recordings of a key, in order; the \<open>n\<close>-th call of the key gets the \<open>n\<close>-th.\<close>

definition key_of :: "(val list \<Rightarrow> string) \<Rightarrow> interaction \<Rightarrow> string \<times> string" where
  "key_of set_text x = canonical_key set_text (in_tool x) (in_input x)"

definition recordings :: "(val list \<Rightarrow> string) \<Rightarrow> interaction list \<Rightarrow> string \<times> string \<Rightarrow> interaction list" where
  "recordings set_text xs key = filter (\<lambda>x. key_of set_text x = key) xs"

text \<open>Inputs that compare equal have one canonical text, among the recordings and the call.\<close>

definition unambiguous :: "(val list \<Rightarrow> string) \<Rightarrow> interaction list \<Rightarrow> string \<Rightarrow> val dict \<Rightarrow> bool" where
  "unambiguous set_text xs tool inp \<longleftrightarrow>
     list_all (\<lambda>x. same_call tool inp x = (key_of set_text x = canonical_key set_text tool inp)) xs"

lemma drop_enumerate_from: "drop c (enumerate k xs) = enumerate (k + c) (drop c xs)"
  by (induction xs arbitrary: c k) (simp_all add: drop_Cons split: nat.split)

lemma find_enumerate:
  "find (\<lambda>(i, x). P x) (enumerate k ys) =
     (case find P ys of None \<Rightarrow> None | Some x \<Rightarrow> Some (k + length (takeWhile (\<lambda>y. \<not> P y) ys), x))"
  by (induction ys arbitrary: k) (auto split: option.split)

lemma find_filter: "find P xs = (case filter P xs of [] \<Rightarrow> None | x # _ \<Rightarrow> Some x)"
  by (induction xs) auto

lemma filter_drop: "filter P (drop c xs) = drop (length (filter P (take c xs))) (filter P xs)"
proof -
  have "filter P xs = filter P (take c xs) @ filter P (drop c xs)"
    by (metis append_take_drop_id filter_append)
  then show ?thesis by simp
qed

lemma find_split: "find P ys = Some x \<Longrightarrow> \<exists>us vs. ys = us @ x # vs \<and> P x \<and> (\<forall>u\<in>set us. \<not> P u)"
proof (induction ys)
  case (Cons y ys)
  show ?case
  proof (cases "P y")
    case True
    with Cons.prems show ?thesis by (intro exI[of _ "[]"] exI[of _ ys]) auto
  next
    case False
    with Cons obtain us vs where "ys = us @ x # vs \<and> P x \<and> (\<forall>u\<in>set us. \<not> P u)" by auto
    with False show ?thesis by (intro exI[of _ "y # us"] exI[of _ vs]) auto
  qed
qed simp

lemma filter_take_found:
  assumes "find P (drop c xs) = Some x"
  shows "length (filter P (take (c + length (takeWhile (\<lambda>y. \<not> P y) (drop c xs)) + 1) xs)) = length (filter P (take c xs)) + 1"
proof -
  obtain us vs where d: "drop c xs = us @ x # vs" "P x" "\<forall>u\<in>set us. \<not> P u"
    using find_split[OF assms] by blast
  then have "takeWhile (\<lambda>y. \<not> P y) (drop c xs) = us" by (simp add: takeWhile_append2)
  moreover have "filter P us = []" using d(3) by (simp add: filter_empty_conv)
  ultimately show ?thesis using d take_add[of c "Suc (length us)" xs] by simp
qed

lemma filter_nth_before: "j < length xs \<Longrightarrow> P (xs ! j) \<Longrightarrow> filter P xs ! length (filter P (take j xs)) = xs ! j"
  by (subst id_take_nth_drop[of j xs]) (simp_all add: nth_append)

definition at_cursor :: "fixture \<Rightarrow> string \<times> string \<Rightarrow> nat" where
  "at_cursor fx key = (case dict_get (fx_cursors fx) key of None \<Rightarrow> 0 | Some n \<Rightarrow> n)"

lemma consume_recording_nth:
  fixes fx :: fixture
  assumes "unambiguous set_text (fx_interactions fx) tool inp"
  defines "key \<equiv> canonical_key set_text tool inp"
  defines "R \<equiv> recordings set_text (fx_interactions fx) key"
    and "n \<equiv> length (recordings set_text (take (at_cursor fx key) (fx_interactions fx)) key)"
  shows "if n < length R
    then \<exists>c. consume_recording set_text tool inp fx = (fx\<lparr>fx_cursors := dict_set (fx_cursors fx) key c\<rparr>, Inr (in_output (R ! n))) \<and>
      length (recordings set_text (take c (fx_interactions fx)) key) = n + 1
    else consume_recording set_text tool inp fx = (fx, Inl (fixture_stale tool
      (if R \<noteq> [] then ''no more recordings for this (tool, input) pair.'' else ''this (tool, input) pair was not in the recording.'')))"
proof -
  let ?xs = "fx_interactions fx" and ?c = "at_cursor fx key" and ?P = "\<lambda>x. key_of set_text x = key"
  have same: "x \<in> set ?xs \<Longrightarrow> same_call tool inp x = ?P x" for x
    using assms(1) by (auto simp: unambiguous_def list_all_iff key_def)
  have drop: "find (same_call tool inp) (drop ?c ?xs) = find ?P (drop ?c ?xs)"
    "takeWhile (\<lambda>y. \<not> same_call tool inp y) (drop ?c ?xs) = takeWhile (\<lambda>y. \<not> ?P y) (drop ?c ?xs)"
    using same set_drop_subset[of ?c ?xs] by (auto intro!: find_cong takeWhile_cong)
  have some: "list_ex (same_call tool inp) ?xs = (R \<noteq> [])"
    using same by (auto simp: R_def recordings_def list_ex_iff filter_empty_conv)
  have rest: "filter ?P (drop ?c ?xs) = drop n R"
    by (simp add: R_def n_def recordings_def filter_drop[of _ ?c])
  show ?thesis
  proof (cases "n < length R")
    case True
    then have found: "find ?P (drop ?c ?xs) = Some (R ! n)"
      unfolding find_filter rest by (simp add: Cons_nth_drop_Suc[symmetric])
    let ?c' = "?c + length (takeWhile (\<lambda>y. \<not> ?P y) (drop ?c ?xs)) + 1"
    have "length (recordings set_text (take ?c' ?xs) key) = n + 1"
      using filter_take_found[OF found] by (simp add: recordings_def n_def)
    moreover have "consume_recording set_text tool inp fx = (fx\<lparr>fx_cursors := dict_set (fx_cursors fx) key ?c'\<rparr>, Inr (in_output (R ! n)))"
      by (simp add: consume_recording_def Let_def key_def[symmetric] at_cursor_def[symmetric] drop_enumerate_from find_enumerate drop found)
    ultimately show ?thesis using True by auto
  next
    case False
    then have "find ?P (drop ?c ?xs) = None" unfolding find_filter rest by simp
    then show ?thesis using False
      by (simp add: consume_recording_def Let_def key_def[symmetric] at_cursor_def[symmetric] drop_enumerate_from find_enumerate drop some)
  qed
qed

text \<open>What a call gets after the calls \<open>served\<close> of the session, by their keys.\<close>

definition served_output ::
  "(val list \<Rightarrow> string) \<Rightarrow> interaction list \<Rightarrow> (string \<times> string) list \<Rightarrow> string \<Rightarrow> val dict \<Rightarrow> exn + val" where
  "served_output set_text xs served tool inp =
     (let key = canonical_key set_text tool inp; R = recordings set_text xs key; n = count_list served key
      in if n < length R then Inr (VDict (in_output (R ! n)))
         else Inl (fixture_stale tool
           (if R \<noteq> [] then ''no more recordings for this (tool, input) pair.'' else ''this (tool, input) pair was not in the recording.'')))"

fun served_outputs ::
  "'w platform \<Rightarrow> interaction list \<Rightarrow> (string \<times> string) list \<Rightarrow> ('w tool \<times> val dict) list \<Rightarrow> (exn + val) list" where
  "served_outputs pl xs served [] = []"
| "served_outputs pl xs served ((tool, inp) # calls) =
     (let canonical = json_safe_dict (pl_set_text pl) inp
      in served_output (pl_set_text pl) xs served (t_name tool) canonical #
         served_outputs pl xs (served @ [canonical_key (pl_set_text pl) (t_name tool) canonical]) calls)"

definition call_ok :: "'w platform \<Rightarrow> interaction list \<Rightarrow> 'w tool \<times> val dict \<Rightarrow> bool" where
  "call_ok pl xs = (\<lambda>(tool, inp). \<not> (t_is_async tool \<and> pl_in_loop pl) \<and>
     unambiguous (pl_set_text pl) xs (t_name tool) (json_safe_dict (pl_set_text pl) inp))"

lemma replay_from:
  "list_all (call_ok pl (fx_interactions fx)) calls \<Longrightarrow>
   (\<And>key. length (recordings (pl_set_text pl) (take (at_cursor fx key) (fx_interactions fx)) key) =
      min (count_list served key) (length (recordings (pl_set_text pl) (fx_interactions fx) key))) \<Longrightarrow>
   \<exists>fx'. session_calls pl dict_of REPLAY calls (w, fx) = ((w, fx'), served_outputs pl (fx_interactions fx) served calls)"
proof (induction calls arbitrary: fx served)
  case (Cons call calls)
  obtain tool inp where call: "call = (tool, inp)" by fastforce
  let ?st = "pl_set_text pl" and ?xs = "fx_interactions fx"
  let ?inp = "json_safe_dict ?st inp"
  let ?key = "canonical_key ?st (t_name tool) ?inp"
  let ?R = "recordings ?st ?xs ?key"
  have un: "unambiguous ?st ?xs (t_name tool) ?inp" and sync: "\<not> (t_is_async tool \<and> pl_in_loop pl)"
    using Cons.prems(1) by (auto simp: call call_ok_def)
  note nth = consume_recording_nth[OF un, unfolded Cons.prems(2)]
  have at: "at_cursor (fx\<lparr>fx_cursors := dict_set (fx_cursors fx) ?key c\<rparr>) key = (if key = ?key then c else at_cursor fx key)" for c key
    by (simp add: at_cursor_def dict_get_set)
  show ?case
  proof (cases "count_list served ?key < length ?R")
    case True
    then obtain c where c: "consume_recording ?st (t_name tool) ?inp fx =
        (fx\<lparr>fx_cursors := dict_set (fx_cursors fx) ?key c\<rparr>, Inr (in_output (?R ! count_list served ?key)))"
      "length (recordings ?st (take c ?xs) ?key) = count_list served ?key + 1"
      using nth by auto
    let ?fx = "fx\<lparr>fx_cursors := dict_set (fx_cursors fx) ?key c\<rparr>"
    have "\<exists>fx'. session_calls pl dict_of REPLAY calls (w, ?fx) = ((w, fx'), served_outputs pl (fx_interactions ?fx) (served @ [?key]) calls)"
      by (rule Cons.IH) (use Cons.prems c(2) True in \<open>auto simp: call at\<close>)
    then show ?thesis using True c(1) sync
      by (auto simp: call patched_call_def Let_def served_output_def)
  next
    case False
    then have c: "consume_recording ?st (t_name tool) ?inp fx = (fx, Inl (fixture_stale (t_name tool)
        (if ?R \<noteq> [] then ''no more recordings for this (tool, input) pair.'' else ''this (tool, input) pair was not in the recording.'')))"
      using nth by simp
    have "\<exists>fx'. session_calls pl dict_of REPLAY calls (w, fx) = ((w, fx'), served_outputs pl ?xs (served @ [?key]) calls)"
      by (rule Cons.IH) (use Cons.prems False in \<open>auto simp: call\<close>)
    then show ?thesis using False c sync
      by (auto simp: call patched_call_def Let_def served_output_def)
  qed
qed simp

text \<open>
  Replay serves the recordings of a tool and input first in, first out: whatever calls a session
  makes, and in whatever order, the n-th call of a tool with an input gets the n-th recorded output
  of that tool and input, a call beyond them fails as stale, and no tool runs.  Inputs that compare
  equal must have one canonical text.
\<close>

theorem replay_serves_in_order:
  assumes "list_all (call_ok pl xs) calls"
  shows "\<exists>fx. session_calls pl dict_of REPLAY calls (w, \<lparr>fx_interactions = xs, fx_cursors = []\<rparr>) =
    ((w, fx), served_outputs pl xs [] calls)"
  using replay_from[of pl "\<lparr>fx_interactions = xs, fx_cursors = []\<rparr>" calls "[]" dict_of w] assms
  by (simp add: at_cursor_def recordings_def)

section \<open>A recorded session replayed\<close>

text \<open>What a recording reads back as: redacted, with sorted keys.\<close>

definition sorted_dict :: "val dict \<Rightarrow> val dict" where
  "sorted_dict d = sort_key fst (map (map_prod id sort_keys) d)"

definition read_back :: "redaction_policy \<Rightarrow> interaction \<Rightarrow> interaction" where
  "read_back p x = \<lparr>in_tool = in_tool x, in_input = sorted_dict (redact p (in_input x)), in_output = sorted_dict (redact p (in_output x))\<rparr>"

lemma insort_key_map: "(\<And>x. fst (h x) = fst x) \<Longrightarrow> insort_key fst (h x) (map h xs) = map h (insort_key fst x xs)"
  by (induction xs) auto

lemma sort_key_map: "(\<And>x. fst (h x) = fst x) \<Longrightarrow> sort_key fst (map h xs) = map h (sort_key fst xs)"
  by (induction xs) (simp_all add: insort_key_map)

lemma sort_keys_idem: "sort_keys (sort_keys v) = sort_keys v"
proof (induction v)
  case (VDict d)
  define h where "h = map_prod (id :: string \<Rightarrow> string) sort_keys"
  have h: "fst (h x) = fst x" for x by (simp add: h_def)
  have same: "map h (map h d) = map h d" using VDict by (auto simp: h_def map_prod_def)
  have "sort_key fst (map h (sort_key fst (map h d))) = sort_key fst (map h (map h d))"
    by (simp only: sort_key_map[OF h]) (simp add: sort_key_id_if_sorted)
  then show ?case by (simp only: sort_keys.simps h_def[symmetric] same)
qed (auto simp: map_idI)

lemma canonical_key_sorted: "canonical_key set_text tool (sorted_dict d) = canonical_key set_text tool d"
  using sort_keys_idem[of "VDict d"] by (simp add: canonical_key_def sorted_dict_def)

lemma load_saved_fixture:
  assumes "loads (save_fixture dumps p xs) =
      Inr (sort_keys (VDict [(''version'', VInt FIXTURE_FORMAT_VERSION), (''interactions'', VList (map (interaction_value p) xs))]))"
  shows "load_fixture loads (Some (save_fixture dumps p xs)) = Inr (map (read_back p) xs)"
proof -
  have one: "validate_interaction (i, sort_keys (interaction_value p x)) = Inr (read_back p x)" for i x
    by (simp add: validate_interaction_def interaction_value_def read_back_def sorted_dict_def Let_def)
  have "map_err validate_interaction (enumerate k (map (\<lambda>x. sort_keys (interaction_value p x)) xs)) = Inr (map (read_back p) xs)" for k
    by (induction xs arbitrary: k) (simp_all add: one)
  then show ?thesis
    using assms by (simp add: load_fixture_def comp_def)
qed

lemma served_recorded:
  assumes keys: "map (key_of (pl_set_text pl)) xs =
      map (\<lambda>(tool, inp). canonical_key (pl_set_text pl) (t_name tool) (json_safe_dict (pl_set_text pl) inp)) (us @ calls)"
  shows "served_outputs pl xs (map (\<lambda>(tool, inp). canonical_key (pl_set_text pl) (t_name tool) (json_safe_dict (pl_set_text pl) inp)) us) calls =
    map (\<lambda>x. Inr (VDict (in_output x))) (drop (length us) xs)"
  using keys
proof (induction calls arbitrary: us)
  case Nil
  then have "length us = length xs" by (metis append_Nil2 length_map)
  then show ?case by simp
next
  case (Cons call calls)
  let ?f = "\<lambda>(tool, inp). canonical_key (pl_set_text pl) (t_name tool) (json_safe_dict (pl_set_text pl) inp)"
  let ?k = "key_of (pl_set_text pl)" and ?j = "length us" and ?key = "?f call"
  have len: "?j < length xs" using arg_cong[OF Cons.prems, of length] by simp
  have at: "?k (xs ! ?j) = ?key"
    using arg_cong[OF Cons.prems, of "\<lambda>ks. ks ! ?j"] len by (simp add: nth_append)
  have before: "map ?k (take ?j xs) = map ?f us"
    using arg_cong[OF Cons.prems, of "take ?j"] by (simp add: take_map)
  have "count_list (map ?f us) ?key = length (filter (\<lambda>x. ?k x = ?key) (take ?j xs))"
    unfolding before[symmetric] by (simp add: count_list_eq_length_filter filter_map comp_def eq_commute)
  moreover have "length (filter (\<lambda>x. ?k x = ?key) (take ?j xs)) < length (filter (\<lambda>x. ?k x = ?key) xs)"
    using len at by (subst (2) id_take_nth_drop[of ?j xs]) simp_all
  moreover have "filter (\<lambda>x. ?k x = ?key) xs ! length (filter (\<lambda>x. ?k x = ?key) (take ?j xs)) = xs ! ?j"
    by (rule filter_nth_before) (use len at in simp_all)
  ultimately have served: "served_output (pl_set_text pl) xs (map ?f us) (t_name (fst call)) (json_safe_dict (pl_set_text pl) (snd call)) =
      Inr (VDict (in_output (xs ! ?j)))"
    by (simp add: served_output_def Let_def recordings_def case_prod_unfold)
  from Cons.IH[of "us @ [call]"] Cons.prems
  have rest: "served_outputs pl xs (map ?f us @ [?key]) calls = map (\<lambda>x. Inr (VDict (in_output x))) (drop (Suc ?j) xs)" by simp
  show ?case
    using served rest len by (cases call) (simp add: Let_def Cons_nth_drop_Suc[symmetric])
qed

lemma record_interactions:
  assumes "session_calls pl dict_of RECORD calls (w, fx) = ((w', fx'), rs)" "list_all (\<lambda>r. \<not> isl r) rs"
  shows "\<exists>xs. fx_interactions fx' = fx_interactions fx @ xs \<and>
    map (\<lambda>x. (in_tool x, in_input x)) xs = map (\<lambda>(tool, inp). (t_name tool, json_safe_dict (pl_set_text pl) inp)) calls \<and>
    list_all (\<lambda>(tool, inp). \<not> (t_is_async tool \<and> pl_in_loop pl)) calls \<and>
    list_all2 (\<lambda>r x. \<exists>d. output_dict dict_of (projr r) = Inr d \<and> in_output x = json_safe_dict (pl_set_text pl) d) rs xs"
  using assms
proof (induction calls arbitrary: w fx rs)
  case (Cons call calls)
  obtain tool inp where call: "call = (tool, inp)" by fastforce
  obtain s r where r: "patched_call pl dict_of RECORD tool inp (w, fx) = (s, r)" by fastforce
  obtain rs' where rs: "rs = r # rs'" "session_calls pl dict_of RECORD calls s = ((w', fx'), rs')"
    using Cons.prems(1) r by (auto simp: call split: prod.splits)
  have ok: "\<not> isl r" "list_all (\<lambda>r. \<not> isl r) rs'" using Cons.prems(2) rs(1) by simp_all
  then obtain w1 out d where one: "r = Inr out" "output_dict dict_of out = Inr d"
    "\<not> (t_is_async tool \<and> pl_in_loop pl)"
    "s = (w1, fx\<lparr>fx_interactions := fx_interactions fx @ [\<lparr>in_tool = t_name tool, in_input = json_safe_dict (pl_set_text pl) inp,
       in_output = json_safe_dict (pl_set_text pl) d\<rparr>]\<rparr>)"
    using r by (auto simp: patched_call_def Let_def split: if_splits prod.splits sum.splits)
  let ?x = "\<lparr>in_tool = t_name tool, in_input = json_safe_dict (pl_set_text pl) inp, in_output = json_safe_dict (pl_set_text pl) d\<rparr>"
  from Cons.IH[OF rs(2)[unfolded one(4)] ok(2)] obtain xs where xs: "fx_interactions fx' = (fx_interactions fx @ [?x]) @ xs"
    "map (\<lambda>x. (in_tool x, in_input x)) xs = map (\<lambda>(tool, inp). (t_name tool, json_safe_dict (pl_set_text pl) inp)) calls"
    "list_all (\<lambda>(tool, inp). \<not> (t_is_async tool \<and> pl_in_loop pl)) calls"
    "list_all2 (\<lambda>r x. \<exists>d. output_dict dict_of (projr r) = Inr d \<and> in_output x = json_safe_dict (pl_set_text pl) d) rs' xs"
    by auto
  then show ?case using one rs(1) by (intro exI[of _ "?x # xs"]) (auto simp: call)
qed auto


section \<open>Concrete sessions\<close>

text \<open>A tool that numbers its calls, called twice with one input.\<close>

definition numbering :: "nat tool" where
  "numbering = sample_tool ''n'' default_safety (\<lambda>w d. (w + 1, 0, Inr (VDict [(''k'', VInt (int w))])))"

definition twice :: "(nat tool \<times> val dict) list" where
  "twice = [(numbering, [(''q'', VInt 1)]), (numbering, [(''q'', VInt 1)])]"

definition numbered :: "interaction list" where
  "numbered = [\<lparr>in_tool = ''n'', in_input = [(''q'', VInt 1)], in_output = [(''k'', VInt 7)]\<rparr>,
               \<lparr>in_tool = ''n'', in_input = [(''q'', VInt 1)], in_output = [(''k'', VInt 8)]\<rparr>]"

definition plain_policy :: redaction_policy where
  "plain_policy = \<lparr>rp_keys = [], rp_pattern = None, rp_max_length = None, rp_replacement = ''***'', rp_ellipsis = ''...''\<rparr>"

lemma twice_recorded:
  "session_calls sample_platform (\<lambda>_. Inl PyAssertionError) RECORD twice (7, \<lparr>fx_interactions = [], fx_cursors = []\<rparr>) =
     ((9, \<lparr>fx_interactions = numbered, fx_cursors = []\<rparr>), [Inr (VDict [(''k'', VInt 7)]), Inr (VDict [(''k'', VInt 8)])])"
  by (simp add: twice_def numbering_def numbered_def sample_tool_def patched_call_def call_fn_def output_dict_def
      json_safe_dict_def sample_platform_def)

lemma twice_ok: "list_all (call_ok sample_platform numbered) twice"
  by (simp add: call_ok_def twice_def numbered_def numbering_def sample_tool_def unambiguous_def same_call_def key_of_def
      canonical_key_def json_safe_dict_def eqs_dict_def)

theorem replay_serves_in_order_witness:
  "\<exists>fx. session_calls sample_platform (\<lambda>_. Inl PyAssertionError) REPLAY (twice @ [hd twice]) (0, \<lparr>fx_interactions = numbered, fx_cursors = []\<rparr>) =
     ((0, fx), [Inr (VDict [(''k'', VInt 7)]), Inr (VDict [(''k'', VInt 8)]),
                Inl (fixture_stale ''n'' ''no more recordings for this (tool, input) pair.'')])"
proof -
  have "list_all (call_ok sample_platform numbered) (twice @ [hd twice])" using twice_ok by (simp add: twice_def)
  from replay_serves_in_order[OF this] show ?thesis
    by (simp add: twice_def numbering_def sample_tool_def numbered_def served_output_def Let_def recordings_def key_of_def
        canonical_key_def json_safe_dict_def)
qed


text \<open>
  A recorded input with a redacted key is not found again: the call that was recorded fails as
  stale when it is replayed.
\<close>

definition default_policy :: redaction_policy where
  "default_policy = plain_policy\<lparr>rp_keys := DEFAULT_REDACT_KEYS\<rparr>"

theorem redaction_breaks_replay:
  "snd (session_calls sample_platform (\<lambda>_. Inl PyAssertionError) REPLAY [(numbering, [(''token'', VStr ''t'')])]
     (0, \<lparr>fx_interactions = map (read_back default_policy) (fx_interactions (snd (fst (session_calls sample_platform
        (\<lambda>_. Inl PyAssertionError) RECORD [(numbering, [(''token'', VStr ''t'')])] (7, \<lparr>fx_interactions = [], fx_cursors = []\<rparr>))))),
      fx_cursors = []\<rparr>)) =
   [Inl (fixture_stale ''n'' ''this (tool, input) pair was not in the recording.'')]"
  by (simp add: numbering_def sample_tool_def patched_call_def call_fn_def output_dict_def json_safe_dict_def sample_platform_def
      consume_recording_def Let_def same_call_def read_back_def sorted_dict_def redact_def default_policy_def plain_policy_def
      redacts_key_def DEFAULT_REDACT_KEYS_def lower_def lower_char_def eqs_dict_def)

text \<open>
  A recording can be served twice: \<open>True\<close> and \<open>1\<close> compare equal and have different canonical texts.
\<close>

theorem equal_inputs_share_recording:
  "snd (session_calls sample_platform (\<lambda>_. Inl PyAssertionError) REPLAY
     [(numbering, [(''q'', VInt 1)]), (numbering, [(''q'', VBool True)])] (0, \<lparr>fx_interactions = take 1 numbered, fx_cursors = []\<rparr>)) =
   [Inr (VDict [(''k'', VInt 7)]), Inr (VDict [(''k'', VInt 7)])]"
proof -
  have "int_text 1 \<noteq> ''true''" by code_simp
  then show ?thesis
    by (simp add: numbering_def sample_tool_def numbered_def patched_call_def json_safe_dict_def sample_platform_def
      consume_recording_def Let_def same_call_def canonical_key_def json_str_def eqs_dict_def)
qed

end
