(* ===== verification/Serialization.thy ===== *)
theory Serialization
  imports Resume Redaction PyText Sample "HOL-Library.Multiset"
begin

text \<open>
  Flow files (\<open>chainweaver/serialization.py\<close>): the parse limits with the traversal that enforces
  them, the discriminated mapping and the JSON and YAML entry points.  Pydantic's dump and
  validation of the flow classes and the two parsers are arguments.  The results: the traversal
  accepts exactly the structures within the limits, and a written flow is read back exactly when
  it is within them.
\<close>

section \<open>Limits\<close>

record parse_limits =
  li_max_bytes :: "int option"
  li_max_nodes :: "int option"
  li_max_depth :: "int option"
  li_max_string_length :: "int option"
  li_max_steps :: "int option"

definition unlimited :: parse_limits where
  "unlimited = \<lparr>li_max_bytes = None, li_max_nodes = None, li_max_depth = None, li_max_string_length = None, li_max_steps = None\<rparr>"

definition DEFAULT_PARSE_LIMITS :: parse_limits where
  "DEFAULT_PARSE_LIMITS =
     \<lparr>li_max_bytes = Some (5 * 1024 * 1024), li_max_nodes = Some 100000, li_max_depth = Some 64,
      li_max_string_length = Some 100000, li_max_steps = Some 1000\<rparr>"

text \<open>A limit of \<open>None\<close> is no limit.\<close>

definition over :: "int option \<Rightarrow> int \<Rightarrow> bool" where
  "over limit n = (case limit of None \<Rightarrow> False | Some m \<Rightarrow> n > m)"

text \<open>The length of \<open>data.encode("utf-8")\<close>: two bytes for a character above ASCII.\<close>

definition utf8_size :: "string \<Rightarrow> nat" where
  "utf8_size s = sum_list (map (\<lambda>c. if of_char c < (128 :: nat) then 1 else 2) s)"

definition check_byte_size :: "string \<Rightarrow> parse_limits \<Rightarrow> exn + unit" where
  "check_byte_size data lims =
     (if over (li_max_bytes lims) (int (utf8_size data)) then Inl (FlowSerializationError ''max_bytes'') else Inr ())"

definition check_string_length :: "string \<Rightarrow> parse_limits \<Rightarrow> exn + unit" where
  "check_string_length s lims =
     (if over (li_max_string_length lims) (int (length s)) then Inl (FlowSerializationError ''max_string_length'') else Inr ())"

lemma size_children:
  "sum_list (map (\<lambda>v. size v + 1) xs) \<le> size (VList xs)"
  "sum_list (map (\<lambda>v. size v + 1) (map snd d)) \<le> size (VDict d)"
proof -
  show "sum_list (map (\<lambda>v. size v + 1) xs) \<le> size (VList xs)" by (induction xs) auto
  show "sum_list (map (\<lambda>v. size v + 1) (map snd d)) \<le> size (VDict d)" by (induction d) auto
qed

text \<open>
  \<open>_enforce_structure\<close>.  The stack's top is the head of the list; the children of a node are pushed
  in order, so the last is visited first.
\<close>

function enforce :: "parse_limits \<Rightarrow> int \<Rightarrow> (val \<times> int) list \<Rightarrow> exn + unit" where
  "enforce lims visited [] = Inr ()"
| "enforce lims visited ((node, depth) # stack) =
     (if over (li_max_nodes lims) (visited + 1) then Inl (FlowSerializationError ''max_nodes'')
      else if over (li_max_depth lims) depth then Inl (FlowSerializationError ''max_depth'')
      else
        (case node of
           VStr s \<Rightarrow> bind_err (check_string_length s lims) (\<lambda>_. enforce lims (visited + 1) stack)
         | VDict d \<Rightarrow>
             bind_err (map_err (\<lambda>k. check_string_length k lims) (dict_keys d)) (\<lambda>_.
               enforce lims (visited + 1) (rev (map (\<lambda>c. (c, depth + 1)) (map snd d)) @ stack))
         | VList xs \<Rightarrow> enforce lims (visited + 1) (rev (map (\<lambda>c. (c, depth + 1)) xs) @ stack)
         | _ \<Rightarrow> enforce lims (visited + 1) stack))"
  by pat_completeness auto

termination
proof (relation "measure (\<lambda>(lims, visited, stack). sum_list (map (\<lambda>(v, d). size v + 1) stack))")
qed (use size_children in \<open>auto simp: comp_def rev_map[symmetric] case_prod_unfold le_imp_less_Suc\<close>)

definition enforce_structure :: "val \<Rightarrow> parse_limits \<Rightarrow> exn + unit" where
  "enforce_structure v lims = enforce lims 0 [(v, 1)]"

definition check_step_count :: "val dict \<Rightarrow> parse_limits \<Rightarrow> exn + unit" where
  "check_step_count d lims =
     (case dict_get d ''steps'' of
        Some (VList steps) \<Rightarrow>
          (if over (li_max_steps lims) (int (length steps)) then Inl (FlowSerializationError ''max_steps'') else Inr ())
      | _ \<Rightarrow> Inr ())"

section \<open>Flows and mappings\<close>

text \<open>
  \<open>dump\<close> is \<open>model_dump(mode="json")\<close>, \<open>validate dag\<close> the validation of \<open>DAGFlow\<close> or \<open>Flow\<close>;
  whatever it raises is wrapped.
\<close>

definition FLOW_FORMAT_VERSION :: string where
  "FLOW_FORMAT_VERSION = ''1''"

definition discriminator :: "any_flow \<Rightarrow> string" where
  "discriminator f = (case f of DagFlow _ \<Rightarrow> ''DAGFlow'' | LinearFlow _ \<Rightarrow> ''Flow'')"

definition flow_to_dict :: "(any_flow \<Rightarrow> val dict) \<Rightarrow> any_flow \<Rightarrow> val dict" where
  "flow_to_dict dump f =
     dict_set (dict_set (dump f) ''format_version'' (VStr FLOW_FORMAT_VERSION)) ''type'' (VStr (discriminator f))"

definition format_supported :: "(val list \<Rightarrow> string) \<Rightarrow> val dict \<Rightarrow> bool" where
  "format_supported set_text d =
     (case dict_get d ''format_version'' of
        None \<Rightarrow> True
      | Some VNone \<Rightarrow> True
      | Some v \<Rightarrow> same_major (py_str set_text v) FLOW_FORMAT_VERSION)"

definition model_payload :: "val dict \<Rightarrow> val dict" where
  "model_payload d = filter (\<lambda>(k, v). k \<noteq> ''type'' \<and> k \<noteq> ''format_version'') d"

definition flow_from_dict ::
  "(val list \<Rightarrow> string) \<Rightarrow> (bool \<Rightarrow> val dict \<Rightarrow> exn + any_flow) \<Rightarrow> parse_limits \<Rightarrow> val \<Rightarrow> exn + any_flow" where
  "flow_from_dict set_text validate lims data =
     (case data of
        VDict d \<Rightarrow>
          bind_err (enforce_structure data lims) (\<lambda>_.
          bind_err (check_step_count d lims) (\<lambda>_.
            case dict_get d ''type'' of
              Some (VStr t) \<Rightarrow>
                (if t \<noteq> ''Flow'' \<and> t \<noteq> ''DAGFlow'' then Inl (FlowSerializationError ''discriminator'')
                 else if \<not> format_supported set_text d then Inl (FlowSerializationError ''format_version'')
                 else
                   (case validate (t = ''DAGFlow'') (model_payload d) of
                      Inl _ \<Rightarrow> Inl (FlowSerializationError ''validation'')
                    | Inr f \<Rightarrow> Inr f))
            | _ \<Rightarrow> Inl (FlowSerializationError ''discriminator'')))
      | _ \<Rightarrow> Inl (FlowSerializationError ''mapping''))"

section \<open>Files\<close>

text \<open>\<open>dumps\<close> is \<open>json.dumps(indent=2, sort_keys=True)\<close>; only a decoding error of \<open>loads\<close> is wrapped.\<close>

definition flow_to_json :: "(val \<Rightarrow> string) \<Rightarrow> (any_flow \<Rightarrow> val dict) \<Rightarrow> any_flow \<Rightarrow> string" where
  "flow_to_json dumps dump f = dumps (VDict (flow_to_dict dump f))"

definition wrap_decode :: "string \<Rightarrow> exn + val \<Rightarrow> exn + val" where
  "wrap_decode cls r =
     (case r of Inl (PyException c m) \<Rightarrow> (if c = cls then Inl (FlowSerializationError m) else Inl (PyException c m))
      | _ \<Rightarrow> r)"

definition flow_from_json ::
  "(val list \<Rightarrow> string) \<Rightarrow> (string \<Rightarrow> exn + val) \<Rightarrow> (bool \<Rightarrow> val dict \<Rightarrow> exn + any_flow) \<Rightarrow> parse_limits \<Rightarrow> string \<Rightarrow> exn + any_flow" where
  "flow_from_json set_text loads validate lims data =
     bind_err (check_byte_size data lims) (\<lambda>_.
       bind_err (wrap_decode ''JSONDecodeError'' (loads data)) (flow_from_dict set_text validate lims))"

text \<open>The YAML module is \<open>None\<close> when it is not installed: its \<open>safe_dump\<close> and \<open>safe_load\<close>.\<close>

definition require_yaml :: "'y option \<Rightarrow> exn + 'y" where
  "require_yaml yaml = (case yaml of None \<Rightarrow> Inl (FlowSerializationError ''pyyaml'') | Some y \<Rightarrow> Inr y)"

definition flow_to_yaml :: "((val \<Rightarrow> string) \<times> (string \<Rightarrow> exn + val)) option \<Rightarrow> (any_flow \<Rightarrow> val dict) \<Rightarrow> any_flow \<Rightarrow> exn + string" where
  "flow_to_yaml yaml dump f = bind_err (require_yaml yaml) (\<lambda>y. Inr (fst y (VDict (flow_to_dict dump f))))"

definition flow_from_yaml ::
  "(val list \<Rightarrow> string) \<Rightarrow> ((val \<Rightarrow> string) \<times> (string \<Rightarrow> exn + val)) option \<Rightarrow> (bool \<Rightarrow> val dict \<Rightarrow> exn + any_flow) \<Rightarrow> parse_limits \<Rightarrow> string
     \<Rightarrow> exn + any_flow" where
  "flow_from_yaml set_text yaml validate lims data =
     bind_err (require_yaml yaml) (\<lambda>y.
       bind_err (check_byte_size data lims) (\<lambda>_.
         bind_err (wrap_decode ''YAMLError'' (snd y data)) (\<lambda>v.
           if v = VNone then Inl (FlowSerializationError ''empty'') else flow_from_dict set_text validate lims v)))"

section \<open>What the traversal accepts\<close>

text \<open>The nodes of a structure, its depth, and its strings and keys.\<close>

primrec nodes :: "val \<Rightarrow> nat" where
  "nodes VNone = 1"
| "nodes (VBool b) = 1"
| "nodes (VInt i) = 1"
| "nodes (VStr s) = 1"
| "nodes (VList xs) = 1 + sum_list (map nodes xs)"
| "nodes (VDict d) = 1 + sum_list (map snd (map (map_prod id nodes) d))"
| "nodes (VSet xs) = 1"

primrec nesting :: "val \<Rightarrow> nat" where
  "nesting VNone = 1"
| "nesting (VBool b) = 1"
| "nesting (VInt i) = 1"
| "nesting (VStr s) = 1"
| "nesting (VList xs) = 1 + fold max (map nesting xs) 0"
| "nesting (VDict d) = 1 + fold max (map snd (map (map_prod id nesting) d)) 0"
| "nesting (VSet xs) = 1"

primrec texts :: "val \<Rightarrow> string list" where
  "texts VNone = []"
| "texts (VBool b) = []"
| "texts (VInt i) = []"
| "texts (VStr s) = [s]"
| "texts (VList xs) = concat (map texts xs)"
| "texts (VDict d) = dict_keys d @ concat (map snd (map (map_prod id texts) d))"
| "texts (VSet xs) = []"

definition in_limits :: "parse_limits \<Rightarrow> val \<Rightarrow> bool" where
  "in_limits lims v \<longleftrightarrow>
     \<not> over (li_max_nodes lims) (int (nodes v)) \<and> \<not> over (li_max_depth lims) (int (nesting v)) \<and>
     list_all (\<lambda>s. \<not> over (li_max_string_length lims) (int (length s))) (texts v)"

lemma over_mono: "over l a \<Longrightarrow> a \<le> b \<Longrightarrow> over l b"
  by (auto simp: over_def split: option.splits)

lemma nodes_pos: "0 < nodes v"
  by (cases v) simp_all

lemma nesting_pos: "0 < nesting v"
  by (cases v) simp_all

lemma fold_max: "fold max xs (k :: nat) = (if xs = [] then k else max k (Max (set xs)))"
  by (induction xs arbitrary: k) (auto simp: max_def)

lemma not_over_depth:
  "(\<forall>x\<in>set xs. \<not> over l (d + int x)) \<and> \<not> over l d \<longleftrightarrow> \<not> over l (d + int (fold max xs 0))"
proof (cases l)
  case (Some m)
  have "(\<forall>x\<in>set xs. x \<le> k) = (fold max xs 0 \<le> k)" for k by (auto simp: fold_max)
  from this[of "nat (m - d)"] Some show ?thesis by (auto simp: over_def; force)
qed (simp add: over_def)

definition stack_ok :: "parse_limits \<Rightarrow> (val \<times> int) list \<Rightarrow> bool" where
  "stack_ok lims stack \<longleftrightarrow>
     list_all (\<lambda>(v, d). \<not> over (li_max_depth lims) (d + int (nesting v) - 1) \<and>
       list_all (\<lambda>s. \<not> over (li_max_string_length lims) (int (length s))) (texts v)) stack"

lemma map_err_units:
  fixes f :: "'a \<Rightarrow> 'e + unit"
  shows "(\<exists>us. map_err f xs = Inr us) = list_all (\<lambda>x. f x = Inr ()) xs"
  by (induction xs) (auto simp: bind_err_Inr_iff)

lemma check_string_iff: "check_string_length s lims = Inr () \<longleftrightarrow> \<not> over (li_max_string_length lims) (int (length s))"
  by (simp add: check_string_length_def)

abbreviation total_nodes :: "(val \<times> int) list \<Rightarrow> nat" where
  "total_nodes stack \<equiv> sum_list (map (\<lambda>p. nodes (fst p)) stack)"

lemma children_total: "total_nodes (rev (map (\<lambda>c. (c, d)) xs) @ stack) = sum_list (map nodes xs) + total_nodes stack"
  by (simp add: comp_def rev_map[symmetric])

lemma stack_ok_append: "stack_ok lims (a @ b) \<longleftrightarrow> stack_ok lims a \<and> stack_ok lims b"
  by (simp add: stack_ok_def)

lemma children_ok:
  assumes "\<not> over (li_max_depth lims) d"
  shows "stack_ok lims (rev (map (\<lambda>c. (c, d + 1)) xs) @ stack) \<longleftrightarrow>
    \<not> over (li_max_depth lims) (d + int (fold max (map nesting xs) 0)) \<and>
    list_all (\<lambda>s. \<not> over (li_max_string_length lims) (int (length s))) (concat (map texts xs)) \<and> stack_ok lims stack"
proof -
  let ?S = "list_all (\<lambda>s. \<not> over (li_max_string_length lims) (int (length s)))"
  have "stack_ok lims (rev (map (\<lambda>c. (c, d + 1)) xs)) \<longleftrightarrow>
      (\<forall>x\<in>set xs. \<not> over (li_max_depth lims) (d + int (nesting x)) \<and> ?S (texts x))"
    by (simp add: stack_ok_def list_all_iff add.commute add.left_commute)
  also have "\<dots> \<longleftrightarrow> (\<forall>x\<in>set (map nesting xs). \<not> over (li_max_depth lims) (d + int x)) \<and> ?S (concat (map texts xs))"
    by (auto simp: list_all_iff)
  finally show ?thesis
    using assms not_over_depth[of "map nesting xs" "li_max_depth lims" d] by (simp add: stack_ok_append conj_assoc)
qed

lemma enforce_iff:
  "enforce lims n stack = Inr () \<longleftrightarrow>
     (stack = [] \<or> \<not> over (li_max_nodes lims) (n + int (total_nodes stack))) \<and> stack_ok lims stack"
proof (induction lims n stack rule: enforce.induct)
  case (1 lims visited)
  then show ?case by (simp add: stack_ok_def)
next
  case (2 lims n node d stack)
  let ?N = "over (li_max_nodes lims)" and ?D = "over (li_max_depth lims)"
  let ?S = "list_all (\<lambda>s. \<not> over (li_max_string_length lims) (int (length s)))"
  show ?case
  proof (cases "?N (n + 1) \<or> ?D d")
    case True
    have "\<not> stack_ok lims ((node, d) # stack)" if "?D d"
      using over_mono[OF that, of "d + int (nesting node) - 1"] nesting_pos[of node] by (simp add: stack_ok_def)
    moreover have "?N (n + int (total_nodes ((node, d) # stack)))" if "?N (n + 1)"
      using over_mono[OF that, of "n + int (total_nodes ((node, d) # stack))"] nodes_pos[of node] by simp
    ultimately show ?thesis using True by auto
  next
    case False
    then have ok: "\<not> ?N (n + 1)" "\<not> ?D d" by auto
    have step: "(new = [] \<or> \<not> ?N (n + 1 + int (total_nodes new))) = (\<not> ?N (n + 1 + int (total_nodes new)))" for new
      using ok(1) by (cases new) auto
    have leaf: "stack_ok lims ((node, d) # stack) \<longleftrightarrow> ?S (texts node) \<and> stack_ok lims stack" if "nesting node = 1"
      using that ok(2) by (simp add: stack_ok_def)
    have plain: "enforce lims (n + 1) stack = Inr () \<longleftrightarrow> \<not> ?N (n + 1 + int (total_nodes stack)) \<and> stack_ok lims stack"
      if "\<And>s. node \<noteq> VStr s" "\<And>xs. node \<noteq> VList xs" "\<And>e. node \<noteq> VDict e"
      using 2 that ok step[of stack] by (cases node) auto
    show ?thesis
    proof (cases node)
      case (VStr s)
      have "enforce lims (n + 1) stack = Inr () \<longleftrightarrow> \<not> ?N (n + 1 + int (total_nodes stack)) \<and> stack_ok lims stack"
        if "check_string_length s lims = Inr ()"
        using 2 that VStr ok step[of stack] by simp
      then show ?thesis using VStr ok leaf by (auto simp: bind_err_Inr_iff check_string_iff add.assoc)
    next
      case (VList xs)
      let ?new = "rev (map (\<lambda>c. (c, d + 1)) xs) @ stack"
      have "enforce lims (n + 1) ?new = Inr () \<longleftrightarrow> \<not> ?N (n + 1 + int (total_nodes ?new)) \<and> stack_ok lims ?new"
        using 2 VList ok step[of ?new] by simp
      moreover have "stack_ok lims ((node, d) # stack) = stack_ok lims ?new"
        unfolding children_ok[OF ok(2)] by (simp add: VList stack_ok_def)
      moreover have "n + 1 + int (total_nodes ?new) = n + int (total_nodes ((node, d) # stack))"
        unfolding children_total by (simp add: VList)
      moreover have "enforce lims n ((node, d) # stack) = enforce lims (n + 1) ?new"
        using ok by (simp add: VList)
      ultimately show ?thesis by (simp only: list.distinct simp_thms)
    next
      case (VDict e)
      let ?new = "rev (map (\<lambda>c. (c, d + 1)) (map snd e)) @ stack"
      have "enforce lims (n + 1) ?new = Inr () \<longleftrightarrow> \<not> ?N (n + 1 + int (total_nodes ?new)) \<and> stack_ok lims ?new"
        if "map_err (\<lambda>k. check_string_length k lims) (dict_keys e) = Inr us" for us
        using 2 VDict ok step[of ?new] that by simp
      moreover have "(\<exists>us. map_err (\<lambda>k. check_string_length k lims) (dict_keys e) = Inr us) = ?S (dict_keys e)"
        by (simp add: map_err_units check_string_iff)
      moreover have "stack_ok lims ((node, d) # stack) = (?S (dict_keys e) \<and> stack_ok lims ?new)"
        unfolding children_ok[OF ok(2)] by (simp add: VDict stack_ok_def comp_def conj_left_commute)
      moreover have "n + 1 + int (total_nodes ?new) = n + int (total_nodes ((node, d) # stack))"
        unfolding children_total by (simp add: VDict comp_def)
      moreover have "enforce lims n ((node, d) # stack) = Inr () \<longleftrightarrow>
          (\<exists>us. map_err (\<lambda>k. check_string_length k lims) (dict_keys e) = Inr us) \<and> enforce lims (n + 1) ?new = Inr ()"
        using ok by (simp add: VDict bind_err_Inr_iff)
      ultimately show ?thesis by (metis list.distinct(1))
    qed (use ok leaf plain in \<open>auto simp: add.assoc\<close>)
  qed
qed

section \<open>Reading a written flow\<close>

lemma sum_list_sort_key: "sum_list (map h (sort_key f xs)) = (sum_list (map h xs) :: nat)"
  by (metis mset_map mset_sort sum_mset_sum_list)

lemma fold_max_set: "set xs = set ys \<Longrightarrow> fold max xs (0 :: nat) = fold max ys 0"
  by (cases "xs = []"; cases "ys = []") (simp_all add: fold_max)

lemma nodes_sorted [simp]: "nodes (sort_keys v) = nodes v"
proof (induction v)
  case (VDict d)
  then have same: "map (\<lambda>p. nodes (sort_keys (snd p))) d = map (\<lambda>p. nodes (snd p)) d" by auto
  show ?case
    using sum_list_sort_key[of "\<lambda>p. nodes (snd p)" fst "map (map_prod id sort_keys) d"] by (simp add: comp_def same)
next
  case (VList xs)
  then have same: "map (\<lambda>x. nodes (sort_keys x)) xs = map nodes xs" by auto
  show ?case by (simp add: comp_def same)
qed simp_all

lemma nesting_sorted [simp]: "nesting (sort_keys v) = nesting v"
proof (induction v)
  case (VDict d)
  then have "nesting (sort_keys (snd p)) = nesting (snd p)" if "p \<in> set d" for p
    using that by (metis prod.collapse snds.intros)
  then have "(\<lambda>p. nesting (sort_keys (snd p))) ` set d = (\<lambda>p. nesting (snd p)) ` set d" by simp
  then show ?case by (simp add: image_image comp_def fold_max_set[of "map _ (sort_key _ _)" "map _ d"])
next
  case (VList xs)
  then show ?case by (auto simp: image_image intro!: fold_max_set)
qed simp_all

lemma texts_sorted [simp]: "set (texts (sort_keys v)) = set (texts v)"
proof (induction v)
  case (VDict d)
  then show ?case by (force simp: map_prod_def)
qed auto

lemma in_limits_sorted: "in_limits lims (sort_keys v) = in_limits lims v"
  by (simp add: in_limits_def list_all_iff)

lemma dict_get_filter: "dict_get d k = (case filter (\<lambda>p. fst p = k) d of [] \<Rightarrow> None | p # _ \<Rightarrow> Some (snd p))"
  by (induction d) auto

lemma dict_get_sorted: "dict_get (sort_key fst d) k = dict_get d k"
  by (simp add: dict_get_filter sort_key_stable)

lemma dict_get_map_values: "dict_get (map (map_prod id g) d) k = map_option g (dict_get d k)"
  by (induction d) auto

text \<open>The payload of a flow as a parser reads it, and when it is within the limits.\<close>

definition read_payload :: "(any_flow \<Rightarrow> val dict) \<Rightarrow> any_flow \<Rightarrow> val dict" where
  "read_payload dump f = sort_key fst (map (map_prod id sort_keys) (flow_to_dict dump f))"

definition readable :: "parse_limits \<Rightarrow> val dict \<Rightarrow> bool" where
  "readable lims d \<longleftrightarrow>
     in_limits lims (VDict d) \<and>
     (case dict_get d ''steps'' of Some (VList steps) \<Rightarrow> \<not> over (li_max_steps lims) (int (length steps)) | _ \<Rightarrow> True)"

lemma enforce_structure_exact: "(enforce_structure v lims = Inr ()) = in_limits lims v"
  by (simp only: enforce_structure_def enforce_iff) (simp add: in_limits_def stack_ok_def)

lemma check_step_count_iff: "(check_step_count d lims = Inr ()) =
    (case dict_get d ''steps'' of Some (VList steps) \<Rightarrow> \<not> over (li_max_steps lims) (int (length steps)) | _ \<Rightarrow> True)"
  by (simp add: check_step_count_def split: option.split val.split)

lemma read_payload_get: "dict_get (read_payload dump f) k = map_option sort_keys (dict_get (flow_to_dict dump f) k)"
  by (simp add: read_payload_def dict_get_sorted dict_get_map_values)

lemma readable_sorted: "readable lims (read_payload dump f) = readable lims (flow_to_dict dump f)"
proof -
  have "in_limits lims (VDict (read_payload dump f)) = in_limits lims (VDict (flow_to_dict dump f))"
    using in_limits_sorted[of lims "VDict (flow_to_dict dump f)"] by (simp add: read_payload_def)
  then show ?thesis
    by (simp add: readable_def read_payload_get split: option.split val.split)
qed

text \<open>Everything the reader refuses is refused with a \<open>FlowSerializationError\<close>.\<close>

definition refused :: "exn + 'a \<Rightarrow> bool" where
  "refused r = (case r of Inl (FlowSerializationError m) \<Rightarrow> True | _ \<Rightarrow> False)"

lemma refused_error [simp]: "refused (Inl (FlowSerializationError m))" "\<not> refused (Inr x)"
  by (simp_all add: refused_def)

lemma refused_bind: "refused r \<Longrightarrow> refused (bind_err r k)"
  by (auto simp: refused_def split: sum.splits)

lemma check_string_refused: "check_string_length s lims = Inr () \<or> refused (check_string_length s lims)"
  by (simp add: check_string_length_def)

lemma check_keys_refused:
  "(\<exists>us. map_err (\<lambda>k. check_string_length k lims) ks = Inr us) \<or> refused (map_err (\<lambda>k. check_string_length k lims) ks)"
proof (induction ks)
  case (Cons k ks)
  then show ?case using check_string_refused[of k lims] by (auto simp: refused_bind)
qed simp

lemma enforce_refused: "enforce lims n stack = Inr () \<or> refused (enforce lims n stack)"
proof (induction lims n stack rule: enforce.induct)
  case (2 lims n node d stack)
  show ?case
  proof (cases node)
    case (VStr s)
    then show ?thesis using 2 check_string_refused[of s lims] by (auto simp: refused_bind)
  next
    case (VDict e)
    let ?rest = "enforce lims (n + 1) (rev (map (\<lambda>c. (c, d + 1)) (map snd e)) @ stack)"
    have "?rest = Inr () \<or> refused ?rest"
      if "\<not> over (li_max_nodes lims) (n + 1)" "\<not> over (li_max_depth lims) d"
        "map_err (\<lambda>k. check_string_length k lims) (dict_keys e) = Inr us" for us
      using 2 that VDict by blast
    then show ?thesis using check_keys_refused[of lims "dict_keys e"] by (auto simp: VDict refused_bind)
  qed (use 2 in auto)
qed simp

lemma flow_from_dict_readable:
  assumes "validate (discriminator f = ''DAGFlow'') (model_payload (read_payload dump f)) = Inr f"
  shows "if readable lims (read_payload dump f)
    then flow_from_dict set_text validate lims (VDict (read_payload dump f)) = Inr f
    else refused (flow_from_dict set_text validate lims (VDict (read_payload dump f)))"
proof -
  let ?d = "read_payload dump f"
  have "dict_get ?d ''type'' = Some (VStr (discriminator f))"
    "dict_get ?d ''format_version'' = Some (VStr FLOW_FORMAT_VERSION)"
    by (simp_all add: read_payload_get flow_to_dict_def dict_get_set)
  moreover have "discriminator f = ''Flow'' \<or> discriminator f = ''DAGFlow''"
    by (simp add: discriminator_def split: any_flow.split)
  moreover have "enforce_structure (VDict ?d) lims = Inr () \<or> refused (enforce_structure (VDict ?d) lims)"
    by (simp only: enforce_structure_def) (rule enforce_refused)
  moreover have "check_step_count ?d lims = Inr () \<or> refused (check_step_count ?d lims)"
    by (simp add: check_step_count_def split: option.split val.split)
  ultimately show ?thesis
    using assms enforce_structure_exact[of "VDict ?d" lims] check_step_count_iff[of ?d lims]
    by (auto simp: flow_from_dict_def readable_def refused_bind format_supported_def py_str_def same_major_def)
qed



text \<open>A flow of more than a thousand steps is written, and the default limits refuse to read it.\<close>

lemma long_flow_not_readable:
  assumes "loads (flow_to_json dumps dump f) = Inr (VDict (read_payload dump f))"
    and "validate (discriminator f = ''DAGFlow'') (model_payload (read_payload dump f)) = Inr f"
    and "dict_get (dump f) ''steps'' = Some (VList steps)" and "1000 < length steps"
  shows "refused (flow_from_json set_text loads validate DEFAULT_PARSE_LIMITS (flow_to_json dumps dump f))"
proof -
  have "\<not> readable DEFAULT_PARSE_LIMITS (flow_to_dict dump f)"
    using assms(3,4) by (simp add: readable_def DEFAULT_PARSE_LIMITS_def over_def flow_to_dict_def dict_get_set)
  moreover have "readable lims (flow_to_dict dump f) = readable lims (read_payload dump f)" for lims by (simp add: readable_sorted)
  ultimately show ?thesis
    using flow_from_dict_readable[of validate f dump DEFAULT_PARSE_LIMITS set_text] assms(1,2)
    by (auto simp: flow_from_json_def check_byte_size_def wrap_decode_def refused_bind)
qed

end
