(* ===== verification/FileCache.thy ===== *)
theory FileCache
  imports Stores Fixture
begin

text \<open>
  The step cache on disk (\<open>FileStepCache\<close> of \<open>chainweaver/cache.py\<close>), over a directory that maps
  the names of its files to their contents.  The hash function, the decoder of a file and the
  encoder are arguments; failures of the disk are the errors of the decoder.  The result: after any
  sequence of operations it holds what the cache in memory holds, as JSON reads it back.
\<close>

section \<open>The cache\<close>

type_synonym cache_dir = "(string \<times> string) list"

definition CACHE_SUFFIX :: string where
  "CACHE_SUFFIX = ''.cache.json''"

definition TOOL_NAME_DIGEST_LEN :: nat where
  "TOOL_NAME_DIGEST_LEN = 16"

definition cache_path :: "(string \<Rightarrow> string) \<Rightarrow> cache_key \<Rightarrow> string" where
  "cache_path sha k =
     map (\<lambda>c. if trace_char c then c else CHR ''_'') (ck_tool_name k) @ ''.'' @
     take TOOL_NAME_DIGEST_LEN (sha (ck_tool_name k)) @ ''@'' @ ck_schema_hash k @ ''@'' @ ck_input_value_hash k @ CACHE_SUFFIX"

text \<open>\<open>loads\<close> is \<open>json.loads(path.read_text())\<close>; what it raises is a miss only for two classes.\<close>

definition cache_miss_error :: "exn \<Rightarrow> bool" where
  "cache_miss_error e = (case e of PyException cls m \<Rightarrow> cls \<in> {''OSError'', ''JSONDecodeError''} | _ \<Rightarrow> False)"

definition disk_get :: "(string \<Rightarrow> string) \<Rightarrow> (string \<Rightarrow> exn + val) \<Rightarrow> cache_dir \<Rightarrow> cache_key \<Rightarrow> exn + val dict option" where
  "disk_get sha loads dir k =
     (case dict_get dir (cache_path sha k) of
        None \<Rightarrow> Inr None
      | Some t \<Rightarrow>
          (case loads t of
             Inl e \<Rightarrow> (if cache_miss_error e then Inr None else Inl e)
           | Inr (VDict d) \<Rightarrow> Inr (Some d)
           | Inr _ \<Rightarrow> Inr None))"

text \<open>The temporary file is gone when the call returns, renamed to the target.\<close>

definition disk_set :: "(string \<Rightarrow> string) \<Rightarrow> (val \<Rightarrow> string) \<Rightarrow> cache_dir \<Rightarrow> cache_key \<Rightarrow> val dict \<Rightarrow> cache_dir" where
  "disk_set sha dumps dir k out = dict_set dir (cache_path sha k) (dumps (VDict out))"

definition disk_clear :: "cache_dir \<Rightarrow> cache_dir" where
  "disk_clear dir = filter (\<lambda>(name, t). \<not> suffix CACHE_SUFFIX name) dir"

section \<open>The cache in memory as its specification\<close>

datatype cache_op = CacheSet cache_key "val dict" | CacheClear

fun mem_step :: "mem_cache \<Rightarrow> cache_op \<Rightarrow> mem_cache" where
  "mem_step c (CacheSet k out) = op_cache_set in_memory_cache c k out"
| "mem_step c CacheClear = op_cache_clear in_memory_cache c"

fun disk_step :: "(string \<Rightarrow> string) \<Rightarrow> (val \<Rightarrow> string) \<Rightarrow> cache_dir \<Rightarrow> cache_op \<Rightarrow> cache_dir" where
  "disk_step sha dumps dir (CacheSet k out) = disk_set sha dumps dir k out"
| "disk_step sha dumps dir CacheClear = disk_clear dir"

text \<open>
  The keys of the executor: hexadecimal hashes, and tools whose truncated digests tell them apart
  among \<open>tools\<close>.
\<close>

definition disk_key :: "string set \<Rightarrow> cache_key \<Rightarrow> bool" where
  "disk_key tools k \<longleftrightarrow> ck_tool_name k \<in> tools \<and> hex_key k \<and>
     CHR ''@'' \<notin> set (ck_schema_hash k) \<and> CHR ''@'' \<notin> set (ck_input_value_hash k)"

definition digests_differ :: "(string \<Rightarrow> string) \<Rightarrow> string set \<Rightarrow> bool" where
  "digests_differ sha tools \<longleftrightarrow>
     (\<forall>n\<in>tools. TOOL_NAME_DIGEST_LEN \<le> length (sha n) \<and> CHR ''@'' \<notin> set (sha n)) \<and>
     inj_on (\<lambda>n. take TOOL_NAME_DIGEST_LEN (sha n)) tools"

lemma cache_path_inj:
  assumes "digests_differ sha tools" "disk_key tools k" "disk_key tools k'"
  shows "cache_path sha k = cache_path sha k' \<longleftrightarrow> k = k'"
proof
  let ?safe = "\<lambda>k. map (\<lambda>c. if trace_char c then c else CHR ''_'') (ck_tool_name k)"
  let ?d = "\<lambda>k. take TOOL_NAME_DIGEST_LEN (sha (ck_tool_name k))"
  assume eq: "cache_path sha k = cache_path sha k'"
  have split: "cache_path sha k = ((?safe k @ ''.'' @ ?d k) @ CHR ''@'' # ck_schema_hash k) @ CHR ''@'' # (ck_input_value_hash k @ CACHE_SUFFIX)" for k
    by (simp add: cache_path_def)
  have no: "CHR ''@'' \<notin> set (ck_input_value_hash q @ CACHE_SUFFIX)" "CHR ''@'' \<notin> set (ck_schema_hash q)" if "disk_key tools q" for q
    using that by (simp_all add: disk_key_def CACHE_SUFFIX_def)
  from append_sep_inj[OF no(1)[OF assms(2)] no(1)[OF assms(3)] eq[unfolded split]]
  have 1: "(?safe k @ ''.'' @ ?d k) @ CHR ''@'' # ck_schema_hash k = (?safe k' @ ''.'' @ ?d k') @ CHR ''@'' # ck_schema_hash k'"
    and 2: "ck_input_value_hash k = ck_input_value_hash k'" by simp_all
  from append_sep_inj[OF no(2)[OF assms(2)] no(2)[OF assms(3)] 1]
  have 3: "(?safe k @ ''.'') @ ?d k = (?safe k' @ ''.'') @ ?d k'" and 4: "ck_schema_hash k = ck_schema_hash k'" by simp_all
  have tool: "ck_tool_name k \<in> tools" "ck_tool_name k' \<in> tools" using assms by (simp_all add: disk_key_def)
  then have "length (?d k) = length (?d k')" using assms(1) by (simp add: digests_differ_def)
  then have "?d k = ?d k'" using 3 append_eq_append_conv by blast
  then have "ck_tool_name k = ck_tool_name k'"
    using assms(1) tool by (auto simp: digests_differ_def dest: inj_onD)
  then show "k = k'" using 2 4 by simp
qed simp

lemma cache_path_suffix: "suffix CACHE_SUFFIX (cache_path sha k)"
  by (simp add: cache_path_def suffix_def)

lemma disk_get_set:
  assumes "digests_differ sha tools" "disk_key tools k" "disk_key tools k'"
    and "loads (dumps (VDict out)) = Inr (VDict (json_safe_dict set_text out))"
  shows "disk_get sha loads (disk_set sha dumps dir k out) k' =
    (if k' = k then Inr (Some (json_safe_dict set_text out)) else disk_get sha loads dir k')"
  using assms(4) cache_path_inj[OF assms(1,3,2)] by (simp add: disk_get_def disk_set_def dict_get_set)

lemma disk_get_clear: "disk_get sha loads (disk_clear dir) k = Inr None"
proof -
  have "dict_get (disk_clear dir) (cache_path sha k) = None"
    using cache_path_suffix by (auto simp: disk_clear_def map_of_eq_None_iff)
  then show ?thesis by (simp add: disk_get_def)
qed

text \<open>
  After any sequence of stores and clearings of an empty cache, the cache on disk returns for every
  key what the cache in memory returns, as JSON reads it back.
\<close>

lemma disk_cache_refines_memory:
  assumes "digests_differ sha tools" "disk_key tools key"
    and "\<forall>op\<in>set ops. case op of CacheSet k out \<Rightarrow>
      disk_key tools k \<and> loads (dumps (VDict out)) = Inr (VDict (json_safe_dict set_text out)) | CacheClear \<Rightarrow> True"
  shows "disk_get sha loads (foldl (disk_step sha dumps) [] ops) key =
    Inr (map_option (json_safe_dict set_text) (op_cache_get in_memory_cache (foldl mem_step [] ops) key))"
  using assms(3)
proof (induction ops rule: rev_induct)
  case Nil
  then show ?case by (simp add: disk_get_def in_memory_cache_def)
next
  case (snoc op ops)
  show ?case
  proof (cases op)
    case (CacheSet k out)
    have keys: "hex_key k" "hex_key key" using snoc.prems assms(2) CacheSet by (simp_all add: disk_key_def)
    have "disk_get sha loads (disk_set sha dumps (foldl (disk_step sha dumps) [] ops) k out) key =
      (if key = k then Inr (Some (json_safe_dict set_text out)) else disk_get sha loads (foldl (disk_step sha dumps) [] ops) key)"
      by (rule disk_get_set[OF assms(1) _ assms(2)]) (use snoc.prems CacheSet in simp_all)
    then show ?thesis using snoc CacheSet mem_cache.get_set[OF keys] by simp
  next
    case CacheClear
    then show ?thesis using disk_get_clear by (simp add: in_memory_cache_def)
  qed
qed

section \<open>Two consequences\<close>

text \<open>An output with a set is returned from the disk with the set's text.\<close>

lemma disk_cache_changes_sets:
  assumes "digests_differ sha tools" "disk_key tools k"
    and "loads (dumps (VDict [(x, VSet s)])) = Inr (VDict (json_safe_dict set_text [(x, VSet s)]))"
  shows "disk_get sha loads (disk_set sha dumps dir k [(x, VSet s)]) k = Inr (Some [(x, VStr (set_text s))])"
  using disk_get_set[of sha tools k k loads dumps "[(x, VSet s)]" set_text dir] assms by (simp add: json_safe_dict_def)

text \<open>A file that is no UTF-8 text is no miss: the error of the decoder leaves the cache.\<close>

lemma disk_cache_undecodable:
  "dict_get dir (cache_path sha k) = Some t \<Longrightarrow> loads t = Inl (PyException ''UnicodeDecodeError'' m) \<Longrightarrow>
   disk_get sha loads dir k = Inl (PyException ''UnicodeDecodeError'' m)"
  by (simp add: disk_get_def cache_miss_error_def)

end
