(* ===== verification/Spec2Isabelle.thy ===== *)
theory Spec2Isabelle
  imports CW_Prelude CW_Errors PyValue Pointer Contracts FlowModel Topology Stores Registry Platform
    ToolModel ContextMerge ExecTypes StepExec FlowExec StepProps Sample RunRel RunProps Nesting StepLog
    Raises Drift Resume Compiler Redaction Analyzer McpSecurity McpServer Replay AsyncLane
    Float64 Observer PyText TraceStore Traces OfflineLLM Optimizer Contrib Attest Adapter Limiter Service Fuzz Fixture Serialization FileCache
begin

text \<open>
  ChainWeaver (\<open>src/chainweaver\<close>) executes deterministic flows of tools.  A flow is a list of
  steps, or a graph of them; a step names a tool or another flow, says where the tool's inputs come
  from and where its outputs go.  The executor keeps the accumulated context, validates what
  crosses a tool's boundary, gates tools by their safety contracts, retries, branches, caches,
  checkpoints, and writes an execution log.  Around it stand the registry of flows, a compiler that
  checks flows before they run, an analyzer that finds chains of compatible tools, the
  redaction of what is logged, and a server that exposes flows to MCP clients.  This is the root of
  its verification development: every definition is a translation of the code named here, and the
  theorems marked with an id of the form C1, C2, ... are the properties of the program.

  How the code is represented.  A Python \<open>dict\<close> is a list of pairs in insertion order with distinct
  keys (\<open>CW_Prelude\<close>: \<open>dict_ok\<close>, \<open>dict_set\<close>, \<open>dict_update\<close>, \<open>eqs_dict\<close> for the equality of
  Python).  A value that flows through a context is a \<open>val\<close> (\<open>PyValue\<close>): JSON without
  floating-point numbers, integers unbounded as in Python, with Python's equality, where
  \<open>True == 1\<close>.  A raised exception is a value of \<open>exn\<close> (\<open>CW_Errors\<close>) or of \<open>raised\<close>
  (\<open>ExecTypes\<close>), and a function that can raise returns a sum, the error on the left.  The mutable
  state of a run is the record \<open>xstate\<close> of \<open>ExecTypes\<close>: the world the tools act on, the step cache,
  the checkpointer, the clock, the local state of the run and the sequence of calls the executor
  makes to the outside.  It is passed explicitly, in the order of the code.

  What is a parameter.  Tools, callbacks, hooks, pydantic model classes, the import system, hash
  functions, the order in which Python iterates a set, PEP 440 parsing, timestamps and identifiers
  are arguments of the definitions; the record \<open>platform\<close> of \<open>Platform\<close> and the record of an
  executor collect them.  The hypotheses on them state documented behaviour: an injective hash on
  the texts that occur, \<open>tenacity\<close> for the loop of the retry library, a version order that is
  total.  Each has a concrete instance in a witness.

  The theories, in the order of the imports:

  \<^item> \<open>CW_Prelude\<close>, \<open>CW_Errors\<close>, \<open>PyValue\<close>: dictionaries, sequencing of fallible operations, the
    collections \<open>dict_simps\<close> and \<open>run_simps\<close>, the exceptions of \<open>exceptions.py\<close>, values.
  \<^item> \<open>Pointer\<close> (\<open>_pointer.py\<close>): RFC 6901 parsing and resolution against an inductive relation of
    descent.
  \<^item> \<open>Contracts\<close> (\<open>contracts.py\<close>): safety contracts, their restrictiveness order as instances of
    \<open>linorder\<close>, \<open>merge_safety\<close> as a least upper bound, the evaluator of branch predicates.
  \<^item> \<open>FlowModel\<close>, \<open>Topology\<close> (\<open>flow/\<close>): flows, steps and references with their validators; the
    topological sorter, \<open>validate_dag_topology\<close> and \<open>compute_dag_levels\<close>.
  \<^item> \<open>Stores\<close> (\<open>cache.py\<close>, \<open>checkpoint.py\<close>, \<open>storage.py\<close>): the locales \<open>step_cache\<close>,
    \<open>checkpointer\<close> and \<open>registry_store\<close>, interpreted on the stores of the code.
  \<^item> \<open>Registry\<close> (\<open>registry.py\<close>): registration, the latest-version invariant, look-up, loading and
    reloading of directories.
  \<^item> \<open>Platform\<close>, \<open>ToolModel\<close> (\<open>tools.py\<close>): tools, their checks, calls and streams, and flows
    wrapped as tools.
  \<^item> \<open>ContextMerge\<close> (\<open>_execution/context.py\<close>): projection of outputs and the collision policies.
  \<^item> \<open>ExecTypes\<close>, \<open>StepExec\<close>, \<open>FlowExec\<close> (\<open>executor.py\<close>): a step (\<open>_execute_step\<close> with input
    mapping, contracts, decision, gates, dry run, guardrail, cache, retries, fallbacks); linear and
    graph flows, sub-flows, cancellation, snapshots, \<open>execute_flow\<close>.  The hooks of \<open>middleware.py\<close>,
    \<open>approvals.py\<close>, \<open>decisions.py\<close>, \<open>cost.py\<close> and \<open>cancellation.py\<close> are called where the code calls
    them.
  \<^item> \<open>StepProps\<close>, \<open>Sample\<close>: what one step does to the state; a concrete executor on which the
    witnesses run.
  \<^item> \<open>RunRel\<close>, \<open>Raises\<close>: two locales that lift a relation on states, or a predicate on
    exceptions, from the primitive operations to whole runs.  They are interpreted in \<open>RunProps\<close>,
    \<open>Nesting\<close> and \<open>Resume\<close>.
  \<^item> \<open>RunProps\<close>, \<open>Nesting\<close>, \<open>StepLog\<close>: gates, dry runs, retries and the cache over whole runs;
    nested sub-flows end; what the execution log says.
  \<^item> \<open>Drift\<close>, \<open>Resume\<close>, \<open>Replay\<close> (\<open>executor.py\<close>): tool registration and drift reports;
    \<open>resume_flow\<close>; \<open>replay_flow\<close> and \<open>explain\<close>.
  \<^item> \<open>AsyncLane\<close> (\<open>executor.py\<close>): the asynchronous lane as one coroutine (level concurrency one),
    and where it agrees with the synchronous one.
  \<^item> \<open>Compiler\<close> (\<open>compiler.py\<close>, \<open>compat.py\<close>): the static checks, related to what a run does.
  \<^item> \<open>Redaction\<close> (\<open>log_utils.py\<close>, \<open>trace_redaction.py\<close>), \<open>Analyzer\<close> (\<open>analyzer.py\<close>),
    \<open>McpSecurity\<close> and \<open>McpServer\<close> (\<open>mcp/security.py\<close>, \<open>mcp/server.py\<close>): redaction, the chain
    search and the optimisation advice, the request gate with its rate limiter and audit trail, the
    exposure of flows.
  \<^item> \<open>Limiter\<close>: progress of the rate limiter, whoever else calls it.
  \<^item> \<open>Float64\<close>, \<open>PyText\<close>: Python's floats (the exact rational result rounded to 53 bits, ties to
    even, sums from the left), \<open>str.splitlines\<close> and \<open>repr\<close>.
  \<^item> \<open>Observer\<close> (\<open>observation.py\<close>, \<open>observer.py\<close>): the recorder's state and the miner of repeated
    sequences of tools.
  \<^item> \<open>TraceStore\<close> (\<open>trace_store.py\<close>): the locale \<open>trace_store\<close>, interpreted in memory and on a file.
  \<^item> \<open>Traces\<close> (\<open>traces.py\<close>): import of agent logs, scores, recommendations, drafts and backtests.
  \<^item> \<open>OfflineLLM\<close> (\<open>_offline_llm.py\<close>, \<open>proposals.py\<close>, \<open>compiler_llm.py\<close>): the tool catalogue, prompt
    budgets, repair and proposed flows; the language model is an argument.
  \<^item> \<open>Optimizer\<close> (\<open>routing.py\<close>, \<open>optimizer.py\<close>): routing cases, their evaluation and the rewrites.
  \<^item> \<open>Contrib\<close> (\<open>contrib/tools.py\<close>): the shipped tools, run by the modelled executor.
  \<^item> \<open>Attest\<close> (\<open>attest.py\<close>): repeated runs, fingerprints, report; the input generator, the host and
    the clock are arguments.
  \<^item> \<open>Adapter\<close> (\<open>mcp/adapter.py\<close>, \<open>mcp/_schema.py\<close>): discovery of third-party tools; the session,
    the regular expression, the JSON decoder and \<open>create_model\<close> are arguments.
  \<^item> \<open>Service\<close> (\<open>service.py\<close>): the operations, whose callbacks may call the service again, and the
    critical sections as a step relation that covers every interleaving.
  \<^item> \<open>Fuzz\<close> (\<open>fuzz.py\<close>): mutations, fault injection, the fuzzer and the minimiser; a random
    generator is the sequence of its draws.
  \<^item> \<open>Fixture\<close> (\<open>testing/replay.py\<close>): recording and replaying the calls of tools.
  \<^item> \<open>Serialization\<close> (\<open>serialization.py\<close>): the parse limits and reading and writing flow files;
    pydantic's dump and validation and the two parsers are arguments.
  \<^item> \<open>FileCache\<close> (\<open>cache.py\<close>): the step cache on disk, which refines the one in memory up to JSON.

  Bounds and fuel.  Sub-flows call the executor recursively, and Python bounds the depth only
  through \<open>max_composition_depth\<close>.  The model recurses on a natural number and raises
  \<open>ROutOfFuel\<close> when it is used up; \<open>execute_flow\<close> starts with \<open>max_composition_depth\<close>, and
  \<open>nesting_bound_suffices\<close> shows that the value is never reached for a flow the composition check
  accepts.  A resumed or replayed run starts one level below and gets one more.  The retry loop is
  bounded by the attempts of the policy.  All other recursions are structural or end by a measure;
  no definition is partial.

  Not modelled, and why.  Streaming steps and the entry points \<open>stream_flow\<close> and their records, as
  they are generators interleaved with their consumer; concurrency of the levels of a graph above
  one, and threads (\<open>watch\<close>, thread-pool time-outs are the outcome of a parameter), as the
  interleavings are those of the interpreter.  The texts of messages and logs, unless another part
  of the program reads them.  Pydantic's validation, the \<open>@tool\<close> decorator, the MCP library, the
  integrations with other packages, the command line, the exporters, the diagrams, the plugins and
  the remaining test helpers: they are input and output around third-party libraries.  The fluent
  builder only collects the arguments of the modelled constructors.
\<close>

end
